(* ===== verification/Prelude.thy ===== *)
theory Prelude
  imports Main "HOL-Library.Word" "HOL-Library.List_Lexorder" "HOL-Library.Char_ord"
begin

text \<open>
  Shared vocabulary of the development: bytes, the error values that stand for
  \<open>anyhow::Error\<close> and for Rust panics, sequencing of fallible computations, and generic
  lemmas on lists, maps and words that the components use.
\<close>

section \<open>Types\<close>

type_synonym byte = "8 word"
type_synonym bytes = "byte list"
type_synonym u32 = "32 word"
type_synonym u64 = "64 word"
type_synonym u128 = "128 word"
type_synonym did = string

text \<open>
  \<open>Anyhow m\<close> is an error the code returns as a value, with the constant part of its
  message; \<open>Panic m\<close> is a panic (failed assertion, index out of range, \<open>unreachable!\<close>,
  \<open>unwrap\<close> of nothing); \<open>OutOfFuel\<close> is not a behaviour of the code: it marks a
  recursion of the model that was given too few levels.
\<close>

datatype err = Anyhow string | Panic string | OutOfFuel

type_synonym 'a result = "err + 'a"

named_theorems res_simps \<open>unfolding of fallible computations\<close>

section \<open>Sequencing\<close>

text \<open>The \<open>?\<close> operator on a pure result, and on a computation that threads a state.\<close>

definition rbind :: "'a result \<Rightarrow> ('a \<Rightarrow> 'b result) \<Rightarrow> 'b result" where
  "rbind r f = (case r of Inl e \<Rightarrow> Inl e | Inr x \<Rightarrow> f x)"

definition sbind :: "('a result \<times> 's) \<Rightarrow> ('a \<Rightarrow> 's \<Rightarrow> 'b result \<times> 's) \<Rightarrow> 'b result \<times> 's" where
  "sbind rs f = (case rs of (Inl e, s) \<Rightarrow> (Inl e, s) | (Inr x, s) \<Rightarrow> f x s)"

definition of_option :: "err \<Rightarrow> 'a option \<Rightarrow> 'a result" where
  "of_option e x = (case x of None \<Rightarrow> Inl e | Some y \<Rightarrow> Inr y)"

lemma rbind_simps [simp, res_simps]:
  "rbind (Inl e) f = Inl e"
  "rbind (Inr x) f = f x"
  by (simp_all add: rbind_def)

lemma rbind_eq_Inr [simp]: "rbind r f = Inr y \<longleftrightarrow> (\<exists>x. r = Inr x \<and> f x = Inr y)"
  by (cases r) (simp_all add: rbind_def)

lemma rbind_assoc: "rbind (rbind r f) g = rbind r (\<lambda>x. rbind (f x) g)"
  by (cases r) simp_all

lemma sbind_simps [simp, res_simps]:
  "sbind (Inl e, s) f = (Inl e, s)"
  "sbind (Inr x, s) f = f x s"
  by (simp_all add: sbind_def)

lemma sbind_eq_Inr:
  "sbind rs f = (Inr y, t) \<longleftrightarrow> (\<exists>x s. rs = (Inr x, s) \<and> f x s = (Inr y, t))"
  by (cases rs; cases "fst rs") (auto simp: sbind_def split: prod.splits sum.splits)

lemma sbind_assoc: "sbind (sbind r f) g = sbind r (\<lambda>x s. sbind (f x s) g)"
  by (cases r; cases "fst r") (simp_all add: sbind_def)

lemma of_option_simps [simp, res_simps]:
  "of_option e None = Inl e"
  "of_option e (Some x) = Inr x"
  by (simp_all add: of_option_def)

lemma of_option_eq_Inr [simp]: "of_option e x = Inr y \<longleftrightarrow> x = Some y"
  by (cases x) simp_all

text \<open>Checked indexing: \<open>xs[i]\<close> panics outside the range.\<close>

definition index :: "'a list \<Rightarrow> nat \<Rightarrow> 'a result" where
  "index xs i = (if i < length xs then Inr (xs ! i) else Inl (Panic ''index out of bounds''))"

lemma index_in_range [simp]: "i < length xs \<Longrightarrow> index xs i = Inr (xs ! i)"
  by (simp add: index_def)

text \<open>Running a fallible function over a list, stopping at the first error.\<close>

fun traverse :: "('a \<Rightarrow> 'b option) \<Rightarrow> 'a list \<Rightarrow> 'b list option" where
  "traverse f [] = Some []"
| "traverse f (x # xs) =
     (case f x of None \<Rightarrow> None
      | Some y \<Rightarrow> (case traverse f xs of None \<Rightarrow> None | Some ys \<Rightarrow> Some (y # ys)))"

lemma traverse_map: "(\<And>x. x \<in> set xs \<Longrightarrow> f (g x) = Some (h x)) \<Longrightarrow> traverse f (map g xs) = Some (map h xs)"
  by (induction xs) auto

lemma traverse_map_id: "(\<And>x. x \<in> set xs \<Longrightarrow> f (g x) = Some x) \<Longrightarrow> traverse f (map g xs) = Some xs"
  by (induction xs) auto

lemma traverse_length: "traverse f xs = Some ys \<Longrightarrow> length ys = length xs"
  by (induction xs arbitrary: ys) (auto split: option.splits)

lemma traverse_nth: "traverse f xs = Some ys \<Longrightarrow> i < length xs \<Longrightarrow> f (xs ! i) = Some (ys ! i)"
  by (induction xs arbitrary: ys i) (auto split: option.splits simp: nth_Cons split: nat.splits)

section \<open>Loops that may fail\<close>

text \<open>A loop that collects the results of a fallible step; an error ends it.\<close>

fun rtraverse :: "('a \<Rightarrow> 'b result) \<Rightarrow> 'a list \<Rightarrow> 'b list result" where
  "rtraverse f [] = Inr []"
| "rtraverse f (x # xs) = rbind (f x) (\<lambda>y. rbind (rtraverse f xs) (\<lambda>ys. Inr (y # ys)))"

lemma rtraverse_cong [fundef_cong]:
  "xs = ys \<Longrightarrow> (\<And>x. x \<in> set ys \<Longrightarrow> f x = g x) \<Longrightarrow> rtraverse f xs = rtraverse g ys"
  by (induction xs arbitrary: ys) auto

lemma rtraverse_eq_Inr: "rtraverse f xs = Inr ys \<longleftrightarrow> list_all2 (\<lambda>x y. f x = Inr y) xs ys"
  by (induction xs arbitrary: ys) (auto simp: list_all2_Cons1)

section \<open>Strings\<close>

text \<open>
  A Rust string is modelled by its UTF-8 bytes, one \<open>char\<close> each: \<open>as_bytes\<close>, its inverse,
  the validity check of \<open>from_utf8\<close>, \<open>split\<close> on a character and \<open>starts_with\<close>.
\<close>

definition str_bytes :: "string \<Rightarrow> bytes" where
  "str_bytes s = map of_char s"

definition bytes_str :: "bytes \<Rightarrow> string" where
  "bytes_str bs = map (\<lambda>b. char_of (unat b)) bs"

definition continuation :: "byte \<Rightarrow> bool" where
  "continuation b \<longleftrightarrow> 0x80 \<le> b \<and> b \<le> 0xBF"

fun utf8_ok :: "bytes \<Rightarrow> bool" where
  "utf8_ok [] = True"
| "utf8_ok (a # r) =
     (if a < 0x80 then utf8_ok r
      else if 0xC2 \<le> a \<and> a \<le> 0xDF then (case r of b # r' \<Rightarrow> continuation b \<and> utf8_ok r' | _ \<Rightarrow> False)
      else if 0xE0 \<le> a \<and> a \<le> 0xEF then
        (case r of
           b # c # r' \<Rightarrow>
             (if a = 0xE0 then 0xA0 \<le> b \<and> b \<le> 0xBF
              else if a = 0xED then 0x80 \<le> b \<and> b \<le> 0x9F else continuation b) \<and>
             continuation c \<and> utf8_ok r'
         | _ \<Rightarrow> False)
      else if 0xF0 \<le> a \<and> a \<le> 0xF4 then
        (case r of
           b # c # d # r' \<Rightarrow>
             (if a = 0xF0 then 0x90 \<le> b \<and> b \<le> 0xBF
              else if a = 0xF4 then 0x80 \<le> b \<and> b \<le> 0x8F else continuation b) \<and>
             continuation c \<and> continuation d \<and> utf8_ok r'
         | _ \<Rightarrow> False)
      else False)"

definition from_utf8 :: "bytes \<Rightarrow> string result" where
  "from_utf8 bs = (if utf8_ok bs then Inr (bytes_str bs) else Inl (Anyhow ''invalid utf-8 sequence''))"

fun split_on :: "char \<Rightarrow> string \<Rightarrow> string list" where
  "split_on d [] = [[]]"
| "split_on d (c # cs) =
     (if c = d then [] # split_on d cs
      else (case split_on d cs of w # ws \<Rightarrow> (c # w) # ws | [] \<Rightarrow> [[c]]))"

definition strip_prefix :: "string \<Rightarrow> string \<Rightarrow> string option" where
  "strip_prefix p s = (if take (length p) s = p then Some (drop (length p) s) else None)"

lemma unat_of_char: "unat (of_char c :: byte) = of_char c"
proof -
  have "unat (of_nat (of_char c) :: byte) = take_bit 8 (of_char c)" by (simp add: unsigned_of_nat)
  also have "\<dots> = of_char c" using nat_of_char_less_256 [of c] by (intro take_bit_nat_eq_self) simp
  finally show ?thesis by (simp only: of_nat_of_char)
qed

lemma bytes_str_inverse [simp]: "bytes_str (str_bytes s) = s"
  by (induction s) (simp_all add: bytes_str_def str_bytes_def unat_of_char)

lemma str_bytes_inj: "str_bytes a = str_bytes b \<Longrightarrow> a = b"
  by (metis bytes_str_inverse)

lemma str_bytes_append: "str_bytes (a @ b) = str_bytes a @ str_bytes b"
  by (simp add: str_bytes_def)

text \<open>ASCII text is valid UTF-8.\<close>

lemma utf8_ok_ascii: "\<forall>c \<in> set s. (of_char c :: nat) < 128 \<Longrightarrow> utf8_ok (str_bytes s)"
proof (induction s)
  case (Cons c s)
  have "(of_char c :: byte) < 0x80"
    using Cons.prems by (simp add: word_less_nat_alt unat_of_char)
  with Cons show ?case by (simp add: str_bytes_def)
qed (simp add: str_bytes_def)

lemma split_on_nonempty: "split_on d s \<noteq> []"
  by (induction s) (auto split: list.splits)

lemma split_on_free: "d \<notin> set s \<Longrightarrow> split_on d s = [s]"
  by (induction s) auto

lemma split_on_append: "d \<notin> set a \<Longrightarrow> split_on d (a @ d # b) = a # split_on d b"
  by (induction a) auto

lemma strip_prefix_append [simp]: "strip_prefix p (p @ s) = Some s"
  by (simp add: strip_prefix_def)

section \<open>Maps\<close>

lemma map_le_upd_new: "s c = None \<or> s c = Some b \<Longrightarrow> s \<subseteq>\<^sub>m s(c \<mapsto> b)"
  by (auto simp: map_le_def)

lemma map_leD: "s \<subseteq>\<^sub>m s' \<Longrightarrow> s c = Some b \<Longrightarrow> s' c = Some b"
  by (metis domI map_le_def)

lemma map_of_eq_Some: "distinct (map fst kvs) \<Longrightarrow> map_of kvs k = Some v \<longleftrightarrow> (k, v) \<in> set kvs"
  by simp

lemma card_dom_map_of: "distinct (map fst kvs) \<Longrightarrow> card (dom (map_of kvs)) = length kvs"
  by (simp add: dom_map_of_conv_image_fst distinct_card flip: set_map)

section \<open>Ordered maps\<close>

text \<open>A \<open>BTreeMap\<close> is the list of its entries with strictly increasing keys.\<close>

definition btree :: "('k::linorder \<times> 'v) list \<Rightarrow> bool" where
  "btree m \<longleftrightarrow> sorted_wrt (<) (map fst m)"

fun btree_put :: "'k::linorder \<Rightarrow> 'v \<Rightarrow> ('k \<times> 'v) list \<Rightarrow> ('k \<times> 'v) list" where
  "btree_put k v [] = [(k, v)]"
| "btree_put k v ((k', v') # m) =
     (if k < k' then (k, v) # (k', v') # m
      else if k = k' then (k, v) # m
      else (k', v') # btree_put k v m)"

lemma btree_simps [simp]:
  "btree []"
  "btree ((k, v) # m) \<longleftrightarrow> (\<forall>k' \<in> fst ` set m. k < k') \<and> btree m"
  by (auto simp: btree_def)

lemma keys_btree_put: "fst ` set (btree_put k v m) = insert k (fst ` set m)"
  by (induction k v m rule: btree_put.induct) auto

lemma btree_btree_put: "btree m \<Longrightarrow> btree (btree_put k v m)"
  by (induction k v m rule: btree_put.induct) (auto simp: keys_btree_put)

lemma map_of_less: "\<forall>k' \<in> fst ` set m. k < k' \<Longrightarrow> map_of m k = None" for k :: "'k::linorder"
  by (metis map_of_eq_None_iff order_less_irrefl)

lemma map_of_btree_put: "btree m \<Longrightarrow> map_of (btree_put k v m) = (map_of m)(k \<mapsto> v)"
  by (induction k v m rule: btree_put.induct) (auto simp: fun_eq_iff)

lemma btree_distinct: "btree m \<Longrightarrow> distinct (map fst m)"
  by (simp add: btree_def strict_sorted_iff)

end
