(* ===== verification/Bitfield.thy ===== *)
theory Bitfield
  imports Prelude
begin

text \<open>
  The 256-bit set of child positions of a HAMT node
  (\<^verbatim>\<open>noosphere-collections/src/hamt/bitfield.rs\<close>): four 64-bit words, the bit
  operations on them, and the trimmed big-endian byte form in which the set is stored.
  The set of positions is the abstract view; every operation is shown to be the
  corresponding set operation, and the byte form to round-trip.
\<close>

unbundle bit_operations_syntax

section \<open>Operations\<close>

datatype bitfield = Bitfield (w0: u64) (w1: u64) (w2: u64) (w3: u64)

text \<open>\<open>self.0[i]\<close>: the array has four elements, any other index panics.\<close>

fun word_at :: "bitfield \<Rightarrow> nat \<Rightarrow> u64 result" where
  "word_at (Bitfield a b c d) i =
     (if i = 0 then Inr a else if i = 1 then Inr b else if i = 2 then Inr c
      else if i = 3 then Inr d else Inl (Panic ''index out of bounds''))"

fun set_word :: "bitfield \<Rightarrow> nat \<Rightarrow> u64 \<Rightarrow> bitfield" where
  "set_word (Bitfield a b c d) i w =
     (if i = 0 then Bitfield w b c d else if i = 1 then Bitfield a w c d
      else if i = 2 then Bitfield a b w d else Bitfield a b c w)"

definition zero :: bitfield where
  "zero = Bitfield 0 0 0 0"

definition clear_bit :: "bitfield \<Rightarrow> nat \<Rightarrow> bitfield result" where
  "clear_bit bf idx =
     (let ai = idx div 64; bi = idx mod 64
      in rbind (word_at bf ai) (\<lambda>w. Inr (set_word bf ai (w AND (- 1 - push_bit bi 1)))))"

definition test_bit :: "bitfield \<Rightarrow> nat \<Rightarrow> bool result" where
  "test_bit bf idx =
     (let ai = idx div 64; bi = idx mod 64
      in rbind (word_at bf ai) (\<lambda>w. Inr (w AND push_bit bi 1 \<noteq> 0)))"

definition set_bit :: "bitfield \<Rightarrow> nat \<Rightarrow> bitfield result" where
  "set_bit bf idx =
     (let ai = idx div 64; bi = idx mod 64
      in rbind (word_at bf ai) (\<lambda>w. Inr (set_word bf ai (w OR push_bit bi 1))))"

text \<open>\<open>u64::count_ones\<close> and its sum over the four words.\<close>

definition word_count_ones :: "u64 \<Rightarrow> nat" where
  "word_count_ones w = length (filter (bit w) [0..<64])"

definition count_ones :: "bitfield \<Rightarrow> nat" where
  "count_ones bf = sum_list (map word_count_ones [w0 bf, w1 bf, w2 bf, w3 bf])"

definition and_bits :: "bitfield \<Rightarrow> bitfield \<Rightarrow> bitfield" where
  "and_bits a b = Bitfield (w0 a AND w0 b) (w1 a AND w1 b) (w2 a AND w2 b) (w3 a AND w3 b)"

text \<open>The free function \<open>set_bits_leq(v: u64, bit: u32)\<close>, computed in 128 bits.\<close>

definition word_set_bits_leq :: "u64 \<Rightarrow> nat \<Rightarrow> u64" where
  "word_set_bits_leq v b = ucast ((ucast v :: u128) OR (push_bit (1 + b) 1 - 1))"

definition set_bits_leq :: "bitfield \<Rightarrow> nat \<Rightarrow> bitfield" where
  "set_bits_leq bf b =
     (if b < 64 then Bitfield (word_set_bits_leq (w0 bf) b) (w1 bf) (w2 bf) (w3 bf)
      else if b < 128 then Bitfield (- 1) (word_set_bits_leq (w1 bf) (b - 64)) (w2 bf) (w3 bf)
      else if b < 192 then Bitfield (- 1) (- 1) (word_set_bits_leq (w2 bf) (b - 128)) (w3 bf)
      else Bitfield (- 1) (- 1) (- 1) (word_set_bits_leq (w3 bf) (b - 192)))"

definition set_bits_le :: "bitfield \<Rightarrow> nat \<Rightarrow> bitfield" where
  "set_bits_le bf b = (if b = 0 then bf else set_bits_leq bf (b - 1))"

text \<open>\<open>BigEndian::write_u64\<close> and \<open>read_u64\<close>: most significant byte first.\<close>

definition write_u64 :: "u64 \<Rightarrow> bytes" where
  "write_u64 w = map (\<lambda>i. ucast (drop_bit (56 - 8 * i) w)) [0..<8]"

definition read_u64 :: "bytes \<Rightarrow> u64" where
  "read_u64 bs = foldl (\<lambda>acc b. push_bit 8 acc OR ucast b) 0 bs"

text \<open>
  \<open>Serialize\<close> trims leading zero bytes; \<open>Deserialize\<close> right-aligns what it is given
  in a 32-byte array. \<open>32 - len\<close> underflows for longer input: a panic, not an error.
\<close>

definition serialize :: "bitfield \<Rightarrow> bytes" where
  "serialize bf =
     dropWhile (\<lambda>b. b = 0) (write_u64 (w3 bf) @ write_u64 (w2 bf) @ write_u64 (w1 bf) @ write_u64 (w0 bf))"

definition deserialize :: "bytes \<Rightarrow> bitfield result" where
  "deserialize bs =
     (if length bs > 32 then Inl (Panic ''attempt to subtract with overflow'')
      else let arr = replicate (32 - length bs) 0 @ bs
           in Inr (Bitfield (read_u64 (take 8 (drop 24 arr))) (read_u64 (take 8 (drop 16 arr)))
                    (read_u64 (take 8 (drop 8 arr))) (read_u64 (take 8 arr))))"

section \<open>The set of positions\<close>

definition pos_bit :: "bitfield \<Rightarrow> nat \<Rightarrow> bool" where
  "pos_bit bf i =
     (if i < 64 then bit (w0 bf) i else if i < 128 then bit (w1 bf) (i - 64)
      else if i < 192 then bit (w2 bf) (i - 128) else i < 256 \<and> bit (w3 bf) (i - 192))"

definition positions :: "bitfield \<Rightarrow> nat set" where
  "positions bf = {i. pos_bit bf i}"

lemma pos_bit_less: "pos_bit bf i \<Longrightarrow> i < 256"
  by (auto simp: pos_bit_def split: if_splits)

lemma positions_less: "i \<in> positions bf \<Longrightarrow> i < 256"
  by (simp add: positions_def pos_bit_less)

lemma finite_positions [simp, intro]: "finite (positions bf)"
  by (rule finite_subset [of _ "{..<256}"]) (auto dest: positions_less)

lemma bitfield_eqI:
  assumes "\<And>i. i < 256 \<Longrightarrow> pos_bit a i = pos_bit b i"
  shows "a = b"
proof -
  have "bit (w0 a) i = bit (w0 b) i" if "i < 64" for i
    using assms [of i] that by (simp add: pos_bit_def)
  moreover have "bit (w1 a) i = bit (w1 b) i" if "i < 64" for i
    using assms [of "64 + i"] that by (simp add: pos_bit_def)
  moreover have "bit (w2 a) i = bit (w2 b) i" if "i < 64" for i
    using assms [of "128 + i"] that by (simp add: pos_bit_def)
  moreover have "bit (w3 a) i = bit (w3 b) i" if "i < 64" for i
    using assms [of "192 + i"] that by (simp add: pos_bit_def)
  ultimately have "w0 a = w0 b" "w1 a = w1 b" "w2 a = w2 b" "w3 a = w3 b"
    by (auto intro!: bit_word_eqI)
  then show ?thesis by (cases a; cases b) simp
qed

lemma positions_inject: "positions a = positions b \<longleftrightarrow> a = b"
  by (auto simp: positions_def set_eq_iff intro!: bitfield_eqI)

lemma positions_zero [simp]: "positions zero = {}"
  by (simp add: positions_def pos_bit_def zero_def)

lemma word_split:
  fixes i :: nat
  assumes "i < 256"
  obtains "i < 64" "i div 64 = 0" "i mod 64 = i"
  | "64 \<le> i" "i < 128" "i div 64 = 1" "i mod 64 = i - 64"
  | "128 \<le> i" "i < 192" "i div 64 = 2" "i mod 64 = i - 128"
  | "192 \<le> i" "i < 256" "i div 64 = 3" "i mod 64 = i - 192"
proof -
  consider "i < 64" | "64 \<le> i" "i < 128" | "128 \<le> i" "i < 192" | "192 \<le> i"
    using assms by linarith
  then show thesis
  proof cases
    case 1
    then show thesis by (intro that(1)) simp_all
  next
    case 2
    then have "i div 64 = 1" by (intro div_nat_eqI) simp_all
    with 2 show thesis by (intro that(2)) (simp_all flip: minus_mult_div_eq_mod)
  next
    case 3
    then have "i div 64 = 2" by (intro div_nat_eqI) simp_all
    with 3 show thesis by (intro that(3)) (simp_all flip: minus_mult_div_eq_mod)
  next
    case 4
    with assms have "i div 64 = 3" by (intro div_nat_eqI) simp_all
    with 4 assms show thesis by (intro that(4)) (simp_all flip: minus_mult_div_eq_mod)
  qed
qed

lemma test_bit_eq [simp]: "i < 256 \<Longrightarrow> test_bit bf i = Inr (i \<in> positions bf)"
  by (erule word_split; cases bf)
    (simp_all add: test_bit_def positions_def pos_bit_def bit_iff_and_push_bit_not_eq_0)

lemma word_set_bit_bit: "bit (w OR push_bit j 1) i = (bit w i \<or> i = j \<and> j < 64)" for w :: u64
  by (auto simp: bit_or_iff bit_push_bit_iff bit_1_iff simp del: push_bit_of_1 dest: bit_imp_le_length)

lemma word_clear_bit_bit: "bit (w AND (- 1 - push_bit j 1)) i = (bit w i \<and> i \<noteq> j)" for w :: u64
proof -
  have "- 1 - push_bit j 1 = NOT (push_bit j 1 :: u64)"
    by (simp add: not_eq_complement)
  then show ?thesis
    by (auto simp: bit_and_iff bit_not_iff bit_push_bit_iff bit_1_iff simp del: push_bit_of_1
        dest: bit_imp_le_length)
qed

lemma set_bit_positions:
  assumes "i < 256"
  obtains bf' where "set_bit bf i = Inr bf'" "positions bf' = insert i (positions bf)"
proof -
  have "\<exists>bf'. set_bit bf i = Inr bf' \<and> (\<forall>j. pos_bit bf' j = (j = i \<or> pos_bit bf j))"
    using assms
    by (rule word_split; cases bf)
      (auto simp: set_bit_def pos_bit_def word_set_bit_bit simp del: push_bit_of_1)
  then show thesis using that by (auto simp: positions_def)
qed

lemma clear_bit_positions:
  assumes "i < 256"
  obtains bf' where "clear_bit bf i = Inr bf'" "positions bf' = positions bf - {i}"
proof -
  have "\<exists>bf'. clear_bit bf i = Inr bf' \<and> (\<forall>j. pos_bit bf' j = (j \<noteq> i \<and> pos_bit bf j))"
    using assms
    by (rule word_split; cases bf)
      (auto simp: clear_bit_def pos_bit_def word_clear_bit_bit simp del: push_bit_of_1)
  then show thesis using that by (auto simp: positions_def)
qed

lemma positions_and [simp]: "positions (and_bits a b) = positions a \<inter> positions b"
  by (auto simp: positions_def pos_bit_def and_bits_def bit_and_iff)

lemma word_set_bits_leq_bit:
  assumes "j < 64"
  shows "bit (word_set_bits_leq v j) i = (bit v i \<or> i \<le> j)"
proof -
  have "(push_bit (1 + j) 1 - 1 :: u128) = mask (1 + j)"
    by (simp add: mask_eq_exp_minus_1)
  then show ?thesis
    using assms
    by (auto simp: word_set_bits_leq_def bit_ucast_iff bit_or_iff bit_mask_iff dest: bit_imp_le_length
        simp del: push_bit_of_1)
qed

lemma positions_set_bits_leq:
  assumes "b < 256"
  shows "positions (set_bits_leq bf b) = positions bf \<union> {..b}"
  using assms
  by (rule word_split)
    (auto simp: positions_def pos_bit_def set_bits_leq_def word_set_bits_leq_bit)

lemma positions_set_bits_le:
  assumes "b \<le> 256"
  shows "positions (set_bits_le zero b) = {..<b}"
  using assms by (auto simp: set_bits_le_def positions_set_bits_leq)

lemma word_count_ones_card: "word_count_ones w = card {i. i < 64 \<and> bit w i}"
proof -
  have "word_count_ones w = card (set (filter (bit w) [0..<64]))"
    by (simp add: word_count_ones_def distinct_card [OF distinct_filter] del: set_filter)
  also have "set (filter (bit w) [0..<64]) = {i. i < 64 \<and> bit w i}" by auto
  finally show ?thesis .
qed

lemma count_ones_card: "count_ones bf = card (positions bf)"
proof -
  define P where "P k w = (\<lambda>i. k + i) ` {i. i < 64 \<and> bit w i}" for k :: nat and w :: u64
  have fin: "finite (P k w)" for k w by (simp add: P_def)
  have card: "card (P k w) = word_count_ones w" for k w
    by (simp add: P_def card_image word_count_ones_card)
  have mem: "i \<in> P k w \<longleftrightarrow> k \<le> i \<and> i < k + 64 \<and> bit w (i - k)" for i k w
    by (auto simp: P_def intro!: image_eqI [of _ _ "i - k"])
  have "positions bf = P 0 (w0 bf) \<union> (P 64 (w1 bf) \<union> (P 128 (w2 bf) \<union> P 192 (w3 bf)))"
    by (auto simp: positions_def pos_bit_def mem split: if_splits)
  moreover have "P 128 a \<inter> P 192 b = {}" "P 64 a \<inter> (P 128 b \<union> P 192 c) = {}"
    "P 0 a \<inter> (P 64 b \<union> (P 128 c \<union> P 192 d)) = {}" for a b c d
    by (auto simp: mem)
  ultimately show ?thesis
    by (simp add: count_ones_def card card_Un_disjoint fin)
qed

section \<open>Ranks\<close>

text \<open>The rank of a position: how many set positions come before it.\<close>

definition rank :: "nat set \<Rightarrow> nat \<Rightarrow> nat" where
  "rank S i = card (S \<inter> {..<i})"

lemma count_ones_below:
  "b \<le> 256 \<Longrightarrow> count_ones (and_bits (set_bits_le zero b) bf) = rank (positions bf) b"
  by (simp add: count_ones_card positions_set_bits_le rank_def Int_commute)

lemma rank_less_card: "finite S \<Longrightarrow> i \<in> S \<Longrightarrow> rank S i < card S"
  unfolding rank_def by (intro psubset_card_mono) auto

lemma rank_le_card: "finite S \<Longrightarrow> rank S i \<le> card S"
  unfolding rank_def by (intro card_mono) auto

lemma rank_mono_strict: "finite S \<Longrightarrow> i \<in> S \<Longrightarrow> i < j \<Longrightarrow> rank S i < rank S j"
  unfolding rank_def by (intro psubset_card_mono) auto

lemma rank_inj: "finite S \<Longrightarrow> i \<in> S \<Longrightarrow> j \<in> S \<Longrightarrow> rank S i = rank S j \<longleftrightarrow> i = j"
  using rank_mono_strict [of S i j] rank_mono_strict [of S j i] by (metis less_irrefl linorder_neqE_nat)

lemma rank_insert:
  "finite S \<Longrightarrow> i \<notin> S \<Longrightarrow> rank (insert i S) j = (if i < j then Suc (rank S j) else rank S j)"
  by (simp add: rank_def Int_insert_left)

lemma rank_remove:
  assumes "finite S" "i \<in> S"
  shows "rank (S - {i}) j = (if i < j then rank S j - 1 else rank S j)"
proof -
  have "S = insert i (S - {i})" using assms by auto
  then have "rank S j = (if i < j then Suc (rank (S - {i}) j) else rank (S - {i}) j)"
    using rank_insert [of "S - {i}" i j] assms by simp
  then show ?thesis by simp
qed

lemma rank_less_iff: "finite S \<Longrightarrow> i \<in> S \<Longrightarrow> j \<in> S \<Longrightarrow> rank S i < rank S j \<longleftrightarrow> i < j"
  using rank_mono_strict by (metis less_asym linorder_neqE_nat rank_inj)

lemma rank_image:
  assumes "finite S"
  shows "rank S ` S = {..<card S}"
proof -
  have "inj_on (rank S) S" using assms by (auto simp: inj_on_def rank_inj)
  then have "card (rank S ` S) = card S" by (rule card_image)
  moreover have "rank S ` S \<subseteq> {..<card S}" using assms by (auto simp: rank_less_card)
  ultimately show ?thesis by (intro card_subset_eq) auto
qed

section \<open>Byte form\<close>

lemma length_write_u64 [simp]: "length (write_u64 w) = 8"
  by (simp add: write_u64_def)

lemma read_step:
  "push_bit 8 (drop_bit (m + 8) w) OR ucast (ucast (drop_bit m w) :: byte) = drop_bit m w" for w :: u64
  by (rule bit_word_eqI)
    (auto simp: bit_or_iff bit_push_bit_iff bit_ucast_iff bit_drop_bit_eq add.assoc dest: bit_imp_le_length)

lemma read_prefix:
  "k \<le> 8 \<Longrightarrow> read_u64 (map (\<lambda>i. ucast (drop_bit (56 - 8 * i) w)) [0..<k]) = drop_bit (64 - 8 * k) w"
proof (induction k)
  case 0
  show ?case by (auto simp: read_u64_def bit_drop_bit_eq intro!: bit_word_eqI dest: bit_imp_le_length)
next
  case (Suc k)
  define m where "m = 56 - 8 * k"
  have m: "64 - 8 * k = m + 8" "64 - 8 * Suc k = m" using Suc.prems by (simp_all add: m_def)
  have "read_u64 (map (\<lambda>i. ucast (drop_bit (56 - 8 * i) w)) [0..<Suc k]) =
      push_bit 8 (read_u64 (map (\<lambda>i. ucast (drop_bit (56 - 8 * i) w)) [0..<k])) OR
      ucast (ucast (drop_bit m w) :: byte)"
    by (simp add: read_u64_def m_def)
  also have "read_u64 (map (\<lambda>i. ucast (drop_bit (56 - 8 * i) w)) [0..<k]) = drop_bit (m + 8) w"
    using Suc m(1) by (metis Suc_leD)
  finally show ?case unfolding m(2) by (simp only: read_step)
qed

lemma read_write_u64 [simp]: "read_u64 (write_u64 w) = w"
  using read_prefix [of 8 w] by (simp add: write_u64_def)

lemma dropWhile_replicate:
  "replicate (length xs - length (dropWhile (\<lambda>x. x = z) xs)) z @ dropWhile (\<lambda>x. x = z) xs = xs"
proof (induction xs)
  case (Cons x xs)
  have "length (dropWhile (\<lambda>x. x = z) xs) \<le> length xs" by (rule length_dropWhile_le)
  with Cons show ?case by (auto simp: Suc_diff_le)
qed simp

lemma serialize_length: "length (serialize bf) \<le> 32"
  unfolding serialize_def by (rule order_trans [OF length_dropWhile_le]) simp

lemma serialize_padded:
  "replicate (32 - length (serialize bf)) 0 @ serialize bf =
     write_u64 (w3 bf) @ write_u64 (w2 bf) @ write_u64 (w1 bf) @ write_u64 (w0 bf)"
  unfolding serialize_def
  using dropWhile_replicate [of "write_u64 (w3 bf) @ write_u64 (w2 bf) @ write_u64 (w1 bf) @ write_u64 (w0 bf)" 0] by simp

lemma deserialize_serialize_eq: "deserialize (serialize bf) = Inr bf"
  using serialize_length [of bf] by (simp add: deserialize_def serialize_padded)

end
