(* ===== verification/Hash_Bits.thy ===== *)
theory Hash_Bits
  imports Bitfield
begin

text \<open>
  The bit cursor over a hashed key (\<^verbatim>\<open>noosphere-collections/src/hamt/hash_bits.rs\<close>), from
  which a HAMT takes \<open>bit_width\<close> bits per level. The cursor is shown to return the bits of
  the hash in order, most significant first, and to fail exactly past the end.
\<close>

section \<open>The cursor\<close>

record hash_bits =
  hb_b :: bytes
  consumed :: nat

definition mkmask :: "nat \<Rightarrow> u32" where
  "mkmask n = ucast ((push_bit n 1 :: u64) - 1)"

definition new_at_index :: "bytes \<Rightarrow> nat \<Rightarrow> hash_bits" where
  "new_at_index hash_buffer n = \<lparr>hb_b = hash_buffer, consumed = n\<rparr>"

definition new :: "bytes \<Rightarrow> hash_bits" where
  "new hash_buffer = new_at_index hash_buffer 0"

function next_bits :: "hash_bits \<Rightarrow> nat \<Rightarrow> (u32 \<times> hash_bits) result" where
  "next_bits h i =
     (let curbi = consumed h div 8;
          leftb = 8 - consumed h mod 8
      in rbind (index (hb_b h) curbi) (\<lambda>byte.
        let curb = ucast byte :: u32 in
        if i = leftb then
          Inr (mkmask i AND curb, h\<lparr>consumed := consumed h + i\<rparr>)
        else if i < leftb then
          let a = curb AND mkmask leftb;
              b = a AND NOT (mkmask (leftb - i));
              c = drop_bit (leftb - i) b
          in Inr (c, h\<lparr>consumed := consumed h + i\<rparr>)
        else
          let out = push_bit (i - leftb) (ucast (mkmask leftb AND curb) :: u64)
          in rbind (next_bits (h\<lparr>consumed := consumed h + leftb\<rparr>) (i - leftb)) (\<lambda>(r, h').
               Inr (ucast (out + ucast r), h'))))"
  by pat_completeness auto
termination
  by (relation "measure (\<lambda>(h, i). i)") auto

declare next_bits.simps [simp del]

definition next_idx :: "hash_bits \<Rightarrow> nat \<Rightarrow> (u32 \<times> hash_bits) result" where
  "next_idx h i =
     (if i > 8 then Inl (Anyhow ''HashBits does not support retrieving more than 8 bits'')
      else if consumed h + i > length (hb_b h) * 8 then Inl (Anyhow ''Maximum depth reached'')
      else next_bits h i)"

section \<open>Reference reading\<close>

text \<open>Bit \<open>p\<close> of a byte string, counted from the most significant bit of its first byte, and
  the number that bits \<open>c, \<dots>, c + i - 1\<close> spell.\<close>

definition msb_bit :: "bytes \<Rightarrow> nat \<Rightarrow> bool" where
  "msb_bit bs p = bit (bs ! (p div 8)) (7 - p mod 8)"

definition spell :: "(nat \<Rightarrow> bool) \<Rightarrow> nat list \<Rightarrow> nat" where
  "spell f ps = foldl (\<lambda>n p. 2 * n + of_bool (f p)) 0 ps"

definition bits_from :: "bytes \<Rightarrow> nat \<Rightarrow> nat \<Rightarrow> nat" where
  "bits_from bs c i = spell (msb_bit bs) [c..<c + i]"

lemma spell_Nil [simp]: "spell f [] = 0"
  by (simp add: spell_def)

lemma spell_snoc [simp]: "spell f (ps @ [p]) = 2 * spell f ps + of_bool (f p)"
  by (simp add: spell_def)

lemma spell_append: "spell f (ps @ qs) = spell f ps * 2 ^ length qs + spell f qs"
proof (induction qs rule: rev_induct)
  case (snoc q qs)
  then show ?case by (simp del: append_assoc add: append_assoc [symmetric] algebra_simps)
qed simp

lemma spell_less: "spell f ps < 2 ^ length ps"
  by (induction ps rule: rev_induct) (auto simp: of_bool_def)

lemma spell_cong: "(\<And>p. p \<in> set ps \<Longrightarrow> f p = g p) \<Longrightarrow> spell f ps = spell g ps"
  by (induction ps rule: rev_induct) auto

lemma bits_from_less: "bits_from bs c i < 2 ^ i"
  using spell_less [of "msb_bit bs" "[c..<c + i]"] by (simp add: bits_from_def)

text \<open>Within one byte the reading is a mask and a shift.\<close>

lemma div_bit_step: "(n div 2 ^ Suc m) * 2 + of_bool (bit n m) = n div 2 ^ m" for n :: nat
proof -
  have "n div 2 ^ Suc m = n div 2 ^ m div 2"
    by (metis div_mult2_eq power_Suc mult.commute)
  then show ?thesis by (auto simp: bit_iff_odd of_bool_def elim: oddE)
qed

lemma spell_byte:
  fixes x :: byte
  assumes "j + i \<le> 8"
  shows "spell (\<lambda>p. bit x (7 - p)) [j..<j + i] = unat x mod 2 ^ (8 - j) div 2 ^ (8 - j - i)"
  using assms
proof (induction i)
  case 0
  then show ?case by simp
next
  case (Suc i)
  define m where "m = 8 - j - Suc i"
  have m: "8 - j - i = Suc m" "7 - (j + i) = m" "m < 8 - j" using Suc.prems by (auto simp: m_def)
  have "spell (\<lambda>p. bit x (7 - p)) [j..<j + Suc i] =
      2 * (unat x mod 2 ^ (8 - j) div 2 ^ Suc m) + of_bool (bit x m)"
    using Suc m by simp
  also have "bit x m = bit (unat x mod 2 ^ (8 - j)) m"
    using m(3) by (simp add: bit_take_bit_iff bit_unsigned_iff flip: take_bit_eq_mod)
  finally show ?case
    using div_bit_step [of "unat x mod 2 ^ (8 - j)" m] by (simp add: m_def mult.commute)
qed

lemma mkmask_eq: "n < 32 \<Longrightarrow> mkmask n = mask n"
  by (rule bit_word_eqI)
    (auto simp: mkmask_def bit_ucast_iff bit_mask_iff mask_eq_exp_minus_1 [symmetric])

lemma unat_mask_byte:
  "n \<le> 8 \<Longrightarrow> unat (ucast x AND mkmask n :: u32) = unat x mod 2 ^ n" for x :: byte
proof -
  assume "n \<le> 8"
  then have "(ucast x AND mkmask n :: u32) = take_bit n (ucast x)"
    by (simp add: mkmask_eq take_bit_eq_mask)
  with \<open>n \<le> 8\<close> show ?thesis by (simp add: unsigned_take_bit_eq unsigned_ucast_eq min_absorb1 flip: take_bit_eq_mod)
qed

lemma drop_masked: "drop_bit k (a AND NOT (mask k)) = drop_bit k a" for a :: u32
  by (rule bit_word_eqI) (auto simp: bit_drop_bit_eq bit_and_iff bit_not_iff bit_mask_iff dest: bit_imp_le_length)

lemma unat_drop_bit: "unat (drop_bit k a) = unat a div 2 ^ k" for a :: u32
proof -
  have "take_bit 32 (unat a) = unat a"
    using unsigned_less [of a] by (simp add: take_bit_nat_eq_self_iff)
  then show ?thesis by (simp add: unsigned_drop_bit_eq flip: drop_bit_eq_div)
qed

lemma msb_bit_same_byte:
  assumes "c mod 8 + i \<le> 8"
  shows "bits_from bs c i = unat (bs ! (c div 8)) mod 2 ^ (8 - c mod 8) div 2 ^ (8 - c mod 8 - i)"
proof -
  define q where "q = c div 8"
  define j where "j = c mod 8"
  have c: "c = 8 * q + j" and j: "j + i \<le> 8" "j < 8" using assms by (simp_all add: q_def j_def)
  have upt: "[c..<c + i] = map (\<lambda>p. 8 * q + p) [j..<j + i]"
    by (rule nth_equalityI) (simp_all add: c)
  have "spell f (map g ps) = spell (\<lambda>p. f (g p)) ps" for f and g :: "nat \<Rightarrow> nat" and ps
    by (induction ps rule: rev_induct) simp_all
  then have "bits_from bs c i = spell (\<lambda>p. msb_bit bs (8 * q + p)) [j..<j + i]"
    by (simp only: bits_from_def upt)
  also have "\<dots> = spell (\<lambda>p. bit (bs ! q) (7 - p)) [j..<j + i]"
    using j by (intro spell_cong) (simp add: msb_bit_def)
  finally have "bits_from bs c i = spell (\<lambda>p. bit (bs ! q) (7 - p)) [j..<j + i]" .
  then show ?thesis
    using j(1) by (simp add: spell_byte q_def [symmetric] j_def [symmetric])
qed

lemma unat_shift_add:
  assumes "unat (a :: u32) = n mod 2 ^ l" and "unat (r :: u32) < 2 ^ k" and "l + k \<le> 32"
  shows "unat (ucast (push_bit k (ucast a :: u64) + ucast r) :: u32) = n mod 2 ^ l * 2 ^ k + unat r"
proof -
  have "n mod 2 ^ l * 2 ^ k + unat r < 2 ^ l * 2 ^ k"
    using assms(2) mod_less_divisor [of "2 ^ l" n]
    by (metis mult_Suc nat_add_left_cancel_less add.commute less_le_trans mult_le_mono1 Suc_leI zero_less_numeral zero_less_power)
  also have "2 ^ l * 2 ^ k = (2 :: nat) ^ (l + k)" by (simp add: power_add)
  also have "\<dots> \<le> 2 ^ 32" using assms(3) by (rule power_increasing) simp
  finally have lt: "n mod 2 ^ l * 2 ^ k + unat r < 2 ^ 32" .
  define m where "m = unat a * 2 ^ k + unat r"
  have "push_bit k (ucast a :: u64) + ucast r = of_nat m"
    by (simp add: push_bit_eq_mult m_def)
  moreover have "take_bit 64 m = m" "take_bit 32 m = m"
    using lt assms(1) by (simp_all add: take_bit_nat_eq_self_iff m_def)
  moreover have "unat (ucast (of_nat m :: u64) :: u32) = take_bit 32 (take_bit 64 m)"
    by (simp only: unsigned_of_nat of_nat_id len_num1 len_num0 len_bit0 len_bit1) simp
  ultimately show ?thesis using assms(1) by (simp add: m_def)
qed

text \<open>The cursor reads the reference number and advances by exactly what it read.\<close>

lemma next_bits_spec:
  assumes "consumed h + i \<le> 8 * length (hb_b h)" and "0 < i" and "i \<le> 32"
  obtains r where "next_bits h i = Inr (r, h\<lparr>consumed := consumed h + i\<rparr>)"
    and "unat r = bits_from (hb_b h) (consumed h) i"
proof -
  have "\<exists>r. next_bits h i = Inr (r, h\<lparr>consumed := consumed h + i\<rparr>) \<and>
      unat r = bits_from (hb_b h) (consumed h) i"
    using assms
  proof (induction h i rule: next_bits.induct)
    case (1 h i)
    define q j l where "q = consumed h div 8" and "j = consumed h mod 8" and "l = 8 - j"
    define x where "x = hb_b h ! q"
    have j: "j < 8" "l = 8 - j" "l \<le> 8" "0 < l" by (auto simp: j_def l_def)
    have c: "consumed h = 8 * q + j" by (simp add: q_def j_def)
    have q: "q < length (hb_b h)" using "1.prems"(1,2) by (simp add: c)
    show ?case
    proof (cases "i \<le> l")
      case True
      have "bits_from (hb_b h) (consumed h) i = unat x mod 2 ^ l div 2 ^ (l - i)"
        using True j by (subst msb_bit_same_byte) (simp_all add: j_def [symmetric] q_def [symmetric] x_def)
      moreover have "i = l \<Longrightarrow> unat (mkmask i AND ucast x :: u32) = unat x mod 2 ^ l"
        using j by (metis and.commute unat_mask_byte)
      moreover have "unat (drop_bit (l - i) ((ucast x AND mkmask l) AND NOT (mkmask (l - i))) :: u32) =
          unat x mod 2 ^ l div 2 ^ (l - i)"
      proof -
        have "mkmask (l - i) = mask (l - i)" using j by (intro mkmask_eq) simp
        then show ?thesis using j by (simp only: drop_masked unat_drop_bit unat_mask_byte)
      qed
      ultimately show ?thesis
        using True q
        by (subst next_bits.simps)
          (auto simp: Let_def q_def [symmetric] j_def [symmetric] l_def [symmetric] x_def [symmetric])
    next
      case False
      define h' where "h' = h\<lparr>consumed := consumed h + l\<rparr>"
      have h': "consumed h' = consumed h + l" "hb_b h' = hb_b h" by (simp_all add: h'_def)
      have "\<exists>r. next_bits h' (i - l) = Inr (r, h'\<lparr>consumed := consumed h' + (i - l)\<rparr>) \<and>
          unat r = bits_from (hb_b h') (consumed h') (i - l)"
        unfolding h'_def
        by (rule "1.IH" [OF q_def l_def [unfolded j_def]])
          (use False "1.prems" j in auto)
      then obtain r where r: "next_bits h' (i - l) = Inr (r, h'\<lparr>consumed := consumed h' + (i - l)\<rparr>)"
          "unat r = bits_from (hb_b h) (consumed h + l) (i - l)"
        by (auto simp: h')
      have "h'\<lparr>consumed := consumed h' + (i - l)\<rparr> = h\<lparr>consumed := consumed h + i\<rparr>"
        using False by (simp add: h'_def)
      moreover have hi: "unat (mkmask l AND ucast x :: u32) = unat x mod 2 ^ l"
        using j by (metis and.commute unat_mask_byte)
      moreover have "bits_from (hb_b h) (consumed h) i =
          (unat x mod 2 ^ l) * 2 ^ (i - l) + bits_from (hb_b h) (consumed h + l) (i - l)"
      proof -
        have "[consumed h..<consumed h + i] =
            [consumed h..<consumed h + l] @ [consumed h + l..<consumed h + l + (i - l)]"
          using False upt_add_eq_append [of "consumed h" "consumed h + l" "i - l"] by simp
        moreover have "bits_from (hb_b h) (consumed h) l = unat x mod 2 ^ l"
          using j by (subst msb_bit_same_byte) (simp_all add: j_def [symmetric] q_def [symmetric] x_def)
        ultimately show ?thesis
          by (simp only: bits_from_def spell_append length_upt) simp
      qed
      moreover have "unat (ucast (push_bit (i - l) (ucast (mkmask l AND ucast x :: u32) :: u64) + ucast r) :: u32)
          = (unat x mod 2 ^ l) * 2 ^ (i - l) + unat r"
        by (rule unat_shift_add [OF hi r(2) [THEN eq_refl, THEN order_le_less_trans, OF bits_from_less]])
          (use "1.prems"(3) False in auto)
      ultimately show ?thesis
        using False q r
        by (subst next_bits.simps)
          (auto simp: Let_def q_def [symmetric] j_def [symmetric] l_def [symmetric] x_def [symmetric]
            h'_def [symmetric])
    qed
  qed
  then show thesis using that by blast
qed

lemma next_idx_spec:
  assumes "consumed h + i \<le> 8 * length (hb_b h)" and "0 < i" and "i \<le> 8"
  obtains r where "next_idx h i = Inr (r, h\<lparr>consumed := consumed h + i\<rparr>)"
    and "unat r = bits_from (hb_b h) (consumed h) i"
proof -
  obtain r where "next_bits h i = Inr (r, h\<lparr>consumed := consumed h + i\<rparr>)"
      "unat r = bits_from (hb_b h) (consumed h) i"
    by (rule next_bits_spec [of h i]) (use assms in auto)
  with assms show thesis by (intro that) (simp_all add: next_idx_def mult.commute)
qed

lemma next_idx_exhausted:
  "i \<le> 8 \<Longrightarrow> consumed h + i > 8 * length (hb_b h) \<Longrightarrow>
   next_idx h i = Inl (Anyhow ''Maximum depth reached'')"
  by (simp add: next_idx_def mult.commute)

text \<open>At the default width of eight, each step of the cursor is one byte of the hash.\<close>

lemma bits_from_byte: "bits_from bs (8 * d) 8 = unat (bs ! d)"
proof -
  have "unat (bs ! d) < 2 ^ 8" using unsigned_less [of "bs ! d"] by simp
  then show ?thesis by (simp add: msb_bit_same_byte [of "8 * d" 8])
qed

end
