(* ===== verification/Block_Store.thy ===== *)
theory Block_Store
  imports Prelude
begin

text \<open>
  Content-addressed blocks (\<^verbatim>\<open>noosphere-storage/src/block.rs\<close>, \<^verbatim>\<open>encoding.rs\<close>,
  \<^verbatim>\<open>store.rs\<close>, \<^verbatim>\<open>implementation/memory.rs\<close>): CIDs, IPLD values, encoding a value to
  a block, and the \<open>put\<close>/\<open>get\<close>/\<open>save\<close>/\<open>load\<close> methods every block store inherits.
  The codecs (DAG-CBOR, raw) and the Blake3 hash are third-party code: they are the fields of
  \<open>codec_env\<close>, and what the code relies on is stated by \<open>codec_ok\<close> and \<open>hash_ok\<close>.
\<close>

section \<open>CIDs and IPLD values\<close>

datatype cid = Cid (codec_of: nat) (digest_of: bytes)

text \<open>\<open>Ord\<close> on CIDs: by codec, then by digest.\<close>

instantiation cid :: linorder
begin

definition less_eq_cid :: "cid \<Rightarrow> cid \<Rightarrow> bool" where
  "less_eq_cid a b \<longleftrightarrow> codec_of a < codec_of b \<or> codec_of a = codec_of b \<and> digest_of a \<le> digest_of b"

definition less_cid :: "cid \<Rightarrow> cid \<Rightarrow> bool" where
  "less_cid a b \<longleftrightarrow> codec_of a < codec_of b \<or> codec_of a = codec_of b \<and> digest_of a < digest_of b"

instance
  by standard (auto simp: less_eq_cid_def less_cid_def intro: cid.expand)

end

datatype ipld =
    INull
  | IBool bool
  | IInteger int
  | IFloat u64
  | IString string
  | IBytes bytes
  | IList "ipld list"
  | IMap "(string \<times> ipld) list"
  | ILink cid

text \<open>
  The values the sphere data structures contain: no floats, and integers that CBOR can
  represent. A map has its keys in order and without duplicates, as in a \<open>BTreeMap\<close>.
\<close>

fun plain :: "ipld \<Rightarrow> bool" where
  "plain (IInteger i) = (- (2 ^ 64) \<le> i \<and> i < 2 ^ 64)"
| "plain (IFloat _) = False"
| "plain (IList xs) = list_all plain xs"
| "plain (IMap kvs) = (sorted_wrt (<) (map fst kvs) \<and> list_all (\<lambda>kv. plain (snd kv)) kvs)"
| "plain _ = True"

section \<open>Codecs\<close>

datatype codec = DagCborCodec | RawCodec

text \<open>\<open>u64::from(C::default())\<close>: the multicodec numbers.\<close>

fun codec_id :: "codec \<Rightarrow> nat" where
  "codec_id DagCborCodec = 113"
| "codec_id RawCodec = 85"

record codec_env =
  encode :: "codec \<Rightarrow> ipld \<Rightarrow> bytes option"
  decode :: "codec \<Rightarrow> bytes \<Rightarrow> ipld option"
  references :: "codec \<Rightarrow> bytes \<Rightarrow> cid list option"
  blake3_256 :: "bytes \<Rightarrow> bytes"

definition derive_cid :: "codec_env \<Rightarrow> codec \<Rightarrow> bytes \<Rightarrow> cid" where
  "derive_cid E C block = Cid (codec_id C) (blake3_256 E block)"

definition block_encode :: "codec_env \<Rightarrow> codec \<Rightarrow> ipld \<Rightarrow> (cid \<times> bytes) result" where
  "block_encode E C i =
     rbind (of_option (Anyhow ''encode'') (encode E C i)) (\<lambda>block. Inr (derive_cid E C block, block))"

definition block_decode :: "codec_env \<Rightarrow> codec \<Rightarrow> bytes \<Rightarrow> ipld result" where
  "block_decode E C block = of_option (Anyhow ''decode'') (decode E C block)"

text \<open>\<open>to_ipld\<close> and \<open>from_ipld\<close> of a data type are the serializer and deserializer arguments.\<close>

definition block_serialize ::
    "codec_env \<Rightarrow> codec \<Rightarrow> ('a \<Rightarrow> ipld option) \<Rightarrow> 'a \<Rightarrow> (cid \<times> bytes) result" where
  "block_serialize E C to_ipld x =
     rbind (of_option (Anyhow ''to_ipld'') (to_ipld x)) (block_encode E C)"

definition block_deserialize ::
    "codec_env \<Rightarrow> codec \<Rightarrow> (ipld \<Rightarrow> 'a result) \<Rightarrow> bytes \<Rightarrow> 'a result" where
  "block_deserialize E C from_ipld block = rbind (block_decode E C block) from_ipld"

section \<open>Block stores\<close>

text \<open>The state of a \<open>BlockStore\<close>: which block its \<open>get_block\<close> returns for each CID.\<close>

type_synonym blocks = "cid \<Rightarrow> bytes option"

definition put_block :: "cid \<Rightarrow> bytes \<Rightarrow> blocks \<Rightarrow> blocks" where
  "put_block c block s = s(c \<mapsto> block)"

definition get_block :: "cid \<Rightarrow> blocks \<Rightarrow> bytes option" where
  "get_block c s = s c"

definition put :: "codec_env \<Rightarrow> codec \<Rightarrow> ipld \<Rightarrow> blocks \<Rightarrow> cid result \<times> blocks" where
  "put E C i s =
     (case encode E C i of
        None \<Rightarrow> (Inl (Anyhow ''encode''), s)
      | Some block \<Rightarrow>
          let c = Cid (codec_id C) (blake3_256 E block) in (Inr c, put_block c block s))"

definition get :: "codec_env \<Rightarrow> codec \<Rightarrow> cid \<Rightarrow> blocks \<Rightarrow> ipld option result" where
  "get E C c s =
     (case get_block c s of
        None \<Rightarrow> Inr None
      | Some block \<Rightarrow> rbind (of_option (Anyhow ''decode'') (decode E C block)) (\<lambda>i. Inr (Some i)))"

definition save ::
    "codec_env \<Rightarrow> codec \<Rightarrow> ('a \<Rightarrow> ipld option) \<Rightarrow> 'a \<Rightarrow> blocks \<Rightarrow> cid result \<times> blocks" where
  "save E C to_ipld x s =
     (case to_ipld x of None \<Rightarrow> (Inl (Anyhow ''to_ipld''), s) | Some i \<Rightarrow> put E C i s)"

definition load ::
    "codec_env \<Rightarrow> codec \<Rightarrow> (ipld \<Rightarrow> 'a result) \<Rightarrow> cid \<Rightarrow> blocks \<Rightarrow> 'a result" where
  "load E C from_ipld c s =
     (if codec_of c \<noteq> codec_id C then Inl (Anyhow ''Incorrect codec'')
      else rbind (get E C c s) (\<lambda>m.
        case m of Some i \<Rightarrow> from_ipld i | None \<Rightarrow> Inl (Anyhow ''No block found'')))"

definition require_block :: "cid \<Rightarrow> blocks \<Rightarrow> bytes result" where
  "require_block c s = of_option (Anyhow ''Block was required but not found'') (get_block c s)"

section \<open>What the code relies on\<close>

text \<open>
  DAG-CBOR encodes every such value and decodes its own encoding. Hash collisions
  are excluded. A store is sound if every block is filed under its own digest.
\<close>

definition codec_ok :: "codec_env \<Rightarrow> bool" where
  "codec_ok E \<longleftrightarrow>
     (\<forall>i. plain i \<longrightarrow> (\<exists>b. encode E DagCborCodec i = Some b \<and> decode E DagCborCodec b = Some i))"

definition hash_ok :: "codec_env \<Rightarrow> bool" where
  "hash_ok E \<longleftrightarrow> inj (blake3_256 E)"

definition store_ok :: "codec_env \<Rightarrow> blocks \<Rightarrow> bool" where
  "store_ok E s \<longleftrightarrow> (\<forall>c b. s c = Some b \<longrightarrow> digest_of c = blake3_256 E b)"

text \<open>Store \<open>s\<close> holds value \<open>i\<close> under CID \<open>c\<close>, in the codec's own encoding.\<close>

definition has_block :: "codec_env \<Rightarrow> blocks \<Rightarrow> cid \<Rightarrow> ipld \<Rightarrow> bool" where
  "has_block E s c i \<longleftrightarrow> plain i \<and>
     (\<exists>b. encode E DagCborCodec i = Some b \<and> c = derive_cid E DagCborCodec b \<and> s c = Some b)"

lemma store_ok_empty [simp]: "store_ok E Map.empty"
  by (simp add: store_ok_def)

lemma put_extends:
  assumes "hash_ok E" and "store_ok E s" and "put E C i s = (r, s')"
  shows "s \<subseteq>\<^sub>m s'" and "store_ok E s'"
proof -
  have "s \<subseteq>\<^sub>m s' \<and> store_ok E s'"
  proof (cases "encode E C i")
    case None
    with assms show ?thesis by (simp add: put_def)
  next
    case (Some b)
    define c where "c = Cid (codec_id C) (blake3_256 E b)"
    have s': "s' = s(c \<mapsto> b)" using Some assms(3) by (simp add: put_def put_block_def c_def Let_def)
    have "s c = None \<or> s c = Some b"
      using assms(1,2) unfolding store_ok_def hash_ok_def c_def
      by (metis cid.sel(2) injD not_Some_eq)
    with assms(2) show ?thesis
      by (auto simp: s' store_ok_def c_def intro: map_le_upd_new)
  qed
  then show "s \<subseteq>\<^sub>m s'" and "store_ok E s'" by auto
qed

lemma put_has_block:
  assumes "codec_ok E" and "hash_ok E" and "store_ok E s" and "plain i"
  obtains c s' where "put E DagCborCodec i s = (Inr c, s')" and "has_block E s' c i"
    and "s \<subseteq>\<^sub>m s'" and "store_ok E s'"
proof -
  obtain b where "encode E DagCborCodec i = Some b" using assms(1,4) by (auto simp: codec_ok_def)
  then have "\<exists>c s'. put E DagCborCodec i s = (Inr c, s') \<and> has_block E s' c i"
    using assms(4) by (simp add: put_def put_block_def has_block_def derive_cid_def Let_def)
  then obtain c s' where p: "put E DagCborCodec i s = (Inr c, s')" and "has_block E s' c i" by blast
  with put_extends [OF assms(2,3) p] show thesis by (intro that)
qed

lemma has_block_get:
  assumes "codec_ok E" and "has_block E s c i"
  shows "get E DagCborCodec c s = Inr (Some i)" and "codec_of c = codec_id DagCborCodec"
  using assms by (auto simp: has_block_def codec_ok_def get_def get_block_def derive_cid_def)

lemma has_block_load:
  assumes "codec_ok E" and "has_block E s c i"
  shows "load E DagCborCodec d c s = d i"
  using has_block_get [OF assms] by (simp add: load_def)

lemma has_block_mono: "has_block E s c i \<Longrightarrow> s \<subseteq>\<^sub>m s' \<Longrightarrow> has_block E s' c i"
  by (auto simp: has_block_def dest: map_leD)

lemma has_block_cid_eq: "has_block E s c i \<Longrightarrow> has_block E s' c' i \<Longrightarrow> c = c'"
  by (auto simp: has_block_def)

lemma has_block_unique:
  assumes "codec_ok E" "has_block E s c i" "has_block E s c j"
  shows "i = j"
  using has_block_get(1) [OF assms(1,2)] has_block_get(1) [OF assms(1,3)] by simp

end
