(* ===== verification/Hamt_Node.thy ===== *)
theory Hamt_Node
  imports Hash_Bits Block_Store
begin

text \<open>
  The HAMT (\<^verbatim>\<open>noosphere-collections/src/hamt/node.rs\<close>, \<^verbatim>\<open>pointer.rs\<close>,
  \<^verbatim>\<open>hamt_implementation.rs\<close>): nodes with a bitfield of occupied positions and a packed
  vector of pointers, their IPLD form, and the recursive lookup, insertion and removal
  routines. A \<open>Link\<close> is loaded from the block store on first use and kept in its cache, so
  lookups also return the node with its caches filled. Methods on \<open>&mut self\<close> return the
  node as it is left, after an error too.
\<close>

section \<open>Data\<close>

definition MAX_ARRAY_WIDTH :: nat where
  "MAX_ARRAY_WIDTH = 3"

definition DEFAULT_BIT_WIDTH :: nat where
  "DEFAULT_BIT_WIDTH = 8"

datatype ('k, 'v) pointer =
    Values "('k \<times> 'v) list"
  | Link cid "('k, 'v) node option"
  | Dirty "('k, 'v) node"
and ('k, 'v) node = Node (node_bitfield: bitfield) (node_pointers: "('k, 'v) pointer list")

text \<open>
  The type parameters of a HAMT: the hash algorithm applied to a key, the serializers of
  keys and values, the codec environment of its store, and its bit width.
\<close>

record ('k, 'v) hamt_ctx =
  hash_key :: "'k \<Rightarrow> bytes"
  key_to_ipld :: "'k \<Rightarrow> ipld"
  key_from_ipld :: "ipld \<Rightarrow> 'k option"
  val_to_ipld :: "'v \<Rightarrow> ipld"
  val_from_ipld :: "ipld \<Rightarrow> 'v option"
  henv :: codec_env
  bit_width :: nat

definition empty_node :: "('k, 'v) node" where
  "empty_node = Node zero []"

section \<open>IPLD form\<close>

definition kv_to_ipld :: "('k, 'v) hamt_ctx \<Rightarrow> 'k \<times> 'v \<Rightarrow> ipld" where
  "kv_to_ipld X kv = IList [key_to_ipld X (fst kv), val_to_ipld X (snd kv)]"

definition kv_from_ipld :: "('k, 'v) hamt_ctx \<Rightarrow> ipld \<Rightarrow> ('k \<times> 'v) option" where
  "kv_from_ipld X i =
     (case i of
        IList [a, b] \<Rightarrow>
          (case (key_from_ipld X a, val_from_ipld X b) of
             (Some k, Some v) \<Rightarrow> Some (k, v) | _ \<Rightarrow> None)
      | _ \<Rightarrow> None)"

text \<open>Pointers are serialized like an untagged enum; an unflushed node is refused.\<close>

fun pointer_to_ipld :: "('k, 'v) hamt_ctx \<Rightarrow> ('k, 'v) pointer \<Rightarrow> ipld option" where
  "pointer_to_ipld X (Values vals) = Some (IList (map (kv_to_ipld X) vals))"
| "pointer_to_ipld X (Link c _) = Some (ILink c)"
| "pointer_to_ipld X (Dirty _) = None"

definition pointer_from_ipld :: "('k, 'v) hamt_ctx \<Rightarrow> ipld \<Rightarrow> ('k, 'v) pointer option" where
  "pointer_from_ipld X i =
     (case i of
        IList is \<Rightarrow> map_option Values (traverse (kv_from_ipld X) is)
      | ILink c \<Rightarrow> Some (Link c None)
      | _ \<Rightarrow> None)"

definition node_to_ipld :: "('k, 'v) hamt_ctx \<Rightarrow> ('k, 'v) node \<Rightarrow> ipld option" where
  "node_to_ipld X n =
     map_option (\<lambda>is. IList [IBytes (serialize (node_bitfield n)), IList is])
       (traverse (pointer_to_ipld X) (node_pointers n))"

definition node_from_ipld :: "('k, 'v) hamt_ctx \<Rightarrow> ipld \<Rightarrow> ('k, 'v) node result" where
  "node_from_ipld X i =
     (case i of
        IList [IBytes b, IList is] \<Rightarrow>
          rbind (deserialize b) (\<lambda>bf.
            rbind (of_option (Anyhow ''Expected Ipld::List or Ipld::Link'')
                     (traverse (pointer_from_ipld X) is)) (\<lambda>ps. Inr (Node bf ps)))
      | _ \<Rightarrow> Inl (Anyhow ''invalid node''))"

definition load_node :: "('k, 'v) hamt_ctx \<Rightarrow> cid \<Rightarrow> blocks \<Rightarrow> ('k, 'v) node result" where
  "load_node X c s = load (henv X) DagCborCodec (node_from_ipld X) c s"

definition save_node :: "('k, 'v) hamt_ctx \<Rightarrow> ('k, 'v) node \<Rightarrow> blocks \<Rightarrow> cid result \<times> blocks" where
  "save_node X n s = save (henv X) DagCborCodec (node_to_ipld X) n s"

section \<open>Children of a node\<close>

definition index_for_bit_pos :: "('k, 'v) node \<Rightarrow> nat \<Rightarrow> nat result" where
  "index_for_bit_pos n bp =
     (let mask = set_bits_le zero bp
      in if count_ones mask \<noteq> bp then Inl (Panic ''assertion failed'')
         else Inr (count_ones (and_bits mask (node_bitfield n))))"

definition get_child :: "('k, 'v) node \<Rightarrow> nat \<Rightarrow> ('k, 'v) pointer result" where
  "get_child n i = index (node_pointers n) i"

text \<open>Writing through \<open>get_child_mut\<close>.\<close>

definition set_child :: "('k, 'v) node \<Rightarrow> nat \<Rightarrow> ('k, 'v) pointer \<Rightarrow> ('k, 'v) node" where
  "set_child n i p = Node (node_bitfield n) ((node_pointers n)[i := p])"

definition rm_child :: "('k, 'v) node \<Rightarrow> nat \<Rightarrow> nat \<Rightarrow> (('k, 'v) pointer \<times> ('k, 'v) node) result" where
  "rm_child n i idx =
     rbind (clear_bit (node_bitfield n) idx) (\<lambda>bf.
       if i < length (node_pointers n)
       then Inr (node_pointers n ! i, Node bf (take i (node_pointers n) @ drop (Suc i) (node_pointers n)))
       else Inl (Panic ''removal index should be < len''))"

definition from_key_value :: "'k \<Rightarrow> 'v \<Rightarrow> ('k, 'v) pointer" where
  "from_key_value k v = Values [(k, v)]"

definition insert_child :: "('k, 'v) node \<Rightarrow> nat \<Rightarrow> 'k \<Rightarrow> 'v \<Rightarrow> ('k, 'v) node result" where
  "insert_child n idx k v =
     rbind (index_for_bit_pos n idx) (\<lambda>i.
       rbind (set_bit (node_bitfield n) idx) (\<lambda>bf.
         if i \<le> length (node_pointers n)
         then Inr (Node bf (take i (node_pointers n) @ from_key_value k v # drop i (node_pointers n)))
         else Inl (Panic ''insertion index should be <= len'')))"

text \<open>
  The first steps \<open>get_value\<close>, \<open>modify_value\<close> and \<open>rm_value\<close> have in common: take the next
  index from the hash, test its bit, and find the child there. \<open>None\<close>: the bit is not set.
\<close>

definition locate ::
    "('k, 'v) hamt_ctx \<Rightarrow> hash_bits \<Rightarrow> ('k, 'v) node \<Rightarrow>
     (nat \<times> hash_bits \<times> (nat \<times> ('k, 'v) pointer) option) result" where
  "locate X h n =
     rbind (next_idx h (bit_width X)) (\<lambda>(idx, h').
       rbind (test_bit (node_bitfield n) (unat idx)) (\<lambda>occupied.
         if \<not> occupied then Inr (unat idx, h', None)
         else rbind (index_for_bit_pos n (unat idx)) (\<lambda>cindex.
           rbind (get_child n cindex) (\<lambda>child. Inr (unat idx, h', Some (cindex, child))))))"

section \<open>Cleaning after a removal\<close>

text \<open>The number of values in the children, or nothing if a child is not a \<open>Values\<close>.\<close>

fun children_len :: "('k, 'v) pointer list \<Rightarrow> nat option" where
  "children_len [] = Some 0"
| "children_len (Values vals # ps) = map_option (\<lambda>m. length vals + m) (children_len ps)"
| "children_len (_ # ps) = None"

fun child_vals :: "('k, 'v) pointer list \<Rightarrow> ('k \<times> 'v) list" where
  "child_vals [] = []"
| "child_vals (Values vals # ps) = vals @ child_vals ps"
| "child_vals (_ # ps) = child_vals ps"

text \<open>\<open>Pointer::clean\<close>: a child with few enough values is replaced by those values, sorted by key.\<close>

fun clean :: "('k::linorder, 'v) pointer \<Rightarrow> ('k, 'v) pointer result" where
  "clean (Dirty n) =
     (let ps = node_pointers n in
      if length ps = 0 then Inl (Anyhow ''Node has 0 pointers; invalid HAMT format'')
      else if length ps = 1 then
        (case ps ! 0 of Values vals \<Rightarrow> Inr (Values vals) | _ \<Rightarrow> Inr (Dirty n))
      else if length ps \<le> MAX_ARRAY_WIDTH then
        (case children_len ps of
           None \<Rightarrow> Inr (Dirty n)
         | Some m \<Rightarrow>
             if m > MAX_ARRAY_WIDTH then Inr (Dirty n)
             else Inr (Values (sort_key fst (child_vals ps))))
      else Inr (Dirty n))"
| "clean _ = Inl (Panic ''clean is only called on dirty pointer'')"

section \<open>Lookup\<close>

text \<open>\<open>cache.get_or_try_init(|| store.load(cid))\<close>.\<close>

definition force :: "('k, 'v) hamt_ctx \<Rightarrow> blocks \<Rightarrow> cid \<Rightarrow> ('k, 'v) node option \<Rightarrow> ('k, 'v) node result" where
  "force X s c cache = (case cache of Some m \<Rightarrow> Inr m | None \<Rightarrow> load_node X c s)"

fun get_value ::
    "nat \<Rightarrow> ('k, 'v) hamt_ctx \<Rightarrow> blocks \<Rightarrow> hash_bits \<Rightarrow> 'k \<Rightarrow> ('k, 'v) node \<Rightarrow>
     ('k \<times> 'v) option result \<times> ('k, 'v) node" where
  "get_value 0 X s h k n = (Inl OutOfFuel, n)"
| "get_value (Suc f) X s h k n =
     (case locate X h n of
        Inl e \<Rightarrow> (Inl e, n)
      | Inr (idx, h', None) \<Rightarrow> (Inr None, n)
      | Inr (idx, h', Some (i, child)) \<Rightarrow>
          (case child of
             Link c cache \<Rightarrow>
               (case force X s c cache of
                  Inl e \<Rightarrow> (Inl e, n)
                | Inr m \<Rightarrow>
                    (case get_value f X s h' k m of
                       (r, m') \<Rightarrow> (r, set_child n i (Link c (Some m')))))
           | Dirty m \<Rightarrow>
               (case get_value f X s h' k m of (r, m') \<Rightarrow> (r, set_child n i (Dirty m')))
           | Values vals \<Rightarrow> (Inr (find (\<lambda>kv. k = fst kv) vals), n)))"

section \<open>Insertion\<close>

text \<open>Insert into a sorted array of fewer than \<open>MAX_ARRAY_WIDTH\<close> values.\<close>

definition insert_sorted :: "('k::linorder) \<Rightarrow> 'v \<Rightarrow> ('k \<times> 'v) list \<Rightarrow> ('k \<times> 'v) list" where
  "insert_sorted k v vals =
     takeWhile (\<lambda>c. \<not> fst c > k) vals @ (k, v) # dropWhile (\<lambda>c. \<not> fst c > k) vals"

text \<open>\<open>position(|p| p.key() == &key)\<close>.\<close>

fun position :: "('a \<Rightarrow> bool) \<Rightarrow> 'a list \<Rightarrow> nat option" where
  "position P [] = None"
| "position P (x # xs) = (if P x then Some 0 else map_option Suc (position P xs))"

text \<open>The loop that moves the values of a full array into the new subshard.\<close>

fun reinsert ::
    "('k \<Rightarrow> 'v \<Rightarrow> ('k, 'v) node \<Rightarrow> ('v option \<times> bool) result \<times> ('k, 'v) node) \<Rightarrow>
     ('k \<times> 'v) list \<Rightarrow> ('k, 'v) node \<Rightarrow> unit result \<times> ('k, 'v) node" where
  "reinsert ins [] sub = (Inr (), sub)"
| "reinsert ins ((k, v) # kvs) sub =
     (case ins k v sub of
        (Inl e, sub') \<Rightarrow> (Inl e, sub')
      | (Inr _, sub') \<Rightarrow> reinsert ins kvs sub')"

fun modify_value ::
    "nat \<Rightarrow> ('k::linorder, 'v) hamt_ctx \<Rightarrow> blocks \<Rightarrow> bool \<Rightarrow> hash_bits \<Rightarrow> 'k \<Rightarrow> 'v \<Rightarrow> ('k, 'v) node \<Rightarrow>
     ('v option \<times> bool) result \<times> ('k, 'v) node" where
  "modify_value 0 X s overwrite h k v n = (Inl OutOfFuel, n)"
| "modify_value (Suc f) X s overwrite h k v n =
     (case locate X h n of
        Inl e \<Rightarrow> (Inl e, n)
      | Inr (idx, h', None) \<Rightarrow>
          (case insert_child n idx k v of Inl e \<Rightarrow> (Inl e, n) | Inr n' \<Rightarrow> (Inr (None, True), n'))
      | Inr (idx, h', Some (i, child)) \<Rightarrow>
          (case child of
             Link c cache \<Rightarrow>
               (case force X s c cache of
                  Inl e \<Rightarrow> (Inl e, n)
                | Inr m \<Rightarrow>
                    (case modify_value f X s overwrite h' k v m of
                       (Inl e, m') \<Rightarrow> (Inl e, set_child n i (Link c (Some m')))
                     | (Inr (old, modified), m') \<Rightarrow>
                         (Inr (old, modified),
                          set_child n i (if modified then Dirty m' else Link c (Some m')))))
           | Dirty m \<Rightarrow>
               (case modify_value f X s overwrite h' k v m of (r, m') \<Rightarrow> (r, set_child n i (Dirty m')))
           | Values vals \<Rightarrow>
               (case position (\<lambda>p. fst p = k) vals of
                  Some j \<Rightarrow>
                    if overwrite
                    then (Inr (Some (snd (vals ! j)), snd (vals ! j) \<noteq> v),
                          set_child n i (Values (vals[j := (fst (vals ! j), v)])))
                    else (Inr (None, False), n)
                | None \<Rightarrow>
                    if length vals \<ge> MAX_ARRAY_WIDTH then
                      (case modify_value f X s overwrite h' k v empty_node of
                         (Inl e, _) \<Rightarrow> (Inl e, n)
                       | (Inr modified, sub) \<Rightarrow>
                           (case reinsert
                                   (\<lambda>k' v' sub'. modify_value f X s overwrite
                                      (new_at_index (hash_key X k') (consumed h')) k' v' sub')
                                   vals sub of
                              (Inl e, _) \<Rightarrow> (Inl e, set_child n i (Values []))
                            | (Inr _, sub') \<Rightarrow> (Inr modified, set_child n i (Dirty sub'))))
                    else (Inr (None, True), set_child n i (Values (insert_sorted k v vals))))))"

section \<open>Removal\<close>

fun rm_value ::
    "nat \<Rightarrow> ('k::linorder, 'v) hamt_ctx \<Rightarrow> blocks \<Rightarrow> hash_bits \<Rightarrow> 'k \<Rightarrow> ('k, 'v) node \<Rightarrow>
     ('k \<times> 'v) option result \<times> ('k, 'v) node" where
  "rm_value 0 X s h k n = (Inl OutOfFuel, n)"
| "rm_value (Suc f) X s h k n =
     (case locate X h n of
        Inl e \<Rightarrow> (Inl e, n)
      | Inr (idx, h', None) \<Rightarrow> (Inr None, n)
      | Inr (idx, h', Some (i, child)) \<Rightarrow>
          (case child of
             Link c cache \<Rightarrow>
               (case force X s c cache of
                  Inl e \<Rightarrow> (Inl e, n)
                | Inr m \<Rightarrow>
                    (case rm_value f X s h' k m of
                       (Inl e, m') \<Rightarrow> (Inl e, set_child n i (Link c (Some m')))
                     | (Inr None, m') \<Rightarrow> (Inr None, set_child n i (Link c (Some m')))
                     | (Inr (Some kv), m') \<Rightarrow>
                         (case clean (Dirty m') of
                            Inl e \<Rightarrow> (Inl e, set_child n i (Dirty m'))
                          | Inr p \<Rightarrow> (Inr (Some kv), set_child n i p))))
           | Dirty m \<Rightarrow>
               (case rm_value f X s h' k m of
                  (Inl e, m') \<Rightarrow> (Inl e, set_child n i (Dirty m'))
                | (Inr deleted, m') \<Rightarrow>
                    (case clean (Dirty m') of
                       Inl e \<Rightarrow> (Inl e, set_child n i (Dirty m'))
                     | Inr p \<Rightarrow> (Inr deleted, set_child n i p)))
           | Values vals \<Rightarrow>
               (case position (\<lambda>p. k = fst p) vals of
                  None \<Rightarrow> (Inr None, n)
                | Some j \<Rightarrow>
                    if length vals = 1 then
                      (case rm_child n i idx of
                         Inl e \<Rightarrow> (Inl e, n)
                       | Inr (Values (kv # _), n') \<Rightarrow> (Inr (Some kv), n')
                       | Inr (_, n') \<Rightarrow> (Inl (Panic ''unreachable''), n'))
                    else (Inr (Some (vals ! j)), set_child n i (Values (take j vals @ drop (Suc j) vals))))))"

section \<open>Flushing\<close>

text \<open>
  \<open>Node::flush\<close>: every dirty child is flushed, saved and replaced by a link that keeps the
  node in its cache. The node and the store are returned as they are left, after an error too.
\<close>

fun flush ::
      "('k, 'v) hamt_ctx \<Rightarrow> ('k, 'v) node \<Rightarrow> blocks \<Rightarrow> unit result \<times> ('k, 'v) node \<times> blocks"
  and flush_pointers ::
      "('k, 'v) hamt_ctx \<Rightarrow> ('k, 'v) pointer list \<Rightarrow> blocks \<Rightarrow> unit result \<times> ('k, 'v) pointer list \<times> blocks"
  and flush_pointer ::
      "('k, 'v) hamt_ctx \<Rightarrow> ('k, 'v) pointer \<Rightarrow> blocks \<Rightarrow> unit result \<times> ('k, 'v) pointer \<times> blocks" where
  "flush X (Node bf ps) s =
     (case flush_pointers X ps s of (r, ps', s') \<Rightarrow> (r, Node bf ps', s'))"
| "flush_pointers X [] s = (Inr (), [], s)"
| "flush_pointers X (p # ps) s =
     (case flush_pointer X p s of
        (Inl e, p', s') \<Rightarrow> (Inl e, p' # ps, s')
      | (Inr _, p', s') \<Rightarrow>
          (case flush_pointers X ps s' of (r, ps', s'') \<Rightarrow> (r, p' # ps', s'')))"
| "flush_pointer X (Dirty n) s =
     (case flush X n s of
        (Inl e, n', s') \<Rightarrow> (Inl e, Dirty n', s')
      | (Inr _, n', s') \<Rightarrow>
          (case save_node X n' s' of
             (Inl e, s'') \<Rightarrow> (Inl e, Dirty n', s'')
           | (Inr c, s'') \<Rightarrow> (Inr (), Link c (Some n'), s'')))"
| "flush_pointer X (Values vals) s = (Inr (), Values vals, s)"
| "flush_pointer X (Link c cache) s = (Inr (), Link c cache, s)"

section \<open>Streams of entries\<close>

text \<open>
  \<open>Node::stream\<close>: the entries yielded, how the stream ends, and the node with the caches it
  filled. \<open>stream_pointer\<close> is the body of its loop.
\<close>

definition stream_pointer ::
    "(('k, 'v) node \<Rightarrow> ('k \<times> 'v) list \<times> unit result \<times> ('k, 'v) node) \<Rightarrow> ('k, 'v) hamt_ctx \<Rightarrow> blocks \<Rightarrow>
     ('k, 'v) pointer \<Rightarrow> ('k \<times> 'v) list \<times> unit result \<times> ('k, 'v) pointer" where
  "stream_pointer rec X s p =
     (case p of
        Link c cache \<Rightarrow>
          (case force X s c cache of
             Inl e \<Rightarrow> ([], Inl e, p)
           | Inr n \<Rightarrow> (case rec n of (out, r, n') \<Rightarrow> (out, r, Link c (Some n'))))
      | Dirty n \<Rightarrow> (case rec n of (out, r, n') \<Rightarrow> (out, r, Dirty n'))
      | Values kvs \<Rightarrow> (kvs, Inr (), p))"

fun stream_pointers ::
    "(('k, 'v) node \<Rightarrow> ('k \<times> 'v) list \<times> unit result \<times> ('k, 'v) node) \<Rightarrow> ('k, 'v) hamt_ctx \<Rightarrow> blocks \<Rightarrow>
     ('k, 'v) pointer list \<Rightarrow> ('k \<times> 'v) list \<times> unit result \<times> ('k, 'v) pointer list" where
  "stream_pointers rec X s [] = ([], Inr (), [])"
| "stream_pointers rec X s (p # ps) =
     (case stream_pointer rec X s p of
        (out, Inl e, p') \<Rightarrow> (out, Inl e, p' # ps)
      | (out, Inr _, p') \<Rightarrow>
          (case stream_pointers rec X s ps of (out', r, ps') \<Rightarrow> (out @ out', r, p' # ps')))"

fun stream ::
    "nat \<Rightarrow> ('k, 'v) hamt_ctx \<Rightarrow> blocks \<Rightarrow> ('k, 'v) node \<Rightarrow> ('k \<times> 'v) list \<times> unit result \<times> ('k, 'v) node" where
  "stream 0 X s n = ([], Inl OutOfFuel, n)"
| "stream (Suc f) X s n =
     (case stream_pointers (stream f X s) X s (node_pointers n) of
        (out, r, ps) \<Rightarrow> (out, r, Node (node_bitfield n) ps))"

text \<open>\<open>Node::into_stream\<close>: a stack of remaining pointers, popped from the end.\<close>

fun into_stream ::
    "nat \<Rightarrow> ('k, 'v) hamt_ctx \<Rightarrow> blocks \<Rightarrow> ('k, 'v) pointer list \<Rightarrow> ('k \<times> 'v) list \<times> unit result" where
  "into_stream 0 X s remaining = ([], Inl OutOfFuel)"
| "into_stream (Suc f) X s remaining =
     (if remaining = [] then ([], Inr ())
      else (case last remaining of
              Dirty n \<Rightarrow> into_stream f X s (butlast remaining @ node_pointers n)
            | Link c cache \<Rightarrow>
                (case force X s c cache of
                   Inl e \<Rightarrow> ([], Inl e)
                 | Inr n \<Rightarrow> into_stream f X s (butlast remaining @ node_pointers n))
            | Values kvs \<Rightarrow>
                (case into_stream f X s (butlast remaining) of (out, r) \<Rightarrow> (kvs @ out, r))))"

section \<open>The \<open>Hamt\<close> type\<close>

text \<open>
  Hashes have 256 bits and each level takes at least one, so \<open>hamt_fuel\<close> levels suffice.
\<close>

definition hamt_fuel :: nat where
  "hamt_fuel = 257"

record ('k, 'v) hamt =
  root :: "('k, 'v) node"
  store :: blocks

definition hamt_new :: "blocks \<Rightarrow> ('k, 'v) hamt" where
  "hamt_new s = \<lparr>root = empty_node, store = s\<rparr>"

definition hamt_load :: "('k, 'v) hamt_ctx \<Rightarrow> cid \<Rightarrow> blocks \<Rightarrow> ('k, 'v) hamt result" where
  "hamt_load X c s = rbind (load_node X c s) (\<lambda>n. Inr \<lparr>root = n, store = s\<rparr>)"

definition hamt_set_root :: "('k, 'v) hamt_ctx \<Rightarrow> cid \<Rightarrow> ('k, 'v) hamt \<Rightarrow> unit result \<times> ('k, 'v) hamt" where
  "hamt_set_root X c H =
     (case load_node X c (store H) of Inl e \<Rightarrow> (Inl e, H) | Inr n \<Rightarrow> (Inr (), H\<lparr>root := n\<rparr>))"

text \<open>\<open>Node::set\<close> under \<open>Hamt::set\<close> and \<open>Hamt::set_if_absent\<close>.\<close>

definition node_set ::
    "('k::linorder, 'v) hamt_ctx \<Rightarrow> bool \<Rightarrow> 'k \<Rightarrow> 'v \<Rightarrow> ('k, 'v) hamt \<Rightarrow>
     ('v option \<times> bool) result \<times> ('k, 'v) hamt" where
  "node_set X overwrite k v H =
     (case modify_value hamt_fuel X (store H) overwrite (new (hash_key X k)) k v (root H) of
        (r, n) \<Rightarrow> (r, H\<lparr>root := n\<rparr>))"

definition hamt_set ::
    "('k::linorder, 'v) hamt_ctx \<Rightarrow> 'k \<Rightarrow> 'v \<Rightarrow> ('k, 'v) hamt \<Rightarrow> 'v option result \<times> ('k, 'v) hamt" where
  "hamt_set X k v H = sbind (node_set X True k v H) (\<lambda>(old, _) H'. (Inr old, H'))"

definition hamt_set_if_absent ::
    "('k::linorder, 'v) hamt_ctx \<Rightarrow> 'k \<Rightarrow> 'v \<Rightarrow> ('k, 'v) hamt \<Rightarrow> bool result \<times> ('k, 'v) hamt" where
  "hamt_set_if_absent X k v H = sbind (node_set X False k v H) (\<lambda>(_, modified) H'. (Inr modified, H'))"

definition hamt_get ::
    "('k, 'v) hamt_ctx \<Rightarrow> 'k \<Rightarrow> ('k, 'v) hamt \<Rightarrow> 'v option result \<times> ('k, 'v) hamt" where
  "hamt_get X k H =
     (case get_value hamt_fuel X (store H) (new (hash_key X k)) k (root H) of
        (r, n) \<Rightarrow> (rbind r (\<lambda>kv. Inr (map_option snd kv)), H\<lparr>root := n\<rparr>))"

definition hamt_contains_key ::
    "('k, 'v) hamt_ctx \<Rightarrow> 'k \<Rightarrow> ('k, 'v) hamt \<Rightarrow> bool result \<times> ('k, 'v) hamt" where
  "hamt_contains_key X k H = sbind (hamt_get X k H) (\<lambda>v H'. (Inr (v \<noteq> None), H'))"

definition hamt_delete ::
    "('k::linorder, 'v) hamt_ctx \<Rightarrow> 'k \<Rightarrow> ('k, 'v) hamt \<Rightarrow> ('k \<times> 'v) option result \<times> ('k, 'v) hamt" where
  "hamt_delete X k H =
     (case rm_value hamt_fuel X (store H) (new (hash_key X k)) k (root H) of
        (r, n) \<Rightarrow> (r, H\<lparr>root := n\<rparr>))"

definition hamt_flush :: "('k, 'v) hamt_ctx \<Rightarrow> ('k, 'v) hamt \<Rightarrow> cid result \<times> ('k, 'v) hamt" where
  "hamt_flush X H =
     (case flush X (root H) (store H) of
        (Inl e, n, s) \<Rightarrow> (Inl e, \<lparr>root = n, store = s\<rparr>)
      | (Inr _, n, s) \<Rightarrow> (case save_node X n s of (r, s') \<Rightarrow> (r, \<lparr>root = n, store = s'\<rparr>)))"

definition hamt_is_empty :: "('k, 'v) hamt \<Rightarrow> bool" where
  "hamt_is_empty H \<longleftrightarrow> node_pointers (root H) = []"

definition hamt_stream ::
    "('k, 'v) hamt_ctx \<Rightarrow> ('k, 'v) hamt \<Rightarrow> ('k \<times> 'v) list \<times> unit result \<times> ('k, 'v) hamt" where
  "hamt_stream X H =
     (case stream hamt_fuel X (store H) (root H) of (out, r, n) \<Rightarrow> (out, r, H\<lparr>root := n\<rparr>))"

definition hamt_into_stream ::
    "nat \<Rightarrow> ('k, 'v) hamt_ctx \<Rightarrow> ('k, 'v) hamt \<Rightarrow> ('k \<times> 'v) list \<times> unit result" where
  "hamt_into_stream f X H = into_stream f X (store H) (node_pointers (root H))"

text \<open>
  \<open>Hamt::for_each\<close> with a callback on a state \<open>'st\<close>. The loop runs while the stream yields
  \<open>Some(Ok(_))\<close>, so an error of the stream ends it like the end of the map does.
\<close>

fun for_each_loop :: "('k \<Rightarrow> 'v \<Rightarrow> 'st \<Rightarrow> unit result \<times> 'st) \<Rightarrow> ('k \<times> 'v) list \<Rightarrow> 'st \<Rightarrow> unit result \<times> 'st" where
  "for_each_loop f [] st = (Inr (), st)"
| "for_each_loop f ((k, v) # kvs) st = sbind (f k v st) (\<lambda>_. for_each_loop f kvs)"

definition hamt_for_each ::
    "('k, 'v) hamt_ctx \<Rightarrow> ('k \<Rightarrow> 'v \<Rightarrow> 'st \<Rightarrow> unit result \<times> 'st) \<Rightarrow> ('k, 'v) hamt \<Rightarrow> 'st \<Rightarrow> unit result \<times> 'st" where
  "hamt_for_each X f H st = for_each_loop f (fst (hamt_stream X H)) st"

end
