(* ===== verification/Hamt_Slots.thy ===== *)
theory Hamt_Slots
  imports Hamt_Node
begin

text \<open>
  A node as a sparse array of children. \<open>slots n\<close> is the partial function from bit positions
  to pointers that the bitfield and the packed vector stand for; \<open>locate\<close>, \<open>insert_child\<close>,
  \<open>rm_child\<close> and writes through \<open>get_child_mut\<close> are lookup, update and deletion on it, and a
  node is determined by its slots. On well-formed nodes none of the panics is reached.
\<close>

definition wf_node :: "('k, 'v) node \<Rightarrow> bool" where
  "wf_node n \<longleftrightarrow> length (node_pointers n) = card (positions (node_bitfield n))"

definition slots :: "('k, 'v) node \<Rightarrow> nat \<Rightarrow> ('k, 'v) pointer option" where
  "slots n i =
     (if i \<in> positions (node_bitfield n)
      then Some (node_pointers n ! rank (positions (node_bitfield n)) i) else None)"

abbreviation place :: "('k, 'v) node \<Rightarrow> nat \<Rightarrow> nat" where
  "place n i \<equiv> rank (positions (node_bitfield n)) i"

lemma dom_slots: "dom (slots n) = positions (node_bitfield n)"
  by (auto simp: slots_def split: if_splits)

lemma slots_less: "slots n i = Some p \<Longrightarrow> i < 256"
  by (auto simp: slots_def positions_less split: if_splits)

lemma wf_empty [simp]: "wf_node empty_node" and slots_empty [simp]: "slots empty_node i = None"
  by (simp_all add: wf_node_def slots_def empty_node_def)

lemma place_less: "wf_node n \<Longrightarrow> slots n i \<noteq> None \<Longrightarrow> place n i < length (node_pointers n)"
  by (auto simp: wf_node_def slots_def rank_less_card split: if_splits)

lemma slots_nth: "slots n i = Some p \<Longrightarrow> node_pointers n ! place n i = p"
  by (simp add: slots_def split: if_splits)

lemma index_for_bit_pos_eq: "i < 256 \<Longrightarrow> index_for_bit_pos n i = Inr (place n i)"
  by (simp add: index_for_bit_pos_def count_ones_card positions_set_bits_le rank_def Int_commute)

text \<open>The pointers of a node are exactly the contents of its slots.\<close>

lemma ran_slots: "wf_node n \<Longrightarrow> ran (slots n) = set (node_pointers n)"
proof -
  assume wf: "wf_node n"
  let ?S = "positions (node_bitfield n)"
  have "ran (slots n) = (\<lambda>i. node_pointers n ! rank ?S i) ` ?S"
    by (auto simp: ran_def slots_def image_iff)
  also have "\<dots> = (!) (node_pointers n) ` rank ?S ` ?S" by (simp add: image_image)
  also have "\<dots> = (!) (node_pointers n) ` {..<length (node_pointers n)}"
    using wf by (simp add: rank_image wf_node_def)
  also have "\<dots> = set (node_pointers n)" by (auto simp: set_conv_nth)
  finally show ?thesis .
qed

text \<open>A list indexed by rank is determined by its values at the members of the set.\<close>

lemma by_rank_eqI:
  assumes "finite S" "length xs = card S" "length ys = card S"
    and "\<And>i. i \<in> S \<Longrightarrow> xs ! rank S i = ys ! rank S i"
  shows "xs = ys"
proof (rule nth_equalityI)
  show "length xs = length ys" using assms by simp
  fix j assume "j < length xs"
  then have "j \<in> rank S ` S" using assms by (simp add: rank_image)
  with assms(4) show "xs ! j = ys ! j" by auto
qed

lemma slots_ext:
  assumes "wf_node n" "wf_node n'" "slots n = slots n'"
  shows "n = n'"
proof -
  have bf: "node_bitfield n = node_bitfield n'"
    using assms(3) by (metis dom_slots positions_inject)
  have "node_pointers n = node_pointers n'"
  proof (rule by_rank_eqI)
    fix i assume "i \<in> positions (node_bitfield n)"
    then show "node_pointers n ! place n i = node_pointers n' ! place n i"
      using fun_cong [OF assms(3), of i] bf by (simp add: slots_def)
  qed (use assms bf in \<open>simp_all add: wf_node_def\<close>)
  with bf show ?thesis by (simp add: node.expand)
qed

section \<open>Writing to an occupied slot\<close>

lemma set_child_wf: "wf_node n \<Longrightarrow> wf_node (set_child n i p)"
  by (simp add: wf_node_def set_child_def)

lemma set_child_slots:
  assumes "wf_node n" "slots n i \<noteq> None"
  shows "slots (set_child n (place n i) p) = (slots n)(i \<mapsto> p)"
proof
  fix j
  show "slots (set_child n (place n i) p) j = ((slots n)(i \<mapsto> p)) j"
    using assms place_less [OF assms]
    by (auto simp: slots_def set_child_def nth_list_update rank_inj split: if_splits)
qed

section \<open>Filling and clearing a slot\<close>

lemma insert_child_slots:
  assumes "wf_node n" "slots n i = None" "i < 256"
  obtains n' where "insert_child n i k v = Inr n'" "wf_node n'"
    "slots n' = (slots n)(i \<mapsto> from_key_value k v)"
proof -
  let ?S = "positions (node_bitfield n)" and ?ps = "node_pointers n"
  have i: "i \<notin> ?S" using assms(2) by (auto simp: slots_def split: if_splits)
  obtain bf where bf: "set_bit (node_bitfield n) i = Inr bf" "positions bf = insert i ?S"
    by (rule set_bit_positions [OF assms(3)])
  have le: "rank ?S i \<le> length ?ps" using assms(1) by (simp add: wf_node_def rank_le_card)
  define n' where
    "n' = Node bf (take (rank ?S i) ?ps @ from_key_value k v # drop (rank ?S i) ?ps)"
  have "insert_child n i k v = Inr n'"
    using assms(3) le by (simp add: insert_child_def index_for_bit_pos_eq bf n'_def)
  moreover have "wf_node n'"
    using assms(1) i le by (simp add: n'_def wf_node_def bf)
  moreover have "slots n' j = ((slots n)(i \<mapsto> from_key_value k v)) j" for j
  proof (cases "j \<in> ?S")
    case True
    then have "j \<noteq> i" using i by auto
    have "rank ?S j < length ?ps" using True assms(1) by (simp add: wf_node_def rank_less_card)
    moreover have "rank ?S j < rank ?S i" if "j < i" using True that by (simp add: rank_mono_strict)
    moreover have "rank ?S i \<le> rank ?S j" if "i < j"
      using that unfolding rank_def by (intro card_mono) auto
    ultimately show ?thesis
      using True i le \<open>j \<noteq> i\<close>
      by (cases "i < j")
        (auto simp: n'_def slots_def bf rank_insert nth_append nth_Cons Suc_diff_le)
  next
    case False
    with i le show ?thesis
      by (auto simp: n'_def slots_def bf rank_insert nth_append)
  qed
  ultimately show thesis using that by blast
qed

lemma rm_child_slots:
  assumes "wf_node n" "slots n i = Some p"
  obtains n' where "rm_child n (place n i) i = Inr (p, n')" "wf_node n'"
    "slots n' = (slots n)(i := None)"
proof -
  let ?S = "positions (node_bitfield n)" and ?ps = "node_pointers n"
  have i: "i \<in> ?S" using assms(2) by (auto simp: slots_def split: if_splits)
  obtain bf where bf: "clear_bit (node_bitfield n) i = Inr bf" "positions bf = ?S - {i}"
    by (rule clear_bit_positions [OF slots_less [OF assms(2)]])
  have lt: "rank ?S i < length ?ps" using place_less assms by blast
  define n' where "n' = Node bf (take (rank ?S i) ?ps @ drop (Suc (rank ?S i)) ?ps)"
  have "rm_child n (place n i) i = Inr (p, n')"
    using lt slots_nth [OF assms(2)] by (simp add: rm_child_def bf n'_def)
  moreover have "wf_node n'"
    using assms(1) i lt by (simp add: n'_def wf_node_def bf card_Diff_singleton)
  moreover have "slots n' j = ((slots n)(i := None)) j" for j
  proof (cases "j \<in> ?S - {i}")
    case True
    then have "rank ?S j < length ?ps" using assms(1) by (simp add: wf_node_def rank_less_card)
    moreover have "rank ?S j < rank ?S i \<longleftrightarrow> j < i" "rank ?S i < rank ?S j \<longleftrightarrow> i < j"
      using True i by (simp_all add: rank_less_iff)
    ultimately show ?thesis
      using True i lt
      by (cases "i < j") (auto simp: n'_def slots_def bf rank_remove nth_append)
  qed (auto simp: n'_def slots_def bf)
  ultimately show thesis using that by blast
qed

section \<open>Finding the slot of a hash\<close>

text \<open>The cursor of key \<open>k\<close> at depth \<open>d\<close>, and the slot it selects there.\<close>

definition cursor :: "('k, 'v) hamt_ctx \<Rightarrow> nat \<Rightarrow> 'k \<Rightarrow> hash_bits" where
  "cursor X d k = new_at_index (hash_key X k) (d * bit_width X)"

definition slot_of :: "('k, 'v) hamt_ctx \<Rightarrow> nat \<Rightarrow> 'k \<Rightarrow> nat" where
  "slot_of X d k = bits_from (hash_key X k) (d * bit_width X) (bit_width X)"

definition levels :: "('k, 'v) hamt_ctx \<Rightarrow> nat" where
  "levels X = 256 div bit_width X"

text \<open>Documented behaviour of the hash algorithm and supported widths: 32 bytes, 1 to 8 bits.\<close>

definition width_ok :: "('k, 'v) hamt_ctx \<Rightarrow> bool" where
  "width_ok X \<longleftrightarrow> 0 < bit_width X \<and> bit_width X \<le> 8 \<and> (\<forall>k. length (hash_key X k) = 32)"

lemma slot_of_less: "width_ok X \<Longrightarrow> slot_of X d k < 256"
proof -
  assume "width_ok X"
  then have "(2::nat) ^ bit_width X \<le> 2 ^ 8" by (intro power_increasing) (auto simp: width_ok_def)
  with bits_from_less [of "hash_key X k" "d * bit_width X" "bit_width X"]
  show ?thesis by (simp add: slot_of_def)
qed

lemma cursor_new: "new (hash_key X k) = cursor X 0 k"
  by (simp add: new_def cursor_def)

lemma cursor_consumed: "new_at_index (hash_key X k) (consumed (cursor X d k')) = cursor X d k"
  by (simp add: cursor_def new_at_index_def)

lemma levels_fit: "width_ok X \<Longrightarrow> d < levels X \<Longrightarrow> d * bit_width X + bit_width X \<le> 256"
proof -
  assume w: "width_ok X" and d: "d < levels X"
  have "Suc d * bit_width X \<le> levels X * bit_width X" using d by (intro mult_le_mono1) simp
  also have "\<dots> \<le> 256" by (simp add: levels_def)
  finally show ?thesis by simp
qed

lemma levels_le: "width_ok X \<Longrightarrow> levels X \<le> 256"
  by (simp add: levels_def)

lemma cursor_next:
  assumes "width_ok X" "d < levels X"
  obtains r where "next_idx (cursor X d k) (bit_width X) = Inr (r, cursor X (Suc d) k)"
    and "unat r = slot_of X d k"
proof (rule next_idx_spec [of "cursor X d k" "bit_width X"])
  show "consumed (cursor X d k) + bit_width X \<le> 8 * length (hb_b (cursor X d k))"
    using levels_fit [OF assms] assms(1) by (simp add: cursor_def new_at_index_def width_ok_def)
  fix r
  assume "next_idx (cursor X d k) (bit_width X) =
      Inr (r, (cursor X d k)\<lparr>consumed := consumed (cursor X d k) + bit_width X\<rparr>)"
    and "unat r = bits_from (hb_b (cursor X d k)) (consumed (cursor X d k)) (bit_width X)"
  then show thesis
    by (intro that) (simp_all add: cursor_def new_at_index_def slot_of_def add.commute)
qed (use assms(1) in \<open>simp_all add: width_ok_def\<close>)

lemma locate_slots:
  assumes "width_ok X" "d < levels X" "wf_node n"
  shows "locate X (cursor X d k) n =
    Inr (slot_of X d k, cursor X (Suc d) k,
         map_option (\<lambda>p. (place n (slot_of X d k), p)) (slots n (slot_of X d k)))"
proof -
  obtain r where r: "next_idx (cursor X d k) (bit_width X) = Inr (r, cursor X (Suc d) k)"
      "unat r = slot_of X d k"
    by (rule cursor_next [OF assms(1,2)])
  have lt: "slot_of X d k < 256" using assms(1) by (rule slot_of_less)
  show ?thesis
  proof (cases "slots n (slot_of X d k)")
    case None
    then have "slot_of X d k \<notin> positions (node_bitfield n)" by (simp add: slots_def split: if_splits)
    with None r lt show ?thesis by (simp add: locate_def)
  next
    case (Some p)
    then have "slot_of X d k \<in> positions (node_bitfield n)" by (simp add: slots_def split: if_splits)
    with Some r lt place_less [OF assms(3)] slots_nth [OF Some] show ?thesis
      by (simp add: locate_def index_for_bit_pos_eq get_child_def)
  qed
qed

lemma locate_exhausted:
  assumes "width_ok X" "d * bit_width X + bit_width X > 256"
  shows "locate X (cursor X d k) n = Inl (Anyhow ''Maximum depth reached'')"
proof -
  have "next_idx (cursor X d k) (bit_width X) = Inl (Anyhow ''Maximum depth reached'')"
    using assms by (intro next_idx_exhausted) (auto simp: cursor_def new_at_index_def width_ok_def)
  then show ?thesis by (simp add: locate_def)
qed

end
