(* ===== verification/Hamt_Update.thy ===== *)
theory Hamt_Update
  imports Hamt_Rep "HOL-Library.Multiset"
begin

text \<open>
  Insertion and removal in the HAMT refine update and deletion on maps, keep the canonical
  form, reach no panic, and end within the number of levels a 256-bit hash has.
\<close>

section \<open>Insertion\<close>

text \<open>What becomes of the value at a key, with and without permission to overwrite.\<close>

definition put_val :: "bool \<Rightarrow> 'v \<Rightarrow> 'v option \<Rightarrow> 'v option" where
  "put_val overwrite v x = (if overwrite \<or> x = None then Some v else x)"

definition put_old :: "bool \<Rightarrow> 'v \<Rightarrow> 'v option \<Rightarrow> 'v option \<times> bool" where
  "put_old overwrite v x = (if overwrite then x else None, put_val overwrite v x \<noteq> x)"

lemma put_val_None [simp]: "put_val ov v None = Some v"
  by (simp add: put_val_def)

lemma put_old_None [simp]: "put_old ov v None = (None, True)"
  by (simp add: put_old_def)

lemma card_dom_put:
  assumes "c < card (dom m)"
  shows "c < card (dom (m(k := put_val ov v (m k))))"
proof -
  have "finite (dom m)" using assms card.infinite by fastforce
  then have "card (dom m) \<le> card (dom (m(k := put_val ov v (m k))))"
    by (intro card_mono) (auto simp: put_val_def)
  with assms show ?thesis by simp
qed

text \<open>Moving the entries of a full array into an empty subshard, for any insertion routine.\<close>

lemma reinsert_ok:
  assumes "\<And>k v sub ms. (k, v) \<in> set kvs \<Longrightarrow> P sub ms \<Longrightarrow> ms k = None \<Longrightarrow>
      \<exists>r sub'. ins k v sub = (Inr r, sub') \<and> P sub' (ms(k \<mapsto> v))"
    and "P sub ms" and "distinct (map fst kvs)" and "\<forall>k \<in> fst ` set kvs. ms k = None"
  shows "\<exists>sub'. reinsert ins kvs sub = (Inr (), sub') \<and> P sub' (ms ++ map_of kvs)"
  using assms
proof (induction kvs arbitrary: sub ms)
  case (Cons kv kvs)
  obtain k v where kv: "kv = (k, v)" by (cases kv)
  obtain r sub1 where s1: "ins k v sub = (Inr r, sub1)" "P sub1 (ms(k \<mapsto> v))"
  proof -
    have "\<exists>r sub'. ins k v sub = (Inr r, sub') \<and> P sub' (ms(k \<mapsto> v))"
      by (rule Cons.prems(1)) (use Cons.prems(2,4) kv in auto)
    then show thesis using that by blast
  qed
  have "\<exists>sub'. reinsert ins kvs sub1 = (Inr (), sub') \<and> P sub' (ms(k \<mapsto> v) ++ map_of kvs)"
  proof (rule Cons.IH [OF Cons.prems(1) s1(2)])
    show "\<forall>k' \<in> fst ` set kvs. (ms(k \<mapsto> v)) k' = None" using Cons.prems(3,4) kv by auto
  qed (use Cons.prems(3) in auto)
  moreover have "ms(k \<mapsto> v) ++ map_of kvs = ms ++ map_of (kv # kvs)"
    using Cons.prems(3) kv by (simp add: map_add_upd_left dom_map_of_conv_image_fst)
  moreover have "reinsert ins (kv # kvs) sub = reinsert ins kvs sub1" using s1(1) kv by simp
  ultimately show ?case by (simp only:)
qed simp

definition insertable ::
    "nat \<Rightarrow> nat \<Rightarrow> ('k::linorder, 'v) hamt_ctx \<Rightarrow> blocks \<Rightarrow> bool \<Rightarrow> nat \<Rightarrow> bool" where
  "insertable f l X s ov d \<longleftrightarrow>
     (\<forall>k v n m. node_rep l X s d n m \<longrightarrow> (\<forall>k' \<in> dom m. agree X d k k') \<longrightarrow>
        collision_free X (insert k (dom m)) \<longrightarrow>
        (\<exists>n'. modify_value f X s ov (cursor X d k) k v n = (Inr (put_old ov v (m k)), n') \<and>
              node_rep l X s d n' (m(k := put_val ov v (m k)))))"

lemma insertableD:
  assumes "insertable f l X s ov d" "node_rep l X s d n m" "\<forall>k' \<in> dom m. agree X d k k'"
    "collision_free X (insert k (dom m))"
  obtains n' where "modify_value f X s ov (cursor X d k) k v n = (Inr (put_old ov v (m k)), n')"
    "node_rep l X s d n' (m(k := put_val ov v (m k)))"
  using assms unfolding insertable_def by blast

text \<open>A full array and a new key become a subshard with one entry more.\<close>

lemma subshard:
  assumes "insertable f (Suc l) X s ov d" and "distinct (map fst kvs)" and "k \<notin> fst ` set kvs"
    and "\<forall>k' \<in> fst ` set kvs. agree X d k k'" and cf: "collision_free X (insert k (fst ` set kvs))"
  obtains sub sub' where
    "modify_value f X s ov (cursor X d k) k v empty_node = (Inr (None, True), sub)"
    "reinsert (\<lambda>k' v' n. modify_value f X s ov (cursor X d k') k' v' n) kvs sub = (Inr (), sub')"
    "node_rep (Suc l) X s d sub' ((map_of kvs)(k \<mapsto> v))"
proof -
  obtain sub where sub: "modify_value f X s ov (cursor X d k) k v empty_node = (Inr (None, True), sub)"
      "node_rep (Suc l) X s d sub [k \<mapsto> v]"
    using insertableD [OF assms(1) node_rep_empty, of k v] collision_free_subset [OF cf, of "{k}"] by auto
  define P where "P n ms \<longleftrightarrow> node_rep (Suc l) X s d n ms \<and> (\<forall>k' \<in> dom ms. agree X d k k') \<and>
    dom ms \<subseteq> insert k (fst ` set kvs)" for n ms
  have "\<exists>sub'. reinsert (\<lambda>k' v' n. modify_value f X s ov (cursor X d k') k' v' n) kvs sub = (Inr (), sub')
      \<and> P sub' ([k \<mapsto> v] ++ map_of kvs)"
  proof (rule reinsert_ok)
    show "P sub [k \<mapsto> v]" using sub(2) by (simp add: P_def agree_def)
  next
    fix k' v' n ms
    assume kv: "(k', v') \<in> set kvs" and P: "P n ms" and new: "ms k' = None"
    have ag: "agree X d k k'" using assms(4) kv by force
    then have "\<forall>k'' \<in> dom ms. agree X d k' k''" using P by (auto simp: P_def intro: agree_slot_trans)
    moreover have "insert k' (dom ms) \<subseteq> insert k (fst ` set kvs)" using P kv by (force simp: P_def)
    then have "collision_free X (insert k' (dom ms))" using cf collision_free_subset by blast
    ultimately obtain n' where "modify_value f X s ov (cursor X d k') k' v' n = (Inr (put_old ov v' (ms k')), n')"
        "node_rep (Suc l) X s d n' (ms(k' := put_val ov v' (ms k')))"
      using P unfolding P_def by (elim conjE) (rule insertableD [OF assms(1)])
    moreover have "k' \<in> fst ` set kvs" using kv by force
    ultimately show "\<exists>r n'. modify_value f X s ov (cursor X d k') k' v' n = (Inr r, n') \<and> P n' (ms(k' \<mapsto> v'))"
      using P ag new by (auto simp: P_def)
  qed (use assms in auto)
  moreover have "[k \<mapsto> v] ++ map_of kvs = (map_of kvs)(k \<mapsto> v)"
    using assms(3) by (simp add: map_add_upd_left dom_map_of_conv_image_fst)
  ultimately show thesis using that sub(1) by (auto simp: P_def)
qed

text \<open>Insertion into an inline array.\<close>

lemma modify_values:
  assumes "hamt_ok X" and "node_rep (Suc l) X s d n m" and "Suc d + l = levels X"
    and "\<forall>k' \<in> dom m. agree X d k k'" and "insertable f l X s ov (Suc d)"
    and "slots n (slot_of X d k) = Some (Values kvs)" and cf: "collision_free X (insert k (dom m))"
  shows "\<exists>n'. modify_value (Suc f) X s ov (cursor X d k) k v n = (Inr (put_old ov v (m k)), n') \<and>
      node_rep (Suc l) X s d n' (m(k := put_val ov v (m k)))"
proof -
  let ?i = "slot_of X d k"
  have loc: "locate X (cursor X d k) n = Inr (?i, cursor X (Suc d) k, Some (place n ?i, Values kvs))"
    using assms(1,3,6) node_rep_wf [OF assms(2)] by (subst locate_slots) (auto simp: hamt_ok_def)
  have at: "at_slot X d m ?i = map_of kvs" and srt: "sorted_kvs kvs" and ne: "kvs \<noteq> []"
      and len: "length kvs \<le> MAX_ARRAY_WIDTH"
    using node_repD [OF assms(2,6)] by simp_all
  have mk: "m k = map_of kvs k" using at by (metis at_slot_own)
  note dist = sorted_kvs_distinct [OF srt]
  note upd = node_rep_set_child [OF assms(2), of k _ "put_val ov v (m k)"]
  show ?thesis
  proof (cases "position (\<lambda>p. fst p = k) kvs")
    case (Some j)
    then have j: "j < length kvs" "fst (kvs ! j) = k" by (auto dest: position_Some)
    then have mkj: "m k = Some (snd (kvs ! j))"
      unfolding mk using dist nth_mem [OF j(1)] by (intro map_of_is_SomeI) auto
    have "ptr_rep (node_rep l X s (Suc d)) X s (Values (kvs[j := (k, v)])) ((at_slot X d m ?i)(k \<mapsto> v))"
      using j srt ne len dist by (simp add: at map_of_overwrite sorted_kvs_def keys_overwrite)
    with upd [of "Values (kvs[j := (k, v)])"] Some loc assms(2,6) mkj j show ?thesis
      by (auto simp: put_old_def put_val_def fun_upd_idem)
  next
    case None
    then have new: "k \<notin> fst ` set kvs" by (auto simp: position_None)
    then have mkN: "m k = None" by (simp add: mk map_of_eq_None_iff)
    show ?thesis
    proof (cases "MAX_ARRAY_WIDTH \<le> length kvs")
      case False
      have "ptr_rep (node_rep l X s (Suc d)) X s (Values (insert_sorted k v kvs)) ((at_slot X d m ?i)(k \<mapsto> v))"
        using False new srt by (simp add: at insert_sorted_map_of insert_sorted_sorted)
      with upd [of "Values (insert_sorted k v kvs)"] None False loc assms(6) mkN show ?thesis by simp
    next
      case True
      have ag: "\<forall>k' \<in> fst ` set kvs. agree X (Suc d) k k'"
        using agree_at_slot [OF assms(4)] by (simp add: at dom_map_of_conv_image_fst)
      have "fst ` set kvs \<subseteq> dom m"
        using dom_at_slot [of X d m ?i] by (auto simp: at dom_map_of_conv_image_fst)
      then have cfk: "collision_free X (insert k (fst ` set kvs))"
        by (intro collision_free_subset [OF cf]) auto
      have "l \<noteq> 0"
      proof
        assume "l = 0"
        then have "k' = k" if "k' \<in> fst ` set kvs" for k'
          using agree_all [OF cfk, of k k'] ag that assms(3) by auto
        with ne new show False by (cases kvs) auto
      qed
      then obtain l' where l: "l = Suc l'" by (cases l) auto
      obtain sub sub' where sub:
        "modify_value f X s ov (cursor X (Suc d) k) k v empty_node = (Inr (None, True), sub)"
        "reinsert (\<lambda>k' v' n. modify_value f X s ov (cursor X (Suc d) k') k' v' n) kvs sub = (Inr (), sub')"
        "node_rep l X s (Suc d) sub' ((map_of kvs)(k \<mapsto> v))"
        by (rule subshard [OF assms(5) [unfolded l] dist new ag cfk, folded l])
      have "card (dom ((map_of kvs)(k \<mapsto> v))) = Suc (length kvs)"
        using new card_dom_map_of [OF dist] by (simp add: dom_map_of_conv_image_fst)
      then have "ptr_rep (node_rep l X s (Suc d)) X s (Dirty sub') ((at_slot X d m ?i)(k \<mapsto> v))"
        using sub(3) True by (simp add: at)
      with upd [of "Dirty sub'"] None True loc assms(6) mkN sub(1,2) show ?thesis
        by (simp add: cursor_consumed)
    qed
  qed
qed

lemma modify_value_rep:
  assumes "hamt_ok X" and "d + l = levels X" and "l \<le> f"
  shows "insertable f l X s ov d"
  using assms(2-)
proof (induction l arbitrary: d f)
  case 0
  then show ?case by (simp add: insertable_def)
next
  case (Suc l)
  obtain g where f: "f = Suc g" "l \<le> g" using Suc.prems(2) by (cases f) auto
  have IH: "insertable g l X s ov (Suc d)" using Suc f by simp
  show ?case unfolding insertable_def
  proof (intro allI impI)
    fix k v n m
    assume rep: "node_rep (Suc l) X s d n m" and ag: "\<forall>k' \<in> dom m. agree X d k k'"
      and cf: "collision_free X (insert k (dom m))"
    let ?i = "slot_of X d k"
    let ?m' = "m(k := put_val ov v (m k))" and ?a = "at_slot X d m (slot_of X d k)"
    have loc: "locate X (cursor X d k) n =
        Inr (?i, cursor X (Suc d) k, map_option (\<lambda>p. (place n ?i, p)) (slots n ?i))"
      using assms(1) Suc.prems node_rep_wf [OF rep] by (intro locate_slots) (auto simp: hamt_ok_def)
    have cfa: "collision_free X (insert k (dom ?a))"
      by (rule collision_free_subset [OF cf]) (auto simp: dom_at_slot)
    have step: "\<exists>n''. modify_value g X s ov (cursor X (Suc d) k) k v n' = (Inr (put_old ov v (m k)), n'') \<and>
        node_rep l X s (Suc d) n'' (?a(k := put_val ov v (m k)))"
      if "node_rep l X s (Suc d) n' ?a" for n'
      using insertableD [OF IH that agree_at_slot [OF ag] cfa, of v] by auto
    have card: "MAX_ARRAY_WIDTH < card (dom (?a(k := put_val ov v (m k))))" if "MAX_ARRAY_WIDTH < card (dom ?a)"
      using card_dom_put [OF that, of k ov v] by simp
    note upd = node_rep_set_child [OF rep, of k _ "put_val ov v (m k)"]
    show "\<exists>n'. modify_value f X s ov (cursor X d k) k v n = (Inr (put_old ov v (m k)), n') \<and>
        node_rep (Suc l) X s d n' ?m'"
    proof (cases "slots n ?i")
      case None
      obtain n' where n': "insert_child n ?i k v = Inr n'" "wf_node n'"
          "slots n' = (slots n)(?i := Some (from_key_value k v))"
        using insert_child_slots [OF node_rep_wf [OF rep] None slot_of_less] assms(1) by (auto simp: hamt_ok_def)
      have a: "?a = Map.empty" using node_repD [OF rep None] by simp
      then have mk: "m k = None" by (metis at_slot_own)
      have "node_rep (Suc l) X s d n' (m(k \<mapsto> v))"
        by (rule node_rep_upd [OF rep n'(2,3)])
          (auto simp: at_slot_upd a from_key_value_def sorted_kvs_def MAX_ARRAY_WIDTH_def)
      with n'(1) None loc mk f show ?thesis by simp
    next
      case (Some p)
      then have p: "ptr_rep (node_rep l X s (Suc d)) X s p ?a" using node_repD [OF rep Some] by simp
      show ?thesis
      proof (cases p)
        case (Values kvs)
        then show ?thesis
          unfolding f using modify_values [OF assms(1) rep _ ag IH _ cf] Some Suc.prems(1) by simp
      next
        case (Link c cache)
        obtain n1 where n1: "force X s c cache = Inr n1" "node_rep l X s (Suc d) n1 ?a"
          using force_link [OF assms(1)] p Link by metis
        obtain n2 where n2: "modify_value g X s ov (cursor X (Suc d) k) k v n1 = (Inr (put_old ov v (m k)), n2)"
            "node_rep l X s (Suc d) n2 (?a(k := put_val ov v (m k)))"
          using step [OF n1(2)] by blast
        show ?thesis
        proof (cases "put_val ov v (m k) = m k")
          case True
          then have "?a(k := put_val ov v (m k)) = ?a" by (metis at_slot_own fun_upd_triv)
          then have "ptr_rep (node_rep l X s (Suc d)) X s (Link c (Some n2)) ?a"
            using p Link n2(2) by simp
          with node_rep_touch [OF rep, of k "Link c (Some n2)"] True n1(1) n2(1) Link Some loc f
          show ?thesis by (simp add: put_old_def)
        next
          case False
          with n1 n2 Link Some loc f p card upd [of "Dirty n2"] show ?thesis by (simp add: put_old_def)
        qed
      next
        case (Dirty n1)
        obtain n2 where "modify_value g X s ov (cursor X (Suc d) k) k v n1 = (Inr (put_old ov v (m k)), n2)"
            "node_rep l X s (Suc d) n2 (?a(k := put_val ov v (m k)))"
          using step p Dirty by auto
        with Dirty Some loc f p card upd [of "Dirty n2"] show ?thesis by simp
      qed
    qed
  qed
qed

section \<open>Enumerating the entries of a node\<close>

lemma node_rep_None: "node_rep (Suc l) X s d n m \<Longrightarrow> slots n i = None \<Longrightarrow> at_slot X d m i = Map.empty"
  using node_repD [of l X s d n m i None] by simp

definition enumerates :: "('k \<times> 'v) list \<Rightarrow> ('k \<rightharpoonup> 'v) \<Rightarrow> bool" where
  "enumerates kvs m \<longleftrightarrow> distinct (map fst kvs) \<and> map_of kvs = m"

lemma enumeratesI:
  assumes "finite (dom m)" and "\<And>k v. (k, v) \<in> set kvs \<longleftrightarrow> m k = Some v" and "length kvs = card (dom m)"
  shows "enumerates kvs m"
proof -
  have "set (map fst kvs) = dom m" using assms(2) by (force simp: image_iff)
  then have "distinct (map fst kvs)" using assms(3) by (intro card_distinct) simp
  moreover have "map_of kvs = m"
  proof
    fix k
    show "map_of kvs k = m k"
      using assms(2) calculation by (cases "m k") (auto simp: map_of_eq_None_iff)
  qed
  ultimately show ?thesis by (simp add: enumerates_def)
qed

lemma enumeratesD:
  assumes "enumerates kvs m"
  shows "finite (dom m)" "(k, v) \<in> set kvs \<longleftrightarrow> m k = Some v" "length kvs = card (dom m)"
  using assms by (auto simp: enumerates_def finite_dom_map_of card_dom_map_of)

lemma enumerates_mset: "enumerates kvs m \<Longrightarrow> mset kvs' = mset kvs \<Longrightarrow> enumerates kvs' m"
  by (rule enumeratesI) (auto dest: enumeratesD mset_eq_setD mset_eq_length simp: enumeratesD(3))

lemma sum_by_rank:
  assumes "finite S" "length xs = card S"
  shows "sum_list (map g xs) = (\<Sum>i\<in>S. g (xs ! rank S i))"
proof -
  have "sum_list (map g xs) = (\<Sum>j<card S. g (xs ! j))"
    using assms(2) by (simp add: sum_list_sum_nth atLeast0LessThan)
  also have "\<dots> = (\<Sum>j\<in>rank S ` S. g (xs ! j))" using assms(1) by (simp add: rank_image)
  also have "\<dots> = (\<Sum>i\<in>S. g (xs ! rank S i))"
    using assms(1) by (subst sum.reindex) (auto simp: inj_on_def rank_inj)
  finally show ?thesis .
qed

lemma pointer_slot: "wf_node n \<Longrightarrow> p \<in> set (node_pointers n) \<Longrightarrow> \<exists>i. slots n i = Some p"
  using ran_slots [of n] by (auto simp: ran_def)

lemma slot_pointer: "wf_node n \<Longrightarrow> slots n i = Some p \<Longrightarrow> p \<in> set (node_pointers n)"
  using ran_slots [of n] by (auto simp: ran_def)

lemma enumerates_concat:
  assumes "wf_node n"
    and "\<And>i. slots n i = None \<Longrightarrow> at_slot X d m i = Map.empty"
    and "\<And>i p. slots n i = Some p \<Longrightarrow> enumerates (out p) (at_slot X d m i)"
  shows "enumerates (concat (map out (node_pointers n))) m"
proof (rule enumeratesI)
  let ?S = "positions (node_bitfield n)"
  have dm: "dom m = (\<Union>i\<in>?S. dom (at_slot X d m i))"
  proof (intro set_eqI iffI)
    fix k assume "k \<in> dom m"
    then have "at_slot X d m (slot_of X d k) k \<noteq> None" by auto
    then have "slots n (slot_of X d k) \<noteq> None" using assms(2) by fastforce
    then have "slot_of X d k \<in> ?S" by (auto simp flip: dom_slots)
    with \<open>k \<in> dom m\<close> show "k \<in> (\<Union>i\<in>?S. dom (at_slot X d m i))" by (auto simp: dom_at_slot)
  qed (auto simp: dom_at_slot)
  have en: "enumerates (out (node_pointers n ! rank ?S i)) (at_slot X d m i)" if "i \<in> ?S" for i
    using assms(3) [of i] that by (simp add: slots_def)
  show fin: "finite (dom m)" unfolding dm using enumeratesD(1) [OF en] by auto
  show "(k, v) \<in> set (concat (map out (node_pointers n))) \<longleftrightarrow> m k = Some v" for k v
  proof -
    have "(k, v) \<in> set (concat (map out (node_pointers n))) \<longleftrightarrow> (\<exists>i p. slots n i = Some p \<and> (k, v) \<in> set (out p))"
      unfolding set_concat set_map ran_slots [OF assms(1), symmetric] by (auto simp: ran_def)
    also have "\<dots> \<longleftrightarrow> (\<exists>i p. slots n i = Some p \<and> at_slot X d m i k = Some v)"
      using enumeratesD(2) [OF assms(3)] by blast
    also have "\<dots> \<longleftrightarrow> m k = Some v"
      using assms(2) [of "slot_of X d k"] by (auto simp: at_slot_Some) (metis at_slot_own not_Some_eq)
    finally show ?thesis .
  qed
  have "length (concat (map out (node_pointers n))) = sum_list (map (\<lambda>p. length (out p)) (node_pointers n))"
    by (simp add: length_concat comp_def)
  also have "\<dots> = (\<Sum>i\<in>?S. length (out (node_pointers n ! rank ?S i)))"
    using assms(1) by (intro sum_by_rank) (auto simp: wf_node_def)
  also have "\<dots> = (\<Sum>i\<in>?S. card (dom (at_slot X d m i)))" using enumeratesD(3) [OF en] by (intro sum.cong) auto
  also have "\<dots> = card (\<Union>i\<in>?S. dom (at_slot X d m i))"
    by (intro card_UN_disjoint [symmetric]) (use fin in \<open>auto simp: dom_at_slot\<close>)
  also have "\<dots> = card (dom m)" by (simp only: dm)
  finally show "length (concat (map out (node_pointers n))) = card (dom m)" .
qed

section \<open>Cleaning\<close>

lemma children_len_Some:
  "children_len ps = Some q \<Longrightarrow> (\<forall>p \<in> set ps. \<exists>vals. p = Values vals) \<and> length (child_vals ps) = q"
proof (induction ps arbitrary: q rule: children_len.induct)
  case (2 vals ps)
  then show ?case by (cases "children_len ps") auto
qed auto

lemma children_len_None: "children_len ps = None \<longleftrightarrow> \<not> (\<forall>p \<in> set ps. \<exists>vals. p = Values vals)"
  by (induction ps rule: children_len.induct) auto

fun pointer_vals :: "('k, 'v) pointer \<Rightarrow> ('k \<times> 'v) list" where
  "pointer_vals (Values vals) = vals"
| "pointer_vals _ = []"

lemma child_vals_concat: "child_vals ps = concat (map pointer_vals ps)"
  by (induction ps rule: child_vals.induct) auto

lemma child_vals_enumerates:
  assumes "node_rep (Suc l) X s d n m" and "\<forall>p \<in> set (node_pointers n). \<exists>vals. p = Values vals"
  shows "enumerates (child_vals (node_pointers n)) m"
  unfolding child_vals_concat
proof (rule enumerates_concat [OF node_rep_wf [OF assms(1)]])
  fix i p assume p: "slots n i = Some p"
  then have "p \<in> set (node_pointers n)" by (rule slot_pointer [OF node_rep_wf [OF assms(1)]])
  then obtain vals where "p = Values vals" using assms(2) by auto
  then show "enumerates (pointer_vals p) (at_slot X d m i)"
    using node_repD [OF assms(1) p] by (auto simp: enumerates_def sorted_kvs_distinct)
qed (rule node_rep_None [OF assms(1)])

text \<open>Each child of a node has an entry, and children that are not inline have more than three.\<close>

lemma pointer_count:
  assumes "node_rep (Suc l) X s d n m" and "\<forall>p \<in> set (node_pointers n). \<exists>vals. p = Values vals"
  shows "length (node_pointers n) \<le> length (child_vals (node_pointers n))"
proof -
  have "\<forall>p \<in> set (node_pointers n). 1 \<le> length (pointer_vals p)"
  proof
    fix p assume p: "p \<in> set (node_pointers n)"
    then obtain i where i: "slots n i = Some p" using pointer_slot [OF node_rep_wf [OF assms(1)]] by blast
    obtain vals where "p = Values vals" using assms(2) p by auto
    with node_repD [OF assms(1) i] show "1 \<le> length (pointer_vals p)" by (simp add: Suc_leI)
  qed
  then have "length ps \<le> length (concat (map pointer_vals ps))" if "set ps \<subseteq> set (node_pointers n)" for ps
    using that
  proof (induction ps)
    case (Cons p ps)
    then show ?case using \<open>\<forall>p \<in> set (node_pointers n). 1 \<le> length (pointer_vals p)\<close> by fastforce
  qed simp
  then show ?thesis by (simp add: child_vals_concat)
qed

lemma small_all_values:
  assumes "node_rep (Suc l) X s d n m" and "finite (dom m)" and "card (dom m) \<le> MAX_ARRAY_WIDTH"
  shows "\<forall>p \<in> set (node_pointers n). \<exists>vals. p = Values vals"
proof
  fix p assume p: "p \<in> set (node_pointers n)"
  then obtain i where i: "slots n i = Some p" using pointer_slot [OF node_rep_wf [OF assms(1)]] by blast
  have "card (dom (at_slot X d m i)) \<le> card (dom m)"
    using assms(2) by (intro card_mono) (auto simp: dom_at_slot)
  with node_repD [OF assms(1) i] assms(3) show "\<exists>vals. p = Values vals" by (cases p) auto
qed

lemma sort_kvs: "distinct (map fst kvs) \<Longrightarrow> sorted_kvs (sort_key fst kvs) \<and> map_of (sort_key fst kvs) = map_of kvs"
proof -
  assume d: "distinct (map fst kvs)"
  have ms: "mset (sort_key fst kvs) = mset kvs" by simp
  have "enumerates (sort_key fst kvs) (map_of kvs)"
    using d by (intro enumerates_mset [OF _ ms]) (simp add: enumerates_def)
  then show ?thesis by (auto simp: enumerates_def sorted_kvs_def strict_sorted_iff)
qed

lemma finite_node_rep: "node_rep l X s d n m \<Longrightarrow> finite (dom m)"
proof -
  assume rep: "node_rep l X s d n m"
  then obtain l' where l: "l = Suc l'" by (cases l) auto
  have fin: "finite (dom (at_slot X d m i))" for i
    using node_repD [OF rep [unfolded l] refl, of i]
    by (cases "slots n i"; cases "the (slots n i)")
      (auto simp: finite_dom_map_of, (metis card.infinite not_less_zero)+)
  have "dom m \<subseteq> (\<Union>i\<in>positions (node_bitfield n). dom (at_slot X d m i))"
  proof
    fix k assume "k \<in> dom m"
    then have "at_slot X d m (slot_of X d k) \<noteq> Map.empty" by (metis at_slot_own domIff)
    then have "slots n (slot_of X d k) \<noteq> None" using node_rep_None [OF rep [unfolded l]] by blast
    then have "slot_of X d k \<in> positions (node_bitfield n)" by (auto simp flip: dom_slots)
    with \<open>k \<in> dom m\<close> show "k \<in> (\<Union>i\<in>positions (node_bitfield n). dom (at_slot X d m i))"
      by (auto simp: dom_at_slot)
  qed
  then show ?thesis using fin by (rule finite_subset [OF _ finite_UN_I [OF finite_positions]])
qed

text \<open>\<open>clean\<close> restores the canonical form of a pointer to a nonempty node.\<close>

lemma clean_rep:
  assumes "node_rep l X s d n m" and "m \<noteq> Map.empty"
  obtains p where "clean (Dirty n) = Inr p" "ptr_rep (node_rep l X s d) X s p m"
proof -
  let ?ps = "node_pointers n"
  obtain l' where l: "l = Suc l'" using assms(1) by (cases l) auto
  note rep = assms(1) [unfolded l]
  have fin: "finite (dom m)" by (rule finite_node_rep [OF assms(1)])
  have ne: "?ps \<noteq> []"
  proof
    assume "?ps = []"
    then have "enumerates [] m" using child_vals_enumerates [OF rep] by simp
    with assms(2) show False by (simp add: enumerates_def)
  qed
  show thesis
  proof (cases "card (dom m) \<le> MAX_ARRAY_WIDTH")
    case True
    note vals = small_all_values [OF rep fin True]
    have en: "enumerates (child_vals ?ps) m" by (rule child_vals_enumerates [OF rep vals])
    then have len: "length (child_vals ?ps) = card (dom m)" by (rule enumeratesD)
    have le: "length ?ps \<le> MAX_ARRAY_WIDTH" using pointer_count [OF rep vals] len True by simp
    obtain q where q: "children_len ?ps = Some q" using vals children_len_None [of ?ps] by auto
    then have "q = card (dom m)" using children_len_Some len by metis
    show thesis
    proof (cases "length ?ps = 1")
      case one: True
      then obtain kvs where kvs: "?ps = [Values kvs]" using vals by (cases ?ps) auto
      obtain i where i: "slots n i = Some (Values kvs)"
        using kvs pointer_slot [OF node_rep_wf [OF rep]] by (metis list.set_intros(1))
      have "sorted_kvs kvs" "kvs \<noteq> []" using node_repD [OF rep i] by simp_all
      then have "ptr_rep (node_rep l X s d) X s (Values kvs) m"
        using en kvs len True by (simp add: enumerates_def)
      moreover have "clean (Dirty n) = Inr (Values kvs)" using kvs by simp
      ultimately show thesis using that by blast
    next
      case False
      have "child_vals ?ps \<noteq> []" using pointer_count [OF rep vals] ne by auto
      then have "ptr_rep (node_rep l X s d) X s (Values (sort_key fst (child_vals ?ps))) m"
        using en len True sort_kvs [of "child_vals ?ps"]
        by (auto simp: enumerates_def simp flip: length_0_conv)
      moreover have "clean (Dirty n) = Inr (Values (sort_key fst (child_vals ?ps)))"
        using ne le False q \<open>q = card (dom m)\<close> True by simp
      ultimately show thesis using that by blast
    qed
  next
    case False
    have "clean (Dirty n) = Inr (Dirty n)"
    proof (cases "\<forall>p \<in> set ?ps. \<exists>vals. p = Values vals")
      case True
      then have en: "enumerates (child_vals ?ps) m" by (rule child_vals_enumerates [OF rep])
      have big: "MAX_ARRAY_WIDTH < length (child_vals ?ps)" using enumeratesD(3) [OF en] False by simp
      have "length ?ps \<noteq> 1"
      proof
        assume "length ?ps = 1"
        then obtain kvs where kvs: "?ps = [Values kvs]" using True by (cases ?ps) auto
        then obtain i where "slots n i = Some (Values kvs)"
          using pointer_slot [OF node_rep_wf [OF rep]] by (metis list.set_intros(1))
        from node_repD [OF rep this] big kvs show False by simp
      qed
      moreover have "children_len ?ps = None \<or> children_len ?ps = Some (length (child_vals ?ps))"
        using children_len_Some [of ?ps] by (cases "children_len ?ps") auto
      ultimately show ?thesis using ne big by (auto simp: Let_def)
    next
      case False
      then have "children_len ?ps = None" by (simp add: children_len_None)
      moreover have "\<nexists>vals. ?ps ! 0 = Values vals" if "length ?ps = 1"
        using False that by (cases ?ps) auto
      ultimately show ?thesis using ne by (auto simp: Let_def split: pointer.split)
    qed
    moreover have "ptr_rep (node_rep l X s d) X s (Dirty n) m" using assms(1) False by simp
    ultimately show thesis using that by blast
  qed
qed

section \<open>Removal\<close>

lemma card_dom_del: "finite (dom m) \<Longrightarrow> c < card (dom m) \<Longrightarrow> c \<le> card (dom (m(k := None)))"
  by (auto simp: card_Diff_singleton_if)

lemma del_nonempty: "MAX_ARRAY_WIDTH < card (dom m) \<Longrightarrow> m(k := None) \<noteq> Map.empty"
proof
  assume c: "MAX_ARRAY_WIDTH < card (dom m)" and "m(k := None) = Map.empty"
  then have "dom m \<subseteq> {k}" by (metis domIff fun_upd_apply singletonI subsetI)
  then have "card (dom m) \<le> 1" using card_mono [of "{k}" "dom m"] by simp
  with c show False by (simp add: MAX_ARRAY_WIDTH_def)
qed

lemma rm_values:
  assumes "hamt_ok X" and "node_rep (Suc l) X s d n m" and "d < levels X"
    and "slots n (slot_of X d k) = Some (Values kvs)"
  shows "\<exists>n'. rm_value (Suc f) X s (cursor X d k) k n = (Inr (map_option (Pair k) (m k)), n') \<and>
      node_rep (Suc l) X s d n' (m(k := None))"
proof -
  let ?i = "slot_of X d k"
  have loc: "locate X (cursor X d k) n = Inr (?i, cursor X (Suc d) k, Some (place n ?i, Values kvs))"
    using assms(1,3,4) node_rep_wf [OF assms(2)] by (subst locate_slots) (auto simp: hamt_ok_def)
  have at: "at_slot X d m ?i = map_of kvs" and srt: "sorted_kvs kvs" and ne: "kvs \<noteq> []"
      and len: "length kvs \<le> MAX_ARRAY_WIDTH"
    using node_repD [OF assms(2,4)] by simp_all
  have mk: "m k = map_of kvs k" using at by (metis at_slot_own)
  note dist = sorted_kvs_distinct [OF srt]
  show ?thesis
  proof (cases "position (\<lambda>p. k = fst p) kvs")
    case None
    then have "k \<notin> fst ` set kvs" by (auto simp: position_None)
    then have "m k = None" by (simp add: mk map_of_eq_None_iff)
    with None loc assms(2) show ?thesis by (simp add: fun_upd_idem)
  next
    case (Some j)
    then have j: "j < length kvs" "fst (kvs ! j) = k" by (auto dest: position_Some)
    then have mkj: "m k = Some (snd (kvs ! j))"
      unfolding mk using dist nth_mem [OF j(1)] by (intro map_of_is_SomeI) auto
    then have res: "map_option (Pair k) (m k) = Some (kvs ! j)" using j by (simp add: prod_eq_iff)
    show ?thesis
    proof (cases "length kvs = 1")
      case True
      then obtain kv where kv: "kvs = [kv]" "j = 0" using j by (cases kvs) auto
      obtain n' where n': "rm_child n (place n ?i) ?i = Inr (Values kvs, n')" "wf_node n'"
          "slots n' = (slots n)(?i := None)"
        by (rule rm_child_slots [OF node_rep_wf [OF assms(2)] assms(4)])
      have "node_rep (Suc l) X s d n' (m(k := None))"
        by (rule node_rep_upd [OF assms(2) n'(2,3)]) (use at kv j in \<open>auto simp: at_slot_upd fun_eq_iff\<close>)
      with Some True loc n'(1) res kv show ?thesis by (simp del: map_option_eq_Some)
    next
      case False
      let ?kvs = "take j kvs @ drop (Suc j) kvs"
      have "length ?kvs = length kvs - 1" using j(1) by simp
      moreover have "length kvs \<noteq> 0" using ne by simp
      ultimately have "length ?kvs \<noteq> 0" "length ?kvs \<le> MAX_ARRAY_WIDTH" using False len by linarith+
      then have "ptr_rep (node_rep l X s (Suc d)) X s (Values ?kvs) ((at_slot X d m ?i)(k := None))"
        using map_of_remove [OF dist j] sorted_kvs_remove [OF srt, of j]
        unfolding length_0_conv by (simp only: at ptr_rep.simps) simp
      with node_rep_set_child [OF assms(2), of k "Values ?kvs" None] assms(4)
      have "node_rep (Suc l) X s d (set_child n (place n ?i) (Values ?kvs)) (m(k := None))" by blast
      with Some False loc res show ?thesis by (simp del: map_option_eq_Some fun_upd_apply)
    qed
  qed
qed

lemma rm_value_rep:
  assumes "hamt_ok X" and "node_rep l X s d n m" and "d + l = levels X" and "l \<le> f"
  shows "\<exists>n'. rm_value f X s (cursor X d k) k n = (Inr (map_option (Pair k) (m k)), n') \<and>
    node_rep l X s d n' (m(k := None))"
  using assms(2-)
proof (induction l arbitrary: d n f m)
  case (Suc l)
  obtain g where f: "f = Suc g" "l \<le> g" using Suc.prems(3) by (cases f) auto
  note rep = Suc.prems(1)
  let ?i = "slot_of X d k"
  let ?a = "at_slot X d m ?i"
  have loc: "locate X (cursor X d k) n =
      Inr (?i, cursor X (Suc d) k, map_option (\<lambda>p. (place n ?i, p)) (slots n ?i))"
    using assms(1) Suc.prems node_rep_wf [OF rep] by (intro locate_slots) (auto simp: hamt_ok_def)
  have step: "\<exists>n''. rm_value g X s (cursor X (Suc d) k) k n' = (Inr (map_option (Pair k) (m k)), n'') \<and>
      node_rep l X s (Suc d) n'' (?a(k := None))"
    if "node_rep l X s (Suc d) n' ?a" for n'
    using Suc.IH [OF that, of g] Suc.prems(2) f(2) by (simp del: fun_upd_apply)
  note upd = node_rep_set_child [OF rep, of k _ None]
  show ?case
  proof (cases "slots n ?i")
    case None
    then have "m k = None" using node_rep_None [OF rep None] by (metis at_slot_own)
    with None loc f rep show ?thesis by (simp add: fun_upd_idem)
  next
    case (Some p)
    then have p: "ptr_rep (node_rep l X s (Suc d)) X s p ?a" using node_repD [OF rep Some] by simp
    show ?thesis
    proof (cases p)
      case (Values kvs)
      then show ?thesis
        unfolding f by (intro rm_values [OF assms(1) rep]) (use Some Suc.prems(2) in simp_all)
    next
      case (Link c cache)
      obtain n1 where n1: "force X s c cache = Inr n1" "node_rep l X s (Suc d) n1 ?a"
        using force_link [OF assms(1)] p Link by metis
      obtain n2 where n2: "rm_value g X s (cursor X (Suc d) k) k n1 = (Inr (map_option (Pair k) (m k)), n2)"
          "node_rep l X s (Suc d) n2 (?a(k := None))"
        using step [OF n1(2)] by blast
      show ?thesis
      proof (cases "m k")
        case None
        then have same: "?a(k := None) = ?a" "m(k := None) = m" by (simp_all add: fun_upd_idem)
        then have "ptr_rep (node_rep l X s (Suc d)) X s (Link c (Some n2)) ?a" using p Link n2(2) by simp
        with node_rep_touch [OF rep, of k "Link c (Some n2)"] None n1(1) n2(1) Link Some loc f same(2)
        show ?thesis by simp
      next
        case v: (Some v)
        have "?a(k := None) \<noteq> Map.empty" using p Link by (intro del_nonempty) simp
        then obtain q where "clean (Dirty n2) = Inr q" "ptr_rep (node_rep l X s (Suc d)) X s q (?a(k := None))"
          by (rule clean_rep [OF n2(2)])
        with upd [of q] v n1(1) n2(1) Link Some loc f show ?thesis by (simp del: clean.simps fun_upd_apply)
      qed
    next
      case (Dirty n1)
      obtain n2 where n2: "rm_value g X s (cursor X (Suc d) k) k n1 = (Inr (map_option (Pair k) (m k)), n2)"
          "node_rep l X s (Suc d) n2 (?a(k := None))"
        using step p Dirty by auto
      have "?a(k := None) \<noteq> Map.empty" using p Dirty by (intro del_nonempty) simp
      then obtain q where "clean (Dirty n2) = Inr q" "ptr_rep (node_rep l X s (Suc d)) X s q (?a(k := None))"
        by (rule clean_rep [OF n2(2)])
      with upd [of q] n2(1) Dirty Some loc f show ?thesis by (simp del: clean.simps fun_upd_apply)
    qed
  qed
qed simp

end
