(* ===== verification/Hamt.thy ===== *)
theory Hamt
  imports Hamt_Update
begin

text \<open>
  Flushing, canonical form and iteration of the HAMT, and its interface to the rest of the
  system: a persistent map identified by its root CID.
\<close>

section \<open>Nodes with their pointers rewritten\<close>

definition map_pointers :: "(('k, 'v) pointer \<Rightarrow> ('k, 'v) pointer) \<Rightarrow> ('k, 'v) node \<Rightarrow> ('k, 'v) node" where
  "map_pointers g n = Node (node_bitfield n) (map g (node_pointers n))"

lemma map_pointers_slots:
  assumes "wf_node n"
  shows "slots (map_pointers g n) i = map_option g (slots n i)" and "wf_node (map_pointers g n)"
  using assms by (auto simp: map_pointers_def slots_def wf_node_def rank_less_card)

lemma map_pointers_rep:
  assumes "node_rep (Suc l) X s d n m"
    and "\<And>i p. slots n i = Some p \<Longrightarrow> ptr_rep (node_rep l X s (Suc d)) X s p (at_slot X d m i) \<Longrightarrow>
      ptr_rep (node_rep l X s' (Suc d)) X s' (g p) (at_slot X d m i)"
  shows "node_rep (Suc l) X s' d (map_pointers g n) m"
proof -
  have "slot_rep (node_rep l X s' (Suc d)) X s' (slots (map_pointers g n) i) (at_slot X d m i)" for i
    using assms(2) [of i] node_repD [OF assms(1) refl, of i] node_rep_wf [OF assms(1)]
    by (cases "slots n i") (simp_all add: map_pointers_slots)
  then show ?thesis
    using map_pointers_slots(2) [OF node_rep_wf [OF assms(1)]] by (simp add: node_rep.simps)
qed

section \<open>Saving a flushed node\<close>

fun strip_pointer :: "('k, 'v) pointer \<Rightarrow> ('k, 'v) pointer" where
  "strip_pointer (Link c _) = Link c None"
| "strip_pointer p = p"

abbreviation strip :: "('k, 'v) node \<Rightarrow> ('k, 'v) node" where
  "strip \<equiv> map_pointers strip_pointer"

fun flushed_pointer :: "('k, 'v) pointer \<Rightarrow> bool" where
  "flushed_pointer (Dirty _) = False"
| "flushed_pointer _ = True"

definition flushed :: "('k, 'v) node \<Rightarrow> bool" where
  "flushed n \<longleftrightarrow> (\<forall>p \<in> set (node_pointers n). flushed_pointer p)"

lemma strip_pointer_facts:
  "flushed_pointer p \<Longrightarrow> bare_pointer (strip_pointer p)"
  "pointer_to_ipld X (strip_pointer p) = pointer_to_ipld X p"
  by (cases p; auto)+

lemma strip_pointer_rep: "ptr_rep R X s p m \<Longrightarrow> ptr_rep R X s (strip_pointer p) m"
  by (cases p) auto

lemma strip_bare: "flushed n \<Longrightarrow> bare (strip n)"
  by (simp add: flushed_def bare_def map_pointers_def strip_pointer_facts)

lemma strip_ipld: "node_to_ipld X (strip n) = node_to_ipld X n"
proof -
  have "traverse (pointer_to_ipld X) (map strip_pointer ps) = traverse (pointer_to_ipld X) ps" for ps
    by (induction ps) (simp_all add: strip_pointer_facts split: option.split)
  then show ?thesis by (simp add: node_to_ipld_def map_pointers_def)
qed

lemma strip_rep: "node_rep l X s d n m \<Longrightarrow> node_rep l X s d (strip n) m"
proof (cases l)
  case (Suc l')
  assume "node_rep l X s d n m"
  then have rep: "node_rep (Suc l') X s d n m" by (simp add: Suc)
  show ?thesis unfolding Suc by (intro map_pointers_rep [OF rep] strip_pointer_rep)
qed simp

lemma save_flushed:
  assumes "hamt_ok X" "store_ok (henv X) s" "flushed n"
  obtains c s' where "save_node X n s = (Inr c, s')" "stored X s' c (strip n)" "s \<subseteq>\<^sub>m s'"
    "store_ok (henv X) s'"
proof -
  obtain i where i: "node_to_ipld X (strip n) = Some i" "plain i"
    using node_round_trip [of X "strip n"] strip_bare [OF assms(3)] assms(1) by (auto simp: hamt_ok_def)
  obtain c s' where p: "put (henv X) DagCborCodec i s = (Inr c, s')" "has_block (henv X) s' c i"
      "s \<subseteq>\<^sub>m s'" "store_ok (henv X) s'"
    using put_has_block [OF _ _ assms(2) i(2)] assms(1) by (auto simp: hamt_ok_def)
  have "save_node X n s = (Inr c, s')" using p(1) i(1) strip_ipld [of X n] by (simp add: save_node_def save_def)
  moreover have "stored X s' c (strip n)"
    using i(1) p(2) strip_bare [OF assms(3)] by (auto simp: stored_def)
  ultimately show thesis using that p by blast
qed

section \<open>Flushing\<close>

definition flushable :: "nat \<Rightarrow> ('k::linorder, 'v) hamt_ctx \<Rightarrow> nat \<Rightarrow> bool" where
  "flushable l X d \<longleftrightarrow>
     (\<forall>s n m. store_ok (henv X) s \<longrightarrow> node_rep l X s d n m \<longrightarrow>
        (\<exists>n' s'. flush X n s = (Inr (), n', s') \<and> s \<subseteq>\<^sub>m s' \<and> store_ok (henv X) s' \<and> flushed n' \<and>
                 node_rep l X s' d n' m))"

definition same_rep ::
    "nat \<Rightarrow> ('k::linorder, 'v) hamt_ctx \<Rightarrow> nat \<Rightarrow> blocks \<Rightarrow> blocks \<Rightarrow> ('k, 'v) pointer \<Rightarrow> ('k, 'v) pointer \<Rightarrow> bool" where
  "same_rep l X d s s' p p' \<longleftrightarrow> flushed_pointer p' \<and>
     (\<forall>m. ptr_rep (node_rep l X s d) X s p m \<longrightarrow> ptr_rep (node_rep l X s' d) X s' p' m)"

lemma ptr_rep_store_mono:
  "ptr_rep (node_rep l X s d) X s p m \<Longrightarrow> s \<subseteq>\<^sub>m s' \<Longrightarrow> ptr_rep (node_rep l X s' d) X s' p m"
  by (erule ptr_rep_mono) (auto intro: node_rep_mono)

lemma same_rep_mono:
  assumes "same_rep l X d s1 s2 p p'" "s \<subseteq>\<^sub>m s1" "s2 \<subseteq>\<^sub>m s3"
  shows "same_rep l X d s s3 p p'"
  using assms unfolding same_rep_def by (meson ptr_rep_store_mono)

lemma flush_pointer_rep:
  assumes "hamt_ok X" and "flushable l X d" and "store_ok (henv X) s"
    and "ptr_rep (node_rep l X s d) X s p m"
  shows "\<exists>p' s'. flush_pointer X p s = (Inr (), p', s') \<and> s \<subseteq>\<^sub>m s' \<and> store_ok (henv X) s' \<and>
      same_rep l X d s s' p p'"
proof (cases p)
  case (Dirty n)
  obtain n' s1 where f: "flush X n s = (Inr (), n', s1)" "s \<subseteq>\<^sub>m s1" "store_ok (henv X) s1" "flushed n'"
    using assms(2-) Dirty unfolding flushable_def by fastforce
  have rep: "node_rep l X s1 d n' m'" if "node_rep l X s d n m'" for m'
    using assms(2,3) that f(1) unfolding flushable_def by fastforce
  obtain c s2 where s2: "save_node X n' s1 = (Inr c, s2)" "stored X s2 c (strip n')" "s1 \<subseteq>\<^sub>m s2"
      "store_ok (henv X) s2"
    by (rule save_flushed [OF assms(1) f(3,4)])
  have "same_rep l X d s s2 p (Link c (Some n'))"
    using rep s2 node_rep_mono strip_rep unfolding same_rep_def Dirty by fastforce
  with f s2 Dirty show ?thesis by (auto intro: map_le_trans)
qed (use assms(3) in \<open>auto simp: same_rep_def\<close>)

lemma flush_pointers_rep:
  assumes "hamt_ok X" and "flushable l X d" and "store_ok (henv X) s"
    and "\<And>p. p \<in> set ps \<Longrightarrow> \<exists>m. ptr_rep (node_rep l X s d) X s p m"
  shows "\<exists>ps' s'. flush_pointers X ps s = (Inr (), ps', s') \<and> s \<subseteq>\<^sub>m s' \<and> store_ok (henv X) s' \<and>
      list_all2 (same_rep l X d s s') ps ps'"
  using assms(3,4)
proof (induction ps arbitrary: s)
  case (Cons p ps)
  obtain m where "ptr_rep (node_rep l X s d) X s p m" using Cons.prems(2) by force
  then obtain p' s1 where p: "flush_pointer X p s = (Inr (), p', s1)" "s \<subseteq>\<^sub>m s1" "store_ok (henv X) s1"
      "same_rep l X d s s1 p p'"
    using flush_pointer_rep [OF assms(1,2) Cons.prems(1)] by blast
  have "\<exists>m. ptr_rep (node_rep l X s1 d) X s1 q m" if "q \<in> set ps" for q
    using Cons.prems(2) [of q] that ptr_rep_store_mono [OF _ p(2)] by force
  then obtain ps' s2 where q: "flush_pointers X ps s1 = (Inr (), ps', s2)" "s1 \<subseteq>\<^sub>m s2"
      "store_ok (henv X) s2" "list_all2 (same_rep l X d s1 s2) ps ps'"
    using Cons.IH [OF p(3)] by blast
  have "list_all2 (same_rep l X d s s2) ps ps'"
    by (rule list_all2_mono [OF q(4)]) (use p(2) in \<open>auto intro: same_rep_mono\<close>)
  moreover have "same_rep l X d s s2 p p'" using p(4) q(2) by (auto intro: same_rep_mono)
  ultimately show ?case using p q by (auto intro: map_le_trans)
qed simp

lemma flush_rep:
  assumes "hamt_ok X"
  shows "flushable l X d"
proof (induction l arbitrary: d)
  case 0
  show ?case by (simp add: flushable_def)
next
  case (Suc l)
  show ?case unfolding flushable_def
  proof (intro allI impI)
    fix s n m
    assume ok: "store_ok (henv X) s" and rep: "node_rep (Suc l) X s d n m"
    note wf = node_rep_wf [OF rep]
    have "\<exists>m. ptr_rep (node_rep l X s (Suc d)) X s p m" if "p \<in> set (node_pointers n)" for p
      using pointer_slot [OF wf that] node_repD [OF rep] by fastforce
    then obtain ps' s' where f: "flush_pointers X (node_pointers n) s = (Inr (), ps', s')" "s \<subseteq>\<^sub>m s'"
        "store_ok (henv X) s'" "list_all2 (same_rep l X (Suc d) s s') (node_pointers n) ps'"
      using flush_pointers_rep [OF assms Suc ok] by blast
    define n' where "n' = Node (node_bitfield n) ps'"
    have len: "length ps' = length (node_pointers n)" using f(4) by (simp add: list_all2_lengthD)
    have same: "same_rep l X (Suc d) s s' (node_pointers n ! j) (ps' ! j)" if "j < length ps'" for j
      using f(4) that len by (auto simp: list_all2_conv_all_nth)
    have "flushed n'" using same by (auto simp: flushed_def n'_def in_set_conv_nth same_rep_def)
    moreover have "wf_node n'" using wf len by (simp add: n'_def wf_node_def)
    moreover have "slot_rep (node_rep l X s' (Suc d)) X s' (slots n' i) (at_slot X d m i)" for i
    proof (cases "slots n i")
      case None
      then show ?thesis
        using node_rep_None [OF rep None] by (simp add: slots_def n'_def split: if_splits)
    next
      case (Some p)
      then have "slots n' i = Some (ps' ! place n i)" by (simp add: slots_def n'_def split: if_splits)
      moreover have "place n i < length ps'" using place_less [OF wf, of i] Some len by simp
      ultimately show ?thesis
        using same [of "place n i"] node_repD [OF rep Some] slots_nth [OF Some] by (simp add: same_rep_def)
    qed
    moreover have "flush X n s = (Inr (), n', s')" using f(1) by (cases n) (simp add: n'_def)
    ultimately show "\<exists>n' s'. flush X n s = (Inr (), n', s') \<and> s \<subseteq>\<^sub>m s' \<and> store_ok (henv X) s' \<and>
        flushed n' \<and> node_rep (Suc l) X s' d n' m"
      using f(2,3) by (auto simp: node_rep.simps)
  qed
qed

section \<open>Canonical form\<close>

lemma ptr_rep_nonempty: "ptr_rep R X s p m \<Longrightarrow> m \<noteq> Map.empty"
proof (cases p)
  case (Values kvs)
  assume "ptr_rep R X s p m"
  then have "m = map_of kvs" "kvs \<noteq> []" by (simp_all add: Values)
  then show ?thesis by (cases kvs) auto
qed auto

lemma ptr_rep_inline:
  assumes "ptr_rep R X s p m"
  shows "(\<exists>kvs. p = Values kvs) \<longleftrightarrow> card (dom m) \<le> MAX_ARRAY_WIDTH"
  using assms by (cases p) (auto simp: card_dom_map_of sorted_kvs_distinct)

lemma stored_cid_eq: "stored X s c n \<Longrightarrow> stored X s' c' n \<Longrightarrow> c = c'"
  by (auto simp: stored_def intro: has_block_cid_eq)

text \<open>If the nodes of the level below are canonical, so are bare pointers to them.\<close>

lemma ptr_canonical:
  assumes "\<And>n n'. R n m \<Longrightarrow> R' n' m \<Longrightarrow> bare n \<Longrightarrow> bare n' \<Longrightarrow> n = n'"
    and "ptr_rep R X s p m" "bare_pointer p" and "ptr_rep R' X s' p' m" "bare_pointer p'"
  shows "p = p'"
proof (cases "card (dom m) \<le> MAX_ARRAY_WIDTH")
  case True
  then obtain kvs kvs' where kvs: "p = Values kvs" "p' = Values kvs'"
    using ptr_rep_inline [OF assms(2)] ptr_rep_inline [OF assms(4)] by blast
  with assms(2,4) show ?thesis using sorted_kvs_unique [of kvs kvs'] by simp
next
  case False
  then obtain c where c: "p = Link c None"
    using assms(3) ptr_rep_inline [OF assms(2)] by (cases p) auto
  obtain c' where c': "p' = Link c' None"
    using False assms(5) ptr_rep_inline [OF assms(4)] by (cases p') auto
  obtain n1 n2 where n: "stored X s c n1" "R n1 m" "stored X s' c' n2" "R' n2 m"
    using assms(2,4) by (auto simp: c c')
  then have "n1 = n2" by (intro assms(1)) (simp_all add: stored_def)
  with n show ?thesis using c c' stored_cid_eq by blast
qed

lemma canonical:
  assumes "node_rep l X s d n m" and "node_rep l X s' d n' m" and "bare n" and "bare n'"
  shows "n = n'"
  using assms
proof (induction l arbitrary: d n n' m)
  case (Suc l)
  note wf = node_rep_wf [OF Suc.prems(1)] node_rep_wf [OF Suc.prems(2)]
  have "slots n i = slots n' i" for i
  proof -
    note r = node_repD [OF Suc.prems(1), of i] node_repD [OF Suc.prems(2), of i]
    show ?thesis
    proof (cases "slots n i")
      case None
      then show ?thesis
        using r(1) [OF None] r(2) by (cases "slots n' i") (auto dest: ptr_rep_nonempty)
    next
      case (Some p)
      then have p: "ptr_rep (node_rep l X s (Suc d)) X s p (at_slot X d m i)" using r(1) by simp
      then obtain p' where p': "slots n' i = Some p'"
        using ptr_rep_nonempty [OF p] r(2) by (cases "slots n' i") auto
      have "bare_pointer p" "bare_pointer p'"
        using slot_pointer [OF wf(1) Some] slot_pointer [OF wf(2) p'] Suc.prems(3,4) by (auto simp: bare_def)
      moreover have "ptr_rep (node_rep l X s' (Suc d)) X s' p' (at_slot X d m i)" using r(2) [OF p'] by simp
      ultimately have "p = p'" using p by (intro ptr_canonical [OF Suc.IH])
      with Some p' show ?thesis by simp
    qed
  qed
  then show ?case by (intro slots_ext wf) auto
qed simp

section \<open>Operations of \<open>Hamt\<close>\<close>

lemma levels_pos: "hamt_ok X \<Longrightarrow> 0 < levels X"
  by (auto simp: hamt_ok_def width_ok_def levels_def div_greater_zero_iff)

lemma levels_fuel: "hamt_ok X \<Longrightarrow> levels X \<le> hamt_fuel"
  using levels_le [of X] by (simp add: hamt_ok_def hamt_fuel_def)

lemma hamt_new_rep: "hamt_ok X \<Longrightarrow> store_ok (henv X) s \<Longrightarrow> hamt_rep X (hamt_new s) Map.empty"
proof -
  assume ok: "hamt_ok X" "store_ok (henv X) s"
  then obtain l where "levels X = Suc l" using levels_pos [of X] by (cases "levels X") auto
  then show ?thesis using ok(2) by (simp add: hamt_rep_def hamt_new_def node_rep.simps)
qed

lemma hamt_set_mode:
  assumes "hamt_ok X" "hamt_rep X H m" "collision_free X (insert k (dom m))"
  obtains H' where "node_set X ov k v H = (Inr (put_old ov v (m k)), H')"
    "hamt_rep X H' (m(k := put_val ov v (m k)))" "store H' = store H"
proof -
  have "insertable hamt_fuel (levels X) X (store H) ov 0"
    using modify_value_rep [OF assms(1), of 0 "levels X"] levels_fuel [OF assms(1)] by simp
  then obtain n where "modify_value hamt_fuel X (store H) ov (cursor X 0 k) k v (root H) = (Inr (put_old ov v (m k)), n)"
      "node_rep (levels X) X (store H) 0 n (m(k := put_val ov v (m k)))"
    by (rule insertableD [of _ _ _ _ _ _ "root H" m]) (use assms(2,3) in \<open>auto simp: hamt_rep_def agree_def\<close>)
  then show thesis
    using assms(2) by (intro that [of "H\<lparr>root := n\<rparr>"]) (simp_all add: node_set_def cursor_new hamt_rep_def)
qed

lemma hamt_set_rep:
  assumes "hamt_ok X" "hamt_rep X H m" "collision_free X (insert k (dom m))"
  shows "\<exists>H'. hamt_set X k v H = (Inr (m k), H') \<and> hamt_rep X H' (m(k \<mapsto> v)) \<and> store H' = store H"
  by (rule hamt_set_mode [OF assms, of True v]) (auto simp: hamt_set_def put_old_def put_val_def)

lemma hamt_set_if_absent_rep:
  assumes "hamt_ok X" "hamt_rep X H m" "collision_free X (insert k (dom m))"
  shows "\<exists>H'. hamt_set_if_absent X k v H = (Inr (m k = None), H') \<and>
    hamt_rep X H' (if m k = None then m(k \<mapsto> v) else m) \<and> store H' = store H"
proof (rule hamt_set_mode [OF assms, of False v])
  fix H'
  assume "node_set X False k v H = (Inr (put_old False v (m k)), H')"
    and rep: "hamt_rep X H' (m(k := put_val False v (m k)))" and "store H' = store H"
  moreover have "m(k := put_val False v (m k)) = (if m k = None then m(k \<mapsto> v) else m)"
    by (auto simp: put_val_def)
  ultimately show ?thesis
    by (simp add: hamt_set_if_absent_def put_old_def) (auto simp: put_val_def)
qed

lemma hamt_get_rep:
  assumes "hamt_ok X" "hamt_rep X H m"
  shows "\<exists>H'. hamt_get X k H = (Inr (m k), H') \<and> hamt_rep X H' m \<and> store H' = store H"
proof -
  obtain n where "get_value hamt_fuel X (store H) (cursor X 0 k) k (root H) = (Inr (map_option (Pair k) (m k)), n)"
      "node_rep (levels X) X (store H) 0 n m"
    using get_value_rep [OF assms(1), of "levels X" "store H" 0 "root H" m hamt_fuel k] assms levels_fuel
    by (auto simp: hamt_rep_def)
  then show ?thesis
    using assms(2) by (auto simp: hamt_get_def cursor_new hamt_rep_def option.map_comp comp_def option.map_ident)
qed

lemma hamt_delete_rep:
  assumes "hamt_ok X" "hamt_rep X H m"
  shows "\<exists>H'. hamt_delete X k H = (Inr (map_option (Pair k) (m k)), H') \<and>
    hamt_rep X H' (m(k := None)) \<and> store H' = store H"
proof -
  obtain n where "rm_value hamt_fuel X (store H) (cursor X 0 k) k (root H) = (Inr (map_option (Pair k) (m k)), n)"
      "node_rep (levels X) X (store H) 0 n (m(k := None))"
    using rm_value_rep [OF assms(1), of "levels X" "store H" 0 "root H" m hamt_fuel k] assms levels_fuel
    by (auto simp: hamt_rep_def)
  then show ?thesis
    using assms(2) by (intro exI [of _ "H\<lparr>root := n\<rparr>"]) (simp add: hamt_delete_def cursor_new hamt_rep_def)
qed

lemma hamt_flush_rep:
  assumes "hamt_ok X" "hamt_rep X H m"
  shows "\<exists>c H'. hamt_flush X H = (Inr c, H') \<and> hamt_rep X H' m \<and> hamt_at X (store H') c m \<and>
    store H \<subseteq>\<^sub>m store H'"
proof -
  obtain n s where f: "flush X (root H) (store H) = (Inr (), n, s)" "store H \<subseteq>\<^sub>m s" "store_ok (henv X) s"
      "flushed n" "node_rep (levels X) X s 0 n m"
    using flush_rep [OF assms(1), of "levels X" 0] assms(2) unfolding flushable_def hamt_rep_def by blast
  obtain c s' where s': "save_node X n s = (Inr c, s')" "stored X s' c (strip n)" "s \<subseteq>\<^sub>m s'"
      "store_ok (henv X) s'"
    by (rule save_flushed [OF assms(1) f(3,4)])
  have n: "node_rep (levels X) X s' 0 n m" by (rule node_rep_mono [OF f(5) s'(3)])
  then have "hamt_at X s' c m" using s'(2) strip_rep unfolding hamt_at_def by blast
  with n f s' show ?thesis by (auto simp: hamt_flush_def hamt_rep_def intro: map_le_trans)
qed

lemma hamt_load_rep:
  assumes "hamt_ok X" "store_ok (henv X) s" "hamt_at X s c m"
  shows "\<exists>H. hamt_load X c s = Inr H \<and> hamt_rep X H m \<and> store H = s"
  using assms stored_load [OF assms(1)] by (auto simp: hamt_at_def hamt_load_def hamt_rep_def)

lemma hamt_at_mono: "hamt_at X s c m \<Longrightarrow> s \<subseteq>\<^sub>m s' \<Longrightarrow> hamt_at X s' c m"
  unfolding hamt_at_def by (meson node_rep_mono stored_mono)

lemma hamt_at_cid: "hamt_at X s c m \<Longrightarrow> hamt_at X s' c' m \<Longrightarrow> c = c'"
  unfolding hamt_at_def using canonical stored_cid_eq by (metis stored_def)

lemma hamt_at_fun:
  assumes "hamt_ok X" "hamt_at X s c m" "hamt_at X s c m'"
  shows "m = m'"
proof
  fix k
  obtain n n' where n: "stored X s c n" "node_rep (levels X) X s 0 n m"
      and n': "stored X s c n'" "node_rep (levels X) X s 0 n' m'"
    using assms(2,3) by (auto simp: hamt_at_def)
  have "n = n'" using stored_load [OF assms(1) n(1)] stored_load [OF assms(1) n'(1)] by simp
  then have "map_option (Pair k) (m k) = map_option (Pair k) (m' k)"
    using get_value_rep [OF assms(1) n(2), of hamt_fuel k] get_value_rep [OF assms(1) n'(2), of hamt_fuel k]
      levels_fuel [OF assms(1)] by auto
  then show "m k = m' k" by (cases "m k"; cases "m' k") auto
qed

lemma hamt_is_empty_rep:
  assumes "hamt_ok X" "hamt_rep X H m"
  shows "hamt_is_empty H \<longleftrightarrow> m = Map.empty"
proof -
  obtain l where l: "levels X = Suc l" using levels_pos [OF assms(1)] by (cases "levels X") auto
  have rep: "node_rep (Suc l) X (store H) 0 (root H) m" using assms(2) by (simp add: hamt_rep_def l)
  show ?thesis
  proof
    assume "hamt_is_empty H"
    then have "enumerates [] m" using child_vals_enumerates [OF rep] by (simp add: hamt_is_empty_def)
    then show "m = Map.empty" by (simp add: enumerates_def)
  next
    assume m: "m = Map.empty"
    have "slots (root H) i = None" for i
      using node_repD [OF rep refl, of i] m by (cases "slots (root H) i") (auto dest: ptr_rep_nonempty)
    then show "hamt_is_empty H"
      using pointer_slot [OF node_rep_wf [OF rep]] unfolding hamt_is_empty_def by (metis last_in_set option.distinct(1))
  qed
qed

section \<open>Iteration\<close>

lemma stream_pointers_ok:
  assumes "\<And>p. p \<in> set ps \<Longrightarrow> stream_pointer rec X s p = (out p, Inr (), g p)"
  shows "stream_pointers rec X s ps = (concat (map out ps), Inr (), map g ps)"
  using assms by (induction ps) auto

lemma stream_rep:
  assumes "hamt_ok X" and "node_rep l X s d n m" and "l \<le> f"
  shows "\<exists>out n'. stream f X s n = (out, Inr (), n') \<and> enumerates out m \<and> node_rep l X s d n' m"
  using assms(2-)
proof (induction l arbitrary: d n f m)
  case (Suc l)
  obtain g where f: "f = Suc g" "l \<le> g" using Suc.prems(2) by (cases f) auto
  note rep = Suc.prems(1)
  let ?R = "node_rep l X s (Suc d)" and ?sp = "stream_pointer (stream g X s) X s"
  have one: "\<exists>out q. ?sp p = (out, Inr (), q) \<and> enumerates out m' \<and> ptr_rep ?R X s q m'"
    if p: "ptr_rep ?R X s p m'" for p m'
  proof (cases p)
    case (Values kvs)
    with p show ?thesis by (auto simp: stream_pointer_def enumerates_def sorted_kvs_distinct)
  next
    case (Link c cache)
    obtain n1 where n1: "force X s c cache = Inr n1" "?R n1 m'"
      using force_link [OF assms(1)] p Link by metis
    obtain out n2 where "stream g X s n1 = (out, Inr (), n2)" "enumerates out m'" "?R n2 m'"
      using Suc.IH [OF n1(2) f(2)] by blast
    with p n1 Link show ?thesis by (auto simp: stream_pointer_def)
  next
    case (Dirty n1)
    then obtain out n2 where "stream g X s n1 = (out, Inr (), n2)" "enumerates out m'" "?R n2 m'"
      using Suc.IH [of "Suc d" n1 m' g] p f(2) by auto
    with p Dirty show ?thesis by (auto simp: stream_pointer_def)
  qed
  define out where "out p = fst (?sp p)" for p
  define upd where "upd p = snd (snd (?sp p))" for p
  have slot: "?sp p = (out p, Inr (), upd p) \<and> enumerates (out p) (at_slot X d m i) \<and>
      ptr_rep ?R X s (upd p) (at_slot X d m i)" if "slots n i = Some p" for i p
    using one [of p "at_slot X d m i"] node_repD [OF rep that] by (auto simp: out_def upd_def)
  have "stream_pointers (stream g X s) X s (node_pointers n) =
      (concat (map out (node_pointers n)), Inr (), map upd (node_pointers n))"
    by (rule stream_pointers_ok) (use slot pointer_slot [OF node_rep_wf [OF rep]] in blast)
  moreover have "enumerates (concat (map out (node_pointers n))) m"
    by (rule enumerates_concat [OF node_rep_wf [OF rep]]) (use slot node_rep_None [OF rep] in auto)
  moreover have "node_rep (Suc l) X s d (map_pointers upd n) m"
    by (rule map_pointers_rep [OF rep]) (use slot in auto)
  ultimately show ?case by (simp add: f map_pointers_def)
qed simp

lemma hamt_stream_rep:
  assumes "hamt_ok X" "hamt_rep X H m"
  shows "\<exists>out H'. hamt_stream X H = (out, Inr (), H') \<and> enumerates out m \<and> hamt_rep X H' m"
  using stream_rep [OF assms(1), of "levels X" "store H" 0 "root H" m hamt_fuel] assms(2) levels_fuel [OF assms(1)]
  by (auto simp: hamt_stream_def hamt_rep_def)

text \<open>
  Processing a pointer on top of the stack takes some number of steps, yields its entries
  and goes on with the rest.
\<close>

definition pops :: "('k, 'v) hamt_ctx \<Rightarrow> blocks \<Rightarrow> ('k, 'v) pointer list \<Rightarrow> nat \<Rightarrow> ('k \<times> 'v) list \<Rightarrow> bool" where
  "pops X s ps F out \<longleftrightarrow>
     (\<forall>f rest. into_stream (F + f) X s (rest @ ps) =
        (out @ fst (into_stream f X s rest), snd (into_stream f X s rest)))"

lemma pops_append: "pops X s ps F out \<Longrightarrow> pops X s qs G out' \<Longrightarrow> pops X s (ps @ qs) (G + F) (out' @ out)"
  unfolding pops_def by (simp flip: append_assoc add: add.assoc)

lemma pops_list:
  assumes "\<And>p. p \<in> set ps \<Longrightarrow> \<exists>F. pops X s [p] F (out p)"
  shows "\<exists>F. pops X s ps F (concat (map out (rev ps)))"
  using assms
proof (induction ps)
  case Nil
  show ?case by (rule exI [of _ 0]) (simp add: pops_def)
next
  case (Cons p ps)
  obtain F where "pops X s [p] F (out p)" using Cons.prems [of p] by auto
  moreover obtain G where "pops X s ps G (concat (map out (rev ps)))" using Cons by force
  ultimately show ?case using pops_append [of X s "[p]" F "out p" ps G] by auto
qed

lemma pops_node:
  assumes "pops X s (node_pointers n) F out"
    and "\<And>f rest. into_stream (Suc f) X s (rest @ [p]) = into_stream f X s (rest @ node_pointers n)"
  shows "pops X s [p] (Suc F) out"
  using assms unfolding pops_def by simp

lemma into_stream_more_fuel:
  "into_stream f X s ps = (out, r) \<Longrightarrow> r \<noteq> Inl OutOfFuel \<Longrightarrow> into_stream (f + g) X s ps = (out, r)"
proof (induction f arbitrary: ps out r)
  case (Suc f)
  then show ?case by (auto split: if_splits pointer.splits sum.splits prod.splits)
qed simp

lemma pops_end: "pops X s ps F out \<Longrightarrow> into_stream (F + Suc f) X s ps = (out, Inr ())"
  unfolding pops_def by (drule spec [of _ "Suc f"], drule spec [of _ "[]"]) simp

lemma pops_unique:
  assumes "pops X s ps F out" "pops X s ps G out'"
  shows "out = out'"
  using pops_end [OF assms(1), of G] pops_end [OF assms(2), of F] by (simp add: add.commute)

lemma into_stream_rep:
  assumes "hamt_ok X" and "node_rep l X s d n m"
  shows "\<exists>F out. pops X s (node_pointers n) F out \<and> enumerates out m"
  using assms(2)
proof (induction l arbitrary: d n m)
  case (Suc l)
  note rep = Suc.prems
  let ?R = "node_rep l X s (Suc d)"
  have one: "\<exists>F out. pops X s [p] F out \<and> enumerates out m'" if p: "ptr_rep ?R X s p m'" for p m'
  proof (cases p)
    case (Values kvs)
    then have "pops X s [p] 1 kvs" by (auto simp: pops_def split: prod.split)
    moreover have "enumerates kvs m'" using p Values by (simp add: enumerates_def sorted_kvs_distinct)
    ultimately show ?thesis by blast
  next
    case (Link c cache)
    obtain n1 where n1: "force X s c cache = Inr n1" "?R n1 m'"
      using force_link [OF assms(1)] p Link by metis
    then obtain F out where "pops X s (node_pointers n1) F out" "enumerates out m'" using Suc.IH by blast
    then show ?thesis using pops_node [of X s n1 F out p] n1(1) Link by auto
  next
    case (Dirty n1)
    then obtain F out where "pops X s (node_pointers n1) F out" "enumerates out m'"
      using Suc.IH [of "Suc d" n1 m'] p by auto
    then show ?thesis using pops_node [of X s n1 F out p] Dirty by auto
  qed
  define out where "out p = (SOME out. \<exists>F. pops X s [p] F out)" for p
  have out: "(\<exists>F. pops X s [p] F (out p)) \<and> enumerates (out p) (at_slot X d m i)" if i: "slots n i = Some p" for i p
  proof -
    obtain F o' where o': "pops X s [p] F o'" "enumerates o' (at_slot X d m i)"
      using one node_repD [OF rep i] by (metis slot_rep_simps(2))
    then have ex: "\<exists>F. pops X s [p] F (out p)" unfolding out_def by (intro someI_ex [of "\<lambda>o'. \<exists>F. pops X s [p] F o'"]) blast
    with o' pops_unique have "out p = o'" by blast
    with ex o'(2) show ?thesis by simp
  qed
  note wf = node_rep_wf [OF rep]
  obtain F where "pops X s (node_pointers n) F (concat (map out (rev (node_pointers n))))"
    using pops_list [of "node_pointers n" X s out] out pointer_slot [OF wf] by blast
  moreover have "enumerates (concat (map out (node_pointers n))) m"
    by (rule enumerates_concat [OF wf]) (use out node_rep_None [OF rep] in auto)
  then have "enumerates (concat (map out (rev (node_pointers n)))) m"
    by (rule enumerates_mset) (simp add: mset_concat rev_map [symmetric])
  ultimately show ?case by blast
qed simp

lemma hamt_into_stream_rep:
  assumes "hamt_ok X" "hamt_rep X H m"
  shows "\<exists>F out. enumerates out m \<and> (\<forall>f\<ge>F. hamt_into_stream f X H = (out, Inr ()))"
proof -
  obtain F out where p: "pops X (store H) (node_pointers (root H)) F out" "enumerates out m"
    using into_stream_rep [OF assms(1)] assms(2) unfolding hamt_rep_def by blast
  have "hamt_into_stream f X H = (out, Inr ())" if "Suc F \<le> f" for f
    using pops_end [OF p(1), of "f - Suc F"] that by (simp add: hamt_into_stream_def)
  with p(2) show ?thesis by blast
qed

section \<open>Termination\<close>

text \<open>
  On any node and any store, corrupted ones included, the recursive routines end: each level
  takes at least one of the 256 bits of the hash.
\<close>

lemma rbind_fuel:
  "rbind r f = Inl OutOfFuel \<longleftrightarrow> r = Inl OutOfFuel \<or> (\<exists>x. r = Inr x \<and> f x = Inl OutOfFuel)"
  by (cases r) auto

lemma word_at_fuel: "word_at bf i \<noteq> Inl OutOfFuel"
  by (cases bf) simp

lemma next_idx_fuel:
  assumes "0 < i"
  shows "next_idx h i \<noteq> Inl OutOfFuel"
proof (cases "i \<le> 8 \<and> consumed h + i \<le> 8 * length (hb_b h)")
  case True
  then obtain r where "next_idx h i = Inr (r, h\<lparr>consumed := consumed h + i\<rparr>)"
    using next_idx_spec [of h i] assms by blast
  then show ?thesis by simp
qed (auto simp: next_idx_def mult.commute)

lemma locate_fuel: "0 < bit_width X \<Longrightarrow> locate X h n \<noteq> Inl OutOfFuel"
  by (auto simp: locate_def rbind_fuel next_idx_fuel test_bit_def word_at_fuel index_for_bit_pos_def
      get_child_def index_def Let_def)

lemma locate_consumes:
  assumes "0 < bit_width X" "locate X h n = Inr (idx, h', q)"
  shows "consumed h' = consumed h + bit_width X \<and> hb_b h' = hb_b h \<and> consumed h' \<le> 8 * length (hb_b h)"
proof -
  obtain r where r: "next_idx h (bit_width X) = Inr (r, h')"
    using assms(2) by (auto simp: locate_def split: if_splits)
  then have le: "bit_width X \<le> 8" "consumed h + bit_width X \<le> 8 * length (hb_b h)"
    by (auto simp: next_idx_def mult.commute split: if_splits)
  then obtain r' where "next_idx h (bit_width X) = Inr (r', h\<lparr>consumed := consumed h + bit_width X\<rparr>)"
    using next_idx_spec [of h "bit_width X"] assms(1) by blast
  with r le show ?thesis by auto
qed

lemma load_node_fuel: "load_node X c s \<noteq> Inl OutOfFuel"
proof -
  have "node_from_ipld X i \<noteq> Inl OutOfFuel" for i
    by (auto simp: node_from_ipld_def deserialize_def Let_def rbind_fuel of_option_def
        split: ipld.splits list.splits option.splits)
  then show ?thesis
    by (auto simp: load_node_def load_def get_def rbind_fuel of_option_def split: option.splits)
qed

lemma force_fuel: "force X s c cache \<noteq> Inl OutOfFuel"
  by (auto simp: force_def load_node_fuel split: option.splits)

definition enough :: "nat \<Rightarrow> hash_bits \<Rightarrow> bool" where
  "enough f h \<longleftrightarrow> consumed h \<le> 8 * length (hb_b h) \<and> 8 * length (hb_b h) < consumed h + f"

lemma enough_step:
  "0 < bit_width X \<Longrightarrow> locate X h n = Inr (idx, h', q) \<Longrightarrow> enough (Suc f) h \<Longrightarrow> enough f h'"
  using locate_consumes [of X h n idx h' q] by (auto simp: enough_def)

lemma enough_new: "length b = 32 \<Longrightarrow> enough hamt_fuel (new b)"
  by (simp add: enough_def hamt_fuel_def new_def new_at_index_def)

lemma get_value_ends:
  "0 < bit_width X \<Longrightarrow> enough f h \<Longrightarrow> fst (get_value f X s h k n) \<noteq> Inl OutOfFuel"
proof (induction f arbitrary: h n)
  case (Suc f)
  note IH = Suc.IH [OF Suc.prems(1) enough_step [OF Suc.prems(1) _ Suc.prems(2)]]
  show ?case
    using locate_fuel [OF Suc.prems(1), of h n] force_fuel [of X s]
    by (auto split: sum.split prod.split option.split pointer.split) (metis IH fst_conv)+
qed (auto simp: enough_def)

lemma reinsert_ends:
  "(\<And>k v n. fst (ins k v n) \<noteq> Inl OutOfFuel) \<Longrightarrow> fst (reinsert ins kvs n) \<noteq> Inl OutOfFuel"
proof (induction kvs arbitrary: n)
  case (Cons kv kvs)
  obtain k v where kv: "kv = (k, v)" by (cases kv)
  obtain r n' where r: "ins k v n = (r, n')" by (cases "ins k v n")
  with Cons.prems [of k v n] Cons.IH [OF Cons.prems] show ?case
    by (cases r) (simp_all add: kv)
qed simp

lemma insert_child_fuel: "insert_child n idx k v \<noteq> Inl OutOfFuel"
  by (auto simp: insert_child_def rbind_fuel index_for_bit_pos_def set_bit_def word_at_fuel Let_def)

lemma rm_child_fuel: "rm_child n i idx \<noteq> Inl OutOfFuel"
  by (auto simp: rm_child_def rbind_fuel clear_bit_def word_at_fuel Let_def)

lemma clean_fuel: "clean p \<noteq> Inl OutOfFuel"
  by (cases p) (auto simp: Let_def split: pointer.splits option.splits)

lemma modify_value_ends:
  assumes "width_ok X" and "length (hb_b h) = 32" and "enough f h"
  shows "fst (modify_value f X s ov h k v n) \<noteq> Inl OutOfFuel"
  using assms(2,3)
proof (induction f arbitrary: h k v n)
  case (Suc f)
  have bw: "0 < bit_width X" using assms(1) by (simp add: width_ok_def)
  show ?case
  proof (cases "locate X h n")
    case (Inl e)
    with locate_fuel [OF bw, of h n] show ?thesis by auto
  next
    case (Inr t)
    obtain idx h' q where t: "t = (idx, h', q)" by (cases t)
    note loc = Inr [unfolded t]
    have h': "length (hb_b h') = 32" "enough f h'"
      using locate_consumes [OF bw loc] enough_step [OF bw loc] Suc.prems by auto
    then have new: "enough f (new_at_index (hash_key X k') (consumed h'))"
        "length (hb_b (new_at_index (hash_key X k') (consumed h'))) = 32" for k'
      using assms(1) by (auto simp: enough_def new_at_index_def width_ok_def)
    note IH = Suc.IH [OF h']
    show ?thesis
    proof (cases q)
      case None
      with loc insert_child_fuel [of n idx k v] show ?thesis by (auto split: sum.split)
    next
      case (Some ip)
      obtain i p where ip: "ip = (i, p)" by (cases ip)
      show ?thesis
      proof (cases p)
        case (Values kvs)
        let ?ins = "\<lambda>k' v' n'. modify_value f X s ov (new_at_index (hash_key X k') (consumed h')) k' v' n'"
        have ins: "fst (?ins k' v' n') \<noteq> Inl OutOfFuel" for k' v' n'
          by (fact Suc.IH [OF new(2) [of k'] new(1) [of k'], of k' v' n'])
        have "e \<noteq> OutOfFuel" if "reinsert ?ins kvs n' = (Inl e, n'')" for n' n'' e
          using reinsert_ends [of ?ins kvs n', OF ins] that by simp
        then have re: "reinsert ?ins kvs n' \<noteq> (Inl OutOfFuel, n'')" for n' n'' by blast
        obtain r sub where r: "modify_value f X s ov h' k v empty_node = (r, sub)" by fastforce
        then have "r \<noteq> Inl OutOfFuel" using IH [of k v empty_node] by simp
        then show ?thesis
          using loc Some ip Values r re [of sub]
          by (cases r; cases "position (\<lambda>p. fst p = k) kvs") (auto split: sum.split prod.split)
      next
        case (Link c cache)
        then show ?thesis
          using loc Some ip force_fuel [of X s c cache] IH [of k v]
          by (auto split: sum.split prod.split) (metis fst_conv)+
      next
        case (Dirty m)
        then show ?thesis using loc Some ip IH [of k v m] by (auto split: prod.split)
      qed
    qed
  qed
qed (auto simp: enough_def)

lemma rm_value_ends:
  assumes "0 < bit_width X" and "enough f h"
  shows "fst (rm_value f X s h k n) \<noteq> Inl OutOfFuel"
  using assms(2)
proof (induction f arbitrary: h n)
  case (Suc f)
  show ?case
  proof (cases "locate X h n")
    case (Inl e)
    with locate_fuel [OF assms(1), of h n] show ?thesis by auto
  next
    case (Inr t)
    obtain idx h' q where t: "t = (idx, h', q)" by (cases t)
    note loc = Inr [unfolded t]
    note IH = Suc.IH [OF enough_step [OF assms(1) loc Suc.prems]]
    show ?thesis
    proof (cases q)
      case None
      with loc show ?thesis by simp
    next
      case (Some ip)
      obtain i p where ip: "ip = (i, p)" by (cases ip)
      show ?thesis
      proof (cases p)
        case (Values kvs)
        with loc Some ip rm_child_fuel [of n i idx] show ?thesis
          by (auto split: option.split sum.split prod.split pointer.split list.split)
      next
        case (Link c cache)
        then show ?thesis
          using loc Some ip force_fuel [of X s c cache] IH clean_fuel
          by (auto simp del: clean.simps split: sum.split prod.split option.split) (metis fst_conv)+
      next
        case (Dirty m)
        then show ?thesis
          using loc Some ip IH [of m] clean_fuel
          by (auto simp del: clean.simps split: sum.split prod.split option.split)
      qed
    qed
  qed
qed (auto simp: enough_def)

section \<open>The interface to clients\<close>

text \<open>
  A map kept under a root CID in a block store: what \<open>versioned_map.rs\<close> and
  \<open>mutation.rs\<close> rely on.
\<close>

locale persistent_map =
  fixes map_at :: "blocks \<Rightarrow> cid \<Rightarrow> ('k \<rightharpoonup> 'v) \<Rightarrow> bool"
    and represents :: "'h \<Rightarrow> ('k \<rightharpoonup> 'v) \<Rightarrow> bool"
    and store_of :: "'h \<Rightarrow> blocks"
    and sound :: "blocks \<Rightarrow> bool"
    and open_at :: "cid \<Rightarrow> blocks \<Rightarrow> 'h result"
    and put_key :: "'k \<Rightarrow> 'v \<Rightarrow> 'h \<Rightarrow> 'v option result \<times> 'h"
    and remove_key :: "'k \<Rightarrow> 'h \<Rightarrow> ('k \<times> 'v) option result \<times> 'h"
    and lookup_key :: "'k \<Rightarrow> 'h \<Rightarrow> 'v option result \<times> 'h"
    and commit :: "'h \<Rightarrow> cid result \<times> 'h"
    and keys_ok :: "'k set \<Rightarrow> bool"
  assumes sound_store: "represents h m \<Longrightarrow> sound (store_of h)"
    and open_ok: "sound s \<Longrightarrow> map_at s c m \<Longrightarrow>
      \<exists>h. open_at c s = Inr h \<and> represents h m \<and> store_of h = s"
    and keys_subset: "keys_ok K \<Longrightarrow> K' \<subseteq> K \<Longrightarrow> keys_ok K'"
    and put_ok: "represents h m \<Longrightarrow> keys_ok (insert k (dom m)) \<Longrightarrow>
      \<exists>h'. put_key k v h = (Inr (m k), h') \<and> represents h' (m(k \<mapsto> v)) \<and> store_of h' = store_of h"
    and remove_ok: "represents h m \<Longrightarrow>
      \<exists>h'. remove_key k h = (Inr (map_option (Pair k) (m k)), h') \<and> represents h' (m(k := None)) \<and>
        store_of h' = store_of h"
    and lookup_ok: "represents h m \<Longrightarrow>
      \<exists>h'. lookup_key k h = (Inr (m k), h') \<and> represents h' m \<and> store_of h' = store_of h"
    and commit_ok: "represents h m \<Longrightarrow>
      \<exists>c h'. commit h = (Inr c, h') \<and> represents h' m \<and> map_at (store_of h') c m \<and>
        store_of h \<subseteq>\<^sub>m store_of h'"
    and map_at_cid: "map_at s c m \<Longrightarrow> map_at s' c' m \<Longrightarrow> c = c'"
    and map_at_fun: "map_at s c m \<Longrightarrow> map_at s c m' \<Longrightarrow> m = m'"
    and map_at_mono: "map_at s c m \<Longrightarrow> s \<subseteq>\<^sub>m s' \<Longrightarrow> map_at s' c m"

interpretation hamt_map: persistent_map
  "\<lambda>s c m. hamt_ok X \<and> hamt_at X s c m" "\<lambda>H m. hamt_ok X \<and> hamt_rep X H m" store
  "\<lambda>s. store_ok (henv X) s" "hamt_load X" "hamt_set X" "hamt_delete X" "hamt_get X" "hamt_flush X"
  "collision_free X"
  for X :: "('k::linorder, 'v) hamt_ctx"
  by (unfold_locales, simp add: hamt_rep_def, meson hamt_load_rep, rule collision_free_subset, assumption,
      assumption, meson hamt_set_rep, meson hamt_delete_rep,
      meson hamt_get_rep, meson hamt_flush_rep, meson hamt_at_cid, meson hamt_at_fun, meson hamt_at_mono)

end
