(* ===== verification/Example_Env.thy ===== *)
theory Example_Env
  imports Hamt
begin

text \<open>
  A concrete environment that meets the hypotheses the development names: a prefix-free
  byte encoding of IPLD values in place of DAG-CBOR, the identity in place of Blake3, and the
  first 32 bytes of a key in place of SHA-256. It shows that the hypotheses can hold together.
\<close>

section \<open>A codec\<close>

text \<open>Sequences: each item is announced by a 1, the end by a 0.\<close>

fun enc_bytes :: "bytes \<Rightarrow> bytes" where
  "enc_bytes [] = [0]"
| "enc_bytes (b # bs) = 1 # b # enc_bytes bs"

fun dec_bytes :: "bytes \<Rightarrow> (bytes \<times> bytes) option" where
  "dec_bytes (t # r) =
     (if t = 0 then Some ([], r)
      else (case r of
              b # r' \<Rightarrow> (case dec_bytes r' of Some (bs, r'') \<Rightarrow> Some (b # bs, r'') | None \<Rightarrow> None)
            | [] \<Rightarrow> None))"
| "dec_bytes [] = None"

fun enc_nat :: "nat \<Rightarrow> bytes" where
  "enc_nat 0 = [0]"
| "enc_nat (Suc n) = 1 # enc_nat n"

fun dec_nat :: "bytes \<Rightarrow> (nat \<times> bytes) option" where
  "dec_nat (t # r) = (if t = 0 then Some (0, r) else map_option (\<lambda>(n, r'). (Suc n, r')) (dec_nat r))"
| "dec_nat [] = None"

fun enc :: "ipld \<Rightarrow> bytes" where
  "enc INull = [0]"
| "enc (IBool b) = [1, of_bool b]"
| "enc (IString s) = 2 # enc_bytes (str_bytes s)"
| "enc (IBytes bs) = 3 # enc_bytes bs"
| "enc (IList xs) = 4 # concat (map (\<lambda>x. 1 # enc x) xs) @ [0]"
| "enc (IMap kvs) = 5 # concat (map (\<lambda>kv. 1 # enc_bytes (str_bytes (fst kv)) @ enc (snd kv)) kvs) @ [0]"
| "enc (ILink c) = 6 # enc_nat (codec_of c) @ enc_bytes (digest_of c)"
| "enc (IInteger i) = 7 # of_bool (i < 0) # enc_nat (nat \<bar>i\<bar>)"
| "enc (IFloat _) = [8]"

fun dec_many :: "(bytes \<Rightarrow> ('a \<times> bytes) option) \<Rightarrow> nat \<Rightarrow> bytes \<Rightarrow> ('a list \<times> bytes) option" where
  "dec_many d 0 r = None"
| "dec_many d (Suc g) [] = None"
| "dec_many d (Suc g) (t # r) =
     (if t = 0 then Some ([], r)
      else (case d r of
              None \<Rightarrow> None
            | Some (x, r') \<Rightarrow>
                (case dec_many d g r' of None \<Rightarrow> None | Some (xs, r'') \<Rightarrow> Some (x # xs, r''))))"

definition dec_pair :: "(bytes \<Rightarrow> ('a \<times> bytes) option) \<Rightarrow> bytes \<Rightarrow> ((string \<times> 'a) \<times> bytes) option" where
  "dec_pair d r =
     (case dec_bytes r of
        None \<Rightarrow> None
      | Some (k, r') \<Rightarrow> (case d r' of None \<Rightarrow> None | Some (x, r'') \<Rightarrow> Some ((bytes_str k, x), r'')))"

fun dec :: "nat \<Rightarrow> bytes \<Rightarrow> (ipld \<times> bytes) option" where
  "dec 0 r = None"
| "dec (Suc f) [] = None"
| "dec (Suc f) (t # r) =
     (if t = 0 then Some (INull, r)
      else if t = 1 then (case r of b # r' \<Rightarrow> Some (IBool (b = 1), r') | [] \<Rightarrow> None)
      else if t = 2 then map_option (\<lambda>(bs, r'). (IString (bytes_str bs), r')) (dec_bytes r)
      else if t = 3 then map_option (\<lambda>(bs, r'). (IBytes bs, r')) (dec_bytes r)
      else if t = 4 then map_option (\<lambda>(xs, r'). (IList xs, r')) (dec_many (dec f) (length r) r)
      else if t = 5 then map_option (\<lambda>(xs, r'). (IMap xs, r')) (dec_many (dec_pair (dec f)) (length r) r)
      else if t = 6 then
        (case dec_nat r of
           None \<Rightarrow> None
         | Some (c, r') \<Rightarrow> map_option (\<lambda>(bs, r''). (ILink (Cid c bs), r'')) (dec_bytes r'))
      else if t = 7 then
        (case r of
           b # r' \<Rightarrow> map_option (\<lambda>(n, r''). (IInteger (if b = 1 then - int n else int n), r'')) (dec_nat r')
         | [] \<Rightarrow> None)
      else None)"

lemma dec_enc_bytes [simp]: "dec_bytes (enc_bytes bs @ r) = Some (bs, r)"
  by (induction bs) auto

lemma dec_enc_nat [simp]: "dec_nat (enc_nat n @ r) = Some (n, r)"
  by (induction n) auto

lemma length_enc_pos: "0 < length (enc i)"
  by (cases i) auto

lemma dec_many_ok:
  assumes "\<And>x r. x \<in> set xs \<Longrightarrow> d (e x @ r) = Some (x, r)" and "length xs < g"
  shows "dec_many d g (concat (map (\<lambda>x. 1 # e x) xs) @ [0] @ r) = Some (xs, r)"
  using assms
proof (induction xs arbitrary: g)
  case Nil
  then show ?case by (cases g) auto
next
  case (Cons x xs)
  then obtain g' where g: "g = Suc g'" by (cases g) auto
  have "dec_many d g' (concat (map (\<lambda>x. 1 # e x) xs) @ [0] @ r) = Some (xs, r)"
    using Cons g by auto
  with Cons.prems(1) g show ?case by simp
qed

lemma length_le_concat: "length xs \<le> length (concat (map (\<lambda>x. 1 # e x) xs))"
  by (induction xs) auto

lemma member_length_concat: "x \<in> set xs \<Longrightarrow> length (e x) < length (concat (map (\<lambda>x. 1 # e x) xs))"
  by (induction xs) auto

lemma dec_enc: "plain i \<Longrightarrow> length (enc i) \<le> f \<Longrightarrow> dec f (enc i @ r) = Some (i, r)"
proof (induction i arbitrary: f r)
  case (IList xs)
  obtain g where f: "f = Suc g" using IList.prems(2) by (cases f) auto
  have item: "dec g (enc x @ r) = Some (x, r)" if "x \<in> set xs" for x r
    using IList that member_length_concat [of x xs enc] by (intro IList.IH) (auto simp: f list_all_iff)
  have "dec_many (dec g) (length (concat (map (\<lambda>x. 1 # enc x) xs) @ [0] @ r))
      (concat (map (\<lambda>x. 1 # enc x) xs) @ [0] @ r) = Some (xs, r)"
    by (rule dec_many_ok) (use item length_le_concat [of xs enc] in auto)
  then show ?case by (simp add: f)
next
  case (IMap kvs)
  let ?e = "\<lambda>kv. enc_bytes (str_bytes (fst kv)) @ enc (snd kv)"
  obtain g where f: "f = Suc g" using IMap.prems(2) by (cases f) auto
  have item: "dec_pair (dec g) (?e kv @ r) = Some (kv, r)" if "kv \<in> set kvs" for kv r
  proof -
    have "dec g (enc (snd kv) @ r) = Some (snd kv, r)"
      using IMap that member_length_concat [of kv kvs ?e]
      by (intro IMap.IH [of kv "snd kv"]) (auto simp: f list_all_iff intro: snds.intros)
    then show ?thesis by (simp add: dec_pair_def)
  qed
  have "dec_many (dec_pair (dec g)) (length (concat (map (\<lambda>x. 1 # ?e x) kvs) @ [0] @ r))
      (concat (map (\<lambda>x. 1 # ?e x) kvs) @ [0] @ r) = Some (kvs, r)"
    by (rule dec_many_ok) (use item length_le_concat [of kvs ?e] in auto)
  then show ?case by (simp add: f)
qed (auto simp: gr0_conv_Suc Suc_le_eq elim!: less_natE)

text \<open>The links in a value, in the order of the value.\<close>

fun links_of :: "ipld \<Rightarrow> cid list" where
  "links_of (ILink c) = [c]"
| "links_of (IList xs) = concat (map links_of xs)"
| "links_of (IMap kvs) = concat (map (\<lambda>kv. links_of (snd kv)) kvs)"
| "links_of _ = []"

definition ex_env :: codec_env where
  "ex_env =
     \<lparr>encode = (\<lambda>C i. case C of
        DagCborCodec \<Rightarrow> if plain i then Some (enc i) else None
      | RawCodec \<Rightarrow> (case i of IBytes b \<Rightarrow> Some b | _ \<Rightarrow> None)),
      decode = (\<lambda>C b. case C of
        DagCborCodec \<Rightarrow> (case dec (length b) b of Some (i, []) \<Rightarrow> Some i | _ \<Rightarrow> None)
      | RawCodec \<Rightarrow> Some (IBytes b)),
      references = (\<lambda>C b. case C of
        DagCborCodec \<Rightarrow> (case dec (length b) b of Some (i, []) \<Rightarrow> Some (links_of i) | _ \<Rightarrow> Some [])
      | RawCodec \<Rightarrow> Some []),
      blake3_256 = (\<lambda>b. b)\<rparr>"

lemma ex_codec_ok: "codec_ok ex_env"
  using dec_enc [of _ _ "[]"] by (simp add: codec_ok_def ex_env_def)

lemma ex_hash_ok: "hash_ok ex_env"
  by (simp add: hash_ok_def ex_env_def)

section \<open>A hash of keys\<close>

definition ex_hash :: "bytes \<Rightarrow> bytes" where
  "ex_hash bs = take 32 (bs @ replicate 32 0)"

lemma length_ex_hash [simp]: "length (ex_hash bs) = 32"
  by (simp add: ex_hash_def)

text \<open>A map from strings to CIDs at the default width.\<close>

definition ex_ctx :: "(string, cid) hamt_ctx" where
  "ex_ctx =
     \<lparr>hash_key = (\<lambda>k. ex_hash (str_bytes k)), key_to_ipld = IString,
      key_from_ipld = (\<lambda>i. case i of IString s \<Rightarrow> Some s | _ \<Rightarrow> None),
      val_to_ipld = ILink, val_from_ipld = (\<lambda>i. case i of ILink c \<Rightarrow> Some c | _ \<Rightarrow> None),
      henv = ex_env, bit_width = DEFAULT_BIT_WIDTH\<rparr>"

lemma ex_hamt_ok: "hamt_ok ex_ctx"
  using ex_codec_ok ex_hash_ok
  by (simp add: hamt_ok_def width_ok_def serde_ok_def ex_ctx_def DEFAULT_BIT_WIDTH_def)

lemma ex_henv [simp]: "henv ex_ctx = ex_env"
  by (simp add: ex_ctx_def)

lemma slot_of_width_8:
  assumes "bit_width X = 8"
  shows "slot_of X d k = unat (hash_key X k ! d)"
  using bits_from_byte [of "hash_key X k" d] assms by (simp add: slot_of_def mult.commute)

text \<open>At the default width, distinct hashes mean no collision.\<close>

lemma collision_free_inj:
  assumes "width_ok X" "bit_width X = 8" "inj_on (hash_key X) K"
  shows "collision_free X K"
  unfolding collision_free_def
proof (intro ballI impI)
  fix k k' assume k: "k \<in> K" "k' \<in> K" and ag: "agree X (levels X) k k'"
  have "levels X = 32" using assms(2) by (simp add: levels_def)
  then have "hash_key X k = hash_key X k'"
    using ag assms(1,2) by (intro nth_equalityI) (auto simp: agree_def slot_of_width_8 width_ok_def word_unat_eq_iff)
  with assms(3) k show "k = k'" by (auto dest: inj_onD)
qed

text \<open>Keys of the same length, at most 32, have different hashes here.\<close>

lemma ex_hash_inj: "length a = length b \<Longrightarrow> length a \<le> 32 \<Longrightarrow> ex_hash a = ex_hash b \<Longrightarrow> a = b"
  by (simp add: ex_hash_def)

lemma ex_collision_free:
  assumes "\<And>k. k \<in> K \<Longrightarrow> length k = n" "n \<le> 32"
  shows "collision_free ex_ctx K"
proof (rule collision_free_inj)
  show "inj_on (hash_key ex_ctx) K"
  proof (rule inj_onI)
    fix a b assume "a \<in> K" "b \<in> K" "hash_key ex_ctx a = hash_key ex_ctx b"
    then show "a = b"
      using ex_hash_inj [of "str_bytes a" "str_bytes b"] assms str_bytes_inj
      by (simp add: ex_ctx_def str_bytes_def)
  qed
qed (use ex_hamt_ok in \<open>simp_all add: hamt_ok_def ex_ctx_def DEFAULT_BIT_WIDTH_def\<close>)

end
