(* ===== verification/Hamt_Spec.thy ===== *)
theory Hamt_Spec
  imports Example_Env
begin

text \<open>
  The properties of the HAMT and of the parts below it, with witnesses in the concrete
  environment of \<open>Example_Env\<close>.
\<close>

section \<open>Example maps\<close>

definition ex_cid :: cid where
  "ex_cid = Cid 113 [7]"

definition ex_empty :: "(string, cid) hamt" where
  "ex_empty = hamt_new Map.empty"

definition ex_one :: "(string, cid) hamt" where
  "ex_one = snd (hamt_set ex_ctx ''a'' ex_cid ex_empty)"

lemma ex_empty_rep: "hamt_rep ex_ctx ex_empty Map.empty"
  unfolding ex_empty_def by (rule hamt_new_rep [OF ex_hamt_ok]) simp

lemma ex_key: "collision_free ex_ctx {''a''}"
  by (rule ex_collision_free [of _ 1]) auto

lemma ex_one_rep: "hamt_rep ex_ctx ex_one [''a'' \<mapsto> ex_cid]"
  using hamt_set_rep [OF ex_hamt_ok ex_empty_rep, of "''a''" ex_cid] ex_key by (auto simp: ex_one_def)

lemma ex_keys: "collision_free ex_ctx (insert ''b'' (dom [''a'' \<mapsto> ex_cid]))"
  by (rule ex_collision_free [of _ 1]) auto

section \<open>Refinement of maps\<close>

text \<open>C1: two HAMTs that stand for the same map, whatever stores they live in and whatever
  insertions and removals led to them, flush to the same root CID.\<close>

theorem flush_cid_canonical:
  assumes "hamt_ok X" "hamt_rep X H m" "hamt_rep X H' m"
  shows "\<exists>c. fst (hamt_flush X H) = Inr c \<and> fst (hamt_flush X H') = Inr c"
proof -
  obtain c H1 where c: "hamt_flush X H = (Inr c, H1)" "hamt_at X (store H1) c m"
    using hamt_flush_rep [OF assms(1,2)] by blast
  obtain c' H2 where c': "hamt_flush X H' = (Inr c', H2)" "hamt_at X (store H2) c' m"
    using hamt_flush_rep [OF assms(1,3)] by blast
  have "c = c'" by (rule hamt_at_cid [OF c(2) c'(2)])
  with c(1) c'(1) show ?thesis by simp
qed

theorem flush_cid_canonical_witness:
  "\<exists>c. fst (hamt_flush ex_ctx ex_empty) = Inr c \<and>
     fst (hamt_flush ex_ctx (snd (hamt_delete ex_ctx ''a'' ex_one))) = Inr c"
proof (rule flush_cid_canonical [OF ex_hamt_ok ex_empty_rep])
  show "hamt_rep ex_ctx (snd (hamt_delete ex_ctx ''a'' ex_one)) Map.empty"
    using hamt_delete_rep [OF ex_hamt_ok ex_one_rep, of "''a''"] by auto
qed

text \<open>C10: \<open>set\<close> returns the previous value, makes the map updated at the key, and keeps the
  canonical form; it does so through any number of links to stored nodes.\<close>

theorem set_refines_update:
  assumes "hamt_ok X" "hamt_rep X H m" "collision_free X (insert k (dom m))"
  shows "\<exists>H'. hamt_set X k v H = (Inr (m k), H') \<and> hamt_rep X H' (m(k \<mapsto> v)) \<and> store H' = store H"
  using assms by (rule hamt_set_rep)

theorem set_refines_update_witness:
  "\<exists>H'. hamt_set ex_ctx ''b'' ex_cid ex_one = (Inr None, H') \<and>
     hamt_rep ex_ctx H' [''a'' \<mapsto> ex_cid, ''b'' \<mapsto> ex_cid]"
  using set_refines_update [OF ex_hamt_ok ex_one_rep ex_keys, of ex_cid] by auto

text \<open>C11: \<open>delete\<close> returns the removed entry, removes the key and restores the canonical form,
  collapsing nodes that are left with at most three entries.\<close>

theorem delete_refines_removal:
  assumes "hamt_ok X" "hamt_rep X H m"
  shows "\<exists>H'. hamt_delete X k H = (Inr (map_option (Pair k) (m k)), H') \<and> hamt_rep X H' (m(k := None)) \<and>
    store H' = store H"
  using assms by (rule hamt_delete_rep)

theorem delete_refines_removal_witness:
  "\<exists>H'. hamt_delete ex_ctx ''a'' ex_one = (Inr (Some (''a'', ex_cid)), H') \<and> hamt_rep ex_ctx H' Map.empty"
  using delete_refines_removal [OF ex_hamt_ok ex_one_rep, of "''a''"] by auto

text \<open>C19: \<open>get\<close> and \<open>contains_key\<close> return what the map has at the key; the caches they fill do
  not change what the HAMT stands for.\<close>

theorem get_refines_lookup:
  assumes "hamt_ok X" "hamt_rep X H m"
  shows "\<exists>H'. hamt_get X k H = (Inr (m k), H') \<and> hamt_contains_key X k H = (Inr (m k \<noteq> None), H') \<and>
    hamt_rep X H' m \<and> store H' = store H"
  using hamt_get_rep [OF assms, of k] by (auto simp: hamt_contains_key_def)

theorem get_refines_lookup_witness:
  "\<exists>H'. hamt_get ex_ctx ''a'' ex_one = (Inr (Some ex_cid), H') \<and>
     hamt_contains_key ex_ctx ''a'' ex_one = (Inr True, H')"
  using get_refines_lookup [OF ex_hamt_ok ex_one_rep, of "''a''"] by auto

text \<open>\<open>set_if_absent\<close> never overwrites: it reports whether the key was absent and only then
  adds the entry.\<close>

theorem set_if_absent_keeps:
  assumes "hamt_ok X" "hamt_rep X H m" "collision_free X (insert k (dom m))"
  shows "\<exists>H'. hamt_set_if_absent X k v H = (Inr (m k = None), H') \<and>
    hamt_rep X H' (if m k = None then m(k \<mapsto> v) else m)"
  using hamt_set_if_absent_rep [OF assms] by blast

theorem set_if_absent_keeps_witness:
  "\<exists>H'. hamt_set_if_absent ex_ctx ''a'' (Cid 113 []) ex_one = (Inr False, H') \<and>
     hamt_rep ex_ctx H' [''a'' \<mapsto> ex_cid]"
  using set_if_absent_keeps [OF ex_hamt_ok ex_one_rep, of "''a''" "Cid 113 []"] ex_key by simp

text \<open>C20: flushing succeeds, only adds blocks to the store, and the CID it returns loads, from
  any later state of the store, a HAMT for the same map.\<close>

theorem flush_load_round_trip:
  assumes "hamt_ok X" "hamt_rep X H m"
  shows "\<exists>c H'. hamt_flush X H = (Inr c, H') \<and> store H \<subseteq>\<^sub>m store H' \<and>
    (\<forall>s. store H' \<subseteq>\<^sub>m s \<longrightarrow> store_ok (henv X) s \<longrightarrow> (\<exists>H''. hamt_load X c s = Inr H'' \<and> hamt_rep X H'' m))"
proof -
  obtain c H' where c: "hamt_flush X H = (Inr c, H')" "hamt_at X (store H') c m" "store H \<subseteq>\<^sub>m store H'"
    using hamt_flush_rep [OF assms] by blast
  have "\<exists>H''. hamt_load X c s = Inr H'' \<and> hamt_rep X H'' m" if "store H' \<subseteq>\<^sub>m s" "store_ok (henv X) s" for s
    using hamt_load_rep [OF assms(1) that(2) hamt_at_mono [OF c(2) that(1)]] by blast
  with c show ?thesis by blast
qed

theorem flush_load_round_trip_witness:
  "\<exists>c H'. hamt_flush ex_ctx ex_one = (Inr c, H') \<and>
     (\<exists>H''. hamt_load ex_ctx c (store H') = Inr H'' \<and> hamt_rep ex_ctx H'' [''a'' \<mapsto> ex_cid])"
proof -
  obtain c H' where c: "hamt_flush ex_ctx ex_one = (Inr c, H')"
      "\<And>s. store H' \<subseteq>\<^sub>m s \<Longrightarrow> store_ok ex_env s \<Longrightarrow> \<exists>H''. hamt_load ex_ctx c s = Inr H'' \<and> hamt_rep ex_ctx H'' [''a'' \<mapsto> ex_cid]"
    using flush_load_round_trip [OF ex_hamt_ok ex_one_rep] by auto
  moreover have "store_ok ex_env (store H')"
    using hamt_flush_rep [OF ex_hamt_ok ex_one_rep] c(1) by (auto simp: hamt_rep_def)
  ultimately show ?thesis using map_le_refl [of "store H'"] by blast
qed

text \<open>C21: iteration yields every entry of the map exactly once, borrowed or owned; the loop of
  \<open>into_stream\<close> ends.\<close>

theorem streams_enumerate:
  assumes "hamt_ok X" "hamt_rep X H m"
  shows "\<exists>out out' F. fst (hamt_stream X H) = out \<and> fst (snd (hamt_stream X H)) = Inr () \<and>
    distinct (map fst out) \<and> map_of out = m \<and>
    (\<forall>f\<ge>F. hamt_into_stream f X H = (out', Inr ())) \<and> distinct (map fst out') \<and> map_of out' = m"
  using hamt_stream_rep [OF assms] hamt_into_stream_rep [OF assms] by (force simp: enumerates_def)

theorem streams_enumerate_witness:
  "\<exists>out. fst (hamt_stream ex_ctx ex_one) = out \<and> map_of out = [''a'' \<mapsto> ex_cid]"
  using streams_enumerate [OF ex_hamt_ok ex_one_rep] by blast

text \<open>C22: on any node and any store, corrupted ones included, lookup, insertion and removal end
  within the levels of a 256-bit hash.\<close>

theorem hamt_operations_end:
  assumes "width_ok X"
  shows "fst (hamt_get X k H) \<noteq> Inl OutOfFuel \<and> fst (node_set X ov k v H) \<noteq> Inl OutOfFuel \<and>
    fst (hamt_delete X k H) \<noteq> Inl OutOfFuel"
proof -
  have bw: "0 < bit_width X" and len: "length (hash_key X k) = 32" using assms by (auto simp: width_ok_def)
  note en = enough_new [OF len]
  have "length (hb_b (new (hash_key X k))) = 32" using len by (simp add: new_def new_at_index_def)
  then show ?thesis
    using get_value_ends [OF bw en, of "store H" k "root H"] rm_value_ends [OF bw en, of "store H" k "root H"]
      modify_value_ends [OF assms _ en, of "store H" ov k v "root H"]
    by (auto simp: hamt_get_def node_set_def hamt_delete_def rbind_fuel split: prod.split)
qed

theorem hamt_operations_end_witness:
  "fst (hamt_get ex_ctx ''a'' ex_one) \<noteq> Inl OutOfFuel \<and>
   fst (node_set ex_ctx True ''b'' ex_cid \<lparr>root = Node zero [Dirty empty_node], store = Map.empty\<rparr>) \<noteq> Inl OutOfFuel"
  using hamt_operations_end [of ex_ctx] ex_hamt_ok by (simp add: hamt_ok_def)

section \<open>Parts\<close>

text \<open>C31: reading back the bytes of a bitfield gives the bitfield, although leading zero bytes
  are dropped.\<close>

theorem bitfield_round_trip: "deserialize (serialize bf) = Inr bf \<and> length (serialize bf) \<le> 32"
  by (simp add: deserialize_serialize_eq serialize_length)

text \<open>The cursor over a hash yields, most significant bit first, the number that the next
  bits spell, moves on by their count, and reports the end of the hash as an error.\<close>

theorem hash_bits_next:
  assumes "0 < i" "i \<le> 8"
  shows "if consumed h + i \<le> 8 * length (hb_b h)
    then \<exists>r. next_idx h i = Inr (r, h\<lparr>consumed := consumed h + i\<rparr>) \<and>
         unat r = bits_from (hb_b h) (consumed h) i \<and> unat r < 2 ^ i
    else next_idx h i = Inl (Anyhow ''Maximum depth reached'')"
proof (cases "consumed h + i \<le> 8 * length (hb_b h)")
  case True
  then obtain r where "next_idx h i = Inr (r, h\<lparr>consumed := consumed h + i\<rparr>)"
      "unat r = bits_from (hb_b h) (consumed h) i"
    using next_idx_spec assms by blast
  with True bits_from_less [of "hb_b h" "consumed h" i] show ?thesis by simp
next
  case False
  with assms(2) show ?thesis by (simp add: next_idx_exhausted)
qed

theorem hash_bits_next_witness:
  "\<exists>r. next_idx (new [0xC5, 0x80]) 4 = Inr (r, new_at_index [0xC5, 0x80] 4) \<and> unat r = 12"
proof -
  have "bits_from [0xC5, 0x80] 0 4 = 12" by (simp add: bits_from_def spell_def msb_bit_def upt_rec)
  then show ?thesis using hash_bits_next [of 4 "new [0xC5, 0x80]"] by (auto simp: new_def new_at_index_def)
qed

text \<open>C30: the position in the packed vector for a bit is the number of bits set below it;
  inserting, removing and overwriting a child are updates of the sparse array it stands for.\<close>

theorem node_is_sparse_array:
  assumes "wf_node n" "i < 256"
  shows "index_for_bit_pos n i = Inr (card {j \<in> positions (node_bitfield n). j < i}) \<and>
    (slots n i = None \<longrightarrow>
       (\<exists>n'. insert_child n i k v = Inr n' \<and> wf_node n' \<and> slots n' = (slots n)(i \<mapsto> Values [(k, v)]))) \<and>
    (\<forall>p. slots n i = Some p \<longrightarrow>
       (\<exists>n' j. index_for_bit_pos n i = Inr j \<and> rm_child n j i = Inr (p, n') \<and> wf_node n' \<and>
         slots n' = (slots n)(i := None)) \<and>
       (\<forall>q. \<exists>j. index_for_bit_pos n i = Inr j \<and> slots (set_child n j q) = (slots n)(i \<mapsto> q)))"
proof (intro conjI allI impI)
  show "index_for_bit_pos n i = Inr (card {j \<in> positions (node_bitfield n). j < i})"
    using assms(2) by (simp add: index_for_bit_pos_eq rank_def Int_def lessThan_def)
next
  assume "slots n i = None"
  then show "\<exists>n'. insert_child n i k v = Inr n' \<and> wf_node n' \<and> slots n' = (slots n)(i \<mapsto> Values [(k, v)])"
    using insert_child_slots [OF assms(1) _ assms(2)] by (metis from_key_value_def)
next
  fix p assume p: "slots n i = Some p"
  show "\<exists>n' j. index_for_bit_pos n i = Inr j \<and> rm_child n j i = Inr (p, n') \<and> wf_node n' \<and>
      slots n' = (slots n)(i := None)"
    using rm_child_slots [OF assms(1) p] index_for_bit_pos_eq [OF assms(2)] by metis
  fix q
  show "\<exists>j. index_for_bit_pos n i = Inr j \<and> slots (set_child n j q) = (slots n)(i \<mapsto> q)"
    using set_child_slots [OF assms(1), of i q] p index_for_bit_pos_eq [OF assms(2)] by auto
qed

theorem node_is_sparse_array_witness:
  "\<exists>n'. insert_child (empty_node :: (string, cid) node) 200 ''a'' ex_cid = Inr n' \<and> wf_node n' \<and>
     slots n' = [200 \<mapsto> Values [(''a'', ex_cid)]]"
proof -
  have "slots (empty_node :: (string, cid) node) = Map.empty" by auto
  then show ?thesis using node_is_sparse_array [of "empty_node :: (string, cid) node" 200 "''a''" ex_cid] by auto
qed

text \<open>A value saved in a block store is found again under its CID in every later state of
  the store; asking for it under another codec is an error.\<close>

theorem save_load_round_trip:
  assumes "codec_ok E" "hash_ok E" "store_ok E s" "\<And>x. f x = Some (g x) \<and> plain (g x) \<and> h (g x) = Inr x"
  shows "\<exists>c s'. save E DagCborCodec f x s = (Inr c, s') \<and> s \<subseteq>\<^sub>m s' \<and> store_ok E s' \<and>
    load E DagCborCodec h c s' = Inr x \<and> load E RawCodec h c s' = Inl (Anyhow ''Incorrect codec'')"
proof -
  have "plain (g x)" using assms(4) by simp
  then obtain c s' where p: "put E DagCborCodec (g x) s = (Inr c, s')" "has_block E s' c (g x)" "s \<subseteq>\<^sub>m s'"
      "store_ok E s'"
    by (rule put_has_block [OF assms(1-3)])
  have "load E DagCborCodec h c s' = Inr x"
    using has_block_load [OF assms(1) p(2), of h] assms(4) by simp
  moreover have "load E RawCodec h c s' = Inl (Anyhow ''Incorrect codec'')"
    using has_block_get(2) [OF assms(1) p(2)] by (simp add: load_def)
  ultimately show ?thesis using p assms(4) by (simp add: save_def)
qed

theorem save_load_round_trip_witness:
  "\<exists>c s'. save ex_env DagCborCodec (\<lambda>x. Some (IString x)) ''hello'' Map.empty = (Inr c, s') \<and>
     load ex_env DagCborCodec (\<lambda>i. case i of IString x \<Rightarrow> Inr x | _ \<Rightarrow> Inl OutOfFuel) c s' = Inr ''hello''"
  using save_load_round_trip [OF ex_codec_ok ex_hash_ok, of Map.empty "\<lambda>x. Some (IString x)" IString
      "\<lambda>i. case i of IString x \<Rightarrow> Inr x | _ \<Rightarrow> Inl OutOfFuel" "''hello''"] by auto

end
