(* ===== verification/Sphere_Data.thy ===== *)
theory Sphere_Data
  imports Hamt "HOL-Library.Monad_Syntax"
begin

text \<open>
  The data structures of a sphere (\<^verbatim>\<open>noosphere-core/src/data\<close>): memos, changelogs, the
  bodies of versioned maps, the sphere root, its address book and authority, and the values
  stored in its maps; with the IPLD form that their derived serializers give them. A struct
  is a map from field names to values, a missing optional field reads as \<open>None\<close>, an enum is a
  map with the variant's name as its only key.
\<close>

section \<open>Serialization\<close>

definition field :: "string \<Rightarrow> ipld \<Rightarrow> ipld option" where
  "field name i = (case i of IMap kvs \<Rightarrow> map_of kvs name | _ \<Rightarrow> None)"

fun string_from_ipld :: "ipld \<Rightarrow> string option" where
  "string_from_ipld (IString s) = Some s"
| "string_from_ipld _ = None"

fun cid_from_ipld :: "ipld \<Rightarrow> cid option" where
  "cid_from_ipld (ILink c) = Some c"
| "cid_from_ipld _ = None"

fun list_from_ipld :: "(ipld \<Rightarrow> 'a option) \<Rightarrow> ipld \<Rightarrow> 'a list option" where
  "list_from_ipld f (IList is) = traverse f is"
| "list_from_ipld f _ = None"

fun option_to_ipld :: "('a \<Rightarrow> ipld) \<Rightarrow> 'a option \<Rightarrow> ipld" where
  "option_to_ipld f None = INull"
| "option_to_ipld f (Some x) = f x"

definition option_from_ipld :: "(ipld \<Rightarrow> 'a option) \<Rightarrow> ipld option \<Rightarrow> 'a option option" where
  "option_from_ipld f i =
     (case i of None \<Rightarrow> Some None | Some INull \<Rightarrow> Some None | Some j \<Rightarrow> map_option Some (f j))"

text \<open>A type whose serializer and deserializer are inverse, on values that CBOR can represent.\<close>

definition serde :: "('a \<Rightarrow> ipld) \<Rightarrow> (ipld \<Rightarrow> 'a option) \<Rightarrow> bool" where
  "serde f g \<longleftrightarrow> (\<forall>x. g (f x) = Some x \<and> plain (f x))"

definition save_value :: "codec_env \<Rightarrow> ('a \<Rightarrow> ipld) \<Rightarrow> 'a \<Rightarrow> blocks \<Rightarrow> cid result \<times> blocks" where
  "save_value E f x s = save E DagCborCodec (\<lambda>y. Some (f y)) x s"

definition load_value :: "codec_env \<Rightarrow> (ipld \<Rightarrow> 'a option) \<Rightarrow> cid \<Rightarrow> blocks \<Rightarrow> 'a result" where
  "load_value E g c s = load E DagCborCodec (\<lambda>i. of_option (Anyhow ''from_ipld'') (g i)) c s"

text \<open>\<open>Link::load_from\<close>: the codec is taken from the CID.\<close>

definition load_from :: "codec_env \<Rightarrow> (ipld \<Rightarrow> 'a option) \<Rightarrow> cid \<Rightarrow> blocks \<Rightarrow> 'a result" where
  "load_from E g c s =
     (if codec_of c = codec_id DagCborCodec then load_value E g c s
      else if codec_of c = codec_id RawCodec
      then load E RawCodec (\<lambda>i. of_option (Anyhow ''from_ipld'') (g i)) c s
      else Inl (Anyhow ''Unsupported codec''))"

section \<open>Memos\<close>

record memo =
  parent :: "cid option"
  headers :: "(string \<times> string) list"
  body :: cid

definition header_to_ipld :: "string \<times> string \<Rightarrow> ipld" where
  "header_to_ipld h = IList [IString (fst h), IString (snd h)]"

definition header_from_ipld :: "ipld \<Rightarrow> (string \<times> string) option" where
  "header_from_ipld i =
     (case i of IList [IString a, IString b] \<Rightarrow> Some (a, b) | _ \<Rightarrow> None)"

definition memo_to_ipld :: "memo \<Rightarrow> ipld" where
  "memo_to_ipld m = IMap
     [(''body'', ILink (body m)),
      (''headers'', IList (map header_to_ipld (headers m))),
      (''parent'', option_to_ipld ILink (parent m))]"

definition memo_from_ipld :: "ipld \<Rightarrow> memo option" where
  "memo_from_ipld i = do {
     b \<leftarrow> field ''body'' i; b' \<leftarrow> cid_from_ipld b;
     h \<leftarrow> field ''headers'' i; h' \<leftarrow> list_from_ipld header_from_ipld h;
     p' \<leftarrow> option_from_ipld cid_from_ipld (field ''parent'' i);
     Some \<lparr>parent = p', headers = h', body = b'\<rparr> }"

section \<open>Changelogs and versioned maps\<close>

record 'op changelog =
  did :: "string option"
  changes :: "'op list"

datatype ('k, 'v) map_operation = Add (op_key: 'k) 'v | Remove (op_key: 'k)

fun op_to_ipld :: "('k \<Rightarrow> ipld) \<Rightarrow> ('v \<Rightarrow> ipld) \<Rightarrow> ('k, 'v) map_operation \<Rightarrow> ipld" where
  "op_to_ipld fk fv (Add k v) = IMap [(''Add'', IMap [(''key'', fk k), (''value'', fv v)])]"
| "op_to_ipld fk fv (Remove k) = IMap [(''Remove'', IMap [(''key'', fk k)])]"

definition op_from_ipld ::
    "(ipld \<Rightarrow> 'k option) \<Rightarrow> (ipld \<Rightarrow> 'v option) \<Rightarrow> ipld \<Rightarrow> ('k, 'v) map_operation option" where
  "op_from_ipld gk gv i =
     (case i of
        IMap [(name, j)] \<Rightarrow>
          if name = ''Add'' then do {
            k \<leftarrow> field ''key'' j; k' \<leftarrow> gk k; v \<leftarrow> field ''value'' j; v' \<leftarrow> gv v; Some (Add k' v') }
          else if name = ''Remove'' then do { k \<leftarrow> field ''key'' j; k' \<leftarrow> gk k; Some (Remove k') }
          else None
      | _ \<Rightarrow> None)"

definition changelog_to_ipld ::
    "('k \<Rightarrow> ipld) \<Rightarrow> ('v \<Rightarrow> ipld) \<Rightarrow> ('k, 'v) map_operation changelog \<Rightarrow> ipld" where
  "changelog_to_ipld fk fv cl = IMap
     [(''changes'', IList (map (op_to_ipld fk fv) (changes cl))),
      (''did'', option_to_ipld IString (did cl))]"

definition changelog_from_ipld ::
    "(ipld \<Rightarrow> 'k option) \<Rightarrow> (ipld \<Rightarrow> 'v option) \<Rightarrow> ipld \<Rightarrow> ('k, 'v) map_operation changelog option" where
  "changelog_from_ipld gk gv i = do {
     c \<leftarrow> field ''changes'' i; c' \<leftarrow> list_from_ipld (op_from_ipld gk gv) c;
     d' \<leftarrow> option_from_ipld string_from_ipld (field ''did'' i);
     Some \<lparr>did = d', changes = c'\<rparr> }"

record vmap_ipld =
  vm_hamt :: cid
  vm_changelog :: cid

definition vmap_to_ipld :: "vmap_ipld \<Rightarrow> ipld" where
  "vmap_to_ipld b = IMap [(''changelog'', ILink (vm_changelog b)), (''hamt'', ILink (vm_hamt b))]"

definition vmap_from_ipld :: "ipld \<Rightarrow> vmap_ipld option" where
  "vmap_from_ipld i = do {
     c \<leftarrow> field ''changelog'' i; c' \<leftarrow> cid_from_ipld c;
     h \<leftarrow> field ''hamt'' i; h' \<leftarrow> cid_from_ipld h;
     Some \<lparr>vm_hamt = h', vm_changelog = c'\<rparr> }"

section \<open>The sphere root\<close>

record sphere_ipld =
  identity :: did
  content :: cid
  address_book :: cid
  authority :: cid
  private_data :: "cid option"

definition sphere_to_ipld :: "sphere_ipld \<Rightarrow> ipld" where
  "sphere_to_ipld b = IMap
     [(''address_book'', ILink (address_book b)), (''authority'', ILink (authority b)),
      (''content'', ILink (content b)), (''identity'', IString (identity b)),
      (''private'', option_to_ipld ILink (private_data b))]"

definition sphere_from_ipld :: "ipld \<Rightarrow> sphere_ipld option" where
  "sphere_from_ipld i = do {
     d \<leftarrow> field ''identity'' i; d' \<leftarrow> string_from_ipld d;
     c \<leftarrow> field ''content'' i; c' \<leftarrow> cid_from_ipld c;
     b \<leftarrow> field ''address_book'' i; b' \<leftarrow> cid_from_ipld b;
     a \<leftarrow> field ''authority'' i; a' \<leftarrow> cid_from_ipld a;
     p' \<leftarrow> option_from_ipld cid_from_ipld (field ''private'' i);
     Some \<lparr>identity = d', content = c', address_book = b', authority = a', private_data = p'\<rparr> }"

record address_book_ipld =
  identities :: cid

definition address_book_to_ipld :: "address_book_ipld \<Rightarrow> ipld" where
  "address_book_to_ipld b = IMap [(''identities'', ILink (identities b))]"

definition address_book_from_ipld :: "ipld \<Rightarrow> address_book_ipld option" where
  "address_book_from_ipld i = do {
     c \<leftarrow> field ''identities'' i; c' \<leftarrow> cid_from_ipld c; Some \<lparr>identities = c'\<rparr> }"

record authority_ipld =
  delegations :: cid
  revocations :: cid

definition authority_to_ipld :: "authority_ipld \<Rightarrow> ipld" where
  "authority_to_ipld a =
     IMap [(''delegations'', ILink (delegations a)), (''revocations'', ILink (revocations a))]"

definition authority_from_ipld :: "ipld \<Rightarrow> authority_ipld option" where
  "authority_from_ipld i = do {
     d \<leftarrow> field ''delegations'' i; d' \<leftarrow> cid_from_ipld d;
     r \<leftarrow> field ''revocations'' i; r' \<leftarrow> cid_from_ipld r;
     Some \<lparr>delegations = d', revocations = r'\<rparr> }"

section \<open>Values of the maps\<close>

record identity_ipld =
  id_did :: did
  link_record :: "cid option"

definition identity_to_ipld :: "identity_ipld \<Rightarrow> ipld" where
  "identity_to_ipld x =
     IMap [(''did'', IString (id_did x)), (''link_record'', option_to_ipld ILink (link_record x))]"

definition identity_from_ipld :: "ipld \<Rightarrow> identity_ipld option" where
  "identity_from_ipld i = do {
     d \<leftarrow> field ''did'' i; d' \<leftarrow> string_from_ipld d;
     l' \<leftarrow> option_from_ipld cid_from_ipld (field ''link_record'' i);
     Some \<lparr>id_did = d', link_record = l'\<rparr> }"

record delegation_ipld =
  dg_name :: string
  dg_jwt :: cid

definition delegation_to_ipld :: "delegation_ipld \<Rightarrow> ipld" where
  "delegation_to_ipld x = IMap [(''jwt'', ILink (dg_jwt x)), (''name'', IString (dg_name x))]"

definition delegation_from_ipld :: "ipld \<Rightarrow> delegation_ipld option" where
  "delegation_from_ipld i = do {
     j \<leftarrow> field ''jwt'' i; j' \<leftarrow> cid_from_ipld j;
     n \<leftarrow> field ''name'' i; n' \<leftarrow> string_from_ipld n;
     Some \<lparr>dg_name = n', dg_jwt = j'\<rparr> }"

record revocation_ipld =
  iss :: string
  revoke :: string
  challenge :: string

definition revocation_to_ipld :: "revocation_ipld \<Rightarrow> ipld" where
  "revocation_to_ipld x = IMap
     [(''challenge'', IString (challenge x)), (''iss'', IString (iss x)), (''revoke'', IString (revoke x))]"

definition revocation_from_ipld :: "ipld \<Rightarrow> revocation_ipld option" where
  "revocation_from_ipld i = do {
     c \<leftarrow> field ''challenge'' i; c' \<leftarrow> string_from_ipld c;
     s \<leftarrow> field ''iss'' i; s' \<leftarrow> string_from_ipld s;
     r \<leftarrow> field ''revoke'' i; r' \<leftarrow> string_from_ipld r;
     Some \<lparr>iss = s', revoke = r', challenge = c'\<rparr> }"

section \<open>Round trips\<close>

named_theorems serde_simps \<open>round trips of the serializers\<close>

lemma field_simps [simp]: "field name (IMap kvs) = map_of kvs name"
  by (simp add: field_def)

lemma string_less_simps:
  "(x # xs < (y # ys :: string)) = (of_char x < (of_char y :: nat) \<or> x = y \<and> xs < ys)"
  by (auto simp: less_char_def)

lemma option_round [simp]:
  "option_from_ipld cid_from_ipld (Some (option_to_ipld ILink x)) = Some x"
  "option_from_ipld string_from_ipld (Some (option_to_ipld IString y)) = Some y"
  "plain (option_to_ipld ILink x)" "plain (option_to_ipld IString y)"
  by (cases x; cases y; simp add: option_from_ipld_def)+

lemma string_serde [serde_simps]: "serde IString string_from_ipld"
  and cid_serde [serde_simps]: "serde ILink cid_from_ipld"
  by (simp_all add: serde_def)

lemma list_round:
  assumes "serde f g"
  shows "list_from_ipld g (IList (map f xs)) = Some xs" and "plain (IList (map f xs))"
  using assms by (auto simp: serde_def list_all_iff intro: traverse_map_id)

lemma header_serde: "serde header_to_ipld header_from_ipld"
  by (simp add: serde_def header_to_ipld_def header_from_ipld_def)

lemma memo_serde [serde_simps]: "serde memo_to_ipld memo_from_ipld"
  using list_round [OF header_serde]
  by (simp add: serde_def memo_to_ipld_def memo_from_ipld_def string_less_simps)

lemma op_serde:
  assumes "serde fk gk" "serde fv gv"
  shows "serde (op_to_ipld fk fv) (op_from_ipld gk gv)"
  unfolding serde_def
proof
  fix x
  show "op_from_ipld gk gv (op_to_ipld fk fv x) = Some x \<and> plain (op_to_ipld fk fv x)"
    using assms by (cases x) (simp_all add: serde_def op_from_ipld_def string_less_simps)
qed

lemma changelog_serde [serde_simps]:
  assumes "serde fk gk" "serde fv gv"
  shows "serde (changelog_to_ipld fk fv) (changelog_from_ipld gk gv)"
  using list_round [OF op_serde [OF assms]]
  by (simp add: serde_def changelog_to_ipld_def changelog_from_ipld_def string_less_simps)

lemma vmap_serde [serde_simps]: "serde vmap_to_ipld vmap_from_ipld"
  by (simp add: serde_def vmap_to_ipld_def vmap_from_ipld_def string_less_simps)

lemma sphere_serde [serde_simps]: "serde sphere_to_ipld sphere_from_ipld"
  by (simp add: serde_def sphere_to_ipld_def sphere_from_ipld_def string_less_simps)

lemma address_book_serde [serde_simps]: "serde address_book_to_ipld address_book_from_ipld"
  by (simp add: serde_def address_book_to_ipld_def address_book_from_ipld_def)

lemma authority_serde [serde_simps]: "serde authority_to_ipld authority_from_ipld"
  by (simp add: serde_def authority_to_ipld_def authority_from_ipld_def string_less_simps)

lemma identity_serde [serde_simps]: "serde identity_to_ipld identity_from_ipld"
  by (simp add: serde_def identity_to_ipld_def identity_from_ipld_def string_less_simps)

lemma delegation_serde [serde_simps]: "serde delegation_to_ipld delegation_from_ipld"
  by (simp add: serde_def delegation_to_ipld_def delegation_from_ipld_def string_less_simps)

lemma revocation_serde [serde_simps]: "serde revocation_to_ipld revocation_from_ipld"
  by (simp add: serde_def revocation_to_ipld_def revocation_from_ipld_def string_less_simps)

section \<open>Values in the block store\<close>

text \<open>What the code relies on of the codec and the hash, and a value held under a CID.\<close>

definition env_ok :: "codec_env \<Rightarrow> bool" where
  "env_ok E \<longleftrightarrow> codec_ok E \<and> hash_ok E"

abbreviation value_at :: "codec_env \<Rightarrow> ('a \<Rightarrow> ipld) \<Rightarrow> blocks \<Rightarrow> cid \<Rightarrow> 'a \<Rightarrow> bool" where
  "value_at E f s c x \<equiv> has_block E s c (f x)"

lemma save_value_ok:
  assumes "env_ok E" "store_ok E s" "serde f g"
  obtains c s' where "save_value E f x s = (Inr c, s')" "value_at E f s' c x" "s \<subseteq>\<^sub>m s'" "store_ok E s'"
proof -
  obtain c s' where "put E DagCborCodec (f x) s = (Inr c, s')" "has_block E s' c (f x)" "s \<subseteq>\<^sub>m s'" "store_ok E s'"
    using put_has_block [of E s "f x"] assms by (auto simp: env_ok_def serde_def)
  then show thesis by (intro that) (simp_all add: save_value_def save_def)
qed

lemma load_value_ok:
  assumes "env_ok E" "serde f g" "value_at E f s c x"
  shows "load_value E g c s = Inr x"
  using assms(1,2) by (simp add: load_value_def has_block_load [OF _ assms(3)] env_ok_def serde_def)

lemma load_from_ok:
  assumes "env_ok E" "serde f g" "value_at E f s c x"
  shows "load_from E g c s = Inr x"
  using load_value_ok [OF assms] has_block_get(2) [OF _ assms(3)] assms(1)
  by (simp add: load_from_def env_ok_def)

lemma value_at_fun:
  assumes "env_ok E" "serde f g" "value_at E f s c x" "value_at E f s c y"
  shows "x = y"
  using load_value_ok [OF assms(1,2,3)] load_value_ok [OF assms(1,2,4)] by simp

lemmas value_at_mono = has_block_mono
lemmas value_at_cid = has_block_cid_eq

end
