(* ===== verification/Versioned_Map.thy ===== *)
theory Versioned_Map
  imports Sphere_Data
begin

text \<open>
  Versioned maps (\<^verbatim>\<open>noosphere-core/src/data/versioned_map.rs\<close>, \<^verbatim>\<open>data/changelog.rs\<close>,
  \<^verbatim>\<open>view/versioned_map.rs\<close> and the map mutations of \<^verbatim>\<open>view/mutation.rs\<close>): a HAMT with the
  changelog that leads to it from the previous version. The \<open>OnceCell\<close>s of the view only cache
  blocks that are found by their hash, so the model reads the store each time. Store handles
  of the code are clones that share one state, so the model threads one store.
\<close>

section \<open>Changelogs\<close>

definition changelog_default :: "'op changelog" where
  "changelog_default = \<lparr>did = None, changes = []\<rparr>"

definition changelog_is_empty :: "'op changelog \<Rightarrow> bool" where
  "changelog_is_empty cl \<longleftrightarrow> length (changes cl) = 0"

definition changelog_push :: "'op \<Rightarrow> 'op changelog \<Rightarrow> 'op changelog" where
  "changelog_push x cl = cl\<lparr>changes := changes cl @ [x]\<rparr>"

definition changelog_mark :: "string \<Rightarrow> 'op changelog \<Rightarrow> 'op changelog" where
  "changelog_mark d cl = \<lparr>did = Some d, changes = []\<rparr>"

section \<open>Mutations of a map\<close>

record ('k, 'v) vmap_mutation =
  mut_did :: string
  mut_changes :: "('k, 'v) map_operation list"

definition vmap_mutation_new :: "string \<Rightarrow> ('k, 'v) vmap_mutation" where
  "vmap_mutation_new d = \<lparr>mut_did = d, mut_changes = []\<rparr>"

definition mutation_set :: "'k \<Rightarrow> 'v \<Rightarrow> ('k, 'v) vmap_mutation \<Rightarrow> ('k, 'v) vmap_mutation" where
  "mutation_set k v \<mu> = \<mu>\<lparr>mut_changes := mut_changes \<mu> @ [Add k v]\<rparr>"

definition mutation_remove :: "'k \<Rightarrow> ('k, 'v) vmap_mutation \<Rightarrow> ('k, 'v) vmap_mutation" where
  "mutation_remove k \<mu> = \<mu>\<lparr>mut_changes := mut_changes \<mu> @ [Remove k]\<rparr>"

definition apply_changelog ::
    "('k, 'v) map_operation changelog \<Rightarrow> ('k, 'v) vmap_mutation \<Rightarrow> ('k, 'v) vmap_mutation result" where
  "apply_changelog cl \<mu> =
     (case did cl of
        None \<Rightarrow> Inl (Anyhow ''Changelog did not have an author DID'')
      | Some d \<Rightarrow>
          if d \<noteq> mut_did \<mu> then Inl (Anyhow ''Changelog has unexpected author'')
          else Inr (\<mu>\<lparr>mut_changes := changes cl\<rparr>))"

text \<open>\<open>append_changes\<close>: a later change replaces the earlier ones to the same key.\<close>

fun append_changes ::
    "('k, 'v) map_operation list \<Rightarrow> ('k, 'v) map_operation list \<Rightarrow> ('k, 'v) map_operation list" where
  "append_changes destination [] = destination"
| "append_changes destination (change # source) =
     append_changes (filter (\<lambda>op. op_key op \<noteq> op_key change) destination @ [change]) source"

section \<open>The view\<close>

definition vmap_empty :: "('k::linorder, 'v) hamt_ctx \<Rightarrow> blocks \<Rightarrow> vmap_ipld result \<times> blocks" where
  "vmap_empty X s =
     (let hamt = hamt_new s :: ('k, 'v) hamt in
      sbind (save_value (henv X) (changelog_to_ipld (key_to_ipld X) (val_to_ipld X)) changelog_default s)
        (\<lambda>changelog_cid s.
           case hamt_flush X (hamt\<lparr>store := s\<rparr>) of
             (Inl e, hamt) \<Rightarrow> (Inl e, store hamt)
           | (Inr hamt_cid, hamt) \<Rightarrow> (Inr \<lparr>vm_hamt = hamt_cid, vm_changelog = changelog_cid\<rparr>, store hamt)))"

text \<open>\<open>VersionedMap::empty\<close> and \<open>at_or_empty\<close>; the view is its CID.\<close>

definition vm_empty :: "('k::linorder, 'v) hamt_ctx \<Rightarrow> blocks \<Rightarrow> cid result \<times> blocks" where
  "vm_empty X s = sbind (vmap_empty X s) (\<lambda>ipld s. save_value (henv X) vmap_to_ipld ipld s)"

definition vm_at_or_empty :: "('k::linorder, 'v) hamt_ctx \<Rightarrow> cid option \<Rightarrow> blocks \<Rightarrow> cid result \<times> blocks" where
  "vm_at_or_empty X c s = (case c of Some c \<Rightarrow> (Inr c, s) | None \<Rightarrow> vm_empty X s)"

definition vm_to_body :: "('k, 'v) hamt_ctx \<Rightarrow> cid \<Rightarrow> blocks \<Rightarrow> vmap_ipld result" where
  "vm_to_body X c s = load_value (henv X) vmap_from_ipld c s"

definition get_changelog ::
    "('k, 'v) hamt_ctx \<Rightarrow> cid \<Rightarrow> blocks \<Rightarrow> ('k, 'v) map_operation changelog result" where
  "get_changelog X c s =
     rbind (vm_to_body X c s) (\<lambda>ipld.
       load_value (henv X) (changelog_from_ipld (key_from_ipld X) (val_from_ipld X)) (vm_changelog ipld) s)"

definition load_hamt :: "('k, 'v) hamt_ctx \<Rightarrow> cid \<Rightarrow> blocks \<Rightarrow> ('k, 'v) hamt result" where
  "load_hamt X c s = rbind (vm_to_body X c s) (\<lambda>ipld. hamt_load X (vm_hamt ipld) s)"

text \<open>\<open>get_added\<close>: the entries of the changelog's additions, the last one for each key.\<close>

fun added :: "('k, 'v) map_operation list \<Rightarrow> ('k \<rightharpoonup> 'v) \<Rightarrow> ('k \<rightharpoonup> 'v)" where
  "added [] m = m"
| "added (Add k v # ops) m = added ops (m(k \<mapsto> v))"
| "added (Remove k # ops) m = added ops m"

definition get_added :: "('k, 'v) hamt_ctx \<Rightarrow> cid \<Rightarrow> blocks \<Rightarrow> ('k \<rightharpoonup> 'v) result" where
  "get_added X c s = rbind (get_changelog X c s) (\<lambda>cl. Inr (added (changes cl) Map.empty))"

definition vm_get :: "('k, 'v) hamt_ctx \<Rightarrow> cid \<Rightarrow> 'k \<Rightarrow> blocks \<Rightarrow> 'v option result" where
  "vm_get X c k s = rbind (load_hamt X c s) (\<lambda>hamt. fst (hamt_get X k hamt))"

definition vm_get_as_cid :: "('k, 'v) hamt_ctx \<Rightarrow> codec \<Rightarrow> cid \<Rightarrow> 'k \<Rightarrow> blocks \<Rightarrow> cid option result" where
  "vm_get_as_cid X C c k s =
     rbind (load_hamt X c s) (\<lambda>hamt. rbind (fst (hamt_get X k hamt)) (\<lambda>v.
       case v of
         None \<Rightarrow> Inr None
       | Some v \<Rightarrow>
           rbind (block_serialize (henv X) C (\<lambda>v. Some (val_to_ipld X v)) v) (\<lambda>(c, _). Inr (Some c))))"

definition vm_require :: "('k, 'v) hamt_ctx \<Rightarrow> cid \<Rightarrow> 'k \<Rightarrow> blocks \<Rightarrow> 'v result" where
  "vm_require X c k s = rbind (vm_get X c k s) (of_option (Anyhow ''Key not found!''))"

definition vm_require_as_cid :: "('k, 'v) hamt_ctx \<Rightarrow> codec \<Rightarrow> cid \<Rightarrow> 'k \<Rightarrow> blocks \<Rightarrow> cid result" where
  "vm_require_as_cid X C c k s = rbind (vm_get_as_cid X C c k s) (of_option (Anyhow ''Key not found!''))"

definition vm_for_each ::
    "('k, 'v) hamt_ctx \<Rightarrow> cid \<Rightarrow> ('k \<Rightarrow> 'v \<Rightarrow> 'st \<Rightarrow> unit result \<times> 'st) \<Rightarrow> blocks \<Rightarrow> 'st \<Rightarrow> unit result \<times> 'st" where
  "vm_for_each X c f s st =
     (case load_hamt X c s of Inl e \<Rightarrow> (Inl e, st) | Inr hamt \<Rightarrow> hamt_for_each X f hamt st)"

definition vm_stream :: "('k, 'v) hamt_ctx \<Rightarrow> cid \<Rightarrow> blocks \<Rightarrow> (('k \<times> 'v) list \<times> unit result) result" where
  "vm_stream X c s =
     rbind (load_hamt X c s) (\<lambda>hamt. case hamt_stream X hamt of (out, r, _) \<Rightarrow> Inr (out, r))"

text \<open>The loop of \<open>apply_with_cid\<close>, for the operations \<open>set\<close> and \<open>delete\<close> of any map.\<close>

fun apply_changes ::
    "('k \<Rightarrow> 'v \<Rightarrow> 'h \<Rightarrow> 'v option result \<times> 'h) \<Rightarrow> ('k \<Rightarrow> 'h \<Rightarrow> ('k \<times> 'v) option result \<times> 'h) \<Rightarrow>
     ('k, 'v) map_operation list \<Rightarrow> ('k, 'v) map_operation changelog \<Rightarrow> 'h \<Rightarrow>
     ('k, 'v) map_operation changelog result \<times> 'h" where
  "apply_changes set' delete' [] changelog hamt = (Inr changelog, hamt)"
| "apply_changes set' delete' (change # rest) changelog hamt =
     sbind (case change of
              Add key value \<Rightarrow> sbind (set' key value hamt) (\<lambda>_ hamt. (Inr (), hamt))
            | Remove key \<Rightarrow> sbind (delete' key hamt) (\<lambda>_ hamt. (Inr (), hamt)))
       (\<lambda>_ hamt. apply_changes set' delete' rest (changelog_push change changelog) hamt)"

definition apply_with_cid ::
    "('k::linorder, 'v) hamt_ctx \<Rightarrow> cid option \<Rightarrow> ('k, 'v) vmap_mutation \<Rightarrow> blocks \<Rightarrow> cid result \<times> blocks" where
  "apply_with_cid X c \<mu> s =
     sbind (vm_at_or_empty X c s) (\<lambda>map s.
       case rbind (get_changelog X map s) (\<lambda>cl. rbind (load_hamt X map s) (\<lambda>hamt. Inr (cl, hamt))) of
         Inl e \<Rightarrow> (Inl e, s)
       | Inr (cl, hamt) \<Rightarrow>
           (case apply_changes (hamt_set X) (hamt_delete X) (mut_changes \<mu>) (changelog_mark (mut_did \<mu>) cl) hamt of
              (Inl e, hamt) \<Rightarrow> (Inl e, store hamt)
            | (Inr changelog, hamt) \<Rightarrow>
                sbind (save_value (henv X) (changelog_to_ipld (key_to_ipld X) (val_to_ipld X)) changelog (store hamt))
                  (\<lambda>changelog_cid s.
                     case hamt_flush X (hamt\<lparr>store := s\<rparr>) of
                       (Inl e, hamt) \<Rightarrow> (Inl e, store hamt)
                     | (Inr hamt_cid, hamt) \<Rightarrow>
                         save_value (henv X) vmap_to_ipld
                           \<lparr>vm_hamt = hamt_cid, vm_changelog = changelog_cid\<rparr> (store hamt))))"

section \<open>What a versioned map stands for\<close>

fun run_op :: "('k, 'v) map_operation \<Rightarrow> ('k \<rightharpoonup> 'v) \<Rightarrow> ('k \<rightharpoonup> 'v)" where
  "run_op (Add k v) m = m(k \<mapsto> v)"
| "run_op (Remove k) m = m(k := None)"

definition run_ops :: "('k, 'v) map_operation list \<Rightarrow> ('k \<rightharpoonup> 'v) \<Rightarrow> ('k \<rightharpoonup> 'v)" where
  "run_ops ops m = fold run_op ops m"

lemma run_ops_simps [simp]:
  "run_ops [] m = m" "run_ops (x # xs) m = run_ops xs (run_op x m)" "run_ops (xs @ ys) m = run_ops ys (run_ops xs m)"
  by (simp_all add: run_ops_def)

text \<open>\<open>vm_at X s c m cl\<close>: in store \<open>s\<close>, the versioned map at \<open>c\<close> is \<open>m\<close>, reached by \<open>cl\<close>.\<close>

definition vm_at ::
    "('k::linorder, 'v) hamt_ctx \<Rightarrow> blocks \<Rightarrow> cid \<Rightarrow> ('k \<rightharpoonup> 'v) \<Rightarrow> ('k, 'v) map_operation changelog \<Rightarrow> bool" where
  "vm_at X s c m cl \<longleftrightarrow>
     (\<exists>b. value_at (henv X) vmap_to_ipld s c b \<and> hamt_at X s (vm_hamt b) m \<and>
          value_at (henv X) (changelog_to_ipld (key_to_ipld X) (val_to_ipld X)) s (vm_changelog b) cl)"

lemma vm_at_mono: "vm_at X s c m cl \<Longrightarrow> s \<subseteq>\<^sub>m s' \<Longrightarrow> vm_at X s' c m cl"
  unfolding vm_at_def by (meson hamt_at_mono value_at_mono)

lemma hamt_ok_env: "hamt_ok X \<Longrightarrow> env_ok (henv X)"
  by (simp add: hamt_ok_def env_ok_def)

lemma hamt_ok_changelog_serde:
  "hamt_ok X \<Longrightarrow>
   serde (changelog_to_ipld (key_to_ipld X) (val_to_ipld X)) (changelog_from_ipld (key_from_ipld X) (val_from_ipld X))"
  by (rule changelog_serde) (auto simp: hamt_ok_def serde_ok_def serde_def)

text \<open>The CID of a versioned map is a function of its entries and its changelog.\<close>

lemma vm_at_cid:
  assumes "vm_at X s c m cl" "vm_at X s' c' m cl"
  shows "c = c'"
proof -
  obtain b b' where b: "value_at (henv X) vmap_to_ipld s c b" "hamt_at X s (vm_hamt b) m"
      "value_at (henv X) (changelog_to_ipld (key_to_ipld X) (val_to_ipld X)) s (vm_changelog b) cl"
    and b': "value_at (henv X) vmap_to_ipld s' c' b'" "hamt_at X s' (vm_hamt b') m"
      "value_at (henv X) (changelog_to_ipld (key_to_ipld X) (val_to_ipld X)) s' (vm_changelog b') cl"
    using assms unfolding vm_at_def by blast
  have "b = b'"
    using hamt_at_cid [OF b(2) b'(2)] value_at_cid [OF b(3) b'(3)] by simp
  with b b' show ?thesis by (auto intro: value_at_cid)
qed

lemma vm_at_loads:
  assumes "hamt_ok X" "store_ok (henv X) s" "vm_at X s c m cl"
  shows "get_changelog X c s = Inr cl"
    and "\<exists>H. load_hamt X c s = Inr H \<and> hamt_rep X H m \<and> store H = s"
proof -
  obtain b where b: "value_at (henv X) vmap_to_ipld s c b" "hamt_at X s (vm_hamt b) m"
      "value_at (henv X) (changelog_to_ipld (key_to_ipld X) (val_to_ipld X)) s (vm_changelog b) cl"
    using assms(3) unfolding vm_at_def by blast
  have body: "vm_to_body X c s = Inr b"
    unfolding vm_to_body_def by (rule load_value_ok [OF hamt_ok_env [OF assms(1)] vmap_serde b(1)])
  then show "get_changelog X c s = Inr cl"
    unfolding get_changelog_def
    by (simp add: load_value_ok [OF hamt_ok_env [OF assms(1)] hamt_ok_changelog_serde [OF assms(1)] b(3)])
  show "\<exists>H. load_hamt X c s = Inr H \<and> hamt_rep X H m \<and> store H = s"
    using hamt_load_rep [OF assms(1,2) b(2)] body by (simp add: load_hamt_def)
qed

lemma vm_at_fun:
  assumes "hamt_ok X" "store_ok (henv X) s" "vm_at X s c m cl" "vm_at X s c m' cl'"
  shows "m = m' \<and> cl = cl'"
proof -
  obtain b b' where b: "value_at (henv X) vmap_to_ipld s c b" "hamt_at X s (vm_hamt b) m"
    and b': "value_at (henv X) vmap_to_ipld s c b'" "hamt_at X s (vm_hamt b') m'"
    using assms(3,4) unfolding vm_at_def by blast
  have "b = b'" by (rule value_at_fun [OF hamt_ok_env [OF assms(1)] vmap_serde b(1) b'(1)])
  then have "m = m'" using hamt_at_fun [OF assms(1)] b(2) b'(2) by blast
  moreover have "cl = cl'"
    using vm_at_loads(1) [OF assms(1,2,3)] vm_at_loads(1) [OF assms(1,2,4)] by simp
  ultimately show ?thesis by simp
qed

section \<open>Applying a mutation\<close>

context persistent_map
begin

lemma apply_changes_ok:
  assumes "represents h m" and "keys_ok (dom m \<union> op_key ` set ops)"
  shows "\<exists>h'. apply_changes put_key remove_key ops cl h = (Inr (cl\<lparr>changes := changes cl @ ops\<rparr>), h') \<and>
    represents h' (run_ops ops m) \<and> store_of h' = store_of h"
  using assms
proof (induction ops arbitrary: cl h m)
  case (Cons x ops)
  have "\<exists>h1. (case x of Add k v \<Rightarrow> sbind (put_key k v h) (\<lambda>_ h. (Inr (), h))
      | Remove k \<Rightarrow> sbind (remove_key k h) (\<lambda>_ h. (Inr (), h))) = (Inr (), h1) \<and>
      represents h1 (run_op x m) \<and> store_of h1 = store_of h"
  proof (cases x)
    case (Add k v)
    then have "keys_ok (insert k (dom m))" by (intro keys_subset [OF Cons.prems(2)]) auto
    with put_ok [OF Cons.prems(1), of k v] Add show ?thesis by auto
  next
    case (Remove k)
    with remove_ok [OF Cons.prems(1), of k] show ?thesis by (auto simp del: fun_upd_apply)
  qed
  then obtain h1 where h1: "(case x of Add k v \<Rightarrow> sbind (put_key k v h) (\<lambda>_ h. (Inr (), h))
      | Remove k \<Rightarrow> sbind (remove_key k h) (\<lambda>_ h. (Inr (), h))) = (Inr (), h1)"
      "represents h1 (run_op x m)" "store_of h1 = store_of h"
    by blast
  have "dom (run_op x m) \<subseteq> insert (op_key x) (dom m)" by (cases x) auto
  then have "keys_ok (dom (run_op x m) \<union> op_key ` set ops)"
    by (intro keys_subset [OF Cons.prems(2)]) auto
  then show ?case
    using Cons.IH [OF h1(2), of "changelog_push x cl"] h1(1,3) by (simp add: changelog_push_def)
qed simp

end

lemma vm_empty_ok:
  assumes "hamt_ok X" "store_ok (henv X) s"
  obtains b s' where "vmap_empty X s = (Inr b, s')" "s \<subseteq>\<^sub>m s'" "store_ok (henv X) s'"
    "hamt_at X s' (vm_hamt b) Map.empty"
    "value_at (henv X) (changelog_to_ipld (key_to_ipld X) (val_to_ipld X)) s' (vm_changelog b) changelog_default"
proof -
  let ?f = "changelog_to_ipld (key_to_ipld X) (val_to_ipld X)"
  obtain c1 s1 where s1: "save_value (henv X) ?f changelog_default s = (Inr c1, s1)"
      "value_at (henv X) ?f s1 c1 changelog_default" "s \<subseteq>\<^sub>m s1" "store_ok (henv X) s1"
    by (rule save_value_ok [OF hamt_ok_env [OF assms(1)] assms(2) hamt_ok_changelog_serde [OF assms(1)]])
  have "hamt_rep X ((hamt_new s)\<lparr>store := s1\<rparr>) Map.empty"
    using hamt_new_rep [OF assms(1) s1(4)] by (simp add: hamt_new_def)
  then obtain c2 H where H: "hamt_flush X ((hamt_new s)\<lparr>store := s1\<rparr>) = (Inr c2, H)" "hamt_rep X H Map.empty"
      "hamt_at X (store H) c2 Map.empty" "s1 \<subseteq>\<^sub>m store H"
    using hamt_flush_rep [OF assms(1)] by fastforce
  show thesis
  proof (rule that)
    show "vmap_empty X s = (Inr \<lparr>vm_hamt = c2, vm_changelog = c1\<rparr>, store H)"
      using s1(1) H(1) by (simp add: vmap_empty_def Let_def)
  qed (use H s1 in \<open>auto simp: hamt_rep_def intro: map_le_trans value_at_mono\<close>)
qed

lemma vm_empty_at:
  assumes "hamt_ok X" "store_ok (henv X) s"
  obtains c s' where "vm_empty X s = (Inr c, s')" "s \<subseteq>\<^sub>m s'" "store_ok (henv X) s'"
    "vm_at X s' c Map.empty changelog_default"
proof -
  obtain b s1 where b: "vmap_empty X s = (Inr b, s1)" "s \<subseteq>\<^sub>m s1" "store_ok (henv X) s1"
      "hamt_at X s1 (vm_hamt b) Map.empty"
      "value_at (henv X) (changelog_to_ipld (key_to_ipld X) (val_to_ipld X)) s1 (vm_changelog b) changelog_default"
    by (rule vm_empty_ok [OF assms])
  obtain c s2 where c: "save_value (henv X) vmap_to_ipld b s1 = (Inr c, s2)"
      "value_at (henv X) vmap_to_ipld s2 c b" "s1 \<subseteq>\<^sub>m s2" "store_ok (henv X) s2"
    by (rule save_value_ok [OF hamt_ok_env [OF assms(1)] b(3) vmap_serde])
  show thesis
  proof (rule that)
    show "vm_empty X s = (Inr c, s2)" using b(1) c(1) by (simp add: vm_empty_def)
    show "vm_at X s2 c Map.empty changelog_default"
      unfolding vm_at_def using c(2) hamt_at_mono [OF b(4) c(3)] value_at_mono [OF b(5) c(3)] by blast
  qed (use b(2) c in \<open>auto intro: map_le_trans\<close>)
qed

text \<open>The new version has the changes applied, and exactly they are its changelog.\<close>

lemma apply_with_cid_ok:
  assumes "hamt_ok X" "store_ok (henv X) s" "vm_at X s c m cl"
    and keys: "collision_free X (dom m \<union> op_key ` set (mut_changes \<mu>))"
  obtains c' s' where "apply_with_cid X (Some c) \<mu> s = (Inr c', s')" "s \<subseteq>\<^sub>m s'" "store_ok (henv X) s'"
    "vm_at X s' c' (run_ops (mut_changes \<mu>) m) \<lparr>did = Some (mut_did \<mu>), changes = mut_changes \<mu>\<rparr>"
proof -
  let ?f = "changelog_to_ipld (key_to_ipld X) (val_to_ipld X)"
  let ?m = "run_ops (mut_changes \<mu>) m" and ?cl = "\<lparr>did = Some (mut_did \<mu>), changes = mut_changes \<mu>\<rparr>"
  obtain H where H: "load_hamt X c s = Inr H" "hamt_rep X H m" "store H = s"
    using vm_at_loads(2) [OF assms(1-3)] by blast
  have "(changelog_mark (mut_did \<mu>) cl)\<lparr>changes := changes (changelog_mark (mut_did \<mu>) cl) @ mut_changes \<mu>\<rparr> = ?cl"
    by (simp add: changelog_mark_def)
  then obtain H1 where H1: "apply_changes (hamt_set X) (hamt_delete X) (mut_changes \<mu>)
      (changelog_mark (mut_did \<mu>) cl) H = (Inr ?cl, H1)" "hamt_rep X H1 ?m" "store H1 = s"
    using hamt_map.apply_changes_ok [of X H m "mut_changes \<mu>" "changelog_mark (mut_did \<mu>) cl"] assms(1) H keys
    by auto
  obtain c1 s1 where s1: "save_value (henv X) ?f ?cl s = (Inr c1, s1)"
      "value_at (henv X) ?f s1 c1 ?cl" "s \<subseteq>\<^sub>m s1" "store_ok (henv X) s1"
    by (rule save_value_ok [OF hamt_ok_env [OF assms(1)] assms(2) hamt_ok_changelog_serde [OF assms(1)]])
  have "hamt_rep X (H1\<lparr>store := s1\<rparr>) ?m"
    using H1(2,3) s1(3,4) by (auto simp: hamt_rep_def intro: node_rep_mono)
  then obtain c2 H2 where H2: "hamt_flush X (H1\<lparr>store := s1\<rparr>) = (Inr c2, H2)" "hamt_rep X H2 ?m"
      "hamt_at X (store H2) c2 ?m" "s1 \<subseteq>\<^sub>m store H2"
    using hamt_flush_rep [OF assms(1)] by fastforce
  have ok2: "store_ok (henv X) (store H2)" using H2(2) by (simp add: hamt_rep_def)
  let ?b = "\<lparr>vm_hamt = c2, vm_changelog = c1\<rparr>"
  obtain c3 s3 where s3: "save_value (henv X) vmap_to_ipld ?b (store H2) = (Inr c3, s3)"
      "value_at (henv X) vmap_to_ipld s3 c3 ?b" "store H2 \<subseteq>\<^sub>m s3" "store_ok (henv X) s3"
    by (rule save_value_ok [OF hamt_ok_env [OF assms(1)] ok2 vmap_serde])
  show thesis
  proof (rule that)
    show "apply_with_cid X (Some c) \<mu> s = (Inr c3, s3)"
      using H(1) H1(1,3) s1(1) H2(1) s3(1) vm_at_loads(1) [OF assms(1-3)]
      by (simp add: apply_with_cid_def vm_at_or_empty_def)
    show "vm_at X s3 c3 ?m ?cl"
      unfolding vm_at_def
      using s3(2) hamt_at_mono [OF H2(3) s3(3)] value_at_mono [OF s1(2) map_le_trans [OF H2(4) s3(3)]]
      by (intro exI [of _ ?b]) simp
    show "s \<subseteq>\<^sub>m s3" by (meson H2(4) map_le_trans s1(3) s3(3))
  qed (rule s3)
qed

section \<open>Reading\<close>

lemma vm_get_ok:
  assumes "hamt_ok X" "store_ok (henv X) s" "vm_at X s c m cl"
  shows "vm_get X c k s = Inr (m k)"
proof -
  obtain H where H: "load_hamt X c s = Inr H" "hamt_rep X H m" using vm_at_loads(2) [OF assms] by blast
  obtain H' where "hamt_get X k H = (Inr (m k), H')" using hamt_get_rep [OF assms(1) H(2)] by blast
  with H(1) show ?thesis by (simp add: vm_get_def)
qed

lemma vm_stream_ok:
  assumes "hamt_ok X" "store_ok (henv X) s" "vm_at X s c m cl"
  shows "\<exists>out. vm_stream X c s = Inr (out, Inr ()) \<and> enumerates out m"
proof -
  obtain H where H: "load_hamt X c s = Inr H" "hamt_rep X H m" using vm_at_loads(2) [OF assms] by blast
  obtain out H' where "hamt_stream X H = (out, Inr (), H')" "enumerates out m"
    using hamt_stream_rep [OF assms(1) H(2)] by blast
  with H(1) show ?thesis by (simp add: vm_stream_def)
qed

section \<open>Compacting changes\<close>

lemma run_op_at:
  "run_op x m k = (if k = op_key x then (case x of Add _ v \<Rightarrow> Some v | Remove _ \<Rightarrow> None) else m k)"
  by (cases x) auto

lemma run_ops_cong: "m k = m' k \<Longrightarrow> run_ops ops m k = run_ops ops m' k"
proof (induction ops arbitrary: m m')
  case (Cons x ops)
  have "run_op x m k = run_op x m' k" using Cons.prems by (simp add: run_op_at)
  then show ?case unfolding run_ops_simps by (rule Cons.IH)
qed simp

lemma run_ops_filter_other:
  "k \<noteq> a \<Longrightarrow> run_ops (filter (\<lambda>x. op_key x \<noteq> a) ops) m k = run_ops ops m k"
proof (induction ops arbitrary: m)
  case (Cons x ops)
  have "run_ops ops (run_op x m) k = run_ops ops m k" if "op_key x = a"
    using that Cons.prems by (intro run_ops_cong) (simp add: run_op_at)
  then show ?case using Cons by auto
qed simp

text \<open>\<open>append_changes\<close> has the effect of doing one list of changes after the other.\<close>

lemma run_append_changes: "run_ops (append_changes xs ys) m = run_ops (xs @ ys) m"
proof (induction ys arbitrary: xs)
  case (Cons y ys)
  have "run_op y (run_ops (filter (\<lambda>x. op_key x \<noteq> op_key y) xs) m) = run_op y (run_ops xs m)"
  proof
    fix k
    show "run_op y (run_ops (filter (\<lambda>x. op_key x \<noteq> op_key y) xs) m) k = run_op y (run_ops xs m) k"
      by (simp add: run_op_at run_ops_filter_other)
  qed
  then show ?case using Cons by simp
qed simp

lemma append_changes_distinct:
  "distinct (map op_key xs) \<Longrightarrow> distinct (map op_key (append_changes xs ys))"
proof (induction ys arbitrary: xs)
  case (Cons y ys)
  have "distinct (map op_key (filter (\<lambda>x. op_key x \<noteq> op_key y) xs @ [y]))"
    using Cons.prems by (auto simp: distinct_map_filter)
  then show ?case using Cons.IH by simp
qed simp

end
