(* ===== verification/Decimal.thy ===== *)
theory Decimal
  imports Prelude
begin

text \<open>
  Decimal numbers as Rust's integer types print and parse them: an optional plus sign, at
  least one digit, and an error as soon as the value leaves the range of the type.
\<close>

definition digit :: "nat \<Rightarrow> char" where
  "digit d = char_of (48 + d)"

fun nat_to_string :: "nat \<Rightarrow> string" where
  "nat_to_string n = (if n < 10 then [digit n] else nat_to_string (n div 10) @ [digit (n mod 10)])"

declare nat_to_string.simps [simp del]

definition digit_value :: "char \<Rightarrow> nat option" where
  "digit_value c = (if 48 \<le> (of_char c :: nat) \<and> of_char c \<le> (57 :: nat) then Some (of_char c - 48) else None)"

text \<open>\<open>checked_mul\<close> and \<open>checked_add\<close> reject a value that reaches \<open>limit\<close>.\<close>

fun parse_digits :: "nat \<Rightarrow> nat \<Rightarrow> string \<Rightarrow> nat option" where
  "parse_digits limit acc [] = Some acc"
| "parse_digits limit acc (c # cs) =
     (case digit_value c of
        None \<Rightarrow> None
      | Some d \<Rightarrow> if acc * 10 + d < limit then parse_digits limit (acc * 10 + d) cs else None)"

definition uint_from_str :: "nat \<Rightarrow> string \<Rightarrow> nat option" where
  "uint_from_str limit s =
     (let t = (case s of c # cs \<Rightarrow> if c = CHR ''+'' then cs else s | [] \<Rightarrow> [])
      in if t = [] then None else parse_digits limit 0 t)"

definition u32_from_str :: "string \<Rightarrow> u32 option" where
  "u32_from_str s = map_option of_nat (uint_from_str (2 ^ 32) s)"

definition u32_to_string :: "u32 \<Rightarrow> string" where
  "u32_to_string w = nat_to_string (unat w)"

text \<open>\<open>usize\<close> on a 64-bit target.\<close>

definition usize_from_str :: "string \<Rightarrow> nat option" where
  "usize_from_str s = uint_from_str (2 ^ 64) s"

lemma digit_value_digit: "d < 10 \<Longrightarrow> digit_value (digit d) = Some d"
  by (simp add: digit_value_def digit_def of_char_of take_bit_nat_eq_self)

lemma parse_digits_append:
  "parse_digits l acc (xs @ ys) = (case parse_digits l acc xs of None \<Rightarrow> None | Some a \<Rightarrow> parse_digits l a ys)"
  by (induction xs arbitrary: acc) (auto split: option.splits)

lemma parse_nat_to_string: "n < l \<Longrightarrow> parse_digits l 0 (nat_to_string n) = Some n"
proof (induction n rule: nat_to_string.induct)
  case (1 n)
  show ?case
  proof (cases "n < 10")
    case True
    then show ?thesis using 1 by (simp add: nat_to_string.simps digit_value_digit)
  next
    case False
    have lt: "n div 10 < l" using 1(2) by (rule le_less_trans [OF div_le_dividend])
    have "parse_digits l 0 (nat_to_string (n div 10)) = Some (n div 10)" by (rule 1(1) [OF False lt])
    moreover have "n div 10 * 10 + n mod 10 = n" by (rule div_mult_mod_eq)
    ultimately show ?thesis
      using 1(2) False by (simp add: nat_to_string.simps [of n] parse_digits_append digit_value_digit)
  qed
qed

lemma hd_nat_to_string: "\<exists>d cs. d < 10 \<and> nat_to_string n = digit d # cs"
proof (induction n rule: nat_to_string.induct)
  case (1 n)
  show ?case
  proof (cases "n < 10")
    case True
    then show ?thesis by (auto simp: nat_to_string.simps)
  next
    case False
    with 1 show ?thesis by (simp add: nat_to_string.simps [of n]) (metis append_Cons)
  qed
qed

lemma digit_not_plus: "d < 10 \<Longrightarrow> digit d \<noteq> CHR ''+''"
proof
  assume "d < 10" and eq: "digit d = CHR ''+''"
  then have "digit_value (digit d) = Some d" by (intro digit_value_digit)
  moreover have "digit_value (CHR ''+'') = None" by (simp add: digit_value_def)
  ultimately show False using eq by simp
qed

lemma uint_round_trip: "n < l \<Longrightarrow> uint_from_str l (nat_to_string n) = Some n"
proof -
  assume n: "n < l"
  obtain d cs where d: "d < 10" "nat_to_string n = digit d # cs" using hd_nat_to_string by blast
  have "parse_digits l 0 (digit d # cs) = Some n" using parse_nat_to_string [OF n] d(2) by simp
  with d(2) digit_not_plus [OF d(1)] show ?thesis by (simp add: uint_from_str_def del: parse_digits.simps)
qed

lemma u32_round_trip: "u32_from_str (u32_to_string w) = Some w"
proof -
  have "unat w < 2 ^ 32" using unsigned_less [of w, where ?'a = nat] by simp
  then have "uint_from_str (2 ^ 32) (nat_to_string (unat w)) = Some (unat w)" by (rule uint_round_trip)
  then show ?thesis by (simp add: u32_from_str_def u32_to_string_def)
qed

lemma usize_round_trip: "n < 2 ^ 64 \<Longrightarrow> usize_from_str (nat_to_string n) = Some n"
  by (simp add: usize_from_str_def uint_round_trip)

end
