(* ===== verification/Memo.thy ===== *)
theory Memo
  imports Sphere_Data Decimal
begin

text \<open>
  Memos and their headers (\<^verbatim>\<open>noosphere-core/src/data/memo.rs\<close>, \<^verbatim>\<open>data/headers\<close>). Names are
  compared without regard to case; \<open>to_lowercase\<close> is modelled on ASCII, which all well-known
  names are. The Lamport order is a \<open>u32\<close> written in decimal.
\<close>

section \<open>Well-known names\<close>

definition lower_char :: "char \<Rightarrow> char" where
  "lower_char c = (if 65 \<le> (of_char c :: nat) \<and> of_char c \<le> (90 :: nat) then char_of (of_char c + 32 :: nat) else c)"

definition to_lowercase :: "string \<Rightarrow> string" where
  "to_lowercase s = map lower_char s"

datatype header_name =
  ContentLength | ContentType | Proof | Author | Title | Signature | Version | FileExtension | LamportOrder
| UnknownHeader string

fun header_str :: "header_name \<Rightarrow> string" where
  "header_str ContentLength = ''Content-Length''"
| "header_str ContentType = ''Content-Type''"
| "header_str Proof = ''Proof''"
| "header_str Author = ''Author''"
| "header_str Title = ''Title''"
| "header_str Signature = ''Signature''"
| "header_str Version = ''Version''"
| "header_str FileExtension = ''File-Extension''"
| "header_str LamportOrder = ''Lamport-Order''"
| "header_str (UnknownHeader name) = name"

definition header_from_str :: "string \<Rightarrow> header_name" where
  "header_from_str s =
     (let l = to_lowercase s in
      if l = ''content-length'' then ContentLength
      else if l = ''content-type'' then ContentType
      else if l = ''file-extension'' then FileExtension
      else if l = ''proof'' then Proof
      else if l = ''author'' then Author
      else if l = ''title'' then Title
      else if l = ''signature'' then Signature
      else if l = ''version'' then Version
      else if l = ''lamport-order'' then LamportOrder
      else UnknownHeader s)"

datatype content_type = TextType | SubtextType | SphereType | BytesType | CborType | JsonType | UnknownType string

fun content_type_str :: "content_type \<Rightarrow> string" where
  "content_type_str TextType = ''text/plain''"
| "content_type_str SubtextType = ''text/subtext''"
| "content_type_str SphereType = ''noo/sphere''"
| "content_type_str BytesType = ''raw/bytes''"
| "content_type_str CborType = ''application/cbor''"
| "content_type_str JsonType = ''application/json''"
| "content_type_str (UnknownType t) = t"

definition content_type_from_str :: "string \<Rightarrow> content_type" where
  "content_type_from_str s =
     (if s = ''text/plain'' then TextType
      else if s = ''text/subtext'' then SubtextType
      else if s = ''noo/sphere'' then SphereType
      else if s = ''raw/bytes'' then BytesType
      else if s = ''application/json'' then JsonType
      else if s = ''application/cbor'' then CborType
      else UnknownType s)"

section \<open>Headers of a memo\<close>

abbreviation same_name :: "string \<Rightarrow> string \<Rightarrow> bool" where
  "same_name a b \<equiv> to_lowercase a = to_lowercase b"

definition get_header :: "string \<Rightarrow> memo \<Rightarrow> string list" where
  "get_header name m = map snd (filter (\<lambda>h. same_name (fst h) name) (headers m))"

definition get_first_header :: "string \<Rightarrow> memo \<Rightarrow> string option" where
  "get_first_header name m = map_option snd (find (\<lambda>h. same_name (fst h) name) (headers m))"

definition expect_header :: "string \<Rightarrow> string \<Rightarrow> memo \<Rightarrow> unit result" where
  "expect_header name value m =
     (if \<exists>h \<in> set (headers m). same_name (fst h) name \<and> snd h = value then Inr ()
      else Inl (Anyhow ''Expected to find a header''))"

text \<open>The \<open>filter_map\<close> of \<open>replace_first_header\<close>, with its counter \<open>found\<close>.\<close>

fun replace_loop :: "string \<Rightarrow> string \<Rightarrow> nat \<Rightarrow> (string \<times> string) list \<Rightarrow> (string \<times> string) list \<times> nat" where
  "replace_loop name value found [] = ([], found)"
| "replace_loop name value found ((a_name, a_value) # hs) =
     (if same_name a_name name
      then (case replace_loop name value (found + 1) hs of
              (hs', n) \<Rightarrow> (if found = 0 then (name, value) # hs' else hs', n))
      else (case replace_loop name value found hs of (hs', n) \<Rightarrow> ((a_name, a_value) # hs', n)))"

definition replace_first_header :: "string \<Rightarrow> string \<Rightarrow> memo \<Rightarrow> memo" where
  "replace_first_header name value m =
     (case replace_loop name value 0 (headers m) of
        (hs, found) \<Rightarrow> m\<lparr>headers := (if found = 0 then hs @ [(name, value)] else hs)\<rparr>)"

definition replace_headers :: "(string \<times> string) list \<Rightarrow> memo \<Rightarrow> memo" where
  "replace_headers new_headers m =
     (let new_header_set = set (map (\<lambda>h. to_lowercase (fst h)) new_headers)
      in m\<lparr>headers := filter (\<lambda>h. to_lowercase (fst h) \<notin> new_header_set) (headers m) @ new_headers\<rparr>)"

definition remove_header :: "string \<Rightarrow> memo \<Rightarrow> memo" where
  "remove_header name m = m\<lparr>headers := filter (\<lambda>h. \<not> same_name (fst h) name) (headers m)\<rparr>"

definition memo_content_type :: "memo \<Rightarrow> content_type option" where
  "memo_content_type m = map_option content_type_from_str (get_first_header (header_str ContentType) m)"

definition lamport_order :: "memo \<Rightarrow> u32" where
  "lamport_order m =
     (case get_first_header (header_str LamportOrder) m of
        Some l \<Rightarrow> (case u32_from_str l of Some w \<Rightarrow> w | None \<Rightarrow> 0)
      | None \<Rightarrow> 0)"

text \<open>\<open>from_str\<close> stands for \<open>Ucan::from_str\<close>.\<close>

definition get_proof :: "(string \<Rightarrow> 'u option) \<Rightarrow> memo \<Rightarrow> 'u option" where
  "get_proof from_str m =
     (case get_first_header (header_str Proof) m of Some p \<Rightarrow> from_str p | None \<Rightarrow> None)"

definition require_proof :: "(string \<Rightarrow> 'u option) \<Rightarrow> memo \<Rightarrow> 'u result" where
  "require_proof from_str m = of_option (Anyhow ''No valid 'proof' header found'') (get_proof from_str m)"

text \<open>Collecting the headers into a \<open>BTreeMap\<close>: the last value of a name stays.\<close>

definition header_map :: "memo \<Rightarrow> string \<rightharpoonup> string" where
  "header_map m = map_of (rev (headers m))"

definition diff_headers :: "memo \<Rightarrow> memo \<Rightarrow> (string \<times> string) list" where
  "diff_headers m other =
     filter (\<lambda>(name, value). header_map other name \<noteq> Some value)
       (map (\<lambda>name. (name, the (header_map m name))) (sort (remdups (map fst (headers m)))))"

section \<open>Making memos\<close>

definition compare_body :: "codec_env \<Rightarrow> memo \<Rightarrow> blocks \<Rightarrow> bool result" where
  "compare_body E m s =
     (case parent m of
        None \<Rightarrow> Inr True
      | Some c \<Rightarrow> rbind (load_value E memo_from_ipld c s) (\<lambda>p. Inr (body m \<noteq> body p)))"

definition for_body :: "codec_env \<Rightarrow> ('a \<Rightarrow> ipld) \<Rightarrow> 'a \<Rightarrow> blocks \<Rightarrow> memo result \<times> blocks" where
  "for_body E f b s =
     sbind (save_value E f b s) (\<lambda>c s. (Inr \<lparr>parent = None, headers = [], body = c\<rparr>, s))"

text \<open>\<open>branch_from\<close>. The increment of the \<open>u32\<close> wraps around, as in a release build.\<close>

definition branch_memo :: "cid \<Rightarrow> memo \<Rightarrow> memo" where
  "branch_memo c m =
     (let m = m\<lparr>parent := Some c\<rparr>;
          m = remove_header (header_str Signature) m;
          m = remove_header (header_str Proof) m
      in replace_headers [(header_str LamportOrder, u32_to_string (lamport_order m + 1))] m)"

definition branch_from :: "codec_env \<Rightarrow> cid \<Rightarrow> blocks \<Rightarrow> memo result" where
  "branch_from E c s = rbind (load_value E memo_from_ipld c s) (\<lambda>m. Inr (branch_memo c m))"

text \<open>
  Keys (\<open>KeyMaterial\<close>), the byte form of a CID and the text form of a signature are given
  from outside. \<open>prf\<close> is the result of encoding the proof. The memo is returned as it is left.
\<close>

record key_material =
  km_did :: "did result"
  km_alg :: string
  km_sign :: "bytes \<Rightarrow> bytes result"
  km_verify :: "bytes \<Rightarrow> bytes \<Rightarrow> unit result"

record text_env =
  cid_to_bytes :: "cid \<Rightarrow> bytes"
  base64_encode :: "bytes \<Rightarrow> string"
  base64_decode :: "string \<Rightarrow> bytes option"
  cid_to_string :: "cid \<Rightarrow> string"
  cid_from_string :: "string \<Rightarrow> cid option"

definition memo_sign :: "text_env \<Rightarrow> key_material \<Rightarrow> string result option \<Rightarrow> memo \<Rightarrow> unit result \<times> memo" where
  "memo_sign T K prf m =
     (case km_sign K (cid_to_bytes T (body m)) of
        Inl e \<Rightarrow> (Inl e, m)
      | Inr sig \<Rightarrow>
          (let m = replace_first_header (header_str Signature) (base64_encode T sig) m
           in sbind (case prf of
                       Some (Inl e) \<Rightarrow> (Inl e, m)
                     | Some (Inr p) \<Rightarrow> (Inr (), replace_first_header (header_str Proof) p m)
                     | None \<Rightarrow> (Inr (), remove_header (header_str Proof) m))
                (\<lambda>_ m. case km_did K of
                   Inl e \<Rightarrow> (Inl e, m)
                 | Inr d \<Rightarrow> (Inr (), replace_first_header (header_str Author) d m))))"

section \<open>Headers\<close>

lemma replace_loop_found: "snd (replace_loop name value n hs) = n + length (filter (\<lambda>h. same_name (fst h) name) hs)"
  by (induction name "value" n hs rule: replace_loop.induct) (auto split: prod.splits)

lemma replace_loop_rest:
  "0 < n \<Longrightarrow> fst (replace_loop name value n hs) = filter (\<lambda>h. \<not> same_name (fst h) name) hs"
  by (induction name "value" n hs rule: replace_loop.induct) (auto split: prod.splits)

lemma replace_loop_headers:
  "fst (replace_loop name value 0 hs) =
     takeWhile (\<lambda>h. \<not> same_name (fst h) name) hs @
     (case dropWhile (\<lambda>h. \<not> same_name (fst h) name) hs of
        [] \<Rightarrow> [] | h # rest \<Rightarrow> (name, value) # filter (\<lambda>h. \<not> same_name (fst h) name) rest)"
proof (induction hs)
  case (Cons h hs)
  obtain a b where h: "h = (a, b)" by (cases h)
  show ?case
    using Cons replace_loop_rest [of 1 name "value" hs] by (auto simp: h split: prod.splits)
qed simp

lemma find_append: "find P (xs @ ys) = (case find P xs of None \<Rightarrow> find P ys | Some x \<Rightarrow> Some x)"
  by (induction xs) auto

lemma find_filter_None: "(\<And>x. P x \<Longrightarrow> \<not> Q x) \<Longrightarrow> find P (filter Q xs) = None"
  by (auto simp: find_None_iff)

lemma find_filter_name:
  "find (\<lambda>h. same_name (fst h) name') (filter (\<lambda>h. \<not> same_name (fst h) name) hs) =
     (if same_name name' name then None else find (\<lambda>h. same_name (fst h) name') hs)"
  by (induction hs) auto

lemma get_first_replace_first:
  "get_first_header name' (replace_first_header name value m) =
     (if same_name name' name then Some value else get_first_header name' m)"
proof (cases "find (\<lambda>h. same_name (fst h) name) (headers m)")
  case None
  then have no: "\<forall>h \<in> set (headers m). \<not> same_name (fst h) name" by (auto simp: find_None_iff)
  then have "snd (replace_loop name value 0 (headers m)) = 0" by (simp add: replace_loop_found)
  moreover have "fst (replace_loop name value 0 (headers m)) = headers m"
    using no by (simp add: replace_loop_headers takeWhile_eq_all_conv dropWhile_eq_Nil_conv [THEN iffD2])
  ultimately have hs: "headers (replace_first_header name value m) = headers m @ [(name, value)]"
    by (auto simp: replace_first_header_def split: prod.splits)
  show ?thesis
  proof (cases "same_name name' name")
    case True
    then have "find (\<lambda>h. same_name (fst h) name') (headers m) = None" using None by simp
    with True show ?thesis unfolding get_first_header_def hs by (simp add: find_append)
  next
    case False
    then show ?thesis unfolding get_first_header_def hs by (simp add: find_append split: option.split)
  qed
next
  case (Some h0)
  let ?P = "\<lambda>h. same_name (fst h) name"
  obtain pre h post where split: "headers m = pre @ h # post" "\<forall>x \<in> set pre. \<not> ?P x" "?P h"
  proof -
    have "\<exists>x \<in> set (headers m). ?P x" using Some by (force simp: find_Some_iff)
    then show thesis using that by (auto dest!: split_list_first_prop)
  qed
  then have "snd (replace_loop name value 0 (headers m)) \<noteq> 0" by (simp add: replace_loop_found)
  moreover have "fst (replace_loop name value 0 (headers m)) = pre @ (name, value) # filter (\<lambda>h. \<not> ?P h) post"
    using split by (simp add: replace_loop_headers takeWhile_append2 dropWhile_append2)
  ultimately have hs: "headers (replace_first_header name value m) = pre @ (name, value) # filter (\<lambda>h. \<not> ?P h) post"
    by (auto simp: replace_first_header_def split: prod.splits)
  show ?thesis
  proof (cases "same_name name' name")
    case True
    then have "find (\<lambda>h. same_name (fst h) name') pre = None" using split(2) by (auto simp: find_None_iff)
    with True show ?thesis unfolding get_first_header_def hs by (simp add: find_append)
  next
    case False
    with split(1,3) show ?thesis
      unfolding get_first_header_def hs by (simp add: find_append find_filter_name split: option.splits)
  qed
qed

lemma get_first_remove:
  "get_first_header name' (remove_header name m) =
     (if same_name name' name then None else get_first_header name' m)"
  by (simp add: get_first_header_def remove_header_def find_filter_name)

lemma get_first_replace_headers_one:
  "get_first_header name' (replace_headers [(name, value)] m) =
     (if same_name name' name then Some value else get_first_header name' m)"
  by (auto simp: get_first_header_def replace_headers_def find_append find_filter_name split: option.splits)

lemma header_names_differ [simp]:
  "\<not> same_name ''Lamport-Order'' ''Signature''" "\<not> same_name ''Lamport-Order'' ''Proof''"
  "\<not> same_name ''Signature'' ''Lamport-Order''" "\<not> same_name ''Proof'' ''Lamport-Order''"
  "\<not> same_name ''Signature'' ''Proof''" "\<not> same_name ''Proof'' ''Signature''"
  "\<not> same_name ''Author'' ''Signature''" "\<not> same_name ''Author'' ''Proof''"
  "\<not> same_name ''Signature'' ''Author''" "\<not> same_name ''Proof'' ''Author''"
  "\<not> same_name ''Author'' ''Lamport-Order''" "\<not> same_name ''Lamport-Order'' ''Author''"
  by (simp_all add: to_lowercase_def lower_char_def)

lemmas header_simps = get_first_replace_first get_first_remove get_first_replace_headers_one

lemma branch_memo_headers:
  "get_first_header name (branch_memo c m) =
     (if same_name name ''Lamport-Order'' then Some (u32_to_string (lamport_order m + 1))
      else if same_name name ''Signature'' \<or> same_name name ''Proof'' then None
      else get_first_header name m)"
proof -
  have "lamport_order (remove_header ''Proof'' (remove_header ''Signature'' (m\<lparr>parent := Some c\<rparr>))) = lamport_order m"
    by (simp add: lamport_order_def header_simps) (simp add: get_first_header_def)
  then show ?thesis
    by (auto simp: branch_memo_def Let_def header_simps) (auto simp: get_first_header_def)
qed

lemma branch_memo_fields [simp]: "parent (branch_memo c m) = Some c" "body (branch_memo c m) = body m"
  by (simp_all add: branch_memo_def Let_def remove_header_def replace_headers_def)

lemma lamport_branch: "lamport_order (branch_memo c m) = lamport_order m + 1"
  by (simp add: lamport_order_def [of "branch_memo c m"] branch_memo_headers u32_round_trip)

lemma header_ops_fields [simp]:
  "parent (replace_first_header n v m) = parent m" "body (replace_first_header n v m) = body m"
  "parent (remove_header n m) = parent m" "body (remove_header n m) = body m"
  by (simp_all add: replace_first_header_def remove_header_def split: prod.split)

lemma memo_sign_ok:
  assumes "km_sign K (cid_to_bytes T (body m)) = Inr sig" "km_did K = Inr d"
  obtains m' where "memo_sign T K (map_option Inr prf) m = (Inr (), m')" "parent m' = parent m" "body m' = body m"
    "get_first_header ''Author'' m' = Some d" "get_first_header ''Signature'' m' = Some (base64_encode T sig)"
    "get_first_header ''Proof'' m' = prf"
    "\<And>n. \<not> same_name n ''Author'' \<Longrightarrow> \<not> same_name n ''Signature'' \<Longrightarrow> \<not> same_name n ''Proof'' \<Longrightarrow>
       get_first_header n m' = get_first_header n m"
  by (rule that [of "snd (memo_sign T K (map_option Inr prf) m)"])
    (use assms in \<open>auto simp: memo_sign_def Let_def header_simps split: option.split\<close>)

end
