(* ===== verification/Timeline.thy ===== *)
theory Timeline
  imports Memo
begin

text \<open>
  Walking back through the versions of a sphere (\<^verbatim>\<open>noosphere-core/src/view/timeline.rs\<close>).
  A stream is the list of items it yields and how it ends. The walk follows parent links in
  the store, so the model gives it fuel; a lineage of \<open>n\<close> versions needs \<open>n + 1\<close>.
\<close>

section \<open>The stream of versions\<close>

fun timeline_stream ::
    "nat \<Rightarrow> codec_env \<Rightarrow> blocks \<Rightarrow> cid option \<Rightarrow> cid option \<Rightarrow> bool \<Rightarrow> (cid \<times> memo) list \<times> unit result" where
  "timeline_stream 0 E s from to exclude_past = ([], Inl OutOfFuel)"
| "timeline_stream (Suc f) E s from to exclude_past =
     (case from of
        None \<Rightarrow> ([], Inr ())
      | Some c \<Rightarrow>
          (case load_value E memo_from_ipld c s of
             Inl e \<Rightarrow> ([], Inl e)
           | Inr next_dag \<Rightarrow>
               (let next_from =
                      (if to = Some c then None
                       else if exclude_past \<and> to = parent next_dag then None
                       else parent next_dag)
                in case timeline_stream f E s next_from to exclude_past of
                     (items, r) \<Rightarrow> ((c, next_dag) # items, r))))"

record timeslice =
  past :: "cid option"
  future :: cid
  exclude_past :: bool

definition slice :: "cid \<Rightarrow> cid option \<Rightarrow> timeslice" where
  "slice future' past' = \<lparr>past = past', future = future', exclude_past = False\<rparr>"

definition with_past :: "timeslice \<Rightarrow> timeslice" where
  "with_past t = t\<lparr>exclude_past := False\<rparr>"

definition without_past :: "timeslice \<Rightarrow> timeslice" where
  "without_past t = t\<lparr>exclude_past := True\<rparr>"

definition slice_stream :: "nat \<Rightarrow> codec_env \<Rightarrow> blocks \<Rightarrow> timeslice \<Rightarrow> (cid \<times> memo) list \<times> unit result" where
  "slice_stream f E s t = timeline_stream f E s (Some (future t)) (past t) (exclude_past t)"

text \<open>\<open>to_chronological\<close>: each item is pushed to the front; an error of the stream is returned.\<close>

fun push_fronts :: "(cid \<times> memo) list \<Rightarrow> cid list \<Rightarrow> cid list" where
  "push_fronts [] chronological = chronological"
| "push_fronts ((c, m) # items) chronological = push_fronts items (c # chronological)"

definition to_chronological :: "nat \<Rightarrow> codec_env \<Rightarrow> blocks \<Rightarrow> timeslice \<Rightarrow> cid list result" where
  "to_chronological f E s t =
     (case slice_stream f E s t of (items, r) \<Rightarrow> rbind r (\<lambda>_. Inr (push_fronts items [])))"

lemma push_fronts_rev: "push_fronts items acc = rev (map fst items) @ acc"
  by (induction items acc rule: push_fronts.induct) auto

section \<open>Lineages\<close>

text \<open>
  \<open>lineage E s hs\<close>: the versions \<open>hs\<close>, newest first, are stored in \<open>s\<close>, each the child of
  the next, and the last has no parent.
\<close>

fun lineage :: "codec_env \<Rightarrow> blocks \<Rightarrow> (cid \<times> memo) list \<Rightarrow> bool" where
  "lineage E s [] = False"
| "lineage E s ((c, m) # hs) =
     (value_at E memo_to_ipld s c m \<and>
      (if hs = [] then parent m = None else parent m = Some (fst (hd hs)) \<and> lineage E s hs))"

lemma lineage_mono: "lineage E s hs \<Longrightarrow> s \<subseteq>\<^sub>m s' \<Longrightarrow> lineage E s' hs"
  by (induction hs) (auto intro: value_at_mono split: if_splits)

lemma lineage_append: "lineage E s (xs @ ys) \<Longrightarrow> ys \<noteq> [] \<Longrightarrow> lineage E s ys"
  by (induction xs) (auto split: if_splits)

lemma lineage_unique:
  assumes "env_ok E" "lineage E s hs" "lineage E s hs'" "fst (hd hs) = fst (hd hs')"
  shows "hs = hs'"
  using assms(2-)
proof (induction hs arbitrary: hs')
  case (Cons h hs)
  obtain c m where h: "h = (c, m)" by force
  obtain m' hs'' where hs': "hs' = (c, m') # hs''" using Cons.prems(2,3) h by (cases hs') auto
  have "m' = m"
    by (rule value_at_fun [OF assms(1) memo_serde, of s c]) (use Cons.prems h hs' in auto)
  moreover have "hs = hs''"
  proof (cases "hs = []")
    case True
    with Cons.prems h hs' \<open>m' = m\<close> show ?thesis by (auto split: if_splits)
  next
    case False
    then have "lineage E s hs" "lineage E s hs''" "fst (hd hs) = fst (hd hs'')"
      using Cons.prems h hs' \<open>m' = m\<close> by (auto split: if_splits)
    then show ?thesis by (rule Cons.IH)
  qed
  ultimately show ?case using h hs' by simp
qed simp

text \<open>A version is not its own ancestor.\<close>

lemma lineage_distinct:
  assumes "env_ok E" "lineage E s hs"
  shows "distinct (map fst hs)"
  using assms(2)
proof (induction hs)
  case (Cons h hs)
  have "fst h \<notin> set (map fst hs)"
  proof
    assume "fst h \<in> set (map fst hs)"
    then obtain xs y ys where hs: "hs = xs @ y # ys" "fst y = fst h"
      by (auto dest: split_list)
    have "lineage E s (y # ys)" using Cons.prems hs(1) lineage_append [of E s "h # xs" "y # ys"] by simp
    then have "h # hs = y # ys" using lineage_unique [OF assms(1) Cons.prems] hs(2) by simp
    with hs(1) show False by (metis append_Cons impossible_Cons length_append le_add2 list.inject)
  qed
  moreover have "distinct (map fst hs)"
  proof (cases "hs = []")
    case False
    then show ?thesis using Cons.prems by (intro Cons.IH) (cases h, auto)
  qed simp
  ultimately show ?case by simp
qed simp

section \<open>What a timeslice yields\<close>

lemma stream_all:
  assumes "env_ok E" "lineage E s hs" "\<forall>p. to = Some p \<longrightarrow> p \<notin> fst ` set hs" "length hs < f"
  shows "timeline_stream f E s (Some (fst (hd hs))) to x = (hs, Inr ())"
  using assms(2-4)
proof (induction hs arbitrary: f)
  case (Cons h hs)
  obtain c m where h: "h = (c, m)" by force
  obtain g where f: "f = Suc g" using Cons.prems(3) by (cases f) auto
  have ld: "load_value E memo_from_ipld c s = Inr m"
    using Cons.prems(1) h by (intro load_value_ok [OF assms(1) memo_serde]) auto
  show ?case
  proof (cases "hs = []")
    case True
    obtain g' where "g = Suc g'" using Cons.prems(3) f by (cases g) auto
    with True Cons.prems ld h f show ?thesis by (auto simp: Let_def)
  next
    case False
    have p: "parent m = Some (fst (hd hs))" "lineage E s hs" using Cons.prems(1) h False by auto
    have "to \<noteq> parent m" using Cons.prems(2) p False by (auto intro: list.set_sel(1))
    moreover have "timeline_stream g E s (Some (fst (hd hs))) to x = (hs, Inr ())"
      by (rule Cons.IH) (use Cons.prems p f in auto)
    ultimately show ?thesis using Cons.prems(2) ld h f p by (auto simp: Let_def)
  qed
qed simp

lemma stream_include:
  assumes "env_ok E" "lineage E s (xs @ y # ys)" "Suc (length xs) < f"
  shows "timeline_stream f E s (Some (fst (hd (xs @ [y])))) (Some (fst y)) False = (xs @ [y], Inr ())"
  using assms(2-)
proof (induction xs arbitrary: f)
  case Nil
  obtain c m where y: "y = (c, m)" by force
  obtain g where f: "f = Suc (Suc g)" using Nil.prems(2) by (cases f; cases "f - 1") auto
  have "load_value E memo_from_ipld c s = Inr m"
    using Nil.prems(1) y by (intro load_value_ok [OF assms(1) memo_serde]) auto
  then show ?case using y f by (simp add: Let_def)
next
  case (Cons h xs)
  obtain c m where h: "h = (c, m)" by force
  obtain g where f: "f = Suc g" using Cons.prems(2) by (cases f) auto
  have ld: "load_value E memo_from_ipld c s = Inr m"
    using Cons.prems(1) h by (intro load_value_ok [OF assms(1) memo_serde]) auto
  have "c \<noteq> fst y" using lineage_distinct [OF assms(1) Cons.prems(1)] h by auto
  moreover have "hd (xs @ y # ys) = hd (xs @ [y])" by (cases xs) auto
  ultimately show ?case using Cons.IH [of g] Cons.prems h f ld by (auto simp: Let_def split: if_splits)
qed

text \<open>The past bound is left out, unless it is the future bound.\<close>

lemma stream_exclude:
  assumes "env_ok E" "lineage E s (xs @ y # ys)" "xs \<noteq> []" "length xs < f"
  shows "timeline_stream f E s (Some (fst (hd xs))) (Some (fst y)) True = (xs, Inr ())"
  using assms(2-)
proof (induction xs arbitrary: f)
  case (Cons h xs)
  obtain c m where h: "h = (c, m)" by force
  obtain g where f: "f = Suc g" using Cons.prems(3) by (cases f) auto
  have ld: "load_value E memo_from_ipld c s = Inr m"
    using Cons.prems(1) h by (intro load_value_ok [OF assms(1) memo_serde]) auto
  have ne: "c \<noteq> fst y" using lineage_distinct [OF assms(1) Cons.prems(1)] h by auto
  show ?case
  proof (cases "xs = []")
    case True
    obtain g' where "g = Suc g'" using Cons.prems(3) f by (cases g) auto
    with True Cons.prems ld h f ne show ?thesis by (auto simp: Let_def)
  next
    case False
    have p: "parent m = Some (fst (hd xs))" "lineage E s (xs @ y # ys)"
      using Cons.prems(1) h False by (auto simp: hd_append)
    have "fst (hd xs) \<noteq> fst y"
      using lineage_distinct [OF assms(1) p(2)] False by (cases xs) auto
    moreover have "timeline_stream g E s (Some (fst (hd xs))) (Some (fst y)) True = (xs, Inr ())"
      by (rule Cons.IH) (use Cons.prems p f False in auto)
    ultimately show ?thesis using ld h f p ne by (auto simp: Let_def)
  qed
qed simp

lemma stream_same:
  assumes "env_ok E" "lineage E s (y # ys)" "1 < f"
  shows "timeline_stream f E s (Some (fst y)) (Some (fst y)) x = ([y], Inr ())"
proof -
  obtain c m where y: "y = (c, m)" by force
  obtain g where f: "f = Suc (Suc g)" using assms(3) by (cases f; cases "f - 1") auto
  have "load_value E memo_from_ipld c s = Inr m"
    using assms(2) y by (intro load_value_ok [OF assms(1) memo_serde]) auto
  then show ?thesis using y f by (simp add: Let_def)
qed

lemma chronological_exclude:
  assumes "env_ok E" "lineage E s (xs @ y # ys)" "xs \<noteq> []" "length xs < f"
  shows "to_chronological f E s (without_past (slice (fst (hd xs)) (Some (fst y)))) = Inr (rev (map fst xs))"
  using stream_exclude [OF assms]
  by (simp add: to_chronological_def slice_stream_def slice_def without_past_def push_fronts_rev)

lemma chronological_include:
  assumes "env_ok E" "lineage E s (xs @ y # ys)" "Suc (length xs) < f"
  shows "to_chronological f E s (with_past (slice (fst (hd (xs @ [y]))) (Some (fst y)))) =
    Inr (rev (map fst (xs @ [y])))"
  using stream_include [OF assms]
  by (simp add: to_chronological_def slice_stream_def slice_def with_past_def push_fronts_rev)

end
