(* ===== verification/Capability.thy ===== *)
theory Capability
  imports Decimal "HOL-Library.Multiset"
begin

text \<open>
  Capabilities of UCAN tokens (\<^verbatim>\<open>noosphere-ucan/src/capability\<close>) and the abilities of
  spheres (\<^verbatim>\<open>noosphere-core/src/authority/capability.rs\<close>): resources, caveats, the order in
  which one capability enables another, their textual form and the map-of-maps they are
  carried in. URL parsing is third-party code and is the argument \<open>url_parse\<close>.
\<close>

section \<open>JSON values and caveats\<close>

text \<open>
  \<open>serde_json::Value\<close>. An object is the list of its entries in the order of its
  \<open>BTreeMap\<close>; numbers are opaque and compared for equality only.
\<close>

datatype json = JNull | JBool bool | JNumber int | JString string | JArray "json list" | JObject "(string \<times> json) list"

fun is_object :: "json \<Rightarrow> bool" where
  "is_object (JObject _) = True"
| "is_object _ = False"

type_synonym caveat = "(string \<times> json) list"

fun caveat_try_from :: "json \<Rightarrow> caveat option" where
  "caveat_try_from (JObject obj) = Some obj"
| "caveat_try_from _ = None"

fun caveat_loop :: "caveat \<Rightarrow> caveat \<Rightarrow> bool" where
  "caveat_loop [] other = True"
| "caveat_loop ((key, value) # rest) other =
     (case map_of other key of
        Some other_value \<Rightarrow> (if value \<noteq> other_value then False else caveat_loop rest other)
      | None \<Rightarrow> False)"

definition caveat_enables :: "caveat \<Rightarrow> caveat \<Rightarrow> bool" where
  "caveat_enables self other =
     (if self = [] then True
      else if other = [] then False
      else if self = other then True
      else caveat_loop self other)"

section \<open>Resources\<close>

datatype 's resource_uri = Scoped 's | Unscoped

datatype 's resource =
    Resource "'s resource_uri"
  | My "'s resource_uri"
  | As string "'s resource_uri"

text \<open>The scope's own \<open>contains\<close> is the argument \<open>within\<close>.\<close>

fun uri_contains :: "('s \<Rightarrow> 's \<Rightarrow> bool) \<Rightarrow> 's resource_uri \<Rightarrow> 's resource_uri \<Rightarrow> bool" where
  "uri_contains within Unscoped other = True"
| "uri_contains within (Scoped scope) other =
     (case other of Scoped other_scope \<Rightarrow> within scope other_scope | _ \<Rightarrow> False)"

fun resource_contains :: "('s \<Rightarrow> 's \<Rightarrow> bool) \<Rightarrow> 's resource \<Rightarrow> 's resource \<Rightarrow> bool" where
  "resource_contains within (Resource r) (Resource r') = uri_contains within r r'"
| "resource_contains within (My r) (My r') = uri_contains within r r'"
| "resource_contains within (As did r) (As other_did r') = (did = other_did \<and> uri_contains within r r')"
| "resource_contains within _ _ = False"

fun uri_display :: "('s \<Rightarrow> string) \<Rightarrow> 's resource_uri \<Rightarrow> string" where
  "uri_display show Unscoped = ''*''"
| "uri_display show (Scoped scope) = show scope"

fun resource_display :: "('s \<Rightarrow> string) \<Rightarrow> 's resource \<Rightarrow> string" where
  "resource_display show (Resource r) = uri_display show r"
| "resource_display show (My r) = ''my:'' @ uri_display show r"
| "resource_display show (As did r) = ''as:'' @ did @ '':'' @ uri_display show r"

section \<open>Semantics\<close>

record url =
  scheme :: string
  path :: string

text \<open>
  The trait methods a \<open>CapabilitySemantics<S, A>\<close> gets from its \<open>Scope\<close> and \<open>Ability\<close>; the
  order of abilities is the type's own.
\<close>

record ('s, 'a) semantics =
  scope_from_url :: "url \<Rightarrow> 's option"
  scope_within :: "'s \<Rightarrow> 's \<Rightarrow> bool"
  scope_display :: "'s \<Rightarrow> string"
  ability_from_str :: "string \<Rightarrow> 'a option"
  ability_display :: "'a \<Rightarrow> string"

record capability =
  cap_resource :: string
  cap_ability :: string
  cap_caveat :: json

record ('s, 'a) capability_view =
  view_resource :: "'s resource"
  view_ability :: 'a
  view_caveat :: json

definition extract_did :: "string \<Rightarrow> (string \<times> string) option" where
  "extract_did p =
     (case split_on CHR '':'' p of
        d # k # value # rest \<Rightarrow>
          (if d = ''did'' \<and> k = ''key'' then Some (''did:key:'' @ value, concat rest) else None)
      | _ \<Rightarrow> None)"

definition parse_resource :: "('s, 'a) semantics \<Rightarrow> url \<Rightarrow> 's resource_uri option" where
  "parse_resource S u =
     (if path u = ''*'' then Some Unscoped else map_option Scoped (scope_from_url S u))"

definition parse_caveat :: "json option \<Rightarrow> json" where
  "parse_caveat c = (case c of Some v \<Rightarrow> v | None \<Rightarrow> JObject [])"

definition parse ::
    "(string \<Rightarrow> url option) \<Rightarrow> ('s, 'a) semantics \<Rightarrow> string \<Rightarrow> string \<Rightarrow> json option \<Rightarrow>
     ('s, 'a) capability_view option" where
  "parse url_parse S res abl cav =
     (case url_parse res of
        None \<Rightarrow> None
      | Some uri \<Rightarrow>
          (case (if scheme uri = ''my'' then map_option My (parse_resource S uri)
                 else if scheme uri = ''as'' then
                   (case extract_did (path uri) of
                      None \<Rightarrow> None
                    | Some (did, r) \<Rightarrow>
                        (case url_parse r of
                           None \<Rightarrow> None
                         | Some uri' \<Rightarrow> map_option (As did) (parse_resource S uri')))
                 else map_option Resource (parse_resource S uri)) of
             None \<Rightarrow> None
           | Some r \<Rightarrow>
               (case ability_from_str S abl of
                  None \<Rightarrow> None
                | Some a \<Rightarrow>
                    Some \<lparr>view_resource = r, view_ability = a, view_caveat = parse_caveat cav\<rparr>)))"

definition parse_capability ::
    "(string \<Rightarrow> url option) \<Rightarrow> ('s, 'a) semantics \<Rightarrow> capability \<Rightarrow> ('s, 'a) capability_view option" where
  "parse_capability url_parse S c =
     parse url_parse S (cap_resource c) (cap_ability c) (Some (cap_caveat c))"

definition capability_of :: "('s, 'a) semantics \<Rightarrow> ('s, 'a) capability_view \<Rightarrow> capability" where
  "capability_of S v =
     \<lparr>cap_resource = resource_display (scope_display S) (view_resource v),
      cap_ability = ability_display S (view_ability v), cap_caveat = view_caveat v\<rparr>"

definition enables ::
    "('s, 'a::linorder) semantics \<Rightarrow> ('s, 'a) capability_view \<Rightarrow> ('s, 'a) capability_view \<Rightarrow> bool" where
  "enables S self other =
     (case (caveat_try_from (view_caveat self), caveat_try_from (view_caveat other)) of
        (Some self_caveat, Some other_caveat) \<Rightarrow>
          resource_contains (scope_within S) (view_resource self) (view_resource other) \<and>
          view_ability self \<ge> view_ability other \<and>
          caveat_enables self_caveat other_caveat
      | _ \<Rightarrow> False)"

section \<open>Spheres\<close>

datatype sphere_ability = Fetch | Push | Publish | Authorize

fun ability_rank :: "sphere_ability \<Rightarrow> nat" where
  "ability_rank Fetch = 0"
| "ability_rank Push = 1"
| "ability_rank Publish = 2"
| "ability_rank Authorize = 3"

lemma ability_rank_inj: "ability_rank a = ability_rank b \<Longrightarrow> a = b"
  by (cases a; cases b) auto

text \<open>The derived \<open>Ord\<close> is the order of declaration.\<close>

instantiation sphere_ability :: linorder
begin

definition less_eq_sphere_ability :: "sphere_ability \<Rightarrow> sphere_ability \<Rightarrow> bool" where
  "less_eq_sphere_ability a b \<longleftrightarrow> ability_rank a \<le> ability_rank b"

definition less_sphere_ability :: "sphere_ability \<Rightarrow> sphere_ability \<Rightarrow> bool" where
  "less_sphere_ability a b \<longleftrightarrow> ability_rank a < ability_rank b"

instance
  by standard (auto simp: less_eq_sphere_ability_def less_sphere_ability_def ability_rank_inj)

end

fun sphere_ability_display :: "sphere_ability \<Rightarrow> string" where
  "sphere_ability_display Authorize = ''sphere/authorize''"
| "sphere_ability_display Publish = ''sphere/publish''"
| "sphere_ability_display Push = ''sphere/push''"
| "sphere_ability_display Fetch = ''sphere/fetch''"

definition sphere_ability_from_str :: "string \<Rightarrow> sphere_ability option" where
  "sphere_ability_from_str s =
     (if s = ''sphere/authorize'' then Some Authorize
      else if s = ''sphere/publish'' then Some Publish
      else if s = ''sphere/push'' then Some Push
      else if s = ''sphere/fetch'' then Some Fetch
      else None)"

datatype sphere_reference = SphereReference (ref_did: string)

definition sphere_within :: "sphere_reference \<Rightarrow> sphere_reference \<Rightarrow> bool" where
  "sphere_within a b \<longleftrightarrow> ref_did b = ref_did a"

definition sphere_from_url :: "url \<Rightarrow> sphere_reference option" where
  "sphere_from_url u = (if scheme u = ''sphere'' then Some (SphereReference (path u)) else None)"

definition SPHERE_SEMANTICS :: "(sphere_reference, sphere_ability) semantics" where
  "SPHERE_SEMANTICS =
     \<lparr>scope_from_url = sphere_from_url, scope_within = sphere_within,
      scope_display = (\<lambda>r. ''sphere:'' @ ref_did r),
      ability_from_str = sphere_ability_from_str, ability_display = sphere_ability_display\<rparr>"

type_synonym sphere_capability = "(sphere_reference, sphere_ability) capability_view"

definition generate_capability :: "string \<Rightarrow> sphere_ability \<Rightarrow> sphere_capability" where
  "generate_capability identity a =
     \<lparr>view_resource = Resource (Scoped (SphereReference identity)), view_ability = a, view_caveat = JObject []\<rparr>"

section \<open>Proof selections\<close>

datatype proof_action = Delegate

instantiation proof_action :: linorder
begin

definition less_eq_proof_action :: "proof_action \<Rightarrow> proof_action \<Rightarrow> bool" where
  "less_eq_proof_action a b \<longleftrightarrow> True"

definition less_proof_action :: "proof_action \<Rightarrow> proof_action \<Rightarrow> bool" where
  "less_proof_action a b \<longleftrightarrow> False"

instance
  by standard (auto simp: less_eq_proof_action_def less_proof_action_def intro: proof_action.induct
      [of "\<lambda>x. x = y" for y] proof_action.induct [of "\<lambda>y. Delegate = y"])

end

definition proof_action_from_str :: "string \<Rightarrow> proof_action option" where
  "proof_action_from_str s = (if s = ''ucan/DELEGATE'' then Some Delegate else None)"

datatype proof_selection = Index nat | All

definition proof_within :: "proof_selection \<Rightarrow> proof_selection \<Rightarrow> bool" where
  "proof_within a b \<longleftrightarrow> a = b \<or> a = All"

definition proof_selection_from_str :: "string \<Rightarrow> proof_selection option" where
  "proof_selection_from_str s = (if s = ''*'' then Some All else map_option Index (usize_from_str s))"

definition proof_selection_from_url :: "url \<Rightarrow> proof_selection option" where
  "proof_selection_from_url u = (if scheme u = ''prf'' then proof_selection_from_str (path u) else None)"

fun proof_selection_display :: "proof_selection \<Rightarrow> string" where
  "proof_selection_display (Index i) = ''prf:'' @ nat_to_string i"
| "proof_selection_display All = ''prf:*''"

definition PROOF_DELEGATION_SEMANTICS :: "(proof_selection, proof_action) semantics" where
  "PROOF_DELEGATION_SEMANTICS =
     \<lparr>scope_from_url = proof_selection_from_url, scope_within = proof_within,
      scope_display = proof_selection_display,
      ability_from_str = proof_action_from_str, ability_display = (\<lambda>_. ''ucan/DELEGATE'')\<rparr>"

section \<open>The map of capabilities\<close>

type_synonym abilities = "(string \<times> json list) list"
type_synonym capabilities = "(string \<times> abilities) list"

definition capabilities_iter :: "capabilities \<Rightarrow> capability list" where
  "capabilities_iter m =
     concat (map (\<lambda>(r, abilities).
       concat (map (\<lambda>(a, caveats).
         map (\<lambda>v. \<lparr>cap_resource = r, cap_ability = a, cap_caveat = v\<rparr>) caveats) abilities)) m)"

definition capabilities_try_from :: "capabilities \<Rightarrow> capabilities result" where
  "capabilities_try_from m =
     (if \<exists>(r, abilities) \<in> set m. abilities = [] then Inl (Anyhow ''No abilities given for resource'') else Inr m)"

fun capabilities_loop :: "capability list \<Rightarrow> capabilities \<Rightarrow> capabilities result" where
  "capabilities_loop [] m = Inr m"
| "capabilities_loop (c # cs) m =
     (let abilities = (case map_of m (cap_resource c) of Some a \<Rightarrow> a | None \<Rightarrow> []) in
      if \<not> is_object (cap_caveat c) then Inl (Anyhow ''Caveat must be an object'')
      else (let caveats = (case map_of abilities (cap_ability c) of
                             Some v \<Rightarrow> v @ [cap_caveat c] | None \<Rightarrow> [cap_caveat c])
            in capabilities_loop cs
                 (btree_put (cap_resource c) (btree_put (cap_ability c) caveats abilities) m)))"

definition capabilities_from_vec :: "capability list \<Rightarrow> capabilities result" where
  "capabilities_from_vec cs = rbind (capabilities_loop cs []) capabilities_try_from"

text \<open>\<open>TryFrom<&Value>\<close>: an object of objects of arrays of objects.\<close>

fun caveats_from_json :: "json \<Rightarrow> json list result" where
  "caveats_from_json (JArray vs) =
     (if \<forall>v \<in> set vs. is_object v then Inr vs else Inl (Anyhow ''Caveat must be an object''))"
| "caveats_from_json _ = Inl (Anyhow ''Caveats must be defined as an array.'')"

fun abilities_from_json :: "json \<Rightarrow> abilities result" where
  "abilities_from_json (JObject kvs) =
     rtraverse (\<lambda>(k, v). rbind (caveats_from_json v) (\<lambda>caveats. Inr (k, caveats))) kvs"
| "abilities_from_json _ = Inl (Anyhow ''Abilities must be an object.'')"

fun capabilities_from_json :: "json \<Rightarrow> capabilities result" where
  "capabilities_from_json (JObject kvs) =
     rbind (rtraverse (\<lambda>(k, v). rbind (abilities_from_json v) (\<lambda>abilities. Inr (k, abilities))) kvs)
       capabilities_try_from"
| "capabilities_from_json _ = Inl (Anyhow ''Capabilities must be an object.'')"

section \<open>Enabling is a preorder\<close>

lemma caveat_loop_iff: "caveat_loop a b \<longleftrightarrow> (\<forall>(k, v) \<in> set a. map_of b k = Some v)"
  by (induction a b rule: caveat_loop.induct) (auto split: option.splits)

text \<open>A caveat enables the caveats that contain all of its entries.\<close>

lemma caveat_enables_iff: "caveat_enables a b \<longleftrightarrow> a = b \<or> (\<forall>(k, v) \<in> set a. map_of b k = Some v)"
  by (cases a) (auto simp: caveat_enables_def caveat_loop_iff)

lemma caveat_enables_refl: "caveat_enables a a"
  by (simp add: caveat_enables_def)

lemma caveat_enables_trans: "caveat_enables a b \<Longrightarrow> caveat_enables b c \<Longrightarrow> caveat_enables a c"
  using map_of_SomeD by (fastforce simp: caveat_enables_iff)

text \<open>What a \<open>Scope\<close> has to promise for its capabilities to be ordered.\<close>

locale scope_order =
  fixes S :: "('s, 'a::linorder) semantics"
  assumes within_refl: "scope_within S x x"
    and within_trans: "scope_within S x y \<Longrightarrow> scope_within S y z \<Longrightarrow> scope_within S x z"
begin

lemma uri_refl: "uri_contains (scope_within S) r r"
  by (cases r) (auto intro: within_refl)

lemma uri_trans:
  "uri_contains (scope_within S) p q \<Longrightarrow> uri_contains (scope_within S) q r \<Longrightarrow> uri_contains (scope_within S) p r"
  by (cases p; cases q; cases r) (auto intro: within_trans)

lemma contains_refl: "resource_contains (scope_within S) r r"
  by (cases r) (auto intro: uri_refl)

lemma contains_trans:
  "resource_contains (scope_within S) p q \<Longrightarrow> resource_contains (scope_within S) q r \<Longrightarrow>
   resource_contains (scope_within S) p r"
  by (cases p; cases q; cases r) (auto intro: uri_trans)

lemma enables_refl: "is_object (view_caveat v) \<Longrightarrow> enables S v v"
  by (cases "view_caveat v") (auto simp: enables_def contains_refl caveat_enables_refl)

lemma enables_trans:
  assumes "enables S u v" "enables S v w"
  shows "enables S u w"
proof -
  obtain a b c where c: "view_caveat u = JObject a" "view_caveat v = JObject b" "view_caveat w = JObject c"
    using assms by (cases "view_caveat u"; cases "view_caveat v"; cases "view_caveat w")
      (auto simp: enables_def)
  have "caveat_enables a c"
    by (rule caveat_enables_trans [of a b]) (use assms c in \<open>auto simp: enables_def\<close>)
  moreover have "resource_contains (scope_within S) (view_resource u) (view_resource w)"
    by (rule contains_trans [of _ "view_resource v"]) (use assms c in \<open>auto simp: enables_def\<close>)
  ultimately show ?thesis using assms c by (auto simp: enables_def)
qed

end

interpretation sphere_scope: scope_order SPHERE_SEMANTICS
  by unfold_locales (auto simp: SPHERE_SEMANTICS_def sphere_within_def)

interpretation proof_scope: scope_order PROOF_DELEGATION_SEMANTICS
  by unfold_locales (auto simp: PROOF_DELEGATION_SEMANTICS_def proof_within_def)

section \<open>Text of a capability\<close>

lemma sphere_ability_round_trip [simp]: "sphere_ability_from_str (sphere_ability_display a) = Some a"
  by (cases a) (simp_all add: sphere_ability_from_str_def)

section \<open>Collecting capabilities\<close>

lemma mset_btree_put:
  assumes "btree m"
  shows "mset (concat (map g (btree_put k v m))) + mset (case map_of m k of None \<Rightarrow> [] | Some w \<Rightarrow> g (k, w)) =
    mset (concat (map g m)) + mset (g (k, v))"
  using assms
proof (induction k v m rule: btree_put.induct)
  case (2 k v k' v' m)
  have "map_of m k = None" if "k \<le> k'"
    by (rule map_of_less) (use 2(2) that in \<open>auto intro: le_less_trans\<close>)
  moreover have "mset (concat (map g (btree_put k v m))) + mset (case map_of m k of None \<Rightarrow> [] | Some w \<Rightarrow> g (k, w)) =
      mset (concat (map g m)) + mset (g (k, v))" if "k' < k"
    using 2(1,2) that by simp
  ultimately show ?case by (cases k k' rule: linorder_cases) (auto simp: less_imp_not_less)
qed simp

definition entries :: "string \<Rightarrow> string \<times> json list \<Rightarrow> capability list" where
  "entries r = (\<lambda>(a, caveats). map (\<lambda>v. \<lparr>cap_resource = r, cap_ability = a, cap_caveat = v\<rparr>) caveats)"

lemma capabilities_iter_entries:
  "capabilities_iter m = concat (map (\<lambda>ra. concat (map (entries (fst ra)) (snd ra))) m)"
  by (simp add: capabilities_iter_def entries_def case_prod_unfold)

lemma mset_abilities_put:
  assumes "btree as"
  shows "mset (concat (map (entries r)
      (btree_put b (case map_of as b of Some v \<Rightarrow> v @ [c] | None \<Rightarrow> [c]) as))) =
    add_mset \<lparr>cap_resource = r, cap_ability = b, cap_caveat = c\<rparr> (mset (concat (map (entries r) as)))"
proof (cases "map_of as b")
  case None
  then show ?thesis using mset_btree_put [OF assms, of "entries r" b "[c]"] by (simp add: entries_def)
next
  case (Some v)
  then show ?thesis using mset_btree_put [OF assms, of "entries r" b "v @ [c]"] by (simp add: entries_def)
qed

lemma mset_capabilities_put:
  assumes "btree m" "btree as" "as = (case map_of m r of Some a \<Rightarrow> a | None \<Rightarrow> [])"
  shows "mset (capabilities_iter
      (btree_put r (btree_put b (case map_of as b of Some v \<Rightarrow> v @ [c] | None \<Rightarrow> [c]) as) m)) =
    add_mset \<lparr>cap_resource = r, cap_ability = b, cap_caveat = c\<rparr> (mset (capabilities_iter m))"
proof -
  let ?g = "\<lambda>ra. concat (map (entries (fst ra)) (snd ra))"
  let ?as = "btree_put b (case map_of as b of Some v \<Rightarrow> v @ [c] | None \<Rightarrow> [c]) as"
  have "mset (case map_of m r of None \<Rightarrow> [] | Some w \<Rightarrow> ?g (r, w)) = mset (?g (r, as))"
    using assms(3) by (cases "map_of m r") simp_all
  then have "mset (concat (map ?g (btree_put r ?as m))) + mset (?g (r, as)) =
      mset (concat (map ?g m)) + mset (?g (r, ?as))"
    using mset_btree_put [OF assms(1), of ?g r ?as] by simp
  then show ?thesis
    unfolding capabilities_iter_entries using mset_abilities_put [OF assms(2), of r b c] by simp
qed

definition capabilities_ok :: "capabilities \<Rightarrow> bool" where
  "capabilities_ok m \<longleftrightarrow> btree m \<and> (\<forall>a \<in> snd ` set m. btree a \<and> a \<noteq> [])"

lemma set_btree_put: "set (btree_put k v m) \<subseteq> insert (k, v) (set m)"
  by (induction k v m rule: btree_put.induct) auto

lemma btree_put_not_Nil [simp]: "btree_put k v m \<noteq> []"
  by (cases "(k, v, m)" rule: btree_put.cases) auto

lemma capabilities_loop_ok:
  assumes "capabilities_ok m" "\<forall>c \<in> set cs. is_object (cap_caveat c)"
  shows "\<exists>m'. capabilities_loop cs m = Inr m' \<and> capabilities_ok m' \<and>
    mset (capabilities_iter m') = mset cs + mset (capabilities_iter m)"
  using assms
proof (induction cs m rule: capabilities_loop.induct)
  case (2 c cs m)
  define abilities where "abilities = (case map_of m (cap_resource c) of Some a \<Rightarrow> a | None \<Rightarrow> [])"
  define caveats where "caveats = (case map_of abilities (cap_ability c) of
    Some v \<Rightarrow> v @ [cap_caveat c] | None \<Rightarrow> [cap_caveat c])"
  let ?m = "btree_put (cap_resource c) (btree_put (cap_ability c) caveats abilities) m"
  have m: "btree m" "\<And>r a. (r, a) \<in> set m \<Longrightarrow> btree a \<and> a \<noteq> []"
    using 2(2) by (auto simp: capabilities_ok_def)
  have ab: "btree abilities"
  proof (cases "map_of m (cap_resource c)")
    case (Some a)
    then show ?thesis using m(2) [OF map_of_SomeD [OF Some]] by (simp add: abilities_def)
  qed (simp add: abilities_def)
  have "btree a \<and> a \<noteq> []" if "(r, a) \<in> set ?m" for r a
  proof (cases "(r, a) \<in> set m")
    case False
    then have "a = btree_put (cap_ability c) caveats abilities"
      using that set_btree_put [of "cap_resource c" _ m] by blast
    then show ?thesis using btree_btree_put [OF ab] by simp
  qed (rule m(2))
  then have "capabilities_ok ?m"
    using btree_btree_put [OF m(1)] by (auto simp: capabilities_ok_def)
  then have "\<exists>m'. capabilities_loop cs ?m = Inr m' \<and> capabilities_ok m' \<and>
      mset (capabilities_iter m') = mset cs + mset (capabilities_iter ?m)"
    using 2(3) by (intro 2(1) [OF abilities_def _ caveats_def]) auto
  moreover have "mset (capabilities_iter ?m) = add_mset c (mset (capabilities_iter m))"
    using mset_capabilities_put [OF m(1) ab abilities_def, of "cap_ability c" "cap_caveat c"]
    by (simp add: caveats_def)
  ultimately show ?case using 2(3) by (simp add: Let_def abilities_def caveats_def)
qed simp

lemma capabilities_from_vec_ok:
  assumes "\<forall>c \<in> set cs. is_object (cap_caveat c)"
  shows "\<exists>m. capabilities_from_vec cs = Inr m \<and> capabilities_ok m \<and> mset (capabilities_iter m) = mset cs"
proof -
  obtain m where "capabilities_loop cs [] = Inr m" "capabilities_ok m" "mset (capabilities_iter m) = mset cs"
    using capabilities_loop_ok [OF _ assms, of "[]"] by (auto simp: capabilities_ok_def capabilities_iter_def)
  then show ?thesis by (auto simp: capabilities_from_vec_def capabilities_try_from_def capabilities_ok_def)
qed

lemma capabilities_loop_error:
  assumes "\<not> is_object (cap_caveat c)" "c \<in> set cs"
  shows "capabilities_loop cs m = Inl (Anyhow ''Caveat must be an object'')"
  using assms by (induction cs m rule: capabilities_loop.induct) (auto simp: Let_def)

end
