(* ===== verification/Ucan.thy ===== *)
theory Ucan
  imports Capability Memo
begin

text \<open>
  UCAN tokens (\<^verbatim>\<open>noosphere-ucan/src/ucan.rs\<close>, \<^verbatim>\<open>builder.rs\<close>, \<^verbatim>\<open>store.rs\<close>,
  \<^verbatim>\<open>crypto/did.rs\<close>) and the store they are kept in
  (\<^verbatim>\<open>noosphere-storage/src/ucan.rs\<close>): encoding, parsing, validity in time, signatures and the
  builder. The DAG-JSON codec, base64, base58, URL parsing and the key implementations are
  third-party code, the fields of \<open>world\<close>, and so are the hashes that maps apply to their keys. The clock and the random nonce are arguments.
\<close>

section \<open>Tokens\<close>

record ucan_header =
  jwt_alg :: string
  jwt_typ :: string

record ucan_payload =
  ucv :: string
  iss :: did
  aud :: did
  exp :: "u64 option"
  nbf :: "u64 option"
  nnc :: "string option"
  cap :: capabilities
  fct :: "(string \<times> json) list option"
  prfs :: "string list option"

record ucan =
  header :: ucan_header
  payload :: ucan_payload
  signed_data :: bytes
  signature :: bytes

definition UCAN_VERSION :: string where
  "UCAN_VERSION = ''0.10.0-canary''"

record world =
  codecs :: codec_env
  texts :: text_env
  header_to_json :: "ucan_header \<Rightarrow> bytes option"
  header_from_json :: "bytes \<Rightarrow> ucan_header option"
  payload_to_json :: "ucan_payload \<Rightarrow> bytes option"
  payload_from_json :: "bytes \<Rightarrow> ucan_payload option"
  url_parse :: "string \<Rightarrow> url option"
  bs58_decode :: "string \<Rightarrow> bytes option"
  hash_string :: "string \<Rightarrow> bytes"
  hash_multihash :: "bytes \<Rightarrow> bytes"
  key_constructors :: "bytes \<rightharpoonup> (bytes \<Rightarrow> key_material result)"

text \<open>\<open>jwt_base64_encode\<close> of the two parts.\<close>

definition header_base64 :: "world \<Rightarrow> ucan_header \<Rightarrow> string result" where
  "header_base64 W h = of_option (Anyhow ''to_dag_json'') (map_option (base64_encode (texts W)) (header_to_json W h))"

definition payload_base64 :: "world \<Rightarrow> ucan_payload \<Rightarrow> string result" where
  "payload_base64 W p = of_option (Anyhow ''to_dag_json'') (map_option (base64_encode (texts W)) (payload_to_json W p))"

definition ucan_encode :: "world \<Rightarrow> ucan \<Rightarrow> string result" where
  "ucan_encode W u =
     rbind (header_base64 W (header u)) (\<lambda>h.
       rbind (payload_base64 W (payload u)) (\<lambda>p.
         Inr (h @ ''.'' @ p @ ''.'' @ base64_encode (texts W) (signature u))))"

definition to_cid :: "world \<Rightarrow> ucan \<Rightarrow> cid result" where
  "to_cid W u =
     rbind (ucan_encode W u) (\<lambda>token.
       rbind (of_option (Anyhow ''encode'') (encode (codecs W) RawCodec (IBytes (str_bytes token)))) (\<lambda>encoded.
         Inr (Cid (codec_id RawCodec) (blake3_256 (codecs W) encoded))))"

text \<open>\<open>Ucan::from_str\<close>: the parts are decoded one by one, so the first fault is reported.\<close>

definition ucan_part :: "string \<Rightarrow> (string \<Rightarrow> 'a result) \<Rightarrow> string list \<Rightarrow> nat \<Rightarrow> 'a result" where
  "ucan_part missing f parts i = (if i < length parts then f (parts ! i) else Inl (Anyhow missing))"

definition ucan_from_str :: "world \<Rightarrow> string \<Rightarrow> ucan result" where
  "ucan_from_str W token =
     (let parts = split_on CHR ''.'' token;
          signed = (case parts of l # r # _ \<Rightarrow> l @ ''.'' @ r | [l] \<Rightarrow> l | [] \<Rightarrow> []);
          decoded = (\<lambda>what s. of_option (Anyhow what) (base64_decode (texts W) s))
      in rbind (ucan_part ''Missing UCAN header in token part''
                  (\<lambda>s. rbind (decoded ''Could not decode UCAN header base64'' s) (\<lambda>b.
                     of_option (Anyhow ''Could not parse UCAN header JSON'') (header_from_json W b))) parts 0) (\<lambda>h.
         rbind (ucan_part ''Missing UCAN payload in token part''
                  (\<lambda>s. rbind (decoded ''Could not decode UCAN payload base64'' s) (\<lambda>b.
                     of_option (Anyhow ''Could not parse UCAN payload JSON'') (payload_from_json W b))) parts 1) (\<lambda>p.
         rbind (ucan_part ''Missing UCAN signature in token part''
                  (decoded ''Could not parse UCAN signature base64'') parts 2) (\<lambda>sig.
         Inr \<lparr>header = h, payload = p, signed_data = str_bytes signed, signature = sig\<rparr>))))"

section \<open>Lifetimes\<close>

definition is_expired :: "u64 \<Rightarrow> u64 option \<Rightarrow> ucan \<Rightarrow> bool" where
  "is_expired now now_time u =
     (case exp (payload u) of
        Some e \<Rightarrow> e < (case now_time of Some t \<Rightarrow> t | None \<Rightarrow> now)
      | None \<Rightarrow> False)"

definition is_too_early :: "u64 \<Rightarrow> ucan \<Rightarrow> bool" where
  "is_too_early now u = (case nbf (payload u) of Some n \<Rightarrow> n > now | None \<Rightarrow> False)"

definition lifetime_begins_before :: "ucan \<Rightarrow> ucan \<Rightarrow> bool" where
  "lifetime_begins_before u other =
     (case (nbf (payload u), nbf (payload other)) of
        (Some n, Some other_n) \<Rightarrow> n \<le> other_n
      | (Some _, None) \<Rightarrow> False
      | _ \<Rightarrow> True)"

definition lifetime_ends_after :: "ucan \<Rightarrow> ucan \<Rightarrow> bool" where
  "lifetime_ends_after u other =
     (case (exp (payload u), exp (payload other)) of
        (Some e, Some other_e) \<Rightarrow> e \<ge> other_e
      | (Some _, None) \<Rightarrow> False
      | (None, _) \<Rightarrow> True)"

definition lifetime_encompasses :: "ucan \<Rightarrow> ucan \<Rightarrow> bool" where
  "lifetime_encompasses u other \<longleftrightarrow> lifetime_begins_before u other \<and> lifetime_ends_after u other"

section \<open>Keys of identities\<close>

definition DID_KEY_PREFIX :: string where
  "DID_KEY_PREFIX = ''did:key:z''"

text \<open>\<open>DidParser::parse\<close> without its cache: slicing off the two magic bytes may panic.\<close>

definition parse_key :: "world \<Rightarrow> did \<Rightarrow> key_material result" where
  "parse_key W d =
     (case strip_prefix DID_KEY_PREFIX d of
        None \<Rightarrow> Inl (Anyhow ''Expected valid did:key'')
      | Some encoded \<Rightarrow>
          (case bs58_decode W encoded of
             None \<Rightarrow> Inl (Anyhow ''bs58'')
           | Some did_bytes \<Rightarrow>
               if length did_bytes < 2 then Inl (Panic ''range end index 2 out of range for slice'')
               else (case key_constructors W (take 2 did_bytes) of
                       Some ctor \<Rightarrow> ctor (drop 2 did_bytes)
                     | None \<Rightarrow> Inl (Anyhow ''Unrecognized magic bytes''))))"

text \<open>With the cache of keys parsed before.\<close>

type_synonym key_cache = "did \<rightharpoonup> key_material"

definition did_parse :: "world \<Rightarrow> did \<Rightarrow> key_cache \<Rightarrow> key_material result \<times> key_cache" where
  "did_parse W d cache =
     (if strip_prefix DID_KEY_PREFIX d = None then (Inl (Anyhow ''Expected valid did:key''), cache)
      else (case cache d of
              Some key \<Rightarrow> (Inr key, cache)
            | None \<Rightarrow>
                (case parse_key W d of
                   Inl e \<Rightarrow> (Inl e, cache)
                 | Inr key \<Rightarrow> (Inr key, cache(d \<mapsto> key)))))"

text \<open>What the code keeps true of the cache, and that the cache cannot be observed.\<close>

definition cache_ok :: "world \<Rightarrow> key_cache \<Rightarrow> bool" where
  "cache_ok W cache \<longleftrightarrow> (\<forall>d key. cache d = Some key \<longrightarrow> parse_key W d = Inr key)"

lemma did_parse_ok:
  assumes "cache_ok W cache"
  shows "fst (did_parse W d cache) = parse_key W d" and "cache_ok W (snd (did_parse W d cache))"
proof -
  have "parse_key W d = Inl (Anyhow ''Expected valid did:key'')" if "strip_prefix DID_KEY_PREFIX d = None"
    using that by (simp add: parse_key_def)
  then have "fst (did_parse W d cache) = parse_key W d \<and> cache_ok W (snd (did_parse W d cache))"
    using assms unfolding did_parse_def cache_ok_def by (simp split: option.split sum.split)
  then show "fst (did_parse W d cache) = parse_key W d" and "cache_ok W (snd (did_parse W d cache))" by auto
qed

section \<open>Validation\<close>

definition check_signature :: "world \<Rightarrow> ucan \<Rightarrow> unit result" where
  "check_signature W u =
     rbind (parse_key W (iss (payload u))) (\<lambda>key. km_verify key (signed_data u) (signature u))"

definition validate :: "world \<Rightarrow> u64 \<Rightarrow> u64 option \<Rightarrow> ucan \<Rightarrow> unit result" where
  "validate W now now_time u =
     (if is_expired now now_time u then Inl (Anyhow ''Expired'')
      else if is_too_early now u then Inl (Anyhow ''Not active yet (too early)'')
      else check_signature W u)"

section \<open>The token store\<close>

definition read_token :: "world \<Rightarrow> cid \<Rightarrow> blocks \<Rightarrow> string option result" where
  "read_token W c s =
     (if codec_of c \<noteq> codec_id RawCodec then Inl (Anyhow ''Only 'raw' codec supported'')
      else rbind (get (codecs W) RawCodec c s) (\<lambda>i.
        case i of
          Some (IBytes bytes) \<Rightarrow> rbind (from_utf8 bytes) (\<lambda>t. Inr (Some t))
        | _ \<Rightarrow> Inl (Anyhow ''No UCAN was found for CID'')))"

definition require_token :: "world \<Rightarrow> cid \<Rightarrow> blocks \<Rightarrow> string result" where
  "require_token W c s = rbind (read_token W c s) (of_option (Anyhow ''No token found for CID''))"

definition write_token :: "world \<Rightarrow> string \<Rightarrow> blocks \<Rightarrow> cid result \<times> blocks" where
  "write_token W token s = put (codecs W) RawCodec (IBytes (str_bytes token)) s"

section \<open>The builder\<close>

record signable =
  sg_issuer :: key_material
  sg_audience :: did
  sg_capabilities :: "capability list"
  sg_expiration :: "u64 option"
  sg_not_before :: "u64 option"
  sg_facts :: "(string \<times> json) list"
  sg_proofs :: "string list"
  sg_add_nonce :: bool

record ucan_builder =
  b_issuer :: "key_material option"
  b_audience :: "did option"
  b_capabilities :: "capability list"
  b_lifetime :: "u64 option"
  b_expiration :: "u64 option"
  b_not_before :: "u64 option"
  b_facts :: "(string \<times> json) list"
  b_proofs :: "string list"
  b_add_nonce :: bool

definition builder_default :: ucan_builder where
  "builder_default =
     \<lparr>b_issuer = None, b_audience = None, b_capabilities = [], b_lifetime = None, b_expiration = None,
      b_not_before = None, b_facts = [], b_proofs = [], b_add_nonce = False\<rparr>"

definition issued_by :: "key_material \<Rightarrow> ucan_builder \<Rightarrow> ucan_builder" where
  "issued_by key b = b\<lparr>b_issuer := Some key\<rparr>"

definition for_audience :: "did \<Rightarrow> ucan_builder \<Rightarrow> ucan_builder" where
  "for_audience a b = b\<lparr>b_audience := Some a\<rparr>"

definition with_lifetime :: "u64 \<Rightarrow> ucan_builder \<Rightarrow> ucan_builder" where
  "with_lifetime seconds b = b\<lparr>b_lifetime := Some seconds\<rparr>"

definition with_expiration :: "u64 \<Rightarrow> ucan_builder \<Rightarrow> ucan_builder" where
  "with_expiration t b = b\<lparr>b_expiration := Some t\<rparr>"

definition with_not_before :: "u64 \<Rightarrow> ucan_builder \<Rightarrow> ucan_builder" where
  "with_not_before t b = b\<lparr>b_not_before := Some t\<rparr>"

text \<open>The fact as \<open>serde_json::to_value\<close> gives it; on its error the builder stays as it is.\<close>

definition with_fact :: "string \<Rightarrow> json option \<Rightarrow> ucan_builder \<Rightarrow> ucan_builder" where
  "with_fact key value b =
     (case value of Some v \<Rightarrow> b\<lparr>b_facts := btree_put key v (b_facts b)\<rparr> | None \<Rightarrow> b)"

definition with_nonce :: "ucan_builder \<Rightarrow> ucan_builder" where
  "with_nonce b = b\<lparr>b_add_nonce := True\<rparr>"

definition witnessed_by :: "world \<Rightarrow> ucan \<Rightarrow> ucan_builder \<Rightarrow> ucan_builder" where
  "witnessed_by W witness b =
     (case to_cid W witness of
        Inr c \<Rightarrow> b\<lparr>b_proofs := b_proofs b @ [cid_to_string (texts W) c]\<rparr>
      | Inl _ \<Rightarrow> b)"

definition claiming_capability :: "capability \<Rightarrow> ucan_builder \<Rightarrow> ucan_builder" where
  "claiming_capability c b = b\<lparr>b_capabilities := b_capabilities b @ [c]\<rparr>"

definition claiming_capabilities :: "capability list \<Rightarrow> ucan_builder \<Rightarrow> ucan_builder" where
  "claiming_capabilities cs b = b\<lparr>b_capabilities := b_capabilities b @ cs\<rparr>"

definition delegating_from :: "world \<Rightarrow> ucan \<Rightarrow> ucan_builder \<Rightarrow> ucan_builder" where
  "delegating_from W witness b =
     (case to_cid W witness of
        Inl _ \<Rightarrow> b
      | Inr c \<Rightarrow>
          (let b = b\<lparr>b_proofs := b_proofs b @ [cid_to_string (texts W) c]\<rparr>;
               proof_index = length (b_proofs b) - 1
           in case parse (url_parse W) PROOF_DELEGATION_SEMANTICS
                     (''prf:'' @ nat_to_string proof_index) ''ucan/DELEGATE'' None of
                Some v \<Rightarrow> b\<lparr>b_capabilities := b_capabilities b @ [capability_of PROOF_DELEGATION_SEMANTICS v]\<rparr>
              | None \<Rightarrow> b))"

text \<open>The addition of the lifetime wraps around, as in a release build.\<close>

definition implied_expiration :: "u64 \<Rightarrow> ucan_builder \<Rightarrow> u64 option" where
  "implied_expiration now b =
     (case b_expiration b of Some e \<Rightarrow> Some e | None \<Rightarrow> map_option (\<lambda>l. now + l) (b_lifetime b))"

definition build :: "u64 \<Rightarrow> ucan_builder \<Rightarrow> signable result" where
  "build now b =
     (case b_issuer b of
        None \<Rightarrow> Inl (Anyhow ''Missing issuer'')
      | Some key \<Rightarrow>
          (case b_audience b of
             None \<Rightarrow> Inl (Anyhow ''Missing audience'')
           | Some a \<Rightarrow>
               Inr \<lparr>sg_issuer = key, sg_audience = a, sg_capabilities = b_capabilities b,
                    sg_expiration = implied_expiration now b, sg_not_before = b_not_before b,
                    sg_facts = b_facts b, sg_proofs = b_proofs b, sg_add_nonce = b_add_nonce b\<rparr>))"

definition signable_header :: "signable \<Rightarrow> ucan_header" where
  "signable_header g = \<lparr>jwt_alg = km_alg (sg_issuer g), jwt_typ = ''JWT''\<rparr>"

definition signable_payload :: "world \<Rightarrow> bytes \<Rightarrow> signable \<Rightarrow> ucan_payload result" where
  "signable_payload W nonce g =
     rbind (km_did (sg_issuer g)) (\<lambda>d.
       rbind (capabilities_from_vec (sg_capabilities g)) (\<lambda>caps.
         Inr \<lparr>ucv = UCAN_VERSION, iss = d, aud = sg_audience g, exp = sg_expiration g, nbf = sg_not_before g,
              nnc = (if sg_add_nonce g then Some (base64_encode (texts W) nonce) else None), cap = caps,
              fct = (if sg_facts g = [] then None else Some (sg_facts g)),
              prfs = (if sg_proofs g = [] then None else Some (sg_proofs g))\<rparr>))"

definition signable_sign :: "world \<Rightarrow> bytes \<Rightarrow> signable \<Rightarrow> ucan result" where
  "signable_sign W nonce g =
     (case signable_payload W nonce g of
        Inl _ \<Rightarrow> Inl (Panic ''Unable to generate UCAN payload'')
      | Inr p \<Rightarrow>
          rbind (header_base64 W (signable_header g)) (\<lambda>h64.
            rbind (payload_base64 W p) (\<lambda>p64.
              let data = str_bytes (h64 @ ''.'' @ p64)
              in rbind (km_sign (sg_issuer g) data) (\<lambda>sig.
                   Inr \<lparr>header = signable_header g, payload = p, signed_data = data, signature = sig\<rparr>))))"

definition build_and_sign :: "world \<Rightarrow> u64 \<Rightarrow> bytes \<Rightarrow> ucan_builder \<Rightarrow> ucan result" where
  "build_and_sign W now nonce b = rbind (build now b) (signable_sign W nonce)"

section \<open>What the code relies on\<close>

text \<open>
  The raw codec stores bytes as they are. DAG-JSON and base64 decode what they encoded, and
  the base64 alphabet is ASCII without the full stop.
\<close>

definition raw_ok :: "codec_env \<Rightarrow> bool" where
  "raw_ok E \<longleftrightarrow> (\<forall>b. encode E RawCodec (IBytes b) = Some b \<and> decode E RawCodec b = Some (IBytes b))"

definition base64_ok :: "text_env \<Rightarrow> bool" where
  "base64_ok T \<longleftrightarrow>
     (\<forall>b. base64_decode T (base64_encode T b) = Some b \<and>
          (\<forall>c \<in> set (base64_encode T b). (of_char c :: nat) < 128 \<and> c \<noteq> CHR ''.''))"

definition json_ok :: "world \<Rightarrow> bool" where
  "json_ok W \<longleftrightarrow>
     (\<forall>h. \<exists>b. header_to_json W h = Some b \<and> header_from_json W b = Some h) \<and>
     (\<forall>p. \<exists>b. payload_to_json W p = Some b \<and> payload_from_json W b = Some p)"

definition jwt_ok :: "world \<Rightarrow> bool" where
  "jwt_ok W \<longleftrightarrow> raw_ok (codecs W) \<and> base64_ok (texts W) \<and> json_ok W \<and> hash_ok (codecs W)"

text \<open>A token whose signed data is its own encoding, as signing and parsing produce it.\<close>

definition self_described :: "world \<Rightarrow> ucan \<Rightarrow> bool" where
  "self_described W u \<longleftrightarrow>
     rbind (header_base64 W (header u)) (\<lambda>h. rbind (payload_base64 W (payload u)) (\<lambda>p. Inr (str_bytes (h @ ''.'' @ p)))) =
     Inr (signed_data u)"

lemma base64_parts:
  assumes "jwt_ok W"
  obtains h p where "header_base64 W x = Inr (base64_encode (texts W) h)" "header_from_json W h = Some x"
    "payload_base64 W pl = Inr (base64_encode (texts W) p)" "payload_from_json W p = Some pl"
proof -
  obtain h p where "header_to_json W x = Some h" "header_from_json W h = Some x"
      "payload_to_json W pl = Some p" "payload_from_json W p = Some pl"
    using assms by (auto simp: jwt_ok_def json_ok_def) metis
  then show thesis using that by (simp add: header_base64_def payload_base64_def)
qed

lemma base64_no_dot: "jwt_ok W \<Longrightarrow> CHR ''.'' \<notin> set (base64_encode (texts W) b)"
  by (simp add: jwt_ok_def base64_ok_def) blast

lemma base64_ascii: "jwt_ok W \<Longrightarrow> c \<in> set (base64_encode (texts W) b) \<Longrightarrow> (of_char c :: nat) < 128"
  by (simp add: jwt_ok_def base64_ok_def)

lemma base64_decode [simp]: "jwt_ok W \<Longrightarrow> base64_decode (texts W) (base64_encode (texts W) b) = Some b"
  by (simp add: jwt_ok_def base64_ok_def)

section \<open>Encoding and parsing\<close>

lemma encode_total: "jwt_ok W \<Longrightarrow> \<exists>t. ucan_encode W u = Inr t"
  by (rule base64_parts [of W "header u" "payload u"]) (auto simp: ucan_encode_def)

lemma encode_ascii:
  assumes "jwt_ok W" "ucan_encode W u = Inr t"
  shows "\<forall>c \<in> set t. (of_char c :: nat) < 128"
proof -
  obtain h p where "header_base64 W (header u) = Inr (base64_encode (texts W) h)"
      "payload_base64 W (payload u) = Inr (base64_encode (texts W) p)"
    by (rule base64_parts [OF assms(1)])
  then have "t = base64_encode (texts W) h @ ''.'' @ base64_encode (texts W) p @ ''.'' @ base64_encode (texts W) (signature u)"
    using assms(2) by (simp add: ucan_encode_def)
  then show ?thesis using base64_ascii [OF assms(1)] by auto
qed

lemma from_str_encode:
  assumes "jwt_ok W" "self_described W u" "ucan_encode W u = Inr t"
  shows "ucan_from_str W t = Inr u"
proof -
  let ?b = "base64_encode (texts W)"
  obtain h p where hp: "header_base64 W (header u) = Inr (?b h)" "header_from_json W h = Some (header u)"
      "payload_base64 W (payload u) = Inr (?b p)" "payload_from_json W p = Some (payload u)"
    by (rule base64_parts [OF assms(1)])
  have t: "t = ?b h @ CHR ''.'' # ?b p @ CHR ''.'' # ?b (signature u)"
    using assms(3) hp by (simp add: ucan_encode_def)
  have "split_on CHR ''.'' t = [?b h, ?b p, ?b (signature u)]"
    unfolding t using base64_no_dot [OF assms(1)] by (simp add: split_on_append split_on_free)
  moreover have "signed_data u = str_bytes (?b h @ ''.'' @ ?b p)"
    using assms(2) hp by (simp add: self_described_def)
  ultimately show ?thesis
    using hp assms(1) by (simp add: ucan_from_str_def ucan_part_def Let_def)
qed

lemma sign_self_described:
  assumes "signable_sign W nonce g = Inr u"
  shows "self_described W u"
  using assms by (auto simp: signable_sign_def self_described_def Let_def split: sum.splits)

text \<open>Writing a token and reading it back; the CID is the one \<open>to_cid\<close> computes.\<close>

lemma write_require_token:
  assumes "jwt_ok W" "store_ok (codecs W) s" "ucan_encode W u = Inr t"
  obtains c s' where "write_token W t s = (Inr c, s')" "to_cid W u = Inr c" "s \<subseteq>\<^sub>m s'"
    "store_ok (codecs W) s'" "codec_of c = codec_id RawCodec" "s' c = Some (str_bytes t)"
proof -
  let ?b = "str_bytes t" and ?c = "Cid (codec_id RawCodec) (blake3_256 (codecs W) (str_bytes t))"
  have enc: "encode (codecs W) RawCodec (IBytes ?b) = Some ?b"
    using assms(1) by (simp add: jwt_ok_def raw_ok_def)
  then have w: "write_token W t s = (Inr ?c, put_block ?c ?b s)"
    by (simp add: write_token_def put_def Let_def)
  show thesis
  proof (rule that [OF w])
    show "to_cid W u = Inr ?c" using assms(3) enc by (simp add: to_cid_def)
    show "s \<subseteq>\<^sub>m put_block ?c ?b s" "store_ok (codecs W) (put_block ?c ?b s)"
      using put_extends [of "codecs W" s RawCodec "IBytes ?b"] assms(1,2) w
      by (auto simp: write_token_def jwt_ok_def)
  qed (simp_all add: put_block_def)
qed

lemma require_token_at:
  assumes "jwt_ok W" "s c = Some (str_bytes t)" "codec_of c = codec_id RawCodec" "utf8_ok (str_bytes t)"
  shows "require_token W c s = Inr t"
  using assms
  by (simp add: require_token_def read_token_def get_def get_block_def jwt_ok_def raw_ok_def from_utf8_def)

section \<open>Lifetimes\<close>

lemma encompasses_trans:
  "lifetime_encompasses a b \<Longrightarrow> lifetime_encompasses b c \<Longrightarrow> lifetime_encompasses a c"
  by (auto simp: lifetime_encompasses_def lifetime_begins_before_def lifetime_ends_after_def split: option.splits)

lemma encompasses_refl: "lifetime_encompasses a a"
  by (auto simp: lifetime_encompasses_def lifetime_begins_before_def lifetime_ends_after_def split: option.splits)

text \<open>A token that encompasses one in force is in force too.\<close>

lemma encompasses_in_force:
  assumes "lifetime_encompasses a b"
  shows "\<not> is_expired now t b \<Longrightarrow> \<not> is_expired now t a" and "\<not> is_too_early now b \<Longrightarrow> \<not> is_too_early now a"
  using assms
  by (auto simp: lifetime_encompasses_def lifetime_begins_before_def lifetime_ends_after_def
      is_expired_def is_too_early_def split: option.splits)

end
