(* ===== verification/Proof_Chain.thy ===== *)
theory Proof_Chain
  imports Ucan
begin

text \<open>
  Proof chains (\<^verbatim>\<open>noosphere-ucan/src/chain.rs\<close>): resolving the proofs of a token into a
  tree of validated tokens, and reducing the tree to the capabilities it grants with the
  identities they originate from. Proofs are found in the store by CID, so resolving them
  takes fuel; a chain of \<open>n\<close> levels needs \<open>n\<close>.
\<close>

section \<open>Resolving a chain\<close>

datatype proof_chain =
  ProofChain (chain_ucan: ucan) (chain_proofs: "proof_chain list") (redelegations: "nat list")

record ('s, 'a) capability_info =
  originators :: "did set"
  info_not_before :: "u64 option"
  info_expires_at :: "u64 option"
  info_capability :: "('s, 'a) capability_view"

definition validate_link_to :: "proof_chain \<Rightarrow> ucan \<Rightarrow> unit result" where
  "validate_link_to chain u =
     (if aud (payload (chain_ucan chain)) = iss (payload u)
      then if lifetime_encompasses (chain_ucan chain) u then Inr ()
           else Inl (Anyhow ''Invalid UCAN link: lifetime exceeds attenuation'')
      else Inl (Anyhow ''Invalid UCAN link: audience does not match issuer''))"

text \<open>The set of redelegated proofs, a \<open>BTreeSet\<close>, as the sorted list of its members.\<close>

fun redelegate ::
    "nat \<Rightarrow> (proof_selection, proof_action) capability_view list \<Rightarrow> nat list \<Rightarrow> nat list result" where
  "redelegate n [] rd = Inr rd"
| "redelegate n (v # vs) rd =
     (case view_resource v of
        Resource (Scoped All) \<Rightarrow> redelegate n vs (fold insort_insert [0..<n] rd)
      | Resource (Scoped (Index i)) \<Rightarrow>
          if i < n then redelegate n vs (insort_insert i rd)
          else Inl (Anyhow ''Unable to redelegate proof; no proof at zero-based index'')
      | _ \<Rightarrow> redelegate n vs rd)"

definition proof_strings :: "ucan \<Rightarrow> string list" where
  "proof_strings u = (case prfs (payload u) of Some ps \<Rightarrow> ps | None \<Rightarrow> [])"

definition redelegations_of :: "world \<Rightarrow> nat \<Rightarrow> ucan \<Rightarrow> nat list result" where
  "redelegations_of W n u =
     redelegate n
       (List.map_filter (parse_capability (url_parse W) PROOF_DELEGATION_SEMANTICS)
          (capabilities_iter (cap (payload u)))) []"

fun from_ucan :: "nat \<Rightarrow> world \<Rightarrow> u64 \<Rightarrow> u64 option \<Rightarrow> blocks \<Rightarrow> ucan \<Rightarrow> proof_chain result" where
  "from_ucan 0 W now now_time s u = Inl OutOfFuel"
| "from_ucan (Suc f) W now now_time s u =
     rbind (validate W now now_time u) (\<lambda>_.
       rbind (rtraverse (\<lambda>cid_string.
                rbind (of_option (Anyhow ''Cid'') (cid_from_string (texts W) cid_string)) (\<lambda>c.
                  rbind (require_token W c s) (\<lambda>token.
                    rbind (ucan_from_str W token) (\<lambda>p.
                      rbind (from_ucan f W now now_time s p) (\<lambda>chain.
                        rbind (validate_link_to chain u) (\<lambda>_. Inr chain))))))
                (proof_strings u)) (\<lambda>proofs.
         rbind (redelegations_of W (length proofs) u) (\<lambda>rd. Inr (ProofChain u proofs rd))))"

definition try_from_token_string ::
    "nat \<Rightarrow> world \<Rightarrow> u64 \<Rightarrow> u64 option \<Rightarrow> blocks \<Rightarrow> string \<Rightarrow> proof_chain result" where
  "try_from_token_string f W now now_time s token =
     rbind (ucan_from_str W token) (from_ucan f W now now_time s)"

definition from_cid :: "nat \<Rightarrow> world \<Rightarrow> u64 \<Rightarrow> u64 option \<Rightarrow> blocks \<Rightarrow> cid \<Rightarrow> proof_chain result" where
  "from_cid f W now now_time s c =
     rbind (require_token W c s) (try_from_token_string f W now now_time s)"

section \<open>Reducing a chain\<close>

fun map_while :: "('a \<Rightarrow> 'b option) \<Rightarrow> 'a list \<Rightarrow> 'b list" where
  "map_while f [] = []"
| "map_while f (x # xs) = (case f x of Some y \<Rightarrow> y # map_while f xs | None \<Rightarrow> [])"

definition self_capabilities ::
    "(string \<Rightarrow> url option) \<Rightarrow> ('s, 'a) semantics \<Rightarrow> ucan \<Rightarrow> ('s, 'a) capability_view list" where
  "self_capabilities url S u = map_while (parse_capability url S) (capabilities_iter (cap (payload u)))"

text \<open>Whom a claimed capability comes from, given what the proofs grant.\<close>

definition claim_originators ::
    "('s, 'a::linorder) semantics \<Rightarrow> ucan \<Rightarrow> ('s, 'a) capability_info list \<Rightarrow> ('s, 'a) capability_view \<Rightarrow> did set" where
  "claim_originators S u ancestral c =
     (let os = \<Union> (originators ` {a \<in> set ancestral. enables S (info_capability a) c})
      in if os = {} then {iss (payload u)} else os)"

definition self_info ::
    "('s, 'a::linorder) semantics \<Rightarrow> ucan \<Rightarrow> nat \<Rightarrow> ('s, 'a) capability_info list \<Rightarrow> ('s, 'a) capability_view \<Rightarrow>
     ('s, 'a) capability_info" where
  "self_info S u n ancestral c =
     \<lparr>originators = (if n = 0 then {iss (payload u)} else claim_originators S u ancestral c),
      info_not_before = nbf (payload u), info_expires_at = exp (payload u), info_capability = c\<rparr>"

definition attenuate :: "ucan \<Rightarrow> ('s, 'a) capability_info \<Rightarrow> ('s, 'a) capability_info" where
  "attenuate u info = info\<lparr>info_not_before := nbf (payload u), info_expires_at := exp (payload u)\<rparr>"

text \<open>The inner loop of the merge: the first remaining capability that enables \<open>ci\<close> takes over
  its originators.\<close>

fun absorb ::
    "('s, 'a::linorder) semantics \<Rightarrow> ('s, 'a) capability_info \<Rightarrow> ('s, 'a) capability_info list \<Rightarrow>
     ('s, 'a) capability_info list option" where
  "absorb S ci [] = None"
| "absorb S ci (r # rs) =
     (if enables S (info_capability r) (info_capability ci)
      then Some (r\<lparr>originators := originators r \<union> originators ci\<rparr> # rs)
      else map_option ((#) r) (absorb S ci rs))"

lemma length_absorb: "absorb S ci rs = Some rs' \<Longrightarrow> length rs' = length rs"
  by (induction rs arbitrary: rs') (auto split: if_splits)

function merge ::
    "('s, 'a::linorder) semantics \<Rightarrow> ('s, 'a) capability_info list \<Rightarrow> ('s, 'a) capability_info list \<Rightarrow>
     ('s, 'a) capability_info list" where
  "merge S infos merged =
     (if infos = [] then merged
      else (case absorb S (last infos) (butlast infos) of
              Some rest \<Rightarrow> merge S rest merged
            | None \<Rightarrow> merge S (butlast infos) (merged @ [last infos])))"
  by pat_completeness auto
termination
  by (relation "measure (\<lambda>(_, infos, _). length infos)") (auto dest!: length_absorb)

declare merge.simps [simp del]

fun reduce_capabilities ::
    "(string \<Rightarrow> url option) \<Rightarrow> ('s, 'a::linorder) semantics \<Rightarrow> proof_chain \<Rightarrow> ('s, 'a) capability_info list result" where
  "reduce_capabilities url S (ProofChain u ps rd) =
     rbind (rtraverse (reduce_capabilities url S) ps) (\<lambda>reduced.
       let ancestral = concat (map snd (filter (\<lambda>(i, _). i \<notin> set rd) (enumerate 0 reduced))) in
       rbind (rtraverse (\<lambda>i. if i < length reduced then Inr (map (attenuate u) (reduced ! i))
                             else Inl (Panic ''called `Option::unwrap()` on a `None` value'')) rd) (\<lambda>redelegated.
         Inr (merge S (map (self_info S u (length ps) ancestral) (self_capabilities url S u) @ concat redelegated) [])))"

section \<open>Which chains are resolved\<close>

text \<open>
  \<open>chain_ok\<close>: every token of the tree is valid, its proofs are the tokens its proof CIDs name
  in the store, and each link connects an audience to an issuer within its lifetime.
\<close>

definition names_token :: "world \<Rightarrow> blocks \<Rightarrow> string \<Rightarrow> ucan \<Rightarrow> bool" where
  "names_token W s cs u \<longleftrightarrow>
     (\<exists>c token. cid_from_string (texts W) cs = Some c \<and> require_token W c s = Inr token \<and> ucan_from_str W token = Inr u)"

fun chain_ok :: "world \<Rightarrow> u64 \<Rightarrow> u64 option \<Rightarrow> blocks \<Rightarrow> proof_chain \<Rightarrow> bool" where
  "chain_ok W now t s (ProofChain u ps rd) =
     (validate W now t u = Inr () \<and>
      list_all2 (names_token W s) (proof_strings u) (map chain_ucan ps) \<and>
      list_all (\<lambda>p. chain_ok W now t s p \<and> validate_link_to p u = Inr ()) ps \<and>
      redelegations_of W (length ps) u = Inr rd)"

fun chain_levels :: "proof_chain \<Rightarrow> nat" where
  "chain_levels (ProofChain u ps rd) = Suc (foldr max (map chain_levels ps) 0)"

lemma foldr_max_le: "foldr max xs (0::nat) \<le> n \<longleftrightarrow> (\<forall>x \<in> set xs. x \<le> n)"
  by (induction xs) auto

lemma names_token_fun: "names_token W s cs u \<Longrightarrow> names_token W s cs u' \<Longrightarrow> u = u'"
  by (auto simp: names_token_def)

text \<open>Resolving succeeds exactly on the tokens that have such a chain, and returns it.\<close>

lemma from_ucan_iff:
  "from_ucan f W now t s u = Inr chain \<longleftrightarrow>
   chain_ucan chain = u \<and> chain_ok W now t s chain \<and> chain_levels chain \<le> f"
proof (induction f arbitrary: u chain)
  case 0
  then show ?case by (cases chain) auto
next
  case (Suc f)
  obtain u' ps rd where ch: "chain = ProofChain u' ps rd" by (cases chain)
  define step where "step cid_string = rbind (of_option (Anyhow ''Cid'') (cid_from_string (texts W) cid_string)) (\<lambda>c.
    rbind (require_token W c s) (\<lambda>token. rbind (ucan_from_str W token) (\<lambda>p.
      rbind (from_ucan f W now t s p) (\<lambda>chain. rbind (validate_link_to chain u) (\<lambda>_. Inr chain)))))" for cid_string
  have "step cs = Inr p \<longleftrightarrow> names_token W s cs (chain_ucan p) \<and> chain_ok W now t s p \<and>
      validate_link_to p u = Inr () \<and> chain_levels p \<le> f" for cs p
    unfolding step_def names_token_def by (auto simp: Suc.IH)
  then have "rtraverse step (proof_strings u) = Inr ps \<longleftrightarrow>
      list_all2 (names_token W s) (proof_strings u) (map chain_ucan ps) \<and>
      list_all (\<lambda>p. chain_ok W now t s p \<and> validate_link_to p u = Inr ()) ps \<and> (\<forall>p \<in> set ps. chain_levels p \<le> f)"
    by (auto simp: rtraverse_eq_Inr list_all2_conv_all_nth list_all_length all_set_conv_all_nth)
  then show ?case
    unfolding from_ucan.simps(2) step_def [symmetric] ch
    by (auto simp: foldr_max_le)
qed

text \<open>Every token of a resolved chain was valid, and outlives the tokens that rely on it.\<close>

fun chain_tokens :: "proof_chain \<Rightarrow> ucan set" where
  "chain_tokens (ProofChain u ps rd) = insert u (\<Union> (set (map chain_tokens ps)))"

lemma chain_ok_tokens:
  "chain_ok W now t s chain \<Longrightarrow> a \<in> chain_tokens chain \<Longrightarrow>
   validate W now t a = Inr () \<and> lifetime_encompasses a (chain_ucan chain)"
proof (induction chain arbitrary: a)
  case (ProofChain u ps rd)
  show ?case
  proof (cases "a = u")
    case True
    with ProofChain.prems show ?thesis by (simp add: encompasses_refl)
  next
    case False
    then obtain p where p: "p \<in> set ps" "a \<in> chain_tokens p" using ProofChain.prems(2) by auto
    have ok: "chain_ok W now t s p" "validate_link_to p u = Inr ()"
      using ProofChain.prems(1) p(1) by (auto simp: list_all_iff)
    then have "lifetime_encompasses (chain_ucan p) u" by (auto simp: validate_link_to_def split: if_splits)
    with ProofChain.IH [OF p(1) ok(1) p(2)] show ?thesis by (auto intro: encompasses_trans)
  qed
qed

section \<open>Reduction always returns\<close>

lemma set_fold_insort_insert: "set (fold insort_insert xs rd) = set xs \<union> set rd" for xs :: "nat list"
  by (induction xs arbitrary: rd) (auto simp: set_insort_insert)

lemma redelegate_bound:
  "redelegate n vs rd = Inr rd' \<Longrightarrow> \<forall>i \<in> set rd. i < n \<Longrightarrow> \<forall>i \<in> set rd'. i < n"
proof (induction vs arbitrary: rd)
  case (Cons v vs)
  consider "view_resource v = Resource (Scoped All)"
    | i where "view_resource v = Resource (Scoped (Index i))"
    | "redelegate n (v # vs) rd = redelegate n vs rd"
  proof (cases "view_resource v")
    case (Resource u)
    then show thesis
    proof (cases u)
      case (Scoped sel)
      with Resource that(1,2) show ?thesis by (cases sel) auto
    next
      case Unscoped
      with Resource show ?thesis by (intro that(3)) simp
    qed
  next
    case (My u)
    then show ?thesis by (intro that(3)) simp
  next
    case (As d u)
    then show ?thesis by (intro that(3)) simp
  qed
  then show ?case
  proof cases
    case 1
    then show ?thesis
      using Cons.prems by (intro Cons.IH [of "fold insort_insert [0..<n] rd"]) (auto simp: set_fold_insort_insert)
  next
    case (2 i)
    then show ?thesis
      using Cons.prems by (intro Cons.IH [of "insort_insert i rd"]) (auto simp: set_insort_insert split: if_splits)
  next
    case 3
    with Cons.prems show ?thesis by (intro Cons.IH [of rd]) auto
  qed
qed simp

lemma reduce_returns:
  "chain_ok W now t s chain \<Longrightarrow> \<exists>infos. reduce_capabilities url S chain = Inr infos"
proof (induction chain)
  case (ProofChain u ps rd)
  have "\<exists>infos. reduce_capabilities url S p = Inr infos" if "p \<in> set ps" for p
    using ProofChain that by (auto simp: list_all_iff)
  then obtain f where "\<And>p. p \<in> set ps \<Longrightarrow> reduce_capabilities url S p = Inr (f p)" by metis
  then have r: "rtraverse (reduce_capabilities url S) ps = Inr (map f ps)"
    by (auto simp: rtraverse_eq_Inr list_all2_conv_all_nth)
  have "\<forall>i \<in> set rd. i < length ps"
    by (rule redelegate_bound) (use ProofChain.prems in \<open>auto simp: redelegations_of_def\<close>)
  then have "rtraverse (\<lambda>i. if i < length (map f ps) then Inr (map (attenuate u) (map f ps ! i))
      else Inl (Panic ''called `Option::unwrap()` on a `None` value'')) rd =
      Inr (map (\<lambda>i. map (attenuate u) (map f ps ! i)) rd)"
    by (auto simp: rtraverse_eq_Inr list_all2_conv_all_nth)
  with r show ?case by (simp add: Let_def)
qed

section \<open>Merging\<close>

lemma absorb_split:
  assumes "absorb S ci rs = Some rs'"
  obtains xs r ys where "rs = xs @ r # ys" "rs' = xs @ r\<lparr>originators := originators r \<union> originators ci\<rparr> # ys"
    "enables S (info_capability r) (info_capability ci)"
  using assms
proof (induction rs arbitrary: rs' thesis)
  case (Cons r rs)
  show ?case
  proof (cases "enables S (info_capability r) (info_capability ci)")
    case True
    with Cons.prems show ?thesis by (auto intro: Cons.prems(1) [of "[]"])
  next
    case False
    then obtain rs'' where r: "absorb S ci rs = Some rs''" "rs' = r # rs''" using Cons.prems(2) by auto
    obtain xs q ys where "rs = xs @ q # ys" "rs'' = xs @ q\<lparr>originators := originators q \<union> originators ci\<rparr> # ys"
        "enables S (info_capability q) (info_capability ci)"
      by (rule Cons.IH [OF _ r(1)])
    then show ?thesis using r(2) by (intro Cons.prems(1) [of "r # xs" q ys]) auto
  qed
qed simp

lemma merge_simps [simp]:
  "merge S [] merged = merged"
  "merge S (rest @ [ci]) merged =
     (case absorb S ci rest of Some rest' \<Rightarrow> merge S rest' merged | None \<Rightarrow> merge S rest (merged @ [ci]))"
  by (simp_all add: merge.simps [of S "rest @ [ci]"] merge.simps [of S "[]"] split: option.split)

text \<open>
  A property of (originator, capability) pairs that absorption keeps holds of all merged
  capabilities. \<open>keeps infos\<close> is what must be known of the list for absorption to keep it.
\<close>

lemma merge_invariant:
  assumes "\<And>xs r ys ci o'. keeps (xs @ r # ys @ [ci]) \<Longrightarrow> enables S (info_capability r) (info_capability ci) \<Longrightarrow>
      Q o' (info_capability ci) \<Longrightarrow> Q o' (info_capability r)"
    and "\<And>xs r ys ci os. keeps (xs @ r # ys @ [ci]) \<Longrightarrow> keeps (xs @ r\<lparr>originators := os\<rparr> # ys)"
    and "\<And>xs ci. keeps (xs @ [ci]) \<Longrightarrow> keeps xs"
    and "keeps infos"
    and "\<And>i o'. i \<in> set infos \<union> set merged \<Longrightarrow> o' \<in> originators i \<Longrightarrow> Q o' (info_capability i)"
  shows "\<forall>i \<in> set (merge S infos merged). \<forall>o' \<in> originators i. Q o' (info_capability i)"
  using assms(4,5)
proof (induction "length infos" arbitrary: infos merged rule: less_induct)
  case less
  show ?case
  proof (cases "infos = []")
    case True
    with less.prems(2) show ?thesis by simp
  next
    case False
    then obtain rest ci where infos: "infos = rest @ [ci]" by (metis append_butlast_last_id)
    show ?thesis
    proof (cases "absorb S ci rest")
      case None
      have "\<forall>i \<in> set (merge S rest (merged @ [ci])). \<forall>o' \<in> originators i. Q o' (info_capability i)"
        by (rule less.hyps) (use less.prems assms(3) infos in auto)
      with None show ?thesis by (simp add: infos)
    next
      case (Some rest')
      then obtain xs r ys where sp: "rest = xs @ r # ys"
          "rest' = xs @ r\<lparr>originators := originators r \<union> originators ci\<rparr> # ys"
          "enables S (info_capability r) (info_capability ci)"
        by (rule absorb_split)
      have kp: "keeps (xs @ r # ys @ [ci])" using less.prems(1) infos sp(1) by simp
      have "Q o' (info_capability r)" if "o' \<in> originators r \<union> originators ci" for o'
        using that less.prems(2) [of r o'] less.prems(2) [of ci o'] assms(1) [OF kp sp(3)] infos sp(1) by auto
      then have "\<forall>i \<in> set (merge S rest' merged). \<forall>o' \<in> originators i. Q o' (info_capability i)"
        by (intro less.hyps) (use less.prems assms(2) [OF kp] infos sp in auto)
      with Some show ?thesis by (simp add: infos)
    qed
  qed
qed

text \<open>No capability and no originator gets lost: each one is found in a merged capability.\<close>

definition covers ::
    "('s, 'a::linorder) semantics \<Rightarrow> ('s, 'a) capability_info \<Rightarrow> ('s, 'a) capability_info \<Rightarrow> bool" where
  "covers S i j \<longleftrightarrow> originators j \<subseteq> originators i \<and>
     (info_capability i = info_capability j \<or> enables S (info_capability i) (info_capability j))"

context scope_order
begin

lemma covers_trans: "covers S i j \<Longrightarrow> covers S j k \<Longrightarrow> covers S i k"
  by (auto simp: covers_def intro: enables_trans)

lemma merge_covers:
  "j \<in> set infos \<union> set merged \<Longrightarrow> \<exists>i \<in> set (merge S infos merged). covers S i j"
proof (induction "length infos" arbitrary: infos merged j rule: less_induct)
  case less
  show ?case
  proof (cases "infos = []")
    case True
    with less.prems show ?thesis by (auto simp: covers_def)
  next
    case False
    then obtain rest ci where infos: "infos = rest @ [ci]" by (metis append_butlast_last_id)
    show ?thesis
    proof (cases "absorb S ci rest")
      case None
      have "\<exists>i \<in> set (merge S rest (merged @ [ci])). covers S i j"
        by (rule less.hyps) (use less.prems infos in auto)
      with None show ?thesis by (simp add: infos)
    next
      case (Some rest')
      then obtain xs r ys where sp: "rest = xs @ r # ys"
          "rest' = xs @ r\<lparr>originators := originators r \<union> originators ci\<rparr> # ys"
          "enables S (info_capability r) (info_capability ci)"
        by (rule absorb_split)
      obtain j' where j': "j' \<in> set rest' \<union> set merged" "covers S j' j"
        using less.prems infos sp by (auto simp: covers_def) (metis capability_info.select_convs
            capability_info.surjective capability_info.update_convs(1) order_refl sup_ge1 sup_ge2)+
      have "\<exists>i \<in> set (merge S rest' merged). covers S i j'"
        by (rule less.hyps) (use j' infos sp in auto)
      with Some j'(2) show ?thesis by (auto simp: infos intro: covers_trans)
    qed
  qed
qed

end

section \<open>Where authority comes from\<close>

text \<open>
  \<open>grounded url S chain d c\<close>: identity \<open>d\<close> itself claimed a capability in a token of the
  chain, and each token on the way claims one that the previous one enables or redelegates it
  as it is.
\<close>

inductive grounded ::
    "(string \<Rightarrow> url option) \<Rightarrow> ('s, 'a::linorder) semantics \<Rightarrow> proof_chain \<Rightarrow> did \<Rightarrow> ('s, 'a) capability_view \<Rightarrow> bool"
  for url S where
  claim: "c \<in> set (self_capabilities url S u) \<Longrightarrow> grounded url S (ProofChain u ps rd) (iss (payload u)) c"
| inherit: "c \<in> set (self_capabilities url S u) \<Longrightarrow> i < length ps \<Longrightarrow> i \<notin> set rd \<Longrightarrow>
    grounded url S (ps ! i) d c' \<Longrightarrow> enables S c' c \<Longrightarrow> grounded url S (ProofChain u ps rd) d c"
| redelegated: "i < length ps \<Longrightarrow> i \<in> set rd \<Longrightarrow> grounded url S (ps ! i) d c \<Longrightarrow>
    grounded url S (ProofChain u ps rd) d c"

text \<open>
  The order in which the merge goes through the capabilities of a token is harmless if none
  of them is strictly stronger than a later one.
\<close>

definition tame :: "('s, 'a::linorder) semantics \<Rightarrow> ('s, 'a) capability_view list \<Rightarrow> bool" where
  "tame S cs \<longleftrightarrow> sorted_wrt (\<lambda>a b. enables S a b \<longrightarrow> enables S b a) cs"

definition node_infos ::
    "(string \<Rightarrow> url option) \<Rightarrow> ('s, 'a::linorder) semantics \<Rightarrow> ucan \<Rightarrow> nat list \<Rightarrow> ('s, 'a) capability_info list list \<Rightarrow>
     ('s, 'a) capability_info list" where
  "node_infos url S u rd reduced =
     map (self_info S u (length reduced) (concat (map snd (filter (\<lambda>(i, _). i \<notin> set rd) (enumerate 0 reduced)))))
       (self_capabilities url S u) @
     concat (map (\<lambda>i. map (attenuate u) (reduced ! i)) rd)"

fun tame_chain :: "(string \<Rightarrow> url option) \<Rightarrow> ('s, 'a::linorder) semantics \<Rightarrow> proof_chain \<Rightarrow> bool" where
  "tame_chain url S (ProofChain u ps rd) =
     (list_all (tame_chain url S) ps \<and>
      (case rtraverse (reduce_capabilities url S) ps of
         Inr reduced \<Rightarrow> tame S (map info_capability (node_infos url S u rd reduced))
       | Inl _ \<Rightarrow> True))"

lemma reduce_node:
  assumes "reduce_capabilities url S (ProofChain u ps rd) = Inr infos"
  obtains reduced where "list_all2 (\<lambda>p r. reduce_capabilities url S p = Inr r) ps reduced"
    "\<forall>i \<in> set rd. i < length ps" "infos = merge S (node_infos url S u rd reduced) []"
proof -
  obtain reduced redelegated where r: "rtraverse (reduce_capabilities url S) ps = Inr reduced"
    and rd: "rtraverse (\<lambda>i. if i < length reduced then Inr (map (attenuate u) (reduced ! i))
      else Inl (Panic ''called `Option::unwrap()` on a `None` value'')) rd = Inr redelegated"
    and infos: "infos = merge S (map (self_info S u (length ps)
      (concat (map snd (filter (\<lambda>(i, _). i \<notin> set rd) (enumerate 0 reduced))))) (self_capabilities url S u) @ concat redelegated) []"
    using assms by (auto simp: Let_def)
  have l: "list_all2 (\<lambda>p r. reduce_capabilities url S p = Inr r) ps reduced"
    using r by (simp add: rtraverse_eq_Inr)
  then have n: "length reduced = length ps" by (auto dest: list_all2_lengthD)
  have "\<forall>i \<in> set rd. i < length ps" "redelegated = map (\<lambda>i. map (attenuate u) (reduced ! i)) rd"
    using rd n by (auto simp: rtraverse_eq_Inr list_all2_conv_all_nth in_set_conv_nth list_eq_iff_nth_eq split: if_splits)
  with l n infos show thesis by (intro that) (auto simp: node_infos_def)
qed

lemma claim_originatorsD:
  "d \<in> claim_originators S u ancestral c \<Longrightarrow>
   d = iss (payload u) \<or> (\<exists>a \<in> set ancestral. enables S (info_capability a) c \<and> d \<in> originators a)"
  by (auto simp: claim_originators_def Let_def split: if_splits)

lemma node_infoD:
  assumes "j \<in> set (node_infos url S u rd reduced)" "d \<in> originators j"
  obtains (own) "info_capability j \<in> set (self_capabilities url S u)" "d = iss (payload u)"
  | (inherited) k a where "info_capability j \<in> set (self_capabilities url S u)" "k < length reduced" "k \<notin> set rd"
      "a \<in> set (reduced ! k)" "d \<in> originators a" "enables S (info_capability a) (info_capability j)"
  | (passed) k a where "k \<in> set rd" "a \<in> set (reduced ! k)" "d \<in> originators a"
      "info_capability a = info_capability j"
proof -
  let ?anc = "concat (map snd (filter (\<lambda>(i, _). i \<notin> set rd) (enumerate 0 reduced)))"
  from assms(1) consider c where "c \<in> set (self_capabilities url S u)" "j = self_info S u (length reduced) ?anc c"
    | k a where "k \<in> set rd" "a \<in> set (reduced ! k)" "j = attenuate u a"
    by (auto simp: node_infos_def)
  then show thesis
  proof cases
    case 1
    then have "info_capability j = c" by (simp add: self_info_def)
    have "d = iss (payload u) \<or> (\<exists>a \<in> set ?anc. enables S (info_capability a) c \<and> d \<in> originators a)"
      using assms(2) 1(2) claim_originatorsD [of d S u ?anc c] by (simp add: self_info_def split: if_splits)
    then show thesis
    proof
      assume "d = iss (payload u)"
      with 1 \<open>info_capability j = c\<close> show thesis by (intro own) auto
    next
      assume "\<exists>a \<in> set ?anc. enables S (info_capability a) c \<and> d \<in> originators a"
      then obtain k a where "k < length reduced" "k \<notin> set rd" "a \<in> set (reduced ! k)"
          "enables S (info_capability a) c" "d \<in> originators a"
        by (auto simp: in_set_enumerate_eq)
      with 1 \<open>info_capability j = c\<close> show thesis by (intro inherited [of k a]) auto
    qed
  next
    case 2
    with assms(2) show thesis by (intro passed [of k a]) (auto simp: attenuate_def)
  qed
qed

text \<open>Originators are always issuers of tokens in the chain.\<close>

lemma reduce_issuers:
  "reduce_capabilities url S chain = Inr infos \<Longrightarrow>
   \<forall>i \<in> set infos. originators i \<subseteq> (\<lambda>u. iss (payload u)) ` chain_tokens chain"
proof (induction chain arbitrary: infos)
  case (ProofChain u ps rd)
  obtain reduced where r: "list_all2 (\<lambda>p r. reduce_capabilities url S p = Inr r) ps reduced"
      "\<forall>i \<in> set rd. i < length ps" "infos = merge S (node_infos url S u rd reduced) []"
    by (rule reduce_node [OF ProofChain.prems])
  let ?I = "(\<lambda>u. iss (payload u)) ` chain_tokens (ProofChain u ps rd)"
  have sub: "d \<in> ?I" if K: "k < length ps" "a \<in> set (reduced ! k)" "d \<in> originators a" for d k a
  proof -
    have "originators a \<subseteq> (\<lambda>u. iss (payload u)) ` chain_tokens (ps ! k)"
      using ProofChain.IH [of "ps ! k" "reduced ! k"] K r(1) by (auto simp: list_all2_conv_all_nth)
    then obtain v where "v \<in> chain_tokens (ps ! k)" "d = iss (payload v)" using K(3) by blast
    moreover have "chain_tokens (ps ! k) \<subseteq> chain_tokens (ProofChain u ps rd)"
      using nth_mem [OF K(1)] by auto
    ultimately show ?thesis by blast
  qed
  have n: "length reduced = length ps" using r(1) by (auto dest: list_all2_lengthD)
  have "d \<in> ?I" if "j \<in> set (node_infos url S u rd reduced)" "d \<in> originators j" for j d
    using that
  proof (cases rule: node_infoD)
    case (inherited k a)
    with n show ?thesis by (intro sub [of k a]) auto
  next
    case (passed k a)
    with r(2) show ?thesis by (intro sub [of k a]) auto
  qed simp
  then have "\<forall>i \<in> set (merge S (node_infos url S u rd reduced) []). \<forall>o' \<in> originators i. o' \<in> ?I"
    by (intro merge_invariant [where keeps = "\<lambda>_. True" and Q = "\<lambda>d _. d \<in> ?I"]) auto
  with r(3) show ?case by auto
qed

text \<open>Every originator of a capability in a tame chain is grounded.\<close>

context scope_order
begin

lemma reduce_grounded:
  "reduce_capabilities url S chain = Inr infos \<Longrightarrow> tame_chain url S chain \<Longrightarrow>
   \<forall>i \<in> set infos. \<forall>d \<in> originators i.
     \<exists>c. grounded url S chain d c \<and> (c = info_capability i \<or> enables S c (info_capability i))"
proof (induction chain arbitrary: infos)
  case (ProofChain u ps rd)
  obtain reduced where r: "list_all2 (\<lambda>p r. reduce_capabilities url S p = Inr r) ps reduced"
      "\<forall>i \<in> set rd. i < length ps" "infos = merge S (node_infos url S u rd reduced) []"
    by (rule reduce_node [OF ProofChain.prems(1)])
  let ?Q = "\<lambda>d v. \<exists>c. grounded url S (ProofChain u ps rd) d c \<and> (c = v \<or> enables S c v)"
  have n: "length reduced = length ps" using r(1) by (auto dest: list_all2_lengthD)
  have IH: "\<exists>c. grounded url S (ps ! k) d c \<and> (c = info_capability a \<or> enables S c (info_capability a))"
    if "k < length ps" "a \<in> set (reduced ! k)" "d \<in> originators a" for d k a
    using ProofChain.IH [of "ps ! k" "reduced ! k"] ProofChain.prems(2) that r(1)
    by (auto simp: list_all2_conv_all_nth list_all_length)
  have start: "?Q d (info_capability j)" if j: "j \<in> set (node_infos url S u rd reduced)" "d \<in> originators j" for j d
    using j
  proof (cases rule: node_infoD)
    case own
    then show ?thesis by (auto intro: grounded.claim)
  next
    case (inherited k a)
    then obtain c where c: "grounded url S (ps ! k) d c" "c = info_capability a \<or> enables S c (info_capability a)"
      using IH [of k a d] n by auto
    then have "enables S c (info_capability j)" using inherited(6) enables_trans by blast
    with inherited c(1) n have "grounded url S (ProofChain u ps rd) d (info_capability j)"
      by (intro grounded.inherit [where i = k and c' = c]) auto
    then show ?thesis by blast
  next
    case (passed k a)
    then obtain c where c: "grounded url S (ps ! k) d c" "c = info_capability a \<or> enables S c (info_capability a)"
      using IH [of k a d] r(2) by auto
    then have "grounded url S (ProofChain u ps rd) d c"
      using passed(1) r(2) by (intro grounded.redelegated [where i = k]) auto
    with c(2) passed(4) show ?thesis by auto
  qed
  have "rtraverse (reduce_capabilities url S) ps = Inr reduced" using r(1) by (simp add: rtraverse_eq_Inr)
  then have t: "tame S (map info_capability (node_infos url S u rd reduced))" using ProofChain.prems(2) by simp
  have "\<forall>i \<in> set (merge S (node_infos url S u rd reduced) []). \<forall>o' \<in> originators i. ?Q o' (info_capability i)"
  proof (rule merge_invariant [where keeps = "\<lambda>is. tame S (map info_capability is)" and Q = ?Q])
    fix xs r' ys ci d
    assume "tame S (map info_capability (xs @ r' # ys @ [ci]))" "enables S (info_capability r') (info_capability ci)"
      "?Q d (info_capability ci)"
    then have "enables S (info_capability ci) (info_capability r')" "?Q d (info_capability ci)"
      by (simp_all add: tame_def sorted_wrt_append)
    then show "?Q d (info_capability r')" using enables_trans by blast
  next
    show "tame S (map info_capability (node_infos url S u rd reduced))" by (rule t)
  next
    fix i d assume "i \<in> set (node_infos url S u rd reduced) \<union> set []" "d \<in> originators i"
    then show "?Q d (info_capability i)" using start [of i d] by simp
  qed (simp_all add: tame_def sorted_wrt_append)
  with r(3) show ?case by blast
qed

end

end
