(* ===== verification/Authorization.thy ===== *)
theory Authorization
  imports Proof_Chain
begin

text \<open>
  Authorizations, revocations and link records
  (\<^verbatim>\<open>noosphere-core/src/authority/authorization.rs\<close>, \<^verbatim>\<open>authority/walk.rs\<close>,
  \<^verbatim>\<open>data/authority.rs\<close>, \<^verbatim>\<open>data/address.rs\<close>).
\<close>

section \<open>Authorizations\<close>

datatype authorization = AuthUcan ucan | AuthCid cid

fun as_ucan :: "world \<Rightarrow> blocks \<Rightarrow> authorization \<Rightarrow> ucan result" where
  "as_ucan W s (AuthUcan u) = Inr u"
| "as_ucan W s (AuthCid c) = rbind (require_token W c s) (ucan_from_str W)"

fun as_proof_chain :: "nat \<Rightarrow> world \<Rightarrow> u64 \<Rightarrow> blocks \<Rightarrow> authorization \<Rightarrow> proof_chain result" where
  "as_proof_chain f W now s (AuthUcan u) = from_ucan f W now None s u"
| "as_proof_chain f W now s (AuthCid c) = from_cid f W now None s c"

text \<open>\<open>str::trim\<close>: the code points of the Unicode property \<open>White_Space\<close>, in UTF-8.\<close>

definition whitespace :: "string list" where
  "whitespace = map bytes_str
     ([[9], [10], [11], [12], [13], [32], [194, 133], [194, 160], [225, 154, 128]] @
      map (\<lambda>b. [226, 128, b]) [128, 129, 130, 131, 132, 133, 134, 135, 136, 137, 138, 168, 169, 175] @
      [[226, 129, 159], [227, 128, 128]])"

function trim_start :: "string list \<Rightarrow> string \<Rightarrow> string" where
  "trim_start ws s =
     (case find (\<lambda>w. w \<noteq> [] \<and> take (length w) s = w) ws of
        None \<Rightarrow> s
      | Some w \<Rightarrow> trim_start ws (drop (length w) s))"
  by pat_completeness auto
termination
proof (relation "measure (\<lambda>(_, s). length s)")
  fix ws :: "string list" and s w
  assume "find (\<lambda>w. w \<noteq> [] \<and> take (length w) s = w) ws = Some w"
  then have "w \<noteq> []" "take (length w) s = w" by (auto simp: find_Some_iff)
  then show "((ws, drop (length w) s), ws, s) \<in> measure (\<lambda>(_, s). length s)" by (cases s) auto
qed simp

declare trim_start.simps [simp del]

definition trim :: "string \<Rightarrow> string" where
  "trim s = rev (trim_start (map rev whitespace) (rev (trim_start whitespace s)))"

definition authorization_from_str :: "world \<Rightarrow> string \<Rightarrow> authorization result" where
  "authorization_from_str W s =
     (case split_on CHR '':'' (trim s) of
        [] \<Rightarrow> Inl (Anyhow ''Authorization had empty value'')
      | first # rest \<Rightarrow>
          if first = ''jwt'' then
            (case rest of
               [] \<Rightarrow> Inl (Anyhow ''Missing token'')
             | t # _ \<Rightarrow> rbind (ucan_from_str W t) (\<lambda>u. Inr (AuthUcan u)))
          else if first = ''cid'' then
            (case rest of
               [] \<Rightarrow> Inl (Anyhow ''Missing CID string'')
             | t # _ \<Rightarrow> rbind (of_option (Anyhow ''Cid'') (cid_from_string (texts W) t)) (\<lambda>c. Inr (AuthCid c)))
          else rbind (of_option (Anyhow ''Cid'') (cid_from_string (texts W) first)) (\<lambda>c. Inr (AuthCid c)))"

fun authorization_cid :: "world \<Rightarrow> authorization \<Rightarrow> cid result" where
  "authorization_cid W (AuthUcan u) =
     rbind (ucan_encode W u) (\<lambda>jwt.
       rbind (block_encode (codecs W) RawCodec (IBytes (str_bytes jwt))) (\<lambda>(c, _). Inr c))"
| "authorization_cid W (AuthCid c) = Inr c"

record author =
  author_key :: key_material
  author_authorization :: "authorization option"

definition require_authorization :: "author \<Rightarrow> authorization result" where
  "require_authorization a =
     of_option (Anyhow ''Authorization is required but none is configured'') (author_authorization a)"

text \<open>\<open>is_authorizer_of\<close> walks the chain with a stack; the fuel counts its tokens.\<close>

fun issuer_search :: "nat \<Rightarrow> did \<Rightarrow> proof_chain list \<Rightarrow> bool result" where
  "issuer_search 0 d links = Inl OutOfFuel"
| "issuer_search (Suc f) d links =
     (if links = [] then Inr False
      else (case last links of ProofChain u ps rd \<Rightarrow>
              if iss (payload u) = d then Inr True
              else issuer_search f d (butlast links @ ps)))"

definition is_authorizer_of ::
    "nat \<Rightarrow> nat \<Rightarrow> world \<Rightarrow> u64 \<Rightarrow> blocks \<Rightarrow> author \<Rightarrow> authorization \<Rightarrow> bool result" where
  "is_authorizer_of f g W now s a z =
     rbind (as_proof_chain f W now s z) (\<lambda>chain.
       rbind (km_did (author_key a)) (\<lambda>d. issuer_search g d [chain]))"

section \<open>Delegations and revocations\<close>

definition delegation_register :: "world \<Rightarrow> string \<Rightarrow> string \<Rightarrow> blocks \<Rightarrow> delegation_ipld result \<times> blocks" where
  "delegation_register W name jwt s =
     sbind (write_token W jwt s) (\<lambda>c s. (Inr \<lparr>dg_name = name, dg_jwt = c\<rparr>, s))"

definition delegation_resolve :: "world \<Rightarrow> delegation_ipld \<Rightarrow> blocks \<Rightarrow> ucan result" where
  "delegation_resolve W d s = rbind (require_token W (dg_jwt d) s) (ucan_from_str W)"

definition make_challenge_payload :: "world \<Rightarrow> cid \<Rightarrow> bytes" where
  "make_challenge_payload W c = str_bytes (''REVOKE:'' @ cid_to_string (texts W) c)"

definition revocation_revoke :: "world \<Rightarrow> cid \<Rightarrow> key_material \<Rightarrow> revocation_ipld result" where
  "revocation_revoke W c key =
     rbind (km_did key) (\<lambda>d.
       rbind (km_sign key (make_challenge_payload W c)) (\<lambda>sig.
         Inr \<lparr>revocation_ipld.iss = d, revoke = cid_to_string (texts W) c,
              challenge = base64_encode (texts W) sig\<rparr>))"

definition revocation_verify :: "world \<Rightarrow> key_material \<Rightarrow> revocation_ipld \<Rightarrow> unit result" where
  "revocation_verify W key r =
     rbind (of_option (Anyhow ''Cid'') (cid_from_string (texts W) (revoke r))) (\<lambda>c.
       rbind (of_option (Anyhow ''base64'') (base64_decode (texts W) (challenge r))) (\<lambda>sig.
         km_verify key (make_challenge_payload W c) sig))"

section \<open>Link records\<close>

type_synonym link_record = ucan

definition LINK_RECORD_FACT_NAME :: string where
  "LINK_RECORD_FACT_NAME = ''link''"

definition to_sphere_identity :: "link_record \<Rightarrow> did" where
  "to_sphere_identity r = aud (payload r)"

definition get_link :: "world \<Rightarrow> link_record \<Rightarrow> cid option" where
  "get_link W r =
     (case fct (payload r) of
        None \<Rightarrow> None
      | Some facts \<Rightarrow>
          (case find (\<lambda>(name, _). name = LINK_RECORD_FACT_NAME) facts of
             Some (_, JString link) \<Rightarrow> cid_from_string (texts W) link
           | _ \<Rightarrow> None))"

text \<open>The time at which a proof is checked; \<open>exp - 1\<close> wraps around at 0.\<close>

definition publishing_time :: "ucan \<Rightarrow> u64 option" where
  "publishing_time u =
     (case nbf (payload u) of Some n \<Rightarrow> Some n | None \<Rightarrow> map_option (\<lambda>e. e - 1) (exp (payload u)))"

text \<open>The check of \<open>validate\<close>, \<open>verify_signature\<close> and others: a granted capability that
  originates with the sphere and enables the desired one.\<close>

definition has_capability ::
    "(sphere_reference, sphere_ability) capability_info list \<Rightarrow> did \<Rightarrow> sphere_capability \<Rightarrow> bool" where
  "has_capability infos sphere desired \<longleftrightarrow>
     (\<exists>info \<in> set infos. sphere \<in> originators info \<and> enables SPHERE_SEMANTICS (info_capability info) desired)"

definition link_record_validate :: "nat \<Rightarrow> world \<Rightarrow> u64 \<Rightarrow> blocks \<Rightarrow> link_record \<Rightarrow> unit result" where
  "link_record_validate f W now s r =
     (if get_link W r = None then Inl (Anyhow ''LinkRecord missing link.'')
      else
        rbind (from_ucan f W now (publishing_time r) s r) (\<lambda>chain.
          rbind (reduce_capabilities (url_parse W) SPHERE_SEMANTICS chain) (\<lambda>infos.
            if \<not> has_capability infos (to_sphere_identity r) (generate_capability (to_sphere_identity r) Publish)
            then Inl (Anyhow ''LinkRecord is not authorized.'')
            else (case check_signature W r of
                    Inr _ \<Rightarrow> Inr ()
                  | Inl (Panic m) \<Rightarrow> Inl (Panic m)
                  | Inl _ \<Rightarrow> Inl (Anyhow ''LinkRecord has invalid signature.'')))))"

definition has_publishable_timeframe :: "u64 \<Rightarrow> link_record \<Rightarrow> bool" where
  "has_publishable_timeframe now r \<longleftrightarrow> \<not> is_expired now None r \<and> \<not> is_too_early now r"

definition superceded_by :: "link_record \<Rightarrow> link_record \<Rightarrow> bool" where
  "superceded_by r other =
     (case (exp (payload r), exp (payload other)) of
        (Some e, Some other_e) \<Rightarrow> other_e > e \<and> to_sphere_identity r = to_sphere_identity other
      | _ \<Rightarrow> False)"

definition link_record_eq :: "world \<Rightarrow> link_record \<Rightarrow> link_record \<Rightarrow> bool" where
  "link_record_eq W a b =
     (case ucan_encode W a of
        Inr x \<Rightarrow> (case ucan_encode W b of Inr y \<Rightarrow> x = y | Inl _ \<Rightarrow> False)
      | Inl _ \<Rightarrow> False)"

text \<open>\<open>IdentityIpld::link_record\<close>: whatever goes wrong on the way is \<open>None\<close>, panics apart.\<close>

definition identity_link_record :: "world \<Rightarrow> blocks \<Rightarrow> identity_ipld \<Rightarrow> link_record option" where
  "identity_link_record W s i =
     (case link_record i of
        None \<Rightarrow> None
      | Some c \<Rightarrow>
          (case read_token W c s of
             Inr (Some jwt) \<Rightarrow> (case ucan_from_str W jwt of Inr u \<Rightarrow> Some u | Inl _ \<Rightarrow> None)
           | _ \<Rightarrow> None))"

text \<open>\<open>collect_ucan_proofs\<close>: a stack of tokens whose proofs are still to be read.\<close>

definition read_proof :: "world \<Rightarrow> blocks \<Rightarrow> string \<Rightarrow> ucan result" where
  "read_proof W s cs =
     rbind (of_option (Anyhow ''Cid'') (cid_from_string (texts W) cs)) (\<lambda>c.
       rbind (require_token W c s) (ucan_from_str W))"

fun collect_ucan_proofs :: "nat \<Rightarrow> world \<Rightarrow> blocks \<Rightarrow> ucan list \<Rightarrow> ucan list result" where
  "collect_ucan_proofs 0 W s remaining = Inl OutOfFuel"
| "collect_ucan_proofs (Suc f) W s remaining =
     (if remaining = [] then Inr []
      else rbind (rtraverse (read_proof W s) (proof_strings (last remaining))) (\<lambda>new.
             rbind (collect_ucan_proofs f W s (butlast remaining @ new)) (\<lambda>rest. Inr (last remaining # rest))))"

section \<open>Walking a chain\<close>

fun chain_size :: "proof_chain \<Rightarrow> nat" where
  "chain_size (ProofChain u ps rd) = Suc (sum_list (map chain_size ps))"

lemma issuer_search_ok:
  "sum_list (map chain_size links) < f \<Longrightarrow>
   issuer_search f d links = Inr (\<exists>l \<in> set links. d \<in> (\<lambda>u. iss (payload u)) ` chain_tokens l)"
proof (induction f arbitrary: links)
  case (Suc f)
  show ?case
  proof (cases links rule: rev_cases)
    case (snoc rest l)
    obtain u ps rd where l: "l = ProofChain u ps rd" by (cases l)
    have "issuer_search f d (rest @ ps) = Inr (\<exists>l \<in> set (rest @ ps). d \<in> (\<lambda>u. iss (payload u)) ` chain_tokens l)"
      by (rule Suc.IH) (use Suc.prems snoc l in simp)
    then show ?thesis by (auto simp: snoc l)
  qed simp
qed simp

lemma read_proof_iff: "read_proof W s cs = Inr u \<longleftrightarrow> names_token W s cs u"
  by (auto simp: read_proof_def names_token_def)

lemma collect_proofs_ok:
  "sum_list (map chain_size links) < f \<Longrightarrow> list_all (chain_ok W now t s) links \<Longrightarrow>
   \<exists>out. collect_ucan_proofs f W s (map chain_ucan links) = Inr out \<and>
     set out = \<Union> (chain_tokens ` set links) \<and> length out = sum_list (map chain_size links)"
proof (induction f arbitrary: links)
  case (Suc f)
  show ?case
  proof (cases links rule: rev_cases)
    case (snoc rest l)
    obtain u ps rd where l: "l = ProofChain u ps rd" by (cases l)
    have ok: "list_all2 (names_token W s) (proof_strings u) (map chain_ucan ps)" "list_all (chain_ok W now t s) ps"
      using Suc.prems(2) snoc l by (auto simp: list_all_iff)
    have "list_all (chain_ok W now t s) (rest @ ps)" "sum_list (map chain_size (rest @ ps)) < f"
      using Suc.prems snoc l ok(2) by auto
    then obtain out where out: "collect_ucan_proofs f W s (map chain_ucan (rest @ ps)) = Inr out"
        "set out = \<Union> (chain_tokens ` set (rest @ ps))" "length out = sum_list (map chain_size (rest @ ps))"
      using Suc.IH [of "rest @ ps"] by blast
    have "rtraverse (read_proof W s) (proof_strings u) = Inr (map chain_ucan ps)"
      using ok(1) by (simp add: rtraverse_eq_Inr read_proof_iff)
    with out show ?thesis by (auto simp: snoc l)
  qed simp
qed simp

section \<open>Revocations\<close>

text \<open>What is relied on: a key accepts its own signatures, and a CID survives its text form.\<close>

definition key_ok :: "key_material \<Rightarrow> bool" where
  "key_ok key \<longleftrightarrow> (\<forall>b sig. km_sign key b = Inr sig \<longrightarrow> km_verify key b sig = Inr ())"

definition cid_text_ok :: "text_env \<Rightarrow> bool" where
  "cid_text_ok T \<longleftrightarrow> (\<forall>c. cid_from_string T (cid_to_string T c) = Some c)"

lemma revoke_verify:
  assumes "base64_ok (texts W)" "cid_text_ok (texts W)" "key_ok key" "revocation_revoke W c key = Inr r"
  shows "revocation_verify W key r = Inr ()" "revoke r = cid_to_string (texts W) c"
    "km_did key = Inr (revocation_ipld.iss r)"
proof -
  have "base64_decode (texts W) (base64_encode (texts W) b) = Some b" for b
    using assms(1) by (simp add: base64_ok_def)
  with assms(2-) show "revocation_verify W key r = Inr ()" "revoke r = cid_to_string (texts W) c"
    "km_did key = Inr (revocation_ipld.iss r)"
    by (auto simp: revocation_revoke_def revocation_verify_def cid_text_ok_def key_ok_def)
qed

section \<open>Link records\<close>

lemma superceded_irrefl: "\<not> superceded_by r r"
  by (auto simp: superceded_by_def split: option.splits)

lemma superceded_trans: "superceded_by a b \<Longrightarrow> superceded_by b c \<Longrightarrow> superceded_by a c"
  by (auto simp: superceded_by_def split: option.splits)

lemma link_record_validateD:
  assumes "link_record_validate f W now s r = Inr ()"
  obtains chain infos info where "chain_ucan chain = r" "chain_ok W now (publishing_time r) s chain"
    "reduce_capabilities (url_parse W) SPHERE_SEMANTICS chain = Inr infos" "info \<in> set infos"
    "to_sphere_identity r \<in> originators info"
    "enables SPHERE_SEMANTICS (info_capability info) (generate_capability (to_sphere_identity r) Publish)"
    "get_link W r \<noteq> None"
proof -
  obtain chain infos where "get_link W r \<noteq> None" "from_ucan f W now (publishing_time r) s r = Inr chain"
      "reduce_capabilities (url_parse W) SPHERE_SEMANTICS chain = Inr infos"
      "has_capability infos (to_sphere_identity r) (generate_capability (to_sphere_identity r) Publish)"
    using assms by (auto simp: link_record_validate_def split: if_splits)
  then show thesis using that by (auto simp: from_ucan_iff has_capability_def)
qed

text \<open>
  A valid link record rests on a token issued by the sphere it speaks for; if no token of its
  chain lists a stronger capability before a weaker one, the sphere granted the publishing.
\<close>

lemma link_record_issued_by_sphere:
  assumes "link_record_validate f W now s r = Inr ()"
  shows "\<exists>chain. chain_ucan chain = r \<and> chain_ok W now (publishing_time r) s chain \<and>
    to_sphere_identity r \<in> (\<lambda>u. iss (payload u)) ` chain_tokens chain"
proof -
  obtain chain infos info where c: "chain_ucan chain = r" "chain_ok W now (publishing_time r) s chain"
      "reduce_capabilities (url_parse W) SPHERE_SEMANTICS chain = Inr infos" "info \<in> set infos"
      "to_sphere_identity r \<in> originators info"
    by (rule link_record_validateD [OF assms])
  then show ?thesis using reduce_issuers by blast
qed

lemma link_record_granted_by_sphere:
  assumes "link_record_validate f W now s r = Inr ()"
    and "\<And>chain. chain_ucan chain = r \<Longrightarrow> chain_ok W now (publishing_time r) s chain \<Longrightarrow>
      tame_chain (url_parse W) SPHERE_SEMANTICS chain"
  shows "\<exists>chain c. chain_ucan chain = r \<and> chain_ok W now (publishing_time r) s chain \<and>
    grounded (url_parse W) SPHERE_SEMANTICS chain (to_sphere_identity r) c \<and>
    enables SPHERE_SEMANTICS c (generate_capability (to_sphere_identity r) Publish)"
proof -
  obtain chain infos info where c: "chain_ucan chain = r" "chain_ok W now (publishing_time r) s chain"
      "reduce_capabilities (url_parse W) SPHERE_SEMANTICS chain = Inr infos" "info \<in> set infos"
      "to_sphere_identity r \<in> originators info"
      "enables SPHERE_SEMANTICS (info_capability info) (generate_capability (to_sphere_identity r) Publish)"
    by (rule link_record_validateD [OF assms(1)])
  obtain c' where "grounded (url_parse W) SPHERE_SEMANTICS chain (to_sphere_identity r) c'"
      "c' = info_capability info \<or> enables SPHERE_SEMANTICS c' (info_capability info)"
    using sphere_scope.reduce_grounded [OF c(3) assms(2) [OF c(1,2)]] c(4,5) by blast
  with c sphere_scope.enables_trans show ?thesis by blast
qed

end
