(* ===== verification/Sphere.thy ===== *)
theory Sphere
  imports Versioned_Map Timeline Authorization
begin

text \<open>
  Spheres (\<^verbatim>\<open>noosphere-core/src/view/sphere.rs\<close>, \<^verbatim>\<open>view/mutation.rs\<close>, \<^verbatim>\<open>view/address.rs\<close>,
  \<^verbatim>\<open>view/authority.rs\<close>, \<^verbatim>\<open>data/sphere.rs\<close>): reading a version, applying a mutation to it,
  deriving the mutation between a version and its parent, hydrating, rebasing and compacting
  history, and generating a new sphere. A view is its CID; the cells that cache its blocks
  cannot be observed.
\<close>

section \<open>The maps of a sphere\<close>

definition content_ctx :: "world \<Rightarrow> (string, cid) hamt_ctx" where
  "content_ctx W =
     \<lparr>hash_key = hash_string W, key_to_ipld = IString, key_from_ipld = string_from_ipld,
      val_to_ipld = ILink, val_from_ipld = cid_from_ipld, henv = codecs W, bit_width = DEFAULT_BIT_WIDTH\<rparr>"

definition identities_ctx :: "world \<Rightarrow> (string, identity_ipld) hamt_ctx" where
  "identities_ctx W =
     \<lparr>hash_key = hash_string W, key_to_ipld = IString, key_from_ipld = string_from_ipld,
      val_to_ipld = identity_to_ipld, val_from_ipld = identity_from_ipld, henv = codecs W,
      bit_width = DEFAULT_BIT_WIDTH\<rparr>"

text \<open>A link is hashed by its multihash alone.\<close>

definition delegations_ctx :: "world \<Rightarrow> (cid, delegation_ipld) hamt_ctx" where
  "delegations_ctx W =
     \<lparr>hash_key = (\<lambda>c. hash_multihash W (digest_of c)), key_to_ipld = ILink, key_from_ipld = cid_from_ipld,
      val_to_ipld = delegation_to_ipld, val_from_ipld = delegation_from_ipld, henv = codecs W,
      bit_width = DEFAULT_BIT_WIDTH\<rparr>"

definition revocations_ctx :: "world \<Rightarrow> (cid, revocation_ipld) hamt_ctx" where
  "revocations_ctx W =
     \<lparr>hash_key = (\<lambda>c. hash_multihash W (digest_of c)), key_to_ipld = ILink, key_from_ipld = cid_from_ipld,
      val_to_ipld = revocation_to_ipld, val_from_ipld = revocation_from_ipld, henv = codecs W,
      bit_width = DEFAULT_BIT_WIDTH\<rparr>"

section \<open>Mutations\<close>

record sphere_mutation =
  sm_did :: did
  sm_content :: "(string, cid) vmap_mutation"
  sm_identities :: "(string, identity_ipld) vmap_mutation"
  sm_delegations :: "(cid, delegation_ipld) vmap_mutation"
  sm_revocations :: "(cid, revocation_ipld) vmap_mutation"

definition sphere_mutation_new :: "did \<Rightarrow> sphere_mutation" where
  "sphere_mutation_new d =
     \<lparr>sm_did = d, sm_content = vmap_mutation_new d, sm_identities = vmap_mutation_new d,
      sm_delegations = vmap_mutation_new d, sm_revocations = vmap_mutation_new d\<rparr>"

definition mutation_reset :: "sphere_mutation \<Rightarrow> sphere_mutation" where
  "mutation_reset \<mu> =
     \<mu>\<lparr>sm_content := vmap_mutation_new (sm_did \<mu>), sm_identities := vmap_mutation_new (sm_did \<mu>),
       sm_delegations := vmap_mutation_new (sm_did \<mu>), sm_revocations := vmap_mutation_new (sm_did \<mu>)\<rparr>"

definition mutation_is_empty :: "sphere_mutation \<Rightarrow> bool" where
  "mutation_is_empty \<mu> \<longleftrightarrow>
     length (mut_changes (sm_content \<mu>)) = 0 \<and> length (mut_changes (sm_identities \<mu>)) = 0 \<and>
     length (mut_changes (sm_delegations \<mu>)) = 0 \<and> length (mut_changes (sm_revocations \<mu>)) = 0"

definition append_to :: "('k, 'v) vmap_mutation \<Rightarrow> ('k, 'v) vmap_mutation \<Rightarrow> ('k, 'v) vmap_mutation" where
  "append_to a b = a\<lparr>mut_changes := append_changes (mut_changes a) (mut_changes b)\<rparr>"

definition mutation_append :: "sphere_mutation \<Rightarrow> sphere_mutation \<Rightarrow> sphere_mutation" where
  "mutation_append \<mu> other =
     \<mu>\<lparr>sm_content := append_to (sm_content \<mu>) (sm_content other),
       sm_identities := append_to (sm_identities \<mu>) (sm_identities other),
       sm_delegations := append_to (sm_delegations \<mu>) (sm_delegations other),
       sm_revocations := append_to (sm_revocations \<mu>) (sm_revocations other)\<rparr>"

section \<open>New spheres\<close>

definition address_book_empty :: "world \<Rightarrow> blocks \<Rightarrow> address_book_ipld result \<times> blocks" where
  "address_book_empty W s =
     sbind (vmap_empty (identities_ctx W) s) (\<lambda>ipld s.
       sbind (save_value (codecs W) vmap_to_ipld ipld s) (\<lambda>c s. (Inr \<lparr>identities = c\<rparr>, s)))"

definition authority_empty :: "world \<Rightarrow> blocks \<Rightarrow> authority_ipld result \<times> blocks" where
  "authority_empty W s =
     sbind (vmap_empty (delegations_ctx W) s) (\<lambda>dl s.
       sbind (save_value (codecs W) vmap_to_ipld dl s) (\<lambda>dc s.
         sbind (vmap_empty (revocations_ctx W) s) (\<lambda>rl s.
           sbind (save_value (codecs W) vmap_to_ipld rl s) (\<lambda>rc s.
             (Inr \<lparr>delegations = dc, revocations = rc\<rparr>, s)))))"

definition sphere_ipld_new :: "world \<Rightarrow> did \<Rightarrow> blocks \<Rightarrow> sphere_ipld result \<times> blocks" where
  "sphere_ipld_new W d s =
     sbind (vmap_empty (content_ctx W) s) (\<lambda>content_ipld s.
       sbind (save_value (codecs W) vmap_to_ipld content_ipld s) (\<lambda>content_cid s.
         sbind (address_book_empty W s) (\<lambda>book s.
           sbind (save_value (codecs W) address_book_to_ipld book s) (\<lambda>book_cid s.
             sbind (authority_empty W s) (\<lambda>auth s.
               sbind (save_value (codecs W) authority_to_ipld auth s) (\<lambda>auth_cid s.
                 (Inr \<lparr>identity = d, content = content_cid, address_book = book_cid,
                       authority = auth_cid, private_data = None\<rparr>, s)))))))"

section \<open>Reading a version\<close>

definition to_memo :: "world \<Rightarrow> cid \<Rightarrow> blocks \<Rightarrow> memo result" where
  "to_memo W c s = load_value (codecs W) memo_from_ipld c s"

definition to_body :: "world \<Rightarrow> cid \<Rightarrow> blocks \<Rightarrow> sphere_ipld result" where
  "to_body W c s = rbind (to_memo W c s) (\<lambda>m. load_value (codecs W) sphere_from_ipld (body m) s)"

definition get_parent :: "world \<Rightarrow> cid \<Rightarrow> blocks \<Rightarrow> cid option result" where
  "get_parent W c s = rbind (to_memo W c s) (\<lambda>m. Inr (parent m))"

definition get_content :: "world \<Rightarrow> cid \<Rightarrow> blocks \<Rightarrow> cid result" where
  "get_content W c s = rbind (to_body W c s) (\<lambda>b. Inr (content b))"

definition get_authority :: "world \<Rightarrow> cid \<Rightarrow> blocks \<Rightarrow> cid result" where
  "get_authority W c s = rbind (to_body W c s) (\<lambda>b. Inr (authority b))"

definition get_address_book :: "world \<Rightarrow> cid \<Rightarrow> blocks \<Rightarrow> cid result" where
  "get_address_book W c s = rbind (to_body W c s) (\<lambda>b. Inr (address_book b))"

definition get_identity :: "world \<Rightarrow> cid \<Rightarrow> blocks \<Rightarrow> did result" where
  "get_identity W c s = rbind (to_body W c s) (\<lambda>b. Inr (identity b))"

text \<open>The views of the address book and the authority, each given by its CID.\<close>

definition get_identities :: "world \<Rightarrow> cid \<Rightarrow> blocks \<Rightarrow> cid result" where
  "get_identities W c s = rbind (load_value (codecs W) address_book_from_ipld c s) (\<lambda>b. Inr (identities b))"

definition get_delegations :: "world \<Rightarrow> cid \<Rightarrow> blocks \<Rightarrow> cid result" where
  "get_delegations W c s = rbind (load_value (codecs W) authority_from_ipld c s) (\<lambda>b. Inr (delegations b))"

definition get_revocations :: "world \<Rightarrow> cid \<Rightarrow> blocks \<Rightarrow> cid result" where
  "get_revocations W c s = rbind (load_value (codecs W) authority_from_ipld c s) (\<lambda>b. Inr (revocations b))"

section \<open>Deriving a mutation\<close>

text \<open>The step each of the four maps goes through; \<open>what\<close> is its error message.\<close>

definition derive_changes ::
    "('k, 'v) hamt_ctx \<Rightarrow> string \<Rightarrow> cid \<Rightarrow> cid \<Rightarrow> blocks \<Rightarrow> ('k, 'v) vmap_mutation \<Rightarrow> ('k, 'v) vmap_mutation result" where
  "derive_changes X what c parent_c s \<mu> =
     (if c \<noteq> parent_c then
        rbind (get_changelog X c s) (\<lambda>changelog.
          if changelog_is_empty changelog then Inl (Anyhow what) else apply_changelog changelog \<mu>)
      else Inr \<mu>)"

definition derive_identities :: "world \<Rightarrow> cid \<Rightarrow> cid \<Rightarrow> blocks \<Rightarrow> sphere_mutation \<Rightarrow> sphere_mutation result" where
  "derive_identities W book parent_book s \<mu> =
     (if book \<noteq> parent_book then
        rbind (get_identities W parent_book s) (\<lambda>parent_ids.
          rbind (get_identities W book s) (\<lambda>ids.
            rbind (derive_changes (identities_ctx W) ''Identities changed but the changelog is empty''
                     ids parent_ids s (sm_identities \<mu>)) (\<lambda>i. Inr (\<mu>\<lparr>sm_identities := i\<rparr>))))
      else Inr \<mu>)"

definition derive_authority :: "world \<Rightarrow> cid \<Rightarrow> cid \<Rightarrow> blocks \<Rightarrow> sphere_mutation \<Rightarrow> sphere_mutation result" where
  "derive_authority W auth parent_auth s \<mu> =
     (if auth \<noteq> parent_auth then
        rbind (get_delegations W parent_auth s) (\<lambda>parent_dl.
          rbind (get_delegations W auth s) (\<lambda>dl.
            rbind (derive_changes (delegations_ctx W) ''Allowed UCANs changed but the changelog is empty''
                     dl parent_dl s (sm_delegations \<mu>)) (\<lambda>d.
              rbind (get_revocations W parent_auth s) (\<lambda>parent_rl.
                rbind (get_revocations W auth s) (\<lambda>rl.
                  rbind (derive_changes (revocations_ctx W) ''Revoked UCANs changed but the changelog is empty''
                           rl parent_rl s (sm_revocations \<mu>)) (\<lambda>r.
                    Inr (\<mu>\<lparr>sm_delegations := d, sm_revocations := r\<rparr>)))))))
      else Inr \<mu>)"

definition derive_mutation :: "world \<Rightarrow> cid \<Rightarrow> blocks \<Rightarrow> sphere_mutation result" where
  "derive_mutation W c s =
     rbind (to_memo W c s) (\<lambda>m.
       rbind (of_option (Anyhow ''No author header found'') (get_first_header (header_str Author) m)) (\<lambda>author.
         rbind (get_parent W c s) (\<lambda>p.
           case p of
             None \<Rightarrow> Inr (sphere_mutation_new author)
           | Some p \<Rightarrow>
               rbind (get_content W p s) (\<lambda>parent_content.
                 rbind (get_content W c s) (\<lambda>content'.
                   rbind (derive_changes (content_ctx W) ''Content changed but the changelog is empty''
                            content' parent_content s (vmap_mutation_new author)) (\<lambda>ct.
                     let \<mu> = (sphere_mutation_new author)\<lparr>sm_content := ct\<rparr> in
                     rbind (get_address_book W p s) (\<lambda>parent_book.
                       rbind (get_address_book W c s) (\<lambda>book.
                         rbind (derive_identities W book parent_book s \<mu>) (\<lambda>\<mu>.
                           rbind (get_authority W p s) (\<lambda>parent_auth.
                             rbind (get_authority W c s) (\<lambda>auth.
                               derive_authority W auth parent_auth s \<mu>)))))))))))"

section \<open>Applying a mutation\<close>

record sphere_revision =
  rev_identity :: did
  rev_memo :: memo

text \<open>A map whose mutation has no changes is left alone.\<close>

definition apply_if_changed ::
    "('k::linorder, 'v) hamt_ctx \<Rightarrow> cid \<Rightarrow> ('k, 'v) vmap_mutation \<Rightarrow> blocks \<Rightarrow> cid result \<times> blocks" where
  "apply_if_changed X c \<mu> s = (if mut_changes \<mu> \<noteq> [] then apply_with_cid X (Some c) \<mu> s else (Inr c, s))"

definition apply_mutation_with_cid ::
    "world \<Rightarrow> cid \<Rightarrow> sphere_mutation \<Rightarrow> blocks \<Rightarrow> sphere_revision result \<times> blocks" where
  "apply_mutation_with_cid W c \<mu> s =
     (case rbind (branch_from (codecs W) c s) (\<lambda>m.
             rbind (load_value (codecs W) sphere_from_ipld (body m) s) (\<lambda>sphere. Inr (m, sphere))) of
        Inl e \<Rightarrow> (Inl e, s)
      | Inr (m, sphere) \<Rightarrow>
          sbind (apply_if_changed (content_ctx W) (content sphere) (sm_content \<mu>) s) (\<lambda>content' s.
            sbind (if mut_changes (sm_identities \<mu>) \<noteq> [] then
                     (case load_from (codecs W) address_book_from_ipld (address_book sphere) s of
                        Inl e \<Rightarrow> (Inl e, s)
                      | Inr book \<Rightarrow>
                          sbind (apply_with_cid (identities_ctx W) (Some (identities book)) (sm_identities \<mu>) s) (\<lambda>ids s.
                            save_value (codecs W) address_book_to_ipld (book\<lparr>identities := ids\<rparr>) s))
                   else (Inr (address_book sphere), s)) (\<lambda>book_cid s.
              sbind (if mut_changes (sm_delegations \<mu>) \<noteq> [] \<or> mut_changes (sm_revocations \<mu>) \<noteq> [] then
                       (case load_from (codecs W) authority_from_ipld (authority sphere) s of
                          Inl e \<Rightarrow> (Inl e, s)
                        | Inr auth \<Rightarrow>
                            sbind (apply_if_changed (delegations_ctx W) (delegations auth) (sm_delegations \<mu>) s) (\<lambda>dl s.
                              sbind (apply_if_changed (revocations_ctx W) (revocations auth) (sm_revocations \<mu>) s) (\<lambda>rl s.
                                save_value (codecs W) authority_to_ipld \<lparr>delegations = dl, revocations = rl\<rparr> s)))
                     else (Inr (authority sphere), s)) (\<lambda>auth_cid s.
                sbind (save_value (codecs W) sphere_to_ipld
                         (sphere\<lparr>content := content', address_book := book_cid, authority := auth_cid\<rparr>) s) (\<lambda>b s.
                  (Inr \<lparr>rev_identity = identity sphere, rev_memo = m\<lparr>body := b\<rparr>\<rparr>, s))))))"

definition rebase_version :: "world \<Rightarrow> cid \<Rightarrow> cid \<Rightarrow> blocks \<Rightarrow> sphere_revision result \<times> blocks" where
  "rebase_version W c onto s =
     (case derive_mutation W c s of Inl e \<Rightarrow> (Inl e, s) | Inr \<mu> \<Rightarrow> apply_mutation_with_cid W onto \<mu> s)"

section \<open>Hydration\<close>

definition hydrate_with_cid :: "world \<Rightarrow> cid \<Rightarrow> blocks \<Rightarrow> unit result \<times> blocks" where
  "hydrate_with_cid W c s =
     (case to_memo W c s of
        Inl e \<Rightarrow> (Inl e, s)
      | Inr m \<Rightarrow>
          sbind (case parent m of
                   Some p \<Rightarrow> (Inr p, s)
                 | None \<Rightarrow>
                     (case get_identity W c s of
                        Inl e \<Rightarrow> (Inl e, s)
                      | Inr d \<Rightarrow>
                          sbind (sphere_ipld_new W d s) (\<lambda>base_sphere s.
                            sbind (for_body (codecs W) sphere_to_ipld base_sphere s) (\<lambda>empty_dag s.
                              save_value (codecs W) memo_to_ipld empty_dag s)))) (\<lambda>base_cid s.
            case derive_mutation W c s of
              Inl e \<Rightarrow> (Inl e, s)
            | Inr \<mu> \<Rightarrow>
                sbind (apply_mutation_with_cid W base_cid \<mu> s) (\<lambda>hydrated s.
                  if body (rev_memo hydrated) \<noteq> body m
                  then (Inl (Anyhow ''Unexpected CID after hydration''), s)
                  else (Inr (), s))))"

fun hydrate_all :: "world \<Rightarrow> cid list \<Rightarrow> blocks \<Rightarrow> unit result \<times> blocks" where
  "hydrate_all W [] s = (Inr (), s)"
| "hydrate_all W (c # cs) s = sbind (hydrate_with_cid W c s) (\<lambda>_ s. hydrate_all W cs s)"

definition hydrate_timeslice :: "nat \<Rightarrow> world \<Rightarrow> timeslice \<Rightarrow> blocks \<Rightarrow> unit result \<times> blocks" where
  "hydrate_timeslice f W t s =
     (case to_chronological f (codecs W) s t of Inl e \<Rightarrow> (Inl e, s) | Inr items \<Rightarrow> hydrate_all W items s)"

section \<open>Signing a revision\<close>

definition revision_proof ::
    "world \<Rightarrow> u64 \<Rightarrow> bytes \<Rightarrow> did \<Rightarrow> key_material \<Rightarrow> authorization option \<Rightarrow> blocks \<Rightarrow> ucan option result" where
  "revision_proof W now nonce sphere key auth s =
     (case auth of
        None \<Rightarrow> Inr None
      | Some z \<Rightarrow>
          rbind (as_ucan W s z) (\<lambda>witness_ucan.
            rbind (build_and_sign W now nonce
                     (with_nonce
                       (claiming_capability (capability_of SPHERE_SEMANTICS (generate_capability sphere Publish))
                         (witnessed_by W witness_ucan
                           (with_lifetime 120 (for_audience sphere (issued_by key builder_default)))))))
              (\<lambda>u. Inr (Some u))))"

definition revision_sign ::
    "world \<Rightarrow> u64 \<Rightarrow> bytes \<Rightarrow> key_material \<Rightarrow> authorization option \<Rightarrow> sphere_revision \<Rightarrow> blocks \<Rightarrow> cid result \<times> blocks" where
  "revision_sign W now nonce key auth r s =
     (case revision_proof W now nonce (rev_identity r) key auth s of
        Inl e \<Rightarrow> (Inl e, s)
      | Inr u \<Rightarrow>
          (case memo_sign (texts W) key (map_option (ucan_encode W) u) (rev_memo r) of
             (Inl e, _) \<Rightarrow> (Inl e, s)
           | (Inr _, m) \<Rightarrow> save_value (codecs W) memo_to_ipld m s))"

section \<open>Compacting and rebasing\<close>

fun derive_all :: "world \<Rightarrow> cid list \<Rightarrow> blocks \<Rightarrow> sphere_mutation \<Rightarrow> sphere_mutation result" where
  "derive_all W [] s \<mu> = Inr \<mu>"
| "derive_all W (c # cs) s \<mu> =
     rbind (derive_mutation W c s) (\<lambda>\<nu>. derive_all W cs s (mutation_append \<mu> \<nu>))"

definition compact ::
    "nat \<Rightarrow> world \<Rightarrow> u64 \<Rightarrow> bytes \<Rightarrow> cid \<Rightarrow> cid \<Rightarrow> author \<Rightarrow> blocks \<Rightarrow> cid result \<times> blocks" where
  "compact f W now nonce c until a s =
     (case rbind (get_parent W until s) (\<lambda>p.
             case p of
               None \<Rightarrow> Inl (Anyhow ''Cannot compact history; compound history must must have ancestral base'')
             | Some p \<Rightarrow>
                 rbind (to_chronological f (codecs W) s (with_past (slice c (Some until)))) (\<lambda>history.
                   rbind (km_did (author_key a)) (\<lambda>d.
                     rbind (derive_all W history s (sphere_mutation_new d)) (\<lambda>\<mu>. Inr (p, \<mu>))))) of
        Inl e \<Rightarrow> (Inl e, s)
      | Inr (p, \<mu>) \<Rightarrow>
          sbind (apply_mutation_with_cid W p \<mu> s) (\<lambda>r s.
            revision_sign W now nonce (author_key a) (author_authorization a) r s))"

fun rebase_loop ::
    "world \<Rightarrow> u64 \<Rightarrow> (nat \<Rightarrow> bytes) \<Rightarrow> key_material \<Rightarrow> authorization option \<Rightarrow> cid list \<Rightarrow> cid \<Rightarrow> blocks \<Rightarrow>
     cid result \<times> blocks" where
  "rebase_loop W now nonces key auth [] next_base s = (Inr next_base, s)"
| "rebase_loop W now nonces key auth (c # cs) next_base s =
     sbind (rebase_version W c next_base s) (\<lambda>r s.
       sbind (revision_sign W now (nonces 0) key auth r s) (\<lambda>next_base s.
         rebase_loop W now (\<lambda>n. nonces (Suc n)) key auth cs next_base s))"

definition rebase ::
    "nat \<Rightarrow> world \<Rightarrow> u64 \<Rightarrow> (nat \<Rightarrow> bytes) \<Rightarrow> cid \<Rightarrow> cid \<Rightarrow> cid \<Rightarrow> key_material \<Rightarrow> authorization option \<Rightarrow> blocks \<Rightarrow>
     cid result \<times> blocks" where
  "rebase f W now nonces c old_base new_base key auth s =
     sbind (hydrate_timeslice f W (without_past (slice new_base (Some old_base))) s) (\<lambda>_ s.
       case to_chronological f (codecs W) s (without_past (slice c (Some old_base))) of
         Inl e \<Rightarrow> (Inl e, s)
       | Inr revisions \<Rightarrow> rebase_loop W now nonces key auth revisions new_base s)"

end
