(* ===== verification/Sphere_Rep.thy ===== *)
theory Sphere_Rep
  imports Sphere
begin

text \<open>
  What a stored sphere stands for: an identity and four maps, each with the changelog of its
  last change. Applying a mutation refines running its operations on the maps; deriving a
  mutation finds operations with the same effect; hydration rebuilds the blocks of a version
  of which only the changelogs were received.
\<close>

section \<open>What the code relies on\<close>

definition sphere_ok :: "world \<Rightarrow> bool" where
  "sphere_ok W \<longleftrightarrow> env_ok (codecs W) \<and> (\<forall>k. length (hash_string W k) = 32) \<and> (\<forall>d. length (hash_multihash W d) = 32)"

lemma sphere_ok_env: "sphere_ok W \<Longrightarrow> env_ok (codecs W)"
  by (simp add: sphere_ok_def)

lemmas ctx_defs = content_ctx_def identities_ctx_def delegations_ctx_def revocations_ctx_def

lemma ctx_henv [simp]:
  "henv (content_ctx W) = codecs W" "henv (identities_ctx W) = codecs W"
  "henv (delegations_ctx W) = codecs W" "henv (revocations_ctx W) = codecs W"
  by (simp_all add: ctx_defs)

lemma ctx_ok:
  assumes "sphere_ok W"
  shows "hamt_ok (content_ctx W)" "hamt_ok (identities_ctx W)" "hamt_ok (delegations_ctx W)" "hamt_ok (revocations_ctx W)"
  using assms identity_serde delegation_serde revocation_serde
  by (auto simp: ctx_defs hamt_ok_def width_ok_def serde_ok_def serde_def sphere_ok_def env_ok_def DEFAULT_BIT_WIDTH_def)

section \<open>Versioned maps of which the tree may be missing\<close>

lemma union_le:
  assumes "hash_ok E" "store_ok E s" "store_ok E s0"
  shows "s \<subseteq>\<^sub>m s ++ s0" "s0 \<subseteq>\<^sub>m s ++ s0" "store_ok E (s ++ s0)"
proof -
  have "s0 c = Some b' \<Longrightarrow> s c = Some b \<Longrightarrow> b = b'" for c b b'
    using assms unfolding store_ok_def hash_ok_def by (metis injD)
  then show "s \<subseteq>\<^sub>m s ++ s0" by (auto simp: map_le_def map_add_def split: option.splits)
  show "s0 \<subseteq>\<^sub>m s ++ s0" by (auto simp: map_le_def)
  show "store_ok E (s ++ s0)" using assms(2,3) by (auto simp: store_ok_def map_add_def split: option.splits)
qed

text \<open>The root CID is that of the map's tree, which some store has; \<open>s\<close> has the changelog.\<close>

definition vm_sparse ::
    "('k::linorder, 'v) hamt_ctx \<Rightarrow> blocks \<Rightarrow> cid \<Rightarrow> ('k \<rightharpoonup> 'v) \<Rightarrow> ('k, 'v) map_operation changelog \<Rightarrow> bool" where
  "vm_sparse X s c m cl \<longleftrightarrow>
     (\<exists>b s0. value_at (henv X) vmap_to_ipld s c b \<and> store_ok (henv X) s0 \<and> hamt_at X s0 (vm_hamt b) m \<and>
          value_at (henv X) (changelog_to_ipld (key_to_ipld X) (val_to_ipld X)) s (vm_changelog b) cl)"

lemma vm_at_sparse: "store_ok (henv X) s \<Longrightarrow> vm_at X s c m cl \<Longrightarrow> vm_sparse X s c m cl"
  by (auto simp: vm_at_def vm_sparse_def)

lemma vm_sparse_mono: "vm_sparse X s c m cl \<Longrightarrow> s \<subseteq>\<^sub>m s' \<Longrightarrow> vm_sparse X s' c m cl"
  unfolding vm_sparse_def by (meson value_at_mono)

lemma vm_sparse_cid:
  assumes "vm_sparse X s c m cl" "vm_sparse X s' c' m cl"
  shows "c = c'"
proof -
  obtain b b' s0 s1 where b: "value_at (henv X) vmap_to_ipld s c b" "hamt_at X s0 (vm_hamt b) m"
      "value_at (henv X) (changelog_to_ipld (key_to_ipld X) (val_to_ipld X)) s (vm_changelog b) cl"
    and b': "value_at (henv X) vmap_to_ipld s' c' b'" "hamt_at X s1 (vm_hamt b') m"
      "value_at (henv X) (changelog_to_ipld (key_to_ipld X) (val_to_ipld X)) s' (vm_changelog b') cl"
    using assms unfolding vm_sparse_def by blast
  have "b = b'" using hamt_at_cid [OF b(2) b'(2)] value_at_cid [OF b(3) b'(3)] by simp
  with b b' show ?thesis by (auto intro: value_at_cid)
qed

lemma vm_sparse_changelog:
  assumes "hamt_ok X" "vm_sparse X s c m cl"
  shows "get_changelog X c s = Inr cl"
proof -
  obtain b where b: "value_at (henv X) vmap_to_ipld s c b"
      "value_at (henv X) (changelog_to_ipld (key_to_ipld X) (val_to_ipld X)) s (vm_changelog b) cl"
    using assms(2) unfolding vm_sparse_def by blast
  have "vm_to_body X c s = Inr b"
    unfolding vm_to_body_def by (rule load_value_ok [OF hamt_ok_env [OF assms(1)] vmap_serde b(1)])
  then show ?thesis
    unfolding get_changelog_def
    by (simp add: load_value_ok [OF hamt_ok_env [OF assms(1)] hamt_ok_changelog_serde [OF assms(1)] b(2)])
qed

lemma vm_sparse_fun:
  assumes "hamt_ok X" "vm_sparse X s c m cl" "vm_sparse X s c m' cl'"
  shows "m = m' \<and> cl = cl'"
proof -
  obtain b b' s0 s1 where b: "value_at (henv X) vmap_to_ipld s c b" "store_ok (henv X) s0" "hamt_at X s0 (vm_hamt b) m"
    and b': "value_at (henv X) vmap_to_ipld s c b'" "store_ok (henv X) s1" "hamt_at X s1 (vm_hamt b') m'"
    using assms(2,3) unfolding vm_sparse_def by blast
  have "b = b'" by (rule value_at_fun [OF hamt_ok_env [OF assms(1)] vmap_serde b(1) b'(1)])
  have h: "hash_ok (henv X)" using assms(1) by (simp add: hamt_ok_def)
  have "hamt_at X (s0 ++ s1) (vm_hamt b) m" "hamt_at X (s0 ++ s1) (vm_hamt b) m'"
    using hamt_at_mono [OF b(3) union_le(1) [OF h b(2) b'(2)]] hamt_at_mono [OF b'(3) union_le(2) [OF h b(2) b'(2)]]
      \<open>b = b'\<close> by auto
  then have "m = m'" by (rule hamt_at_fun [OF assms(1)])
  moreover have "cl = cl'"
    using vm_sparse_changelog [OF assms(1,2)] vm_sparse_changelog [OF assms(1,3)] by simp
  ultimately show ?thesis by simp
qed

section \<open>Abstract spheres\<close>

type_synonym ('k, 'v) version = "('k \<rightharpoonup> 'v) \<times> ('k, 'v) map_operation changelog"

record sphere_state =
  st_identity :: did
  st_private :: "cid option"
  st_content :: "(string, cid) version"
  st_identities :: "(string, identity_ipld) version"
  st_delegations :: "(cid, delegation_ipld) version"
  st_revocations :: "(cid, revocation_ipld) version"

text \<open>Changes make a new version whose changelog they are; no changes leave the version as it is.\<close>

definition step_version :: "('k, 'v) vmap_mutation \<Rightarrow> ('k, 'v) version \<Rightarrow> ('k, 'v) version" where
  "step_version \<mu> v =
     (if mut_changes \<mu> = [] then v
      else (run_ops (mut_changes \<mu>) (fst v), \<lparr>did = Some (mut_did \<mu>), changes = mut_changes \<mu>\<rparr>))"

definition step_sphere :: "sphere_mutation \<Rightarrow> sphere_state \<Rightarrow> sphere_state" where
  "step_sphere \<mu> \<sigma> =
     \<sigma>\<lparr>st_content := step_version (sm_content \<mu>) (st_content \<sigma>),
       st_identities := step_version (sm_identities \<mu>) (st_identities \<sigma>),
       st_delegations := step_version (sm_delegations \<mu>) (st_delegations \<sigma>),
       st_revocations := step_version (sm_revocations \<mu>) (st_revocations \<sigma>)\<rparr>"

definition empty_sphere :: "did \<Rightarrow> sphere_state" where
  "empty_sphere d =
     \<lparr>st_identity = d, st_private = None, st_content = (Map.empty, changelog_default),
      st_identities = (Map.empty, changelog_default), st_delegations = (Map.empty, changelog_default),
      st_revocations = (Map.empty, changelog_default)\<rparr>"

text \<open>
  The body at CID \<open>b\<close> in store \<open>s\<close> is \<open>\<sigma>\<close>; the maps are related to their CIDs by \<open>R\<close>, which
  is \<open>vm_at\<close> for a complete and \<open>vm_sparse\<close> for a sparse copy.
\<close>

definition body_is ::
    "world \<Rightarrow> blocks \<Rightarrow> (cid \<Rightarrow> (string, cid) version \<Rightarrow> bool) \<Rightarrow> (cid \<Rightarrow> (string, identity_ipld) version \<Rightarrow> bool) \<Rightarrow>
     (cid \<Rightarrow> (cid, delegation_ipld) version \<Rightarrow> bool) \<Rightarrow> (cid \<Rightarrow> (cid, revocation_ipld) version \<Rightarrow> bool) \<Rightarrow>
     cid \<Rightarrow> sphere_state \<Rightarrow> sphere_ipld \<Rightarrow> address_book_ipld \<Rightarrow> authority_ipld \<Rightarrow> bool" where
  "body_is W s RC RI RD RR b \<sigma> sp book auth \<longleftrightarrow>
     value_at (codecs W) sphere_to_ipld s b sp \<and>
     value_at (codecs W) address_book_to_ipld s (address_book sp) book \<and>
     value_at (codecs W) authority_to_ipld s (authority sp) auth \<and>
     identity sp = st_identity \<sigma> \<and> private_data sp = st_private \<sigma> \<and>
     RC (content sp) (st_content \<sigma>) \<and> RI (identities book) (st_identities \<sigma>) \<and>
     RD (delegations auth) (st_delegations \<sigma>) \<and> RR (revocations auth) (st_revocations \<sigma>)"

definition body_at :: "world \<Rightarrow> blocks \<Rightarrow> cid \<Rightarrow> sphere_state \<Rightarrow> bool" where
  "body_at W s b \<sigma> \<longleftrightarrow>
     (\<exists>sp book auth. body_is W s
        (\<lambda>c v. vm_at (content_ctx W) s c (fst v) (snd v)) (\<lambda>c v. vm_at (identities_ctx W) s c (fst v) (snd v))
        (\<lambda>c v. vm_at (delegations_ctx W) s c (fst v) (snd v)) (\<lambda>c v. vm_at (revocations_ctx W) s c (fst v) (snd v))
        b \<sigma> sp book auth)"

definition body_sparse :: "world \<Rightarrow> blocks \<Rightarrow> cid \<Rightarrow> sphere_state \<Rightarrow> bool" where
  "body_sparse W s b \<sigma> \<longleftrightarrow>
     (\<exists>sp book auth. body_is W s
        (\<lambda>c v. vm_sparse (content_ctx W) s c (fst v) (snd v)) (\<lambda>c v. vm_sparse (identities_ctx W) s c (fst v) (snd v))
        (\<lambda>c v. vm_sparse (delegations_ctx W) s c (fst v) (snd v)) (\<lambda>c v. vm_sparse (revocations_ctx W) s c (fst v) (snd v))
        b \<sigma> sp book auth)"

lemma body_at_mono: "body_at W s b \<sigma> \<Longrightarrow> s \<subseteq>\<^sub>m s' \<Longrightarrow> body_at W s' b \<sigma>"
  unfolding body_at_def body_is_def by (meson value_at_mono vm_at_mono)

lemma body_sparse_mono: "body_sparse W s b \<sigma> \<Longrightarrow> s \<subseteq>\<^sub>m s' \<Longrightarrow> body_sparse W s' b \<sigma>"
  unfolding body_sparse_def body_is_def by (meson value_at_mono vm_sparse_mono)

lemma body_at_sparse:
  assumes "store_ok (codecs W) s" "body_at W s b \<sigma>"
  shows "body_sparse W s b \<sigma>"
  using assms vm_at_sparse [of "content_ctx W" s] vm_at_sparse [of "identities_ctx W" s]
    vm_at_sparse [of "delegations_ctx W" s] vm_at_sparse [of "revocations_ctx W" s]
  unfolding body_at_def body_sparse_def body_is_def by simp blast

text \<open>The CID of a body is a function of the abstract sphere.\<close>

lemma body_sparse_cid:
  assumes "body_sparse W s b \<sigma>" "body_sparse W s' b' \<sigma>"
  shows "b = b'"
proof -
  obtain sp book auth sp' book' auth' where
      1: "body_is W s (\<lambda>c v. vm_sparse (content_ctx W) s c (fst v) (snd v))
        (\<lambda>c v. vm_sparse (identities_ctx W) s c (fst v) (snd v)) (\<lambda>c v. vm_sparse (delegations_ctx W) s c (fst v) (snd v))
        (\<lambda>c v. vm_sparse (revocations_ctx W) s c (fst v) (snd v)) b \<sigma> sp book auth"
    and 2: "body_is W s' (\<lambda>c v. vm_sparse (content_ctx W) s' c (fst v) (snd v))
        (\<lambda>c v. vm_sparse (identities_ctx W) s' c (fst v) (snd v)) (\<lambda>c v. vm_sparse (delegations_ctx W) s' c (fst v) (snd v))
        (\<lambda>c v. vm_sparse (revocations_ctx W) s' c (fst v) (snd v)) b' \<sigma> sp' book' auth'"
    using assms unfolding body_sparse_def by blast
  have "book = book'"
    by (rule address_book_ipld.equality) (use 1 2 in \<open>auto simp: body_is_def intro: vm_sparse_cid\<close>)
  moreover have "auth = auth'"
    by (rule authority_ipld.equality) (use 1 2 in \<open>auto simp: body_is_def intro: vm_sparse_cid\<close>)
  moreover have "content sp = content sp'" using 1 2 by (auto simp: body_is_def intro: vm_sparse_cid)
  ultimately have "sp = sp'"
    using 1 2 by (intro sphere_ipld.equality) (auto simp: body_is_def intro: value_at_cid)
  with 1 2 show ?thesis by (auto simp: body_is_def intro: value_at_cid)
qed

section \<open>Applying\<close>

abbreviation version_at :: "('k::linorder, 'v) hamt_ctx \<Rightarrow> blocks \<Rightarrow> cid \<Rightarrow> ('k, 'v) version \<Rightarrow> bool" where
  "version_at X s c v \<equiv> vm_at X s c (fst v) (snd v)"

abbreviation version_keys :: "('k, 'v) version \<Rightarrow> ('k, 'v) vmap_mutation \<Rightarrow> 'k set" where
  "version_keys v \<mu> \<equiv> dom (fst v) \<union> op_key ` set (mut_changes \<mu>)"

text \<open>No two keys in use have the same hash.\<close>

definition keys_ok :: "world \<Rightarrow> sphere_state \<Rightarrow> sphere_mutation \<Rightarrow> bool" where
  "keys_ok W \<sigma> \<mu> \<longleftrightarrow>
     collision_free (content_ctx W) (version_keys (st_content \<sigma>) (sm_content \<mu>)) \<and>
     collision_free (identities_ctx W) (version_keys (st_identities \<sigma>) (sm_identities \<mu>)) \<and>
     collision_free (delegations_ctx W) (version_keys (st_delegations \<sigma>) (sm_delegations \<mu>)) \<and>
     collision_free (revocations_ctx W) (version_keys (st_revocations \<sigma>) (sm_revocations \<mu>))"

lemma apply_changed_ok:
  assumes "hamt_ok X" "store_ok (henv X) s" "version_at X s c v" "collision_free X (version_keys v \<mu>)"
  obtains c' s' where "apply_if_changed X c \<mu> s = (Inr c', s')" "s \<subseteq>\<^sub>m s'" "store_ok (henv X) s'"
    "version_at X s' c' (step_version \<mu> v)"
proof (cases "mut_changes \<mu> = []")
  case True
  with assms show thesis by (intro that [of c s]) (auto simp: apply_if_changed_def step_version_def)
next
  case False
  obtain c' s' where "apply_with_cid X (Some c) \<mu> s = (Inr c', s')" "s \<subseteq>\<^sub>m s'" "store_ok (henv X) s'"
      "vm_at X s' c' (run_ops (mut_changes \<mu>) (fst v)) \<lparr>did = Some (mut_did \<mu>), changes = mut_changes \<mu>\<rparr>"
    by (rule apply_with_cid_ok [OF assms])
  with False show thesis by (intro that [of c' s']) (auto simp: apply_if_changed_def step_version_def)
qed

lemma apply_book_ok:
  assumes "sphere_ok W" "store_ok (codecs W) s" "value_at (codecs W) address_book_to_ipld s c book"
    "version_at (identities_ctx W) s (identities book) v" "collision_free (identities_ctx W) (version_keys v \<mu>)"
  obtains c' s' book' where
    "(if mut_changes \<mu> \<noteq> [] then
        (case load_from (codecs W) address_book_from_ipld c s of
           Inl e \<Rightarrow> (Inl e, s)
         | Inr book \<Rightarrow>
             sbind (apply_with_cid (identities_ctx W) (Some (identities book)) \<mu> s) (\<lambda>ids s.
               save_value (codecs W) address_book_to_ipld (book\<lparr>identities := ids\<rparr>) s))
      else (Inr c, s)) = (Inr c', s')"
    "s \<subseteq>\<^sub>m s'" "store_ok (codecs W) s'" "value_at (codecs W) address_book_to_ipld s' c' book'"
    "version_at (identities_ctx W) s' (identities book') (step_version \<mu> v)"
proof (cases "mut_changes \<mu> = []")
  case True
  with assms show thesis by (intro that [of c s book]) (auto simp: step_version_def)
next
  case False
  have ld: "load_from (codecs W) address_book_from_ipld c s = Inr book"
    by (rule load_from_ok [OF sphere_ok_env [OF assms(1)] address_book_serde assms(3)])
  have st: "store_ok (henv (identities_ctx W)) s" using assms(2) by simp
  obtain ids s1 where s1: "apply_if_changed (identities_ctx W) (identities book) \<mu> s = (Inr ids, s1)" "s \<subseteq>\<^sub>m s1"
      "store_ok (codecs W) s1" "version_at (identities_ctx W) s1 ids (step_version \<mu> v)"
    by (rule apply_changed_ok [OF ctx_ok(2) [OF assms(1)] st assms(4,5)]) simp
  obtain c' s2 where s2: "save_value (codecs W) address_book_to_ipld (book\<lparr>identities := ids\<rparr>) s1 = (Inr c', s2)"
      "value_at (codecs W) address_book_to_ipld s2 c' (book\<lparr>identities := ids\<rparr>)" "s1 \<subseteq>\<^sub>m s2" "store_ok (codecs W) s2"
    by (rule save_value_ok [OF sphere_ok_env [OF assms(1)] s1(3) address_book_serde])
  have "version_at (identities_ctx W) s2 ids (step_version \<mu> v)" by (rule vm_at_mono [OF s1(4) s2(3)])
  with False ld s1(1,2) s2 show thesis
    by (intro that [of c' s2 "book\<lparr>identities := ids\<rparr>"]) (auto simp: apply_if_changed_def intro: map_le_trans)
qed

lemma apply_authority_ok:
  assumes "sphere_ok W" "store_ok (codecs W) s" "value_at (codecs W) authority_to_ipld s c auth"
    "version_at (delegations_ctx W) s (delegations auth) v" "collision_free (delegations_ctx W) (version_keys v \<mu>)"
    "version_at (revocations_ctx W) s (revocations auth) w" "collision_free (revocations_ctx W) (version_keys w \<nu>)"
  obtains c' s' auth' where
    "(if mut_changes \<mu> \<noteq> [] \<or> mut_changes \<nu> \<noteq> [] then
        (case load_from (codecs W) authority_from_ipld c s of
           Inl e \<Rightarrow> (Inl e, s)
         | Inr auth \<Rightarrow>
             sbind (apply_if_changed (delegations_ctx W) (delegations auth) \<mu> s) (\<lambda>dl s.
               sbind (apply_if_changed (revocations_ctx W) (revocations auth) \<nu> s) (\<lambda>rl s.
                 save_value (codecs W) authority_to_ipld \<lparr>delegations = dl, revocations = rl\<rparr> s)))
      else (Inr c, s)) = (Inr c', s')"
    "s \<subseteq>\<^sub>m s'" "store_ok (codecs W) s'" "value_at (codecs W) authority_to_ipld s' c' auth'"
    "version_at (delegations_ctx W) s' (delegations auth') (step_version \<mu> v)"
    "version_at (revocations_ctx W) s' (revocations auth') (step_version \<nu> w)"
proof (cases "mut_changes \<mu> = [] \<and> mut_changes \<nu> = []")
  case True
  with assms show thesis by (intro that [of c s auth]) (auto simp: step_version_def)
next
  case False
  have ld: "load_from (codecs W) authority_from_ipld c s = Inr auth"
    by (rule load_from_ok [OF sphere_ok_env [OF assms(1)] authority_serde assms(3)])
  have st: "store_ok (henv (delegations_ctx W)) s" using assms(2) by simp
  obtain dl s1 where s1: "apply_if_changed (delegations_ctx W) (delegations auth) \<mu> s = (Inr dl, s1)" "s \<subseteq>\<^sub>m s1"
      "store_ok (codecs W) s1" "version_at (delegations_ctx W) s1 dl (step_version \<mu> v)"
    by (rule apply_changed_ok [OF ctx_ok(3) [OF assms(1)] st assms(4,5)]) simp
  have st1: "store_ok (henv (revocations_ctx W)) s1" using s1(3) by simp
  obtain rl s2 where s2: "apply_if_changed (revocations_ctx W) (revocations auth) \<nu> s1 = (Inr rl, s2)" "s1 \<subseteq>\<^sub>m s2"
      "store_ok (codecs W) s2" "version_at (revocations_ctx W) s2 rl (step_version \<nu> w)"
    by (rule apply_changed_ok [OF ctx_ok(4) [OF assms(1)] st1 vm_at_mono [OF assms(6) s1(2)] assms(7)]) simp
  let ?auth = "\<lparr>delegations = dl, revocations = rl\<rparr>"
  obtain c' s3 where s3: "save_value (codecs W) authority_to_ipld ?auth s2 = (Inr c', s3)"
      "value_at (codecs W) authority_to_ipld s3 c' ?auth" "s2 \<subseteq>\<^sub>m s3" "store_ok (codecs W) s3"
    by (rule save_value_ok [OF sphere_ok_env [OF assms(1)] s2(3) authority_serde])
  have "version_at (delegations_ctx W) s3 dl (step_version \<mu> v)"
    by (rule vm_at_mono [OF s1(4) map_le_trans [OF s2(2) s3(3)]])
  moreover have "version_at (revocations_ctx W) s3 rl (step_version \<nu> w)" by (rule vm_at_mono [OF s2(4) s3(3)])
  moreover have "s \<subseteq>\<^sub>m s3" by (meson map_le_trans s1(2) s2(2) s3(3))
  ultimately show thesis using False ld s1(1) s2(1) s3 by (intro that [of c' s3 ?auth]) auto
qed

text \<open>
  The whole routine: the revision branches from the version, keeps the sphere's identity, and
  its body is the sphere after the mutation.
\<close>

lemma apply_mutation_ok:
  assumes "sphere_ok W" "store_ok (codecs W) s" "value_at (codecs W) memo_to_ipld s c m"
    "body_at W s (body m) \<sigma>" "keys_ok W \<sigma> \<mu>"
  obtains b s' where
    "apply_mutation_with_cid W c \<mu> s =
       (Inr \<lparr>rev_identity = st_identity \<sigma>, rev_memo = (branch_memo c m)\<lparr>body := b\<rparr>\<rparr>, s')"
    "s \<subseteq>\<^sub>m s'" "store_ok (codecs W) s'" "body_at W s' b (step_sphere \<mu> \<sigma>)"
proof -
  note env = sphere_ok_env [OF assms(1)]
  obtain sp book auth where B: "body_is W s (version_at (content_ctx W) s) (version_at (identities_ctx W) s)
      (version_at (delegations_ctx W) s) (version_at (revocations_ctx W) s) (body m) \<sigma> sp book auth"
    using assms(4) unfolding body_at_def by blast
  note B = B [unfolded body_is_def] and K = assms(5) [unfolded keys_ok_def]
  have memo: "branch_from (codecs W) c s = Inr (branch_memo c m)"
    by (simp add: branch_from_def load_value_ok [OF env memo_serde assms(3)])
  have sphere: "load_value (codecs W) sphere_from_ipld (body m) s = Inr sp"
    using B by (intro load_value_ok [OF env sphere_serde]) simp
  obtain c1 s1 where s1: "apply_if_changed (content_ctx W) (content sp) (sm_content \<mu>) s = (Inr c1, s1)" "s \<subseteq>\<^sub>m s1"
      "store_ok (codecs W) s1" "version_at (content_ctx W) s1 c1 (step_version (sm_content \<mu>) (st_content \<sigma>))"
    by (rule apply_changed_ok [OF ctx_ok(1) [OF assms(1)], of s "content sp" "st_content \<sigma>" "sm_content \<mu>"])
      (use B K assms(2) in simp_all)
  have B1: "value_at (codecs W) address_book_to_ipld s1 (address_book sp) book"
      "version_at (identities_ctx W) s1 (identities book) (st_identities \<sigma>)"
    using B s1(2) by (auto intro: value_at_mono vm_at_mono)
  from K have K1: "collision_free (identities_ctx W) (version_keys (st_identities \<sigma>) (sm_identities \<mu>))" by simp
  obtain c2 s2 book2 where s2: "(if mut_changes (sm_identities \<mu>) \<noteq> [] then
        (case load_from (codecs W) address_book_from_ipld (address_book sp) s1 of
           Inl e \<Rightarrow> (Inl e, s1)
         | Inr book \<Rightarrow>
             sbind (apply_with_cid (identities_ctx W) (Some (identities book)) (sm_identities \<mu>) s1) (\<lambda>ids s.
               save_value (codecs W) address_book_to_ipld (book\<lparr>identities := ids\<rparr>) s))
      else (Inr (address_book sp), s1)) = (Inr c2, s2)"
      "s1 \<subseteq>\<^sub>m s2" "store_ok (codecs W) s2" "value_at (codecs W) address_book_to_ipld s2 c2 book2"
      "version_at (identities_ctx W) s2 (identities book2) (step_version (sm_identities \<mu>) (st_identities \<sigma>))"
    by (rule apply_book_ok [OF assms(1) s1(3) B1 K1])
  have le2: "s \<subseteq>\<^sub>m s2" by (rule map_le_trans [OF s1(2) s2(2)])
  have B2: "value_at (codecs W) authority_to_ipld s2 (authority sp) auth"
      "version_at (delegations_ctx W) s2 (delegations auth) (st_delegations \<sigma>)"
      "version_at (revocations_ctx W) s2 (revocations auth) (st_revocations \<sigma>)"
    using B le2 by (auto intro: value_at_mono vm_at_mono)
  from K have K2: "collision_free (delegations_ctx W) (version_keys (st_delegations \<sigma>) (sm_delegations \<mu>))"
      "collision_free (revocations_ctx W) (version_keys (st_revocations \<sigma>) (sm_revocations \<mu>))" by simp_all
  obtain c3 s3 auth3 where s3: "(if mut_changes (sm_delegations \<mu>) \<noteq> [] \<or> mut_changes (sm_revocations \<mu>) \<noteq> [] then
        (case load_from (codecs W) authority_from_ipld (authority sp) s2 of
           Inl e \<Rightarrow> (Inl e, s2)
         | Inr auth \<Rightarrow>
             sbind (apply_if_changed (delegations_ctx W) (delegations auth) (sm_delegations \<mu>) s2) (\<lambda>dl s.
               sbind (apply_if_changed (revocations_ctx W) (revocations auth) (sm_revocations \<mu>) s) (\<lambda>rl s.
                 save_value (codecs W) authority_to_ipld \<lparr>delegations = dl, revocations = rl\<rparr> s)))
      else (Inr (authority sp), s2)) = (Inr c3, s3)"
      "s2 \<subseteq>\<^sub>m s3" "store_ok (codecs W) s3" "value_at (codecs W) authority_to_ipld s3 c3 auth3"
      "version_at (delegations_ctx W) s3 (delegations auth3) (step_version (sm_delegations \<mu>) (st_delegations \<sigma>))"
      "version_at (revocations_ctx W) s3 (revocations auth3) (step_version (sm_revocations \<mu>) (st_revocations \<sigma>))"
    by (rule apply_authority_ok [OF assms(1) s2(3) B2(1,2) K2(1) B2(3) K2(2)])
  let ?sp = "sp\<lparr>content := c1, address_book := c2, authority := c3\<rparr>"
  obtain b s4 where s4: "save_value (codecs W) sphere_to_ipld ?sp s3 = (Inr b, s4)"
      "value_at (codecs W) sphere_to_ipld s4 b ?sp" "s3 \<subseteq>\<^sub>m s4" "store_ok (codecs W) s4"
    by (rule save_value_ok [OF env s3(3) sphere_serde])
  show thesis
  proof (rule that)
    show "apply_mutation_with_cid W c \<mu> s =
        (Inr \<lparr>rev_identity = st_identity \<sigma>, rev_memo = (branch_memo c m)\<lparr>body := b\<rparr>\<rparr>, s4)"
    proof -
      have "identity sp = st_identity \<sigma>" using B by simp
      then show ?thesis
        by (simp only: apply_mutation_with_cid_def memo branch_memo_fields sphere rbind_simps sbind_simps
            sum.case prod.case s1(1) s2(1) s3(1) s4(1))
    qed
    show "s \<subseteq>\<^sub>m s4" by (meson le2 map_le_trans s3(2) s4(3))
    show "body_at W s4 b (step_sphere \<mu> \<sigma>)"
      unfolding body_at_def body_is_def step_sphere_def
      by (rule exI [of _ ?sp], rule exI [of _ book2], rule exI [of _ auth3])
        (use B s4(2) value_at_mono [OF s2(4) map_le_trans [OF s3(2) s4(3)]] value_at_mono [OF s3(4) s4(3)]
           vm_at_mono [OF s1(4) map_le_trans [OF s2(2) map_le_trans [OF s3(2) s4(3)]]]
           vm_at_mono [OF s2(5) map_le_trans [OF s3(2) s4(3)]] vm_at_mono [OF s3(5) s4(3)]
           vm_at_mono [OF s3(6) s4(3)] in simp)
  qed (rule s4)
qed

section \<open>Deriving\<close>

abbreviation version_sparse :: "('k::linorder, 'v) hamt_ctx \<Rightarrow> blocks \<Rightarrow> cid \<Rightarrow> ('k, 'v) version \<Rightarrow> bool" where
  "version_sparse X s c v \<equiv> vm_sparse X s c (fst v) (snd v)"

text \<open>All parts of a mutation name the same author.\<close>

definition authored :: "did \<Rightarrow> sphere_mutation \<Rightarrow> bool" where
  "authored d \<mu> \<longleftrightarrow> sm_did \<mu> = d \<and> mut_did (sm_content \<mu>) = d \<and> mut_did (sm_identities \<mu>) = d \<and>
     mut_did (sm_delegations \<mu>) = d \<and> mut_did (sm_revocations \<mu>) = d"

text \<open>
  What can be seen of a mutation in the version it made: the changes to a map are lost when
  they lead to the version of the map that was there before.
\<close>

definition effective_changes :: "('k, 'v) version \<Rightarrow> ('k, 'v) vmap_mutation \<Rightarrow> ('k, 'v) vmap_mutation" where
  "effective_changes v \<mu> = (if step_version \<mu> v = v then vmap_mutation_new (mut_did \<mu>) else \<mu>)"

definition effective :: "sphere_state \<Rightarrow> sphere_mutation \<Rightarrow> sphere_mutation" where
  "effective \<sigma> \<mu> =
     \<lparr>sm_did = sm_did \<mu>, sm_content = effective_changes (st_content \<sigma>) (sm_content \<mu>),
      sm_identities = effective_changes (st_identities \<sigma>) (sm_identities \<mu>),
      sm_delegations = effective_changes (st_delegations \<sigma>) (sm_delegations \<mu>),
      sm_revocations = effective_changes (st_revocations \<sigma>) (sm_revocations \<mu>)\<rparr>"

lemma effective_changes_simps [simp]:
  "mut_did (effective_changes v \<mu>) = mut_did \<mu>" "step_version (effective_changes v \<mu>) v = step_version \<mu> v"
  by (simp_all add: effective_changes_def vmap_mutation_new_def step_version_def)

lemma effective_changes_subset: "set (mut_changes (effective_changes v \<mu>)) \<subseteq> set (mut_changes \<mu>)"
  by (simp add: effective_changes_def vmap_mutation_new_def)

lemma step_effective [simp]: "step_sphere (effective \<sigma> \<mu>) \<sigma> = step_sphere \<mu> \<sigma>"
  by (simp add: step_sphere_def effective_def)

lemma authored_effective [simp]: "authored d (effective \<sigma> \<mu>) \<longleftrightarrow> authored d \<mu>"
  by (simp add: authored_def effective_def)

lemma version_keys_effective: "version_keys v (effective_changes u \<mu>) \<subseteq> version_keys v \<mu>"
  using effective_changes_subset [of u \<mu>] by auto

lemma keys_ok_effective: "keys_ok W \<tau> \<mu> \<Longrightarrow> keys_ok W \<tau> (effective \<sigma> \<mu>)"
  unfolding keys_ok_def effective_def sphere_mutation.simps
  by (elim conjE, intro conjI; (erule collision_free_subset, rule version_keys_effective))

lemma derive_part_ok:
  assumes "hamt_ok X" "version_sparse X s c (step_version \<mu> v)" "version_sparse X s cp v" "mut_did \<mu> = d"
  shows "derive_changes X what c cp s (vmap_mutation_new d) = Inr (effective_changes v \<mu>)"
proof (cases "c = cp")
  case True
  then have "step_version \<mu> v = v" using vm_sparse_fun [OF assms(1), of s c] assms(2,3) by (simp add: prod_eq_iff)
  with True assms(4) show ?thesis by (simp add: derive_changes_def effective_changes_def)
next
  case False
  have ne: "step_version \<mu> v \<noteq> v" using vm_sparse_cid assms(2,3) False by metis
  then have ch: "mut_changes \<mu> \<noteq> []" by (auto simp: step_version_def)
  have "get_changelog X c s = Inr \<lparr>did = Some d, changes = mut_changes \<mu>\<rparr>"
    using vm_sparse_changelog [OF assms(1,2)] ch assms(4) by (simp add: step_version_def)
  with False ne ch show ?thesis
    using assms(4) by (simp add: derive_changes_def effective_changes_def changelog_is_empty_def apply_changelog_def
        vmap_mutation_new_def)
qed

text \<open>A changelog by another author than the one that the version names is refused.\<close>

lemma derive_part_author:
  assumes "hamt_ok X" "version_sparse X s c (step_version \<mu> v)" "version_sparse X s cp v" "mut_did \<mu> \<noteq> d"
    "step_version \<mu> v \<noteq> v"
  shows "derive_changes X what c cp s (vmap_mutation_new d) = Inl (Anyhow ''Changelog has unexpected author'')"
proof -
  have "c \<noteq> cp" using vm_sparse_fun [OF assms(1), of s c] assms(2,3,5) by (auto simp: prod_eq_iff)
  moreover have ch: "mut_changes \<mu> \<noteq> []" using assms(5) by (auto simp: step_version_def)
  moreover have "get_changelog X c s = Inr \<lparr>did = Some (mut_did \<mu>), changes = mut_changes \<mu>\<rparr>"
    using vm_sparse_changelog [OF assms(1,2)] ch by (simp add: step_version_def)
  ultimately show ?thesis
    using assms(4) by (simp add: derive_changes_def changelog_is_empty_def apply_changelog_def vmap_mutation_new_def)
qed

lemma derive_identities_ok:
  assumes "env_ok (codecs W)" "value_at (codecs W) address_book_to_ipld s c book"
    "value_at (codecs W) address_book_to_ipld s cp bookp"
  shows "derive_identities W c cp s \<mu> =
    rbind (derive_changes (identities_ctx W) ''Identities changed but the changelog is empty''
      (identities book) (identities bookp) s (sm_identities \<mu>)) (\<lambda>i. Inr (\<mu>\<lparr>sm_identities := i\<rparr>))"
proof (cases "c = cp")
  case True
  then have "book = bookp" using value_at_fun [OF assms(1) address_book_serde assms(2)] assms(3) by blast
  with True show ?thesis by (simp add: derive_identities_def derive_changes_def)
next
  case False
  then show ?thesis
    by (simp add: derive_identities_def get_identities_def load_value_ok [OF assms(1) address_book_serde assms(2)]
        load_value_ok [OF assms(1) address_book_serde assms(3)])
qed

lemma derive_authority_ok:
  assumes "env_ok (codecs W)" "value_at (codecs W) authority_to_ipld s c auth"
    "value_at (codecs W) authority_to_ipld s cp authp"
  shows "derive_authority W c cp s \<mu> =
    rbind (derive_changes (delegations_ctx W) ''Allowed UCANs changed but the changelog is empty''
      (delegations auth) (delegations authp) s (sm_delegations \<mu>)) (\<lambda>d.
      rbind (derive_changes (revocations_ctx W) ''Revoked UCANs changed but the changelog is empty''
        (revocations auth) (revocations authp) s (sm_revocations \<mu>)) (\<lambda>r.
        Inr (\<mu>\<lparr>sm_delegations := d, sm_revocations := r\<rparr>)))"
proof (cases "c = cp")
  case True
  then have "auth = authp" using value_at_fun [OF assms(1) authority_serde assms(2)] assms(3) by blast
  with True show ?thesis by (simp add: derive_authority_def derive_changes_def)
next
  case False
  then show ?thesis
    by (simp add: derive_authority_def get_delegations_def get_revocations_def
        load_value_ok [OF assms(1) authority_serde assms(2)] load_value_ok [OF assms(1) authority_serde assms(3)])
qed

text \<open>Where a version and its parent are read from.\<close>

lemma derive_mutation_parts:
  assumes "sphere_ok W" "value_at (codecs W) memo_to_ipld s c m" "parent m = Some p"
    "value_at (codecs W) memo_to_ipld s p mp" "body_sparse W s (body mp) \<sigma>p" "body_sparse W s (body m) \<sigma>"
    "get_first_header (header_str Author) m = Some d"
  obtains cc cp ic ip dc dp rc rp where
    "version_sparse (content_ctx W) s cc (st_content \<sigma>)" "version_sparse (content_ctx W) s cp (st_content \<sigma>p)"
    "version_sparse (identities_ctx W) s ic (st_identities \<sigma>)" "version_sparse (identities_ctx W) s ip (st_identities \<sigma>p)"
    "version_sparse (delegations_ctx W) s dc (st_delegations \<sigma>)" "version_sparse (delegations_ctx W) s dp (st_delegations \<sigma>p)"
    "version_sparse (revocations_ctx W) s rc (st_revocations \<sigma>)" "version_sparse (revocations_ctx W) s rp (st_revocations \<sigma>p)"
    "derive_mutation W c s =
       rbind (derive_changes (content_ctx W) ''Content changed but the changelog is empty'' cc cp s (vmap_mutation_new d)) (\<lambda>ct.
         rbind (derive_changes (identities_ctx W) ''Identities changed but the changelog is empty'' ic ip s (vmap_mutation_new d)) (\<lambda>ids.
           rbind (derive_changes (delegations_ctx W) ''Allowed UCANs changed but the changelog is empty'' dc dp s (vmap_mutation_new d)) (\<lambda>dl.
             rbind (derive_changes (revocations_ctx W) ''Revoked UCANs changed but the changelog is empty'' rc rp s (vmap_mutation_new d)) (\<lambda>rl.
               Inr \<lparr>sm_did = d, sm_content = ct, sm_identities = ids, sm_delegations = dl, sm_revocations = rl\<rparr>))))"
proof -
  note env = sphere_ok_env [OF assms(1)]
  obtain sp book auth where B: "body_is W s (version_sparse (content_ctx W) s) (version_sparse (identities_ctx W) s)
      (version_sparse (delegations_ctx W) s) (version_sparse (revocations_ctx W) s) (body m) \<sigma> sp book auth"
    using assms(6) unfolding body_sparse_def by blast
  obtain spp bookp authp where P: "body_is W s (version_sparse (content_ctx W) s) (version_sparse (identities_ctx W) s)
      (version_sparse (delegations_ctx W) s) (version_sparse (revocations_ctx W) s) (body mp) \<sigma>p spp bookp authp"
    using assms(5) unfolding body_sparse_def by blast
  note B = B [unfolded body_is_def] and P = P [unfolded body_is_def]
  have ld: "to_memo W c s = Inr m" "to_memo W p s = Inr mp" "to_body W c s = Inr sp" "to_body W p s = Inr spp"
    using B P load_value_ok [OF env memo_serde assms(2)] load_value_ok [OF env memo_serde assms(4)]
      load_value_ok [OF env sphere_serde, of s "body m" sp] load_value_ok [OF env sphere_serde, of s "body mp" spp]
    by (simp_all add: to_memo_def to_body_def)
  have bk: "value_at (codecs W) address_book_to_ipld s (address_book sp) book"
      "value_at (codecs W) address_book_to_ipld s (address_book spp) bookp"
      "value_at (codecs W) authority_to_ipld s (authority sp) auth"
      "value_at (codecs W) authority_to_ipld s (authority spp) authp"
    using B P by simp_all
  show thesis
    by (rule that [of "content sp" "content spp" "identities book" "identities bookp" "delegations auth" "delegations authp"
          "revocations auth" "revocations authp"])
      (use B P assms(3,7) in \<open>simp_all add: derive_mutation_def get_parent_def get_content_def get_address_book_def
          get_authority_def ld Let_def sphere_mutation_new_def derive_identities_ok [OF env bk(1,2)]
          derive_authority_ok [OF env bk(3,4)] rbind_assoc\<close>)
qed

text \<open>The derived mutation is the one that made the version, as far as it can be seen.\<close>

lemma derive_mutation_ok:
  assumes "sphere_ok W" "value_at (codecs W) memo_to_ipld s c m" "parent m = Some p"
    "value_at (codecs W) memo_to_ipld s p mp" "body_sparse W s (body mp) \<sigma>p" "body_sparse W s (body m) (step_sphere \<mu> \<sigma>p)"
    "get_first_header (header_str Author) m = Some d" "authored d \<mu>"
  shows "derive_mutation W c s = Inr (effective \<sigma>p \<mu>)"
proof -
  have au: "sm_did \<mu> = d" "mut_did (sm_content \<mu>) = d" "mut_did (sm_identities \<mu>) = d" "mut_did (sm_delegations \<mu>) = d"
      "mut_did (sm_revocations \<mu>) = d"
    using assms(8) by (simp_all add: authored_def)
  have step: "st_content (step_sphere \<mu> \<sigma>p) = step_version (sm_content \<mu>) (st_content \<sigma>p)"
      "st_identities (step_sphere \<mu> \<sigma>p) = step_version (sm_identities \<mu>) (st_identities \<sigma>p)"
      "st_delegations (step_sphere \<mu> \<sigma>p) = step_version (sm_delegations \<mu>) (st_delegations \<sigma>p)"
      "st_revocations (step_sphere \<mu> \<sigma>p) = step_version (sm_revocations \<mu>) (st_revocations \<sigma>p)"
    by (simp_all add: step_sphere_def)
  show ?thesis
    by (rule derive_mutation_parts [OF assms(1-7)], unfold step)
      (simp only: derive_part_ok [OF ctx_ok(1) [OF assms(1)] _ _ au(2)] derive_part_ok [OF ctx_ok(2) [OF assms(1)] _ _ au(3)]
        derive_part_ok [OF ctx_ok(3) [OF assms(1)] _ _ au(4)] derive_part_ok [OF ctx_ok(4) [OF assms(1)] _ _ au(5)]
        rbind_simps effective_def au(1))
qed

section \<open>New spheres\<close>

lemma vmap_empty_saved:
  assumes "hamt_ok X" "store_ok (henv X) s"
  obtains b c s1 s2 where "vmap_empty X s = (Inr b, s1)" "save_value (henv X) vmap_to_ipld b s1 = (Inr c, s2)"
    "s \<subseteq>\<^sub>m s2" "store_ok (henv X) s2" "version_at X s2 c (Map.empty, changelog_default)"
proof -
  obtain b s1 where b: "vmap_empty X s = (Inr b, s1)"
    by (rule vm_empty_ok [OF assms])
  obtain c s2 where c: "vm_empty X s = (Inr c, s2)" "s \<subseteq>\<^sub>m s2" "store_ok (henv X) s2"
      "vm_at X s2 c Map.empty changelog_default"
    by (rule vm_empty_at [OF assms])
  then have "save_value (henv X) vmap_to_ipld b s1 = (Inr c, s2)" using b by (simp add: vm_empty_def)
  with b c show thesis by (intro that) simp_all
qed

lemma address_book_empty_ok:
  assumes "sphere_ok W" "store_ok (codecs W) s"
  obtains book c s1 s2 where "address_book_empty W s = (Inr book, s1)"
    "save_value (codecs W) address_book_to_ipld book s1 = (Inr c, s2)" "s \<subseteq>\<^sub>m s2" "store_ok (codecs W) s2"
    "value_at (codecs W) address_book_to_ipld s2 c book"
    "version_at (identities_ctx W) s2 (identities book) (Map.empty, changelog_default)"
proof -
  have st: "store_ok (henv (identities_ctx W)) s" using assms(2) by simp
  obtain b i s1 s2 where s2: "vmap_empty (identities_ctx W) s = (Inr b, s1)"
      "save_value (codecs W) vmap_to_ipld b s1 = (Inr i, s2)" "s \<subseteq>\<^sub>m s2" "store_ok (codecs W) s2"
      "version_at (identities_ctx W) s2 i (Map.empty, changelog_default)"
    by (rule vmap_empty_saved [OF ctx_ok(2) [OF assms(1)] st]) simp
  obtain c s3 where s3: "save_value (codecs W) address_book_to_ipld \<lparr>identities = i\<rparr> s2 = (Inr c, s3)"
      "value_at (codecs W) address_book_to_ipld s3 c \<lparr>identities = i\<rparr>" "s2 \<subseteq>\<^sub>m s3" "store_ok (codecs W) s3"
    by (rule save_value_ok [OF sphere_ok_env [OF assms(1)] s2(4) address_book_serde])
  have "address_book_empty W s = (Inr \<lparr>identities = i\<rparr>, s2)" using s2(1,2) by (simp add: address_book_empty_def)
  with s2 s3 show thesis
    by (intro that [of "\<lparr>identities = i\<rparr>" s2 c s3]) (auto intro: map_le_trans vm_at_mono)
qed

lemma authority_empty_ok:
  assumes "sphere_ok W" "store_ok (codecs W) s"
  obtains auth c s1 s2 where "authority_empty W s = (Inr auth, s1)"
    "save_value (codecs W) authority_to_ipld auth s1 = (Inr c, s2)" "s \<subseteq>\<^sub>m s2" "store_ok (codecs W) s2"
    "value_at (codecs W) authority_to_ipld s2 c auth"
    "version_at (delegations_ctx W) s2 (delegations auth) (Map.empty, changelog_default)"
    "version_at (revocations_ctx W) s2 (revocations auth) (Map.empty, changelog_default)"
proof -
  have st: "store_ok (henv (delegations_ctx W)) s" using assms(2) by simp
  obtain b d s1 s2 where s2: "vmap_empty (delegations_ctx W) s = (Inr b, s1)"
      "save_value (codecs W) vmap_to_ipld b s1 = (Inr d, s2)" "s \<subseteq>\<^sub>m s2" "store_ok (codecs W) s2"
      "version_at (delegations_ctx W) s2 d (Map.empty, changelog_default)"
    by (rule vmap_empty_saved [OF ctx_ok(3) [OF assms(1)] st]) simp
  have st2: "store_ok (henv (revocations_ctx W)) s2" using s2(4) by simp
  obtain b' r s3 s4 where s4: "vmap_empty (revocations_ctx W) s2 = (Inr b', s3)"
      "save_value (codecs W) vmap_to_ipld b' s3 = (Inr r, s4)" "s2 \<subseteq>\<^sub>m s4" "store_ok (codecs W) s4"
      "version_at (revocations_ctx W) s4 r (Map.empty, changelog_default)"
    by (rule vmap_empty_saved [OF ctx_ok(4) [OF assms(1)] st2]) simp
  let ?auth = "\<lparr>delegations = d, revocations = r\<rparr>"
  obtain c s5 where s5: "save_value (codecs W) authority_to_ipld ?auth s4 = (Inr c, s5)"
      "value_at (codecs W) authority_to_ipld s5 c ?auth" "s4 \<subseteq>\<^sub>m s5" "store_ok (codecs W) s5"
    by (rule save_value_ok [OF sphere_ok_env [OF assms(1)] s4(4) authority_serde])
  have "authority_empty W s = (Inr ?auth, s4)" using s2(1,2) s4(1,2) by (simp add: authority_empty_def)
  moreover have "version_at (delegations_ctx W) s5 d (Map.empty, changelog_default)"
    by (rule vm_at_mono [OF s2(5) map_le_trans [OF s4(3) s5(3)]])
  ultimately show thesis using s2 s4 s5
    by (intro that [of ?auth s4 c s5]) (auto intro: map_le_trans vm_at_mono)
qed

lemma sphere_new_ok:
  assumes "sphere_ok W" "store_ok (codecs W) s"
  obtains sp b s1 s2 where "sphere_ipld_new W d s = (Inr sp, s1)"
    "for_body (codecs W) sphere_to_ipld sp s1 = (Inr \<lparr>parent = None, headers = [], body = b\<rparr>, s2)"
    "s \<subseteq>\<^sub>m s2" "store_ok (codecs W) s2" "body_at W s2 b (empty_sphere d)"
proof -
  have st: "store_ok (henv (content_ctx W)) s" using assms(2) by simp
  obtain ct c1 s1 s2 where s2: "vmap_empty (content_ctx W) s = (Inr ct, s1)"
      "save_value (codecs W) vmap_to_ipld ct s1 = (Inr c1, s2)" "s \<subseteq>\<^sub>m s2" "store_ok (codecs W) s2"
      "version_at (content_ctx W) s2 c1 (Map.empty, changelog_default)"
    by (rule vmap_empty_saved [OF ctx_ok(1) [OF assms(1)] st]) simp
  obtain book c2 s3 s4 where s4: "address_book_empty W s2 = (Inr book, s3)"
      "save_value (codecs W) address_book_to_ipld book s3 = (Inr c2, s4)" "s2 \<subseteq>\<^sub>m s4" "store_ok (codecs W) s4"
      "value_at (codecs W) address_book_to_ipld s4 c2 book"
      "version_at (identities_ctx W) s4 (identities book) (Map.empty, changelog_default)"
    by (rule address_book_empty_ok [OF assms(1) s2(4)])
  obtain auth c3 s5 s6 where s6: "authority_empty W s4 = (Inr auth, s5)"
      "save_value (codecs W) authority_to_ipld auth s5 = (Inr c3, s6)" "s4 \<subseteq>\<^sub>m s6" "store_ok (codecs W) s6"
      "value_at (codecs W) authority_to_ipld s6 c3 auth"
      "version_at (delegations_ctx W) s6 (delegations auth) (Map.empty, changelog_default)"
      "version_at (revocations_ctx W) s6 (revocations auth) (Map.empty, changelog_default)"
    by (rule authority_empty_ok [OF assms(1) s4(4)])
  let ?sp = "\<lparr>identity = d, content = c1, address_book = c2, authority = c3, private_data = None\<rparr>"
  obtain b s7 where s7: "save_value (codecs W) sphere_to_ipld ?sp s6 = (Inr b, s7)"
      "value_at (codecs W) sphere_to_ipld s7 b ?sp" "s6 \<subseteq>\<^sub>m s7" "store_ok (codecs W) s7"
    by (rule save_value_ok [OF sphere_ok_env [OF assms(1)] s6(4) sphere_serde])
  have le: "s4 \<subseteq>\<^sub>m s7" "s2 \<subseteq>\<^sub>m s7" "s \<subseteq>\<^sub>m s7"
    using s2(3) s4(3) s6(3) s7(3) by (meson map_le_trans)+
  show thesis
  proof (rule that)
    show "sphere_ipld_new W d s = (Inr ?sp, s6)"
      by (simp add: sphere_ipld_new_def s2(1,2) s4(1,2) s6(1,2))
    show "for_body (codecs W) sphere_to_ipld ?sp s6 = (Inr \<lparr>parent = None, headers = [], body = b\<rparr>, s7)"
      by (simp add: for_body_def s7(1))
    show "body_at W s7 b (empty_sphere d)"
      unfolding body_at_def body_is_def empty_sphere_def
      by (rule exI [of _ ?sp], rule exI [of _ book], rule exI [of _ auth])
        (use s7(2) value_at_mono [OF s4(5) le(1)] value_at_mono [OF s6(5) s7(3)] vm_at_mono [OF s2(5) le(2)]
           vm_at_mono [OF s4(6) le(1)] vm_at_mono [OF s6(6) s7(3)] vm_at_mono [OF s6(7) s7(3)] in simp)
  qed (use le s7 in auto)
qed

section \<open>Hydrating\<close>

lemma step_new [simp]: "step_sphere (sphere_mutation_new d) \<sigma> = \<sigma>"
  by (simp add: step_sphere_def step_version_def sphere_mutation_new_def vmap_mutation_new_def)

lemma keys_ok_new:
  "keys_ok W (empty_sphere d) (sphere_mutation_new d')"
  by (simp add: keys_ok_def empty_sphere_def sphere_mutation_new_def vmap_mutation_new_def collision_free_def)

text \<open>A version of which only the changelogs are at hand is rebuilt from its parent.\<close>

lemma hydrate_child_ok:
  assumes "sphere_ok W" "store_ok (codecs W) s" "value_at (codecs W) memo_to_ipld s c m" "parent m = Some p"
    "value_at (codecs W) memo_to_ipld s p mp" "body_at W s (body mp) \<sigma>p" "body_sparse W s (body m) (step_sphere \<mu> \<sigma>p)"
    "get_first_header (header_str Author) m = Some d" "authored d \<mu>" "keys_ok W \<sigma>p \<mu>"
  obtains s' where "hydrate_with_cid W c s = (Inr (), s')" "s \<subseteq>\<^sub>m s'" "store_ok (codecs W) s'"
    "body_at W s' (body m) (step_sphere \<mu> \<sigma>p)"
proof -
  let ?\<nu> = "effective \<sigma>p \<mu>"
  have \<nu>: "derive_mutation W c s = Inr ?\<nu>"
    by (rule derive_mutation_ok [OF assms(1,3,4,5) body_at_sparse [OF assms(2,6)] assms(7-9)])
  obtain b s' where s': "apply_mutation_with_cid W p ?\<nu> s =
      (Inr \<lparr>rev_identity = st_identity \<sigma>p, rev_memo = (branch_memo p mp)\<lparr>body := b\<rparr>\<rparr>, s')"
      "s \<subseteq>\<^sub>m s'" "store_ok (codecs W) s'" "body_at W s' b (step_sphere ?\<nu> \<sigma>p)"
    by (rule apply_mutation_ok [OF assms(1,2,5,6) keys_ok_effective [OF assms(10)]])
  note s' = s' [unfolded step_effective]
  have "b = body m" by (rule body_sparse_cid [OF body_at_sparse [OF s'(3,4)] assms(7)])
  moreover have "to_memo W c s = Inr m"
    unfolding to_memo_def by (rule load_value_ok [OF sphere_ok_env [OF assms(1)] memo_serde assms(3)])
  ultimately show thesis using s' \<nu> assms(4) by (intro that [of s']) (simp_all add: hydrate_with_cid_def)
qed

text \<open>The first version of a sphere is hydrated from the empty sphere.\<close>

lemma hydrate_genesis_ok:
  assumes "sphere_ok W" "store_ok (codecs W) s" "value_at (codecs W) memo_to_ipld s c m" "parent m = None"
    "body_sparse W s (body m) (empty_sphere d)" "get_first_header (header_str Author) m = Some a"
  obtains s' where "hydrate_with_cid W c s = (Inr (), s')" "s \<subseteq>\<^sub>m s'" "store_ok (codecs W) s'"
    "body_at W s' (body m) (empty_sphere d)"
proof -
  note env = sphere_ok_env [OF assms(1)]
  have memo: "to_memo W c t = Inr m" if "s \<subseteq>\<^sub>m t" for t
    unfolding to_memo_def by (rule load_value_ok [OF env memo_serde value_at_mono [OF assms(3) that]])
  obtain sp where sp: "value_at (codecs W) sphere_to_ipld s (body m) sp" "identity sp = d"
    using assms(5) by (auto simp: body_sparse_def body_is_def empty_sphere_def)
  have id: "get_identity W c s = Inr d"
    using sp(2) by (simp add: get_identity_def to_body_def memo load_value_ok [OF env sphere_serde sp(1)])
  obtain sp0 b s1 s2 where s2: "sphere_ipld_new W d s = (Inr sp0, s1)"
      "for_body (codecs W) sphere_to_ipld sp0 s1 = (Inr \<lparr>parent = None, headers = [], body = b\<rparr>, s2)"
      "s \<subseteq>\<^sub>m s2" "store_ok (codecs W) s2" "body_at W s2 b (empty_sphere d)"
    by (rule sphere_new_ok [OF assms(1,2)])
  let ?m0 = "\<lparr>parent = None, headers = [], body = b\<rparr>"
  obtain p s3 where s3: "save_value (codecs W) memo_to_ipld ?m0 s2 = (Inr p, s3)"
      "value_at (codecs W) memo_to_ipld s3 p ?m0" "s2 \<subseteq>\<^sub>m s3" "store_ok (codecs W) s3"
    by (rule save_value_ok [OF env s2(4) memo_serde])
  have le: "s \<subseteq>\<^sub>m s3" by (rule map_le_trans [OF s2(3) s3(3)])
  have dm: "derive_mutation W c s3 = Inr (sphere_mutation_new a)"
    using assms(4,6) memo [OF le] by (simp add: derive_mutation_def get_parent_def)
  have "body_at W s3 (body ?m0) (empty_sphere d)" using body_at_mono [OF s2(5) s3(3)] by simp
  then obtain b' s4 where s4: "apply_mutation_with_cid W p (sphere_mutation_new a) s3 =
      (Inr \<lparr>rev_identity = st_identity (empty_sphere d), rev_memo = (branch_memo p ?m0)\<lparr>body := b'\<rparr>\<rparr>, s4)"
      "s3 \<subseteq>\<^sub>m s4" "store_ok (codecs W) s4" "body_at W s4 b' (empty_sphere d)"
    using apply_mutation_ok [OF assms(1) s3(4,2) _ keys_ok_new] by (metis step_new)
  have "b' = body m" by (rule body_sparse_cid [OF body_at_sparse [OF s4(3,4)] assms(5)])
  with s4 le show thesis
    by (intro that [of s4])
      (auto simp: hydrate_with_cid_def memo assms(4) id s2(1,2) s3(1) dm intro: map_le_trans)
qed

end
