(* ===== verification/Sphere_History.thy ===== *)
theory Sphere_History
  imports Sphere_Rep
begin

text \<open>
  Histories of a sphere: signing a revision, hydrating a series of versions, compacting a
  series into one version, and rebasing a series onto another version.
\<close>

section \<open>Keys in use\<close>

text \<open>
  A universe of keys without hash collisions: \<open>KS\<close> for slugs and petnames, \<open>KC\<close> for tokens.
\<close>

definition universe_ok :: "world \<Rightarrow> string set \<Rightarrow> cid set \<Rightarrow> bool" where
  "universe_ok W KS KC \<longleftrightarrow>
     collision_free (content_ctx W) KS \<and> collision_free (identities_ctx W) KS \<and>
     collision_free (delegations_ctx W) KC \<and> collision_free (revocations_ctx W) KC"

definition state_in :: "string set \<Rightarrow> cid set \<Rightarrow> sphere_state \<Rightarrow> bool" where
  "state_in KS KC \<sigma> \<longleftrightarrow>
     dom (fst (st_content \<sigma>)) \<subseteq> KS \<and> dom (fst (st_identities \<sigma>)) \<subseteq> KS \<and>
     dom (fst (st_delegations \<sigma>)) \<subseteq> KC \<and> dom (fst (st_revocations \<sigma>)) \<subseteq> KC"

definition mutation_in :: "string set \<Rightarrow> cid set \<Rightarrow> sphere_mutation \<Rightarrow> bool" where
  "mutation_in KS KC \<mu> \<longleftrightarrow>
     op_key ` set (mut_changes (sm_content \<mu>)) \<subseteq> KS \<and> op_key ` set (mut_changes (sm_identities \<mu>)) \<subseteq> KS \<and>
     op_key ` set (mut_changes (sm_delegations \<mu>)) \<subseteq> KC \<and> op_key ` set (mut_changes (sm_revocations \<mu>)) \<subseteq> KC"

lemma keys_ok_in:
  "universe_ok W KS KC \<Longrightarrow> state_in KS KC \<sigma> \<Longrightarrow> mutation_in KS KC \<mu> \<Longrightarrow> keys_ok W \<sigma> \<mu>"
  unfolding universe_ok_def state_in_def mutation_in_def keys_ok_def
  by (elim conjE, intro conjI; (erule collision_free_subset, simp))

lemma dom_run_op: "dom (run_op x m) \<subseteq> insert (op_key x) (dom m)"
  by (cases x) auto

lemma dom_run_ops: "dom (run_ops ops m) \<subseteq> dom m \<union> op_key ` set ops"
proof (induction ops arbitrary: m)
  case (Cons x ops)
  show ?case
    unfolding run_ops_simps list.set(2) image_insert
    using Cons.IH [of "run_op x m"] dom_run_op [of x m] by blast
qed simp

lemma dom_step_version: "dom (fst (step_version \<mu> v)) \<subseteq> dom (fst v) \<union> op_key ` set (mut_changes \<mu>)"
  using dom_run_ops [of "mut_changes \<mu>" "fst v"] by (auto simp: step_version_def)

lemma step_version_in:
  "dom (fst v) \<subseteq> K \<Longrightarrow> op_key ` set (mut_changes \<mu>) \<subseteq> K \<Longrightarrow> dom (fst (step_version \<mu> v)) \<subseteq> K"
  by (rule order_trans [OF dom_step_version]) simp

lemma state_in_step: "state_in KS KC \<sigma> \<Longrightarrow> mutation_in KS KC \<mu> \<Longrightarrow> state_in KS KC (step_sphere \<mu> \<sigma>)"
  unfolding state_in_def mutation_in_def step_sphere_def by (simp add: step_version_in)

section \<open>Signing\<close>

definition key_total :: "key_material \<Rightarrow> did \<Rightarrow> bool" where
  "key_total key d \<longleftrightarrow> km_did key = Inr d \<and> (\<forall>b. \<exists>sig. km_sign key b = Inr sig)"

definition auth_ok :: "world \<Rightarrow> blocks \<Rightarrow> authorization option \<Rightarrow> bool" where
  "auth_ok W s auth \<longleftrightarrow> (\<forall>z. auth = Some z \<longrightarrow> (\<exists>u. as_ucan W s z = Inr u))"

lemma auth_ok_None: "auth_ok W s None"
  by (simp add: auth_ok_def)

lemma require_token_cong: "s' c = s c \<Longrightarrow> require_token W c s' = require_token W c s"
  by (simp add: require_token_def read_token_def get_def get_block_def)

lemma as_ucan_mono:
  assumes "as_ucan W s z = Inr u" "s \<subseteq>\<^sub>m s'"
  shows "as_ucan W s' z = Inr u"
proof (cases z)
  case (AuthCid c)
  then obtain t where t: "require_token W c s = Inr t" "ucan_from_str W t = Inr u" using assms(1) by auto
  then have "\<exists>b. s c = Some b"
    by (auto simp: require_token_def read_token_def get_def get_block_def split: option.splits if_splits)
  then have "s' c = s c" using assms(2) by (auto dest: map_leD)
  with t show ?thesis using require_token_cong [of s' c s W] by (simp add: AuthCid)
qed (use assms in simp)

lemma auth_ok_mono: "auth_ok W s auth \<Longrightarrow> s \<subseteq>\<^sub>m s' \<Longrightarrow> auth_ok W s' auth"
  unfolding auth_ok_def using as_ucan_mono by blast

lemma sign_one_capability:
  assumes "jwt_ok W" "key_total (sg_issuer g) d" "sg_capabilities g = [c]" "is_object (cap_caveat c)"
  shows "\<exists>u. signable_sign W nonce g = Inr u"
proof -
  obtain m where "capabilities_from_vec (sg_capabilities g) = Inr m"
    using capabilities_from_vec_ok [of "[c]"] assms(3,4) by auto
  then obtain p where p: "signable_payload W nonce g = Inr p"
    using assms(2) by (simp add: signable_payload_def key_total_def)
  obtain h q where "header_base64 W (signable_header g) = Inr (base64_encode (texts W) h)"
      "payload_base64 W p = Inr (base64_encode (texts W) q)"
    by (rule base64_parts [OF assms(1)])
  moreover have "\<exists>sig. km_sign (sg_issuer g) x = Inr sig" for x using assms(2) by (simp add: key_total_def)
  ultimately show ?thesis using p by (simp add: signable_sign_def Let_def)
qed

lemma revision_proof_ok:
  assumes "jwt_ok W" "key_total key d" "auth_ok W s auth"
  shows "\<exists>u. revision_proof W now nonce sphere key auth s = Inr u"
proof (cases auth)
  case None
  then show ?thesis by (simp add: revision_proof_def)
next
  case (Some z)
  then obtain w where w: "as_ucan W s z = Inr w" using assms(3) by (auto simp: auth_ok_def)
  let ?b = "with_nonce (claiming_capability (capability_of SPHERE_SEMANTICS (generate_capability sphere Publish))
    (witnessed_by W w (with_lifetime 120 (for_audience sphere (issued_by key builder_default)))))"
  have b: "b_issuer ?b = Some key" "b_audience ?b = Some sphere"
      "b_capabilities ?b = [capability_of SPHERE_SEMANTICS (generate_capability sphere Publish)]"
    by (simp_all add: with_nonce_def claiming_capability_def witnessed_by_def with_lifetime_def for_audience_def
        issued_by_def builder_default_def split: sum.split)
  then obtain g where g: "build now ?b = Inr g" "sg_issuer g = key" "sg_capabilities g = b_capabilities ?b"
    by (simp add: build_def)
  have "\<exists>u. signable_sign W nonce g = Inr u"
    by (rule sign_one_capability [OF assms(1), of _ d])
      (use assms(2) g b in \<open>auto simp: capability_of_def generate_capability_def\<close>)
  with Some w g(1) show ?thesis by (auto simp: revision_proof_def build_and_sign_def)
qed

text \<open>A signed revision is stored under the new CID with the signer as its author.\<close>

lemma revision_sign_ok:
  assumes "env_ok (codecs W)" "jwt_ok W" "key_total key d" "auth_ok W s auth" "store_ok (codecs W) s"
  obtains c m s' where "revision_sign W now nonce key auth r s = (Inr c, s')" "s \<subseteq>\<^sub>m s'" "store_ok (codecs W) s'"
    "value_at (codecs W) memo_to_ipld s' c m" "parent m = parent (rev_memo r)" "body m = body (rev_memo r)"
    "get_first_header (header_str Author) m = Some d" "lamport_order m = lamport_order (rev_memo r)"
proof -
  obtain u where u: "revision_proof W now nonce (rev_identity r) key auth s = Inr u"
    using revision_proof_ok [OF assms(2-4)] by blast
  obtain p where p: "map_option (ucan_encode W) u = map_option Inr p"
  proof (cases u)
    case (Some a)
    obtain t where "ucan_encode W a = Inr t" using encode_total [OF assms(2)] by blast
    with Some show thesis by (intro that [of "Some t"]) simp
  qed (use that [of None] in simp)
  obtain sig where sig: "km_sign key (cid_to_bytes (texts W) (body (rev_memo r))) = Inr sig"
    using assms(3) by (auto simp: key_total_def)
  have d: "km_did key = Inr d" using assms(3) by (simp add: key_total_def)
  obtain m where m: "memo_sign (texts W) key (map_option Inr p) (rev_memo r) = (Inr (), m)"
      "parent m = parent (rev_memo r)" "body m = body (rev_memo r)" "get_first_header ''Author'' m = Some d"
      "\<And>n. \<not> same_name n ''Author'' \<Longrightarrow> \<not> same_name n ''Signature'' \<Longrightarrow> \<not> same_name n ''Proof'' \<Longrightarrow>
         get_first_header n m = get_first_header n (rev_memo r)"
    by (rule memo_sign_ok [OF sig d, of p]) blast
  obtain c s' where s': "save_value (codecs W) memo_to_ipld m s = (Inr c, s')"
      "value_at (codecs W) memo_to_ipld s' c m" "s \<subseteq>\<^sub>m s'" "store_ok (codecs W) s'"
    by (rule save_value_ok [OF assms(1,5) memo_serde])
  have "lamport_order m = lamport_order (rev_memo r)" using m(5) by (simp add: lamport_order_def)
  then show thesis using s' m u p by (intro that [of c s' m]) (simp_all add: revision_sign_def)
qed

section \<open>Series of versions\<close>

type_synonym base = "cid \<times> memo \<times> sphere_state"

text \<open>
  \<open>revisions\<close>: versions in chronological order after a base. Each is stored with its
  changelogs, is the child of the one before, and comes from it by its author's mutation.
\<close>

fun revisions ::
    "world \<Rightarrow> blocks \<Rightarrow> string set \<Rightarrow> cid set \<Rightarrow> base \<Rightarrow> (cid \<times> memo \<times> sphere_mutation) list \<Rightarrow> bool" where
  "revisions W s KS KC bs [] = True"
| "revisions W s KS KC (p, mp, \<sigma>p) ((c, m, \<mu>) # rs) =
     (value_at (codecs W) memo_to_ipld s c m \<and> parent m = Some p \<and>
      body_sparse W s (body m) (step_sphere \<mu> \<sigma>p) \<and> mutation_in KS KC \<mu> \<and>
      (\<exists>d. get_first_header (header_str Author) m = Some d \<and> authored d \<mu>) \<and>
      revisions W s KS KC (c, m, step_sphere \<mu> \<sigma>p) rs)"

definition final_state :: "(cid \<times> memo \<times> sphere_mutation) list \<Rightarrow> sphere_state \<Rightarrow> sphere_state" where
  "final_state rs \<sigma> = fold (\<lambda>(_, _, \<mu>). step_sphere \<mu>) rs \<sigma>"

lemma final_state_simps [simp]:
  "final_state [] \<sigma> = \<sigma>" "final_state ((c, m, \<mu>) # rs) \<sigma> = final_state rs (step_sphere \<mu> \<sigma>)"
  by (simp_all add: final_state_def)

lemma revisions_mono: "revisions W s KS KC bs rs \<Longrightarrow> s \<subseteq>\<^sub>m s' \<Longrightarrow> revisions W s' KS KC bs rs"
  by (induction W s KS KC bs rs rule: revisions.induct) (auto intro: value_at_mono body_sparse_mono)

text \<open>A complete version to start from.\<close>

definition base_at :: "world \<Rightarrow> blocks \<Rightarrow> string set \<Rightarrow> cid set \<Rightarrow> base \<Rightarrow> bool" where
  "base_at W s KS KC bs = (case bs of (p, mp, \<sigma>p) \<Rightarrow>
     value_at (codecs W) memo_to_ipld s p mp \<and> body_at W s (body mp) \<sigma>p \<and> state_in KS KC \<sigma>p)"

lemma base_at_mono: "base_at W s KS KC bs \<Longrightarrow> s \<subseteq>\<^sub>m s' \<Longrightarrow> base_at W s' KS KC bs"
  by (auto simp: base_at_def intro: value_at_mono body_at_mono)

text \<open>Hydrating a series makes its last version complete.\<close>

definition last_version :: "base \<Rightarrow> (cid \<times> memo \<times> sphere_mutation) list \<Rightarrow> base" where
  "last_version bs rs = (case bs of (p, mp, \<sigma>p) \<Rightarrow>
     if rs = [] then bs else (fst (last rs), fst (snd (last rs)), final_state rs \<sigma>p))"

lemma last_version_simps [simp]:
  "last_version bs [] = bs"
  "last_version (p, mp, \<sigma>p) ((c, m, \<mu>) # rs) = last_version (c, m, step_sphere \<mu> \<sigma>p) rs"
  by (simp_all add: last_version_def split: prod.split)

lemma hydrate_all_ok:
  "sphere_ok W \<Longrightarrow> universe_ok W KS KC \<Longrightarrow> store_ok (codecs W) s \<Longrightarrow> base_at W s KS KC bs \<Longrightarrow>
   revisions W s KS KC bs rs \<Longrightarrow>
   \<exists>s'. hydrate_all W (map fst rs) s = (Inr (), s') \<and> s \<subseteq>\<^sub>m s' \<and> store_ok (codecs W) s' \<and>
     base_at W s' KS KC (last_version bs rs)"
proof (induction rs arbitrary: bs s)
  case Nil
  then show ?case by simp
next
  case (Cons r rs)
  obtain p mp \<sigma>p where bs: "bs = (p, mp, \<sigma>p)" by (cases bs)
  obtain c m \<mu> where r: "r = (c, m, \<mu>)" by (cases r)
  note R = Cons.prems(5) [unfolded bs r revisions.simps] and B = Cons.prems(4) [unfolded bs base_at_def prod.case]
  obtain d where d: "get_first_header (header_str Author) m = Some d" "authored d \<mu>" using R by blast
  have k: "keys_ok W \<sigma>p \<mu>" using keys_ok_in [OF Cons.prems(2)] R B by blast
  obtain s1 where s1: "hydrate_with_cid W c s = (Inr (), s1)" "s \<subseteq>\<^sub>m s1" "store_ok (codecs W) s1"
      "body_at W s1 (body m) (step_sphere \<mu> \<sigma>p)"
    by (rule hydrate_child_ok [OF Cons.prems(1,3), of c m p mp \<sigma>p \<mu> d]) (use R B d k in auto)
  have "base_at W s1 KS KC (c, m, step_sphere \<mu> \<sigma>p)"
    using s1(4) R B state_in_step value_at_mono [OF _ s1(2)] by (auto simp: base_at_def)
  moreover have "revisions W s1 KS KC (c, m, step_sphere \<mu> \<sigma>p) rs" using revisions_mono s1(2) R by blast
  ultimately obtain s' where "hydrate_all W (map fst rs) s1 = (Inr (), s')" "s1 \<subseteq>\<^sub>m s'" "store_ok (codecs W) s'"
      "base_at W s' KS KC (last_version (c, m, step_sphere \<mu> \<sigma>p) rs)"
    using Cons.IH [OF Cons.prems(1,2) s1(3)] by blast
  with s1 show ?case by (auto simp: bs r intro: map_le_trans)
qed

section \<open>The lineage of a series\<close>

abbreviation versions_of :: "(cid \<times> memo \<times> sphere_mutation) list \<Rightarrow> (cid \<times> memo) list" where
  "versions_of rs \<equiv> map (\<lambda>(c, m, _). (c, m)) rs"

lemma fst_versions_of [simp]: "map fst (versions_of rs) = map fst rs"
  by (induction rs) auto

lemma lineage_revisions:
  "lineage (codecs W) s ((p, mp) # hs) \<Longrightarrow> revisions W s KS KC (p, mp, \<sigma>p) rs \<Longrightarrow>
   lineage (codecs W) s (rev (versions_of rs) @ (p, mp) # hs)"
proof (induction rs arbitrary: p mp \<sigma>p hs)
  case (Cons r rs)
  obtain c m \<mu> where r: "r = (c, m, \<mu>)" by (cases r)
  have "lineage (codecs W) s ((c, m) # (p, mp) # hs)" using Cons.prems r by simp
  moreover have "revisions W s KS KC (c, m, step_sphere \<mu> \<sigma>p) rs" using Cons.prems r by simp
  ultimately show ?case using Cons.IH [of c m "(p, mp) # hs"] by (simp add: r)
qed simp

lemma series_exclude:
  assumes "env_ok (codecs W)" "lineage (codecs W) s ((p, mp) # hs)" "revisions W s KS KC (p, mp, \<sigma>p) rs" "rs \<noteq> []"
    "length rs < f"
  shows "to_chronological f (codecs W) s (without_past (slice (fst (last rs)) (Some p))) = Inr (map fst rs)"
  using chronological_exclude [OF assms(1) lineage_revisions [OF assms(2,3)], of f] assms(4,5)
  by (simp add: hd_rev last_map rev_map [symmetric] case_prod_beta)

lemma series_include:
  assumes "env_ok (codecs W)" "lineage (codecs W) s ((p, mp) # hs)" "revisions W s KS KC (p, mp, \<sigma>p) rs" "rs \<noteq> []"
    "length rs < f"
  shows "to_chronological f (codecs W) s (with_past (slice (fst (last rs)) (Some (fst (hd rs))))) = Inr (map fst rs)"
proof -
  obtain r qs where rs: "rs = r # qs" using assms(4) by (cases rs) auto
  obtain c m \<mu> where r: "r = (c, m, \<mu>)" by (cases r)
  have "lineage (codecs W) s (rev (versions_of qs) @ (c, m) # (p, mp) # hs)"
    using lineage_revisions [OF assms(2,3)] rs r by simp
  moreover have "hd (rev (versions_of qs) @ [(c, m)]) = (case last rs of (c, m, _) \<Rightarrow> (c, m))"
    by (cases qs rule: rev_cases) (simp_all add: rs r)
  ultimately show ?thesis
    using chronological_include [OF assms(1), of s "rev (versions_of qs)" "(c, m)" "(p, mp) # hs" f] assms(5)
    by (simp add: rs r rev_map [symmetric] case_prod_beta)
qed

section \<open>The maps of a sphere\<close>

text \<open>What is left of a sphere when its changelogs are forgotten.\<close>

definition sphere_maps where
  "sphere_maps \<sigma> = (st_identity \<sigma>, st_private \<sigma>, fst (st_content \<sigma>), fst (st_identities \<sigma>), fst (st_delegations \<sigma>),
     fst (st_revocations \<sigma>))"

lemma fst_step_version: "fst (step_version \<mu> v) = run_ops (mut_changes \<mu>) (fst v)"
  by (simp add: step_version_def)

lemma sphere_maps_step_cong: "sphere_maps \<sigma> = sphere_maps \<tau> \<Longrightarrow> sphere_maps (step_sphere \<mu> \<sigma>) = sphere_maps (step_sphere \<mu> \<tau>)"
  by (simp add: sphere_maps_def step_sphere_def fst_step_version)

lemma sphere_maps_append:
  "sphere_maps (step_sphere (mutation_append \<mu> \<nu>) \<sigma>) = sphere_maps (step_sphere \<nu> (step_sphere \<mu> \<sigma>))"
  by (simp add: sphere_maps_def step_sphere_def fst_step_version mutation_append_def append_to_def run_append_changes)

lemma set_append_changes: "set (append_changes xs ys) \<subseteq> set xs \<union> set ys"
  by (induction xs ys rule: append_changes.induct) auto

lemma mut_changes_append_to: "set (mut_changes (append_to a b)) \<subseteq> set (mut_changes a) \<union> set (mut_changes b)"
  using set_append_changes by (simp add: append_to_def)

lemma append_to_keys:
  "op_key ` set (mut_changes a) \<subseteq> K \<Longrightarrow> op_key ` set (mut_changes b) \<subseteq> K \<Longrightarrow>
   op_key ` set (mut_changes (append_to a b)) \<subseteq> K"
  by (rule order_trans [OF image_mono [OF mut_changes_append_to]]) (simp add: image_Un)

lemma mutation_in_append: "mutation_in KS KC \<mu> \<Longrightarrow> mutation_in KS KC \<nu> \<Longrightarrow> mutation_in KS KC (mutation_append \<mu> \<nu>)"
  unfolding mutation_in_def mutation_append_def by (simp add: append_to_keys)

lemma effective_keys: "op_key ` set (mut_changes \<mu>) \<subseteq> K \<Longrightarrow> op_key ` set (mut_changes (effective_changes v \<mu>)) \<subseteq> K"
  by (rule order_trans [OF image_mono [OF effective_changes_subset]])

lemma mutation_in_effective: "mutation_in KS KC \<mu> \<Longrightarrow> mutation_in KS KC (effective \<sigma> \<mu>)"
  unfolding mutation_in_def effective_def by (simp add: effective_keys)

lemma mutation_in_new: "mutation_in KS KC (sphere_mutation_new d)"
  by (simp add: mutation_in_def sphere_mutation_new_def vmap_mutation_new_def)

lemma authored_append: "authored d (mutation_append \<mu> \<nu>) \<longleftrightarrow> authored d \<mu>"
  by (simp add: authored_def mutation_append_def append_to_def)

lemma authored_new: "authored d (sphere_mutation_new d)"
  by (simp add: authored_def sphere_mutation_new_def vmap_mutation_new_def)

section \<open>Compaction\<close>

text \<open>The derived mutations of a series, one appended to the other, have the effect of the series.\<close>

lemma derive_all_ok:
  assumes "sphere_ok W" "value_at (codecs W) memo_to_ipld s p mp" "body_sparse W s (body mp) \<sigma>p"
    "revisions W s KS KC (p, mp, \<sigma>p) rs" "mutation_in KS KC \<mu>0" "authored d \<mu>0"
    "sphere_maps (step_sphere \<mu>0 \<sigma>) = sphere_maps \<sigma>p"
  shows "\<exists>\<mu>. derive_all W (map fst rs) s \<mu>0 = Inr \<mu> \<and> mutation_in KS KC \<mu> \<and> authored d \<mu> \<and>
    sphere_maps (step_sphere \<mu> \<sigma>) = sphere_maps (final_state rs \<sigma>p)"
  using assms(2-)
proof (induction rs arbitrary: p mp \<sigma>p \<mu>0)
  case (Cons r rs)
  obtain c m \<mu> where r: "r = (c, m, \<mu>)" by (cases r)
  note R = Cons.prems(3) [unfolded r revisions.simps]
  obtain a where a: "get_first_header (header_str Author) m = Some a" "authored a \<mu>" using R by blast
  have dm: "derive_mutation W c s = Inr (effective \<sigma>p \<mu>)"
    by (rule derive_mutation_ok [OF assms(1) _ _ Cons.prems(1,2) _ a]) (use R in auto)
  let ?\<nu> = "mutation_append \<mu>0 (effective \<sigma>p \<mu>)"
  have "sphere_maps (step_sphere ?\<nu> \<sigma>) = sphere_maps (step_sphere \<mu> \<sigma>p)"
    using sphere_maps_step_cong [OF Cons.prems(6), of "effective \<sigma>p \<mu>"] by (simp add: sphere_maps_append)
  moreover have "mutation_in KS KC ?\<nu>" "authored d ?\<nu>"
    using Cons.prems(4,5) R by (simp_all add: mutation_in_append mutation_in_effective authored_append)
  ultimately have "\<exists>\<mu>'. derive_all W (map fst rs) s ?\<nu> = Inr \<mu>' \<and> mutation_in KS KC \<mu>' \<and> authored d \<mu>' \<and>
      sphere_maps (step_sphere \<mu>' \<sigma>) = sphere_maps (final_state rs (step_sphere \<mu> \<sigma>p))"
    by (intro Cons.IH) (use R in auto)
  then show ?case by (simp add: r dm)
qed simp

lemma authored_header:
  assumes "sphere_ok W" "jwt_ok W" "key_total key d" "auth_ok W s auth" "store_ok (codecs W) s"
    "value_at (codecs W) memo_to_ipld s p mp" "body_at W s (body mp) \<sigma>p" "state_in KS KC \<sigma>p"
    "universe_ok W KS KC" "mutation_in KS KC \<mu>"
  obtains c m s' where
    "sbind (apply_mutation_with_cid W p \<mu> s) (\<lambda>r s. revision_sign W now nonce key auth r s) = (Inr c, s')"
    "s \<subseteq>\<^sub>m s'" "store_ok (codecs W) s'" "value_at (codecs W) memo_to_ipld s' c m" "parent m = Some p"
    "get_first_header (header_str Author) m = Some d" "base_at W s' KS KC (c, m, step_sphere \<mu> \<sigma>p)"
proof -
  obtain b s1 where s1: "apply_mutation_with_cid W p \<mu> s =
      (Inr \<lparr>rev_identity = st_identity \<sigma>p, rev_memo = (branch_memo p mp)\<lparr>body := b\<rparr>\<rparr>, s1)"
      "s \<subseteq>\<^sub>m s1" "store_ok (codecs W) s1" "body_at W s1 b (step_sphere \<mu> \<sigma>p)"
    by (rule apply_mutation_ok [OF assms(1,5,6,7) keys_ok_in [OF assms(9,8,10)]])
  let ?r = "\<lparr>rev_identity = st_identity \<sigma>p, rev_memo = (branch_memo p mp)\<lparr>body := b\<rparr>\<rparr>"
  obtain c m s' where s': "revision_sign W now nonce key auth ?r s1 = (Inr c, s')" "s1 \<subseteq>\<^sub>m s'" "store_ok (codecs W) s'"
      "value_at (codecs W) memo_to_ipld s' c m" "parent m = parent (rev_memo ?r)" "body m = body (rev_memo ?r)"
      "get_first_header (header_str Author) m = Some d"
    by (rule revision_sign_ok [OF sphere_ok_env [OF assms(1)] assms(2,3) auth_ok_mono [OF assms(4) s1(2)] s1(3)]) blast
  show thesis
    by (rule that [of c s' m])
      (use s1 s' body_at_mono [OF s1(4) s'(2)] state_in_step [OF assms(8,10)] in
        \<open>auto simp: base_at_def branch_memo_fields intro: map_le_trans\<close>)
qed

lemma compact_ok:
  assumes "sphere_ok W" "jwt_ok W" "universe_ok W KS KC" "key_total (author_key a) d"
    "auth_ok W s (author_authorization a)" "store_ok (codecs W) s" "base_at W s KS KC (p, mp, \<sigma>p)"
    "lineage (codecs W) s ((p, mp) # hs)" "revisions W s KS KC (p, mp, \<sigma>p) rs" "rs \<noteq> []" "length rs < f"
  obtains c m \<mu> s' where
    "compact f W now nonce (fst (last rs)) (fst (hd rs)) a s = (Inr c, s')" "s \<subseteq>\<^sub>m s'" "store_ok (codecs W) s'"
    "base_at W s' KS KC (c, m, step_sphere \<mu> \<sigma>p)" "revisions W s' KS KC (p, mp, \<sigma>p) [(c, m, \<mu>)]"
    "sphere_maps (step_sphere \<mu> \<sigma>p) = sphere_maps (final_state rs \<sigma>p)"
proof -
  note env = sphere_ok_env [OF assms(1)]
  have B: "value_at (codecs W) memo_to_ipld s p mp" "body_at W s (body mp) \<sigma>p" "state_in KS KC \<sigma>p"
    using assms(7) by (simp_all add: base_at_def)
  obtain \<mu> where \<mu>: "derive_all W (map fst rs) s (sphere_mutation_new d) = Inr \<mu>" "mutation_in KS KC \<mu>" "authored d \<mu>"
      "sphere_maps (step_sphere \<mu> \<sigma>p) = sphere_maps (final_state rs \<sigma>p)"
    using derive_all_ok [OF assms(1) B(1) body_at_sparse [OF assms(6) B(2)] assms(9) mutation_in_new authored_new, where \<sigma> = \<sigma>p]
    by auto
  obtain c m s' where s': "sbind (apply_mutation_with_cid W p \<mu> s)
        (\<lambda>r s. revision_sign W now nonce (author_key a) (author_authorization a) r s) = (Inr c, s')"
      "s \<subseteq>\<^sub>m s'" "store_ok (codecs W) s'" "value_at (codecs W) memo_to_ipld s' c m" "parent m = Some p"
      "get_first_header (header_str Author) m = Some d" "base_at W s' KS KC (c, m, step_sphere \<mu> \<sigma>p)"
    by (rule authored_header [OF assms(1,2,4,5,6) B assms(3) \<mu>(2)])
  obtain c1 m1 \<mu>1 qs where rs: "rs = (c1, m1, \<mu>1) # qs" using assms(10) by (cases rs) auto
  have "get_parent W (fst (hd rs)) s = Inr (Some p)"
    using assms(9) load_value_ok [OF env memo_serde, of s c1 m1] by (simp add: rs get_parent_def to_memo_def)
  then have "compact f W now nonce (fst (last rs)) (fst (hd rs)) a s = (Inr c, s')"
    using series_include [OF env assms(8-11)] \<mu>(1) s'(1) assms(4) by (simp add: compact_def key_total_def)
  moreover have "revisions W s' KS KC (p, mp, \<sigma>p) [(c, m, \<mu>)]"
    using s' \<mu> body_at_sparse [OF s'(3)] by (auto simp: base_at_def)
  ultimately show thesis using that s' \<mu>(4) by blast
qed

section \<open>Rebasing\<close>

text \<open>The mutations of a series that started at \<open>\<sigma>\<close>, as far as they can be seen, done on \<open>\<tau>\<close>.\<close>

fun replay :: "sphere_state \<Rightarrow> (cid \<times> memo \<times> sphere_mutation) list \<Rightarrow> sphere_state \<Rightarrow> sphere_state" where
  "replay \<sigma> [] \<tau> = \<tau>"
| "replay \<sigma> ((c, m, \<mu>) # rs) \<tau> = replay (step_sphere \<mu> \<sigma>) rs (step_sphere (effective \<sigma> \<mu>) \<tau>)"

text \<open>The series \<open>rs'\<close> after a new base repeats the series \<open>rs\<close>, signed by \<open>d\<close>.\<close>

fun replayed ::
    "world \<Rightarrow> blocks \<Rightarrow> did \<Rightarrow> sphere_state \<Rightarrow> (cid \<times> memo \<times> sphere_mutation) list \<Rightarrow> base \<Rightarrow>
     (cid \<times> memo \<times> sphere_mutation) list \<Rightarrow> bool" where
  "replayed W s d \<sigma> [] bs rs' \<longleftrightarrow> rs' = []"
| "replayed W s d \<sigma> ((c, m, \<mu>) # rs) (p, mp, \<tau>) rs' \<longleftrightarrow>
     (\<exists>c' m' qs. rs' = (c', m', effective \<sigma> \<mu>) # qs \<and>
        value_at (codecs W) memo_to_ipld s c' m' \<and> parent m' = Some p \<and>
        get_first_header (header_str Author) m' = Some d \<and>
        body_sparse W s (body m') (step_sphere (effective \<sigma> \<mu>) \<tau>) \<and>
        replayed W s d (step_sphere \<mu> \<sigma>) rs (c', m', step_sphere (effective \<sigma> \<mu>) \<tau>) qs)"

lemma replayed_mono: "replayed W s d \<sigma> rs bs rs' \<Longrightarrow> s \<subseteq>\<^sub>m s' \<Longrightarrow> replayed W s' d \<sigma> rs bs rs'"
  by (induction W s d \<sigma> rs bs rs' rule: replayed.induct) (auto intro: value_at_mono body_sparse_mono)

lemma replayed_state:
  "replayed W s d \<sigma> rs (q, mq, \<tau>) rs' \<Longrightarrow> snd (snd (last_version (q, mq, \<tau>) rs')) = replay \<sigma> rs \<tau>"
proof (induction rs arbitrary: q mq \<tau> \<sigma> rs')
  case (Cons r rs)
  then show ?case by (cases r) auto
qed simp

text \<open>When the signer is the author of the series, the repeated series is well-formed again.\<close>

lemma replayed_revisions:
  "replayed W s d \<sigma> rs bs rs' \<Longrightarrow> \<forall>(c, m, \<mu>) \<in> set rs. mutation_in KS KC \<mu> \<and> authored d \<mu> \<Longrightarrow> revisions W s KS KC bs rs'"
  by (induction W s d \<sigma> rs bs rs' rule: replayed.induct) (auto simp: mutation_in_effective)

lemma rebase_loop_ok:
  assumes "sphere_ok W" "jwt_ok W" "universe_ok W KS KC" "key_total key d"
  shows "auth_ok W s auth \<Longrightarrow> store_ok (codecs W) s \<Longrightarrow> value_at (codecs W) memo_to_ipld s p mp \<Longrightarrow>
    body_sparse W s (body mp) \<sigma>p \<Longrightarrow> revisions W s KS KC (p, mp, \<sigma>p) rs \<Longrightarrow> base_at W s KS KC (q, mq, \<tau>) \<Longrightarrow>
    \<exists>rs' s'. rebase_loop W now nonces key auth (map fst rs) q s = (Inr (fst (last_version (q, mq, \<tau>) rs')), s') \<and>
      s \<subseteq>\<^sub>m s' \<and> store_ok (codecs W) s' \<and> base_at W s' KS KC (last_version (q, mq, \<tau>) rs') \<and>
      replayed W s' d \<sigma>p rs (q, mq, \<tau>) rs'"
proof (induction rs arbitrary: p mp \<sigma>p q mq \<tau> s nonces)
  case (Cons r rs)
  obtain c m \<mu> where r: "r = (c, m, \<mu>)" by (cases r)
  note R = Cons.prems(5) [unfolded r revisions.simps]
  obtain a where a: "get_first_header (header_str Author) m = Some a" "authored a \<mu>" using R by blast
  let ?\<nu> = "effective \<sigma>p \<mu>"
  have dm: "derive_mutation W c s = Inr ?\<nu>"
    by (rule derive_mutation_ok [OF assms(1) _ _ Cons.prems(3,4) _ a]) (use R in auto)
  have Q: "value_at (codecs W) memo_to_ipld s q mq" "body_at W s (body mq) \<tau>" "state_in KS KC \<tau>"
    using Cons.prems(6) by (simp_all add: base_at_def)
  have in\<nu>: "mutation_in KS KC ?\<nu>" using R by (simp add: mutation_in_effective)
  obtain c' m' s1 where s1: "sbind (apply_mutation_with_cid W q ?\<nu> s) (\<lambda>r s. revision_sign W now (nonces 0) key auth r s) = (Inr c', s1)"
      "s \<subseteq>\<^sub>m s1" "store_ok (codecs W) s1" "value_at (codecs W) memo_to_ipld s1 c' m'" "parent m' = Some q"
      "get_first_header (header_str Author) m' = Some d" "base_at W s1 KS KC (c', m', step_sphere ?\<nu> \<tau>)"
    by (rule authored_header [OF assms(1,2,4) Cons.prems(1,2) Q assms(3) in\<nu>])
  obtain rs' s' where s': "rebase_loop W now (\<lambda>n. nonces (Suc n)) key auth (map fst rs) c' s1 =
        (Inr (fst (last_version (c', m', step_sphere ?\<nu> \<tau>) rs')), s')"
      "s1 \<subseteq>\<^sub>m s'" "store_ok (codecs W) s'" "base_at W s' KS KC (last_version (c', m', step_sphere ?\<nu> \<tau>) rs')"
      "replayed W s' d (step_sphere \<mu> \<sigma>p) rs (c', m', step_sphere ?\<nu> \<tau>) rs'"
    using Cons.IH [OF auth_ok_mono [OF Cons.prems(1) s1(2)] s1(3), of c m "step_sphere \<mu> \<sigma>p" c' m' "step_sphere ?\<nu> \<tau>"]
      R s1(7) value_at_mono [OF _ s1(2)] body_sparse_mono [OF _ s1(2)] revisions_mono [OF _ s1(2)] by blast
  have "rebase_loop W now nonces key auth (map fst (r # rs)) q s =
      sbind (sbind (apply_mutation_with_cid W q ?\<nu> s) (\<lambda>r s. revision_sign W now (nonces 0) key auth r s))
        (\<lambda>b s. rebase_loop W now (\<lambda>n. nonces (Suc n)) key auth (map fst rs) b s)"
    by (simp add: r rebase_version_def dm sbind_assoc)
  then have "rebase_loop W now nonces key auth (map fst (r # rs)) q s =
      (Inr (fst (last_version (q, mq, \<tau>) ((c', m', ?\<nu>) # rs'))), s')"
    by (simp only: s1(1) sbind_simps s'(1) last_version_simps)
  moreover have "body_sparse W s' (body m') (step_sphere ?\<nu> \<tau>)"
    using s1(7) body_at_sparse [OF s1(3)] body_sparse_mono [OF _ s'(2)] by (simp add: base_at_def)
  then have "replayed W s' d \<sigma>p (r # rs) (q, mq, \<tau>) ((c', m', ?\<nu>) # rs')"
    using s1 s' value_at_mono [OF s1(4) s'(2)] by (simp add: r)
  ultimately show ?case
    using s'(3,4) map_le_trans [OF s1(2) s'(2)] by (intro exI [of _ "(c', m', ?\<nu>) # rs'"] exI [of _ s']) simp
qed simp

text \<open>
  The local series and the received series grow from the same base. The received one is
  hydrated, then the local one is repeated after it.
\<close>

lemma rebase_ok:
  assumes "sphere_ok W" "jwt_ok W" "universe_ok W KS KC" "key_total key d" "auth_ok W s auth" "store_ok (codecs W) s"
    "base_at W s KS KC (p, mp, \<sigma>p)" "lineage (codecs W) s ((p, mp) # hs)"
    "revisions W s KS KC (p, mp, \<sigma>p) ns" "ns \<noteq> []" "length ns < f"
    "revisions W s KS KC (p, mp, \<sigma>p) rs" "rs \<noteq> []" "length rs < f"
  obtains c m rs' s' where "rebase f W now nonces (fst (last rs)) p (fst (last ns)) key auth s = (Inr c, s')"
    "s \<subseteq>\<^sub>m s'" "store_ok (codecs W) s'" "base_at W s' KS KC (c, m, replay \<sigma>p rs (final_state ns \<sigma>p))"
    "replayed W s' d \<sigma>p rs (last_version (p, mp, \<sigma>p) ns) rs'" "last_version (last_version (p, mp, \<sigma>p) ns) rs' = (c, m, replay \<sigma>p rs (final_state ns \<sigma>p))"
proof -
  note env = sphere_ok_env [OF assms(1)]
  obtain s1 where s1: "hydrate_all W (map fst ns) s = (Inr (), s1)" "s \<subseteq>\<^sub>m s1" "store_ok (codecs W) s1"
      "base_at W s1 KS KC (last_version (p, mp, \<sigma>p) ns)"
    using hydrate_all_ok [OF assms(1,3,6,7,9)] by blast
  have hy: "hydrate_timeslice f W (without_past (slice (fst (last ns)) (Some p))) s = (Inr (), s1)"
    using series_exclude [OF env assms(8,9,10,11)] s1(1) by (simp add: hydrate_timeslice_def)
  have ch: "to_chronological f (codecs W) s1 (without_past (slice (fst (last rs)) (Some p))) = Inr (map fst rs)"
    by (rule series_exclude [OF env lineage_mono [OF assms(8) s1(2)] revisions_mono [OF assms(12) s1(2)] assms(13,14)])
  obtain q mq where q: "last_version (p, mp, \<sigma>p) ns = (q, mq, final_state ns \<sigma>p)" "q = fst (last ns)"
    using assms(10) by (simp add: last_version_def)
  have P: "value_at (codecs W) memo_to_ipld s1 p mp" "body_sparse W s1 (body mp) \<sigma>p"
    using assms(7) value_at_mono [OF _ s1(2)] body_sparse_mono [OF body_at_sparse [OF assms(6)] s1(2)]
    by (simp_all add: base_at_def)
  obtain rs' s' where s': "rebase_loop W now nonces key auth (map fst rs) q s1 =
        (Inr (fst (last_version (q, mq, final_state ns \<sigma>p) rs')), s')"
      "s1 \<subseteq>\<^sub>m s'" "store_ok (codecs W) s'" "base_at W s' KS KC (last_version (q, mq, final_state ns \<sigma>p) rs')"
      "replayed W s' d \<sigma>p rs (q, mq, final_state ns \<sigma>p) rs'"
    using rebase_loop_ok [OF assms(1-4) auth_ok_mono [OF assms(5) s1(2)] s1(3) P revisions_mono [OF assms(12) s1(2)]
        s1(4) [unfolded q(1)]] by blast
  obtain c m where cm: "last_version (q, mq, final_state ns \<sigma>p) rs' = (c, m, replay \<sigma>p rs (final_state ns \<sigma>p))"
    using replayed_state [OF s'(5)] by (metis prod.collapse)
  show thesis
    by (rule that [of c s' m rs'])
      (use hy ch s' cm q map_le_trans [OF s1(2) s'(2)] in \<open>simp_all add: rebase_def\<close>)
qed

text \<open>
  Without local changes the slice of local versions is not empty: it holds the base itself,
  whose changes are done again after the received ones.
\<close>

lemma rebase_unchanged:
  assumes "sphere_ok W" "jwt_ok W" "universe_ok W KS KC" "key_total key d" "auth_ok W s auth" "store_ok (codecs W) s"
    "base_at W s KS KC (p, mp, \<sigma>p)" "lineage (codecs W) s ((p, mp) # (g, mg) # hs)"
    "body_sparse W s (body mg) \<sigma>g" "revisions W s KS KC (g, mg, \<sigma>g) [(p, mp, \<mu>)]" "\<sigma>p = step_sphere \<mu> \<sigma>g"
    "revisions W s KS KC (p, mp, \<sigma>p) ns" "ns \<noteq> []" "length ns < f" "1 < f"
  obtains c m s' where "rebase f W now nonces p p (fst (last ns)) key auth s = (Inr c, s')"
    "base_at W s' KS KC (c, m, step_sphere (effective \<sigma>g \<mu>) (final_state ns \<sigma>p))" "parent m = Some (fst (last ns))"
proof -
  note env = sphere_ok_env [OF assms(1)]
  obtain s1 where s1: "hydrate_all W (map fst ns) s = (Inr (), s1)" "s \<subseteq>\<^sub>m s1" "store_ok (codecs W) s1"
      "base_at W s1 KS KC (last_version (p, mp, \<sigma>p) ns)"
    using hydrate_all_ok [OF assms(1,3,6,7,12)] by blast
  have hy: "hydrate_timeslice f W (without_past (slice (fst (last ns)) (Some p))) s = (Inr (), s1)"
    using series_exclude [OF env assms(8,12,13,14)] s1(1) by (simp add: hydrate_timeslice_def)
  have ch: "to_chronological f (codecs W) s1 (without_past (slice p (Some p))) = Inr [p]"
    using stream_same [OF env lineage_mono [OF assms(8) s1(2)] assms(15)]
    by (simp add: to_chronological_def slice_stream_def slice_def without_past_def)
  obtain q mq where q: "last_version (p, mp, \<sigma>p) ns = (q, mq, final_state ns \<sigma>p)" "q = fst (last ns)"
    using assms(13) by (simp add: last_version_def)
  have "value_at (codecs W) memo_to_ipld s g mg" using assms(8) by (simp split: if_splits)
  then obtain rs' s' where s': "rebase_loop W now nonces key auth (map fst [(p, mp, \<mu>)]) q s1 =
        (Inr (fst (last_version (q, mq, final_state ns \<sigma>p) rs')), s')"
      "base_at W s' KS KC (last_version (q, mq, final_state ns \<sigma>p) rs')"
      "replayed W s' d \<sigma>g [(p, mp, \<mu>)] (q, mq, final_state ns \<sigma>p) rs'"
    using rebase_loop_ok [OF assms(1-4) auth_ok_mono [OF assms(5) s1(2)] s1(3), of g mg \<sigma>g "[(p, mp, \<mu>)]" q mq "final_state ns \<sigma>p"]
      s1(4) q(1) revisions_mono [OF assms(10) s1(2)] value_at_mono [OF _ s1(2)] body_sparse_mono [OF assms(9) s1(2)] by metis
  then obtain c m where "rs' = [(c, m, effective \<sigma>g \<mu>)]" "parent m = Some q" by auto
  with hy ch s' q(2) show thesis by (intro that [of c s' m]) (simp_all add: rebase_def)
qed

end
