(* ===== verification/Sphere_Authority.thy ===== *)
theory Sphere_Authority
  imports Sphere_History
begin

text \<open>
  Who may act for a sphere (\<^verbatim>\<open>noosphere-core/src/view/sphere.rs\<close>): generating a sphere with
  its owner's authorization, changing the owner, checking an authorization against the
  delegations and revocations of a version, and checking the signature of a version. Key
  generation and mnemonics are third-party code: a key and the two conversions are arguments.
\<close>

section \<open>Generating a sphere\<close>

definition SPHERE_LIFETIME :: u64 where
  "SPHERE_LIFETIME = 315360000000"

text \<open>The token by which the sphere makes \<open>owner\<close> its owner.\<close>

definition owner_token :: "world \<Rightarrow> u64 \<Rightarrow> bytes \<Rightarrow> key_material \<Rightarrow> did \<Rightarrow> did \<Rightarrow> ucan result" where
  "owner_token W now nonce key sphere owner =
     build_and_sign W now nonce
       (claiming_capability (capability_of SPHERE_SEMANTICS (generate_capability sphere Authorize))
         (with_lifetime SPHERE_LIFETIME (for_audience owner (issued_by key builder_default))))"

definition generate ::
    "world \<Rightarrow> u64 \<Rightarrow> bytes \<Rightarrow> (key_material \<Rightarrow> string result) \<Rightarrow> key_material \<Rightarrow> did \<Rightarrow> blocks \<Rightarrow>
     (cid \<times> authorization \<times> string) result \<times> blocks" where
  "generate W now nonce to_mnemonic sphere_key owner s =
     (case rbind (to_mnemonic sphere_key) (\<lambda>mnemonic. rbind (km_did sphere_key) (\<lambda>d. Inr (mnemonic, d))) of
        Inl e \<Rightarrow> (Inl e, s)
      | Inr (mnemonic, sphere_did) \<Rightarrow>
          sbind (sphere_ipld_new W sphere_did s) (\<lambda>sphere s.
            sbind (for_body (codecs W) sphere_to_ipld sphere s) (\<lambda>m s.
              let m = m\<lparr>headers := headers m @ [(header_str ContentType, content_type_str SphereType),
                                               (header_str Version, ''0'')]\<rparr> in
              case rbind (owner_token W now nonce sphere_key sphere_did owner) (\<lambda>u.
                     rbind (fst (memo_sign (texts W) sphere_key None m)) (\<lambda>_. Inr u)) of
                Inl e \<Rightarrow> (Inl e, s)
              | Inr u \<Rightarrow>
                  let m = snd (memo_sign (texts W) sphere_key None m) in
                  sbind (save_value (codecs W) memo_to_ipld m s) (\<lambda>sphere_cid s.
                    case ucan_encode W u of
                      Inl e \<Rightarrow> (Inl e, s)
                    | Inr jwt \<Rightarrow>
                        sbind (delegation_register W ''(OWNER)'' jwt s) (\<lambda>delegation s.
                          let \<mu> = sphere_mutation_new sphere_did;
                              \<mu> = \<mu>\<lparr>sm_delegations := mutation_set (dg_jwt delegation) delegation (sm_delegations \<mu>)\<rparr> in
                          case fst (memo_sign (texts W) sphere_key None m) of
                            Inl e \<Rightarrow> (Inl e, s)
                          | Inr _ \<Rightarrow>
                              sbind (apply_mutation_with_cid W sphere_cid \<mu> s) (\<lambda>revision s.
                                sbind (revision_sign W now nonce sphere_key None revision s) (\<lambda>c s.
                                  (Inr (c, AuthUcan u, mnemonic), s))))))))"

section \<open>Changing the owner\<close>

definition change_owner ::
    "nat \<Rightarrow> world \<Rightarrow> u64 \<Rightarrow> bytes \<Rightarrow> (string \<Rightarrow> key_material result) \<Rightarrow> cid \<Rightarrow> string \<Rightarrow> did \<Rightarrow> authorization \<Rightarrow> blocks \<Rightarrow>
     (cid \<times> authorization) result \<times> blocks" where
  "change_owner f W now nonce restore_key c mnemonic next_owner current s =
     (case rbind (to_body W c s) (\<lambda>sphere.
             rbind (restore_key mnemonic) (\<lambda>key.
               rbind (km_did key) (\<lambda>restored_did.
                 if identity sphere \<noteq> restored_did then Inl (Anyhow ''Incorrect mnemonic provided'')
                 else
                   rbind (case current of
                            AuthUcan u \<Rightarrow> from_ucan f W now None s u
                          | AuthCid j \<Rightarrow> rbind (require_token W j s) (try_from_token_string f W now None s)) (\<lambda>chain.
                     rbind (reduce_capabilities (url_parse W) SPHERE_SEMANTICS chain) (\<lambda>infos.
                       if \<not> has_capability infos (identity sphere) (generate_capability (identity sphere) Authorize)
                       then Inl (Anyhow ''Proof does not enable authorizing other identities'')
                       else
                         rbind (authorization_cid W current) (\<lambda>current_jwt.
                           rbind (revocation_revoke W current_jwt key) (\<lambda>revocation.
                             rbind (owner_token W now nonce key (identity sphere) next_owner) (\<lambda>u.
                               rbind (ucan_encode W u) (\<lambda>jwt.
                                 Inr (identity sphere, key, current_jwt, revocation, u, jwt)))))))))) of
        Inl e \<Rightarrow> (Inl e, s)
      | Inr (sphere_did, key, current_jwt, revocation, u, jwt) \<Rightarrow>
          sbind (delegation_register W ''(OWNER)'' jwt s) (\<lambda>delegation s.
            let \<mu> = sphere_mutation_new sphere_did;
                \<mu> = \<mu>\<lparr>sm_delegations := mutation_set (dg_jwt delegation) delegation (sm_delegations \<mu>),
                      sm_revocations := mutation_set current_jwt revocation (sm_revocations \<mu>)\<rparr> in
            sbind (apply_mutation_with_cid W c \<mu> s) (\<lambda>revision s.
              sbind (revision_sign W now nonce key None revision s) (\<lambda>c s. (Inr (c, AuthUcan u), s)))))"

section \<open>Verifying an authorization\<close>

text \<open>
  The loop over the tokens of the chain, a stack. \<open>dl\<close> and \<open>rl\<close> are the delegations and the
  revocations of the version; the fuel counts the tokens.
\<close>

fun verify_links ::
    "nat \<Rightarrow> world \<Rightarrow> cid \<Rightarrow> cid \<Rightarrow> did \<Rightarrow> key_material \<Rightarrow> blocks \<Rightarrow> proof_chain list \<Rightarrow> unit result" where
  "verify_links 0 W dl rl sphere credential s links = Inl OutOfFuel"
| "verify_links (Suc f) W dl rl sphere credential s links =
     (if links = [] then Inr ()
      else (case last links of ProofChain u proofs rd \<Rightarrow>
              rbind (to_cid W u) (\<lambda>link.
                rbind (vm_get (delegations_ctx W) dl link s) (\<lambda>delegation.
                  if delegation = None then Inl (Anyhow ''Not found in sphere authority'')
                  else
                    rbind (vm_get (revocations_ctx W) rl link s) (\<lambda>revocation.
                      case revocation of
                        None \<Rightarrow> verify_links f W dl rl sphere credential s (butlast links @ proofs)
                      | Some r \<Rightarrow>
                          if revocation_ipld.iss r \<noteq> sphere \<or> revocation_ipld.iss r \<noteq> iss (payload u)
                          then verify_links f W dl rl sphere credential s (butlast links)
                          else (case revocation_verify W credential r of
                                  Inl _ \<Rightarrow> verify_links f W dl rl sphere credential s (butlast links)
                                | Inr _ \<Rightarrow> Inl (Anyhow ''Revoked''))))))) "

definition verify_authorization :: "nat \<Rightarrow> nat \<Rightarrow> world \<Rightarrow> u64 \<Rightarrow> blocks \<Rightarrow> cid \<Rightarrow> authorization \<Rightarrow> unit result" where
  "verify_authorization f g W now s c z =
     rbind (as_proof_chain f W now s z) (\<lambda>chain.
       rbind (get_authority W c s) (\<lambda>auth.
         rbind (get_delegations W auth s) (\<lambda>dl.
           rbind (get_revocations W auth s) (\<lambda>rl.
             rbind (get_identity W c s) (\<lambda>sphere.
               rbind (parse_key W sphere) (\<lambda>credential.
                 verify_links g W dl rl sphere credential s [chain]))))))"

section \<open>Verifying a signature\<close>

definition verify_signature :: "nat \<Rightarrow> world \<Rightarrow> u64 \<Rightarrow> blocks \<Rightarrow> cid \<Rightarrow> unit result" where
  "verify_signature f W now s c =
     rbind (to_memo W c s) (\<lambda>m.
       rbind (expect_header (header_str ContentType) (content_type_str SphereType) m) (\<lambda>_.
         rbind (case get_header (header_str Signature) m of
                  [] \<Rightarrow> Inl (Anyhow ''No signature header found'') | h # _ \<Rightarrow> Inr h) (\<lambda>signature_header.
           rbind (of_option (Anyhow ''base64'') (base64_decode (texts W) signature_header)) (\<lambda>sig.
             rbind (to_body W c s) (\<lambda>sphere.
               case get_header (header_str Proof) m of
                 proof_header # _ \<Rightarrow>
                   rbind (ucan_from_str W proof_header) (\<lambda>u.
                     rbind (parse_key W (aud (payload u))) (\<lambda>credential.
                       rbind (km_verify credential (cid_to_bytes (texts W) (body m)) sig) (\<lambda>_.
                         rbind (from_ucan f W now (publishing_time u) s u) (\<lambda>chain.
                           rbind (reduce_capabilities (url_parse W) SPHERE_SEMANTICS chain) (\<lambda>infos.
                             if has_capability infos (identity sphere) (generate_capability (identity sphere) Push)
                             then Inr ()
                             else Inl (Anyhow ''Proof did not enable signer to sign this sphere''))))))
               | [] \<Rightarrow>
                   rbind (parse_key W (identity sphere)) (\<lambda>credential.
                     km_verify credential (cid_to_bytes (texts W) (body m)) sig))))))"

section \<open>Reading the authority of a version\<close>

lemma version_reads:
  assumes "sphere_ok W" "store_ok (codecs W) s" "value_at (codecs W) memo_to_ipld s c m" "body_at W s (body m) \<sigma>"
  obtains auth dl rl where "get_authority W c s = Inr auth" "get_delegations W auth s = Inr dl"
    "get_revocations W auth s = Inr rl" "get_identity W c s = Inr (st_identity \<sigma>)"
    "\<And>k. vm_get (delegations_ctx W) dl k s = Inr (fst (st_delegations \<sigma>) k)"
    "\<And>k. vm_get (revocations_ctx W) rl k s = Inr (fst (st_revocations \<sigma>) k)"
proof -
  note env = sphere_ok_env [OF assms(1)]
  obtain sp book auth where B: "body_is W s (version_at (content_ctx W) s) (version_at (identities_ctx W) s)
      (version_at (delegations_ctx W) s) (version_at (revocations_ctx W) s) (body m) \<sigma> sp book auth"
    using assms(4) unfolding body_at_def by blast
  note B = B [unfolded body_is_def]
  have "to_memo W c s = Inr m" unfolding to_memo_def by (rule load_value_ok [OF env memo_serde assms(3)])
  then have bd: "to_body W c s = Inr sp"
    using load_value_ok [OF env sphere_serde, of s "body m" sp] B by (simp add: to_body_def)
  show thesis
  proof (rule that [of "authority sp" "delegations auth" "revocations auth"])
    show "get_delegations W (authority sp) s = Inr (delegations auth)"
        "get_revocations W (authority sp) s = Inr (revocations auth)"
      using load_value_ok [OF env authority_serde, of s "authority sp" auth] B
      by (simp_all add: get_delegations_def get_revocations_def)
    show "vm_get (delegations_ctx W) (delegations auth) k s = Inr (fst (st_delegations \<sigma>) k)" for k
      using vm_get_ok [OF ctx_ok(3) [OF assms(1)], of s "delegations auth" "fst (st_delegations \<sigma>)" "snd (st_delegations \<sigma>)" k] assms(2) B
      by simp
    show "vm_get (revocations_ctx W) (revocations auth) k s = Inr (fst (st_revocations \<sigma>) k)" for k
      using vm_get_ok [OF ctx_ok(4) [OF assms(1)], of s "revocations auth" "fst (st_revocations \<sigma>)" "snd (st_revocations \<sigma>)" k] assms(2) B
      by simp
  qed (use bd B in \<open>simp_all add: get_authority_def get_identity_def\<close>)
qed

section \<open>What verification accepts\<close>

text \<open>
  \<open>accepted\<close>: the tokens of a chain are registered as delegations. The proofs of a token are
  looked at only if no revocation is filed under it; a revocation counts only if it verifies
  and its issuer is both the sphere and the issuer of the token.
\<close>

fun accepted ::
    "world \<Rightarrow> (cid \<rightharpoonup> delegation_ipld) \<Rightarrow> (cid \<rightharpoonup> revocation_ipld) \<Rightarrow> did \<Rightarrow> key_material \<Rightarrow> proof_chain \<Rightarrow> bool" where
  "accepted W D R sphere credential (ProofChain u ps rd) \<longleftrightarrow>
     (\<exists>link. to_cid W u = Inr link \<and> D link \<noteq> None \<and>
        (case R link of
           None \<Rightarrow> list_all (accepted W D R sphere credential) ps
         | Some r \<Rightarrow> \<not> (revocation_ipld.iss r = sphere \<and> revocation_ipld.iss r = iss (payload u) \<and>
                        revocation_verify W credential r = Inr ())))"

lemma to_cid_total: "jwt_ok W \<Longrightarrow> \<exists>c. to_cid W u = Inr c"
  using encode_total [of W u] by (auto simp: to_cid_def jwt_ok_def raw_ok_def)

lemma verify_links_iff:
  assumes "jwt_ok W" "\<And>k. vm_get (delegations_ctx W) dl k s = Inr (D k)" "\<And>k. vm_get (revocations_ctx W) rl k s = Inr (R k)"
  shows "sum_list (map chain_size links) < f \<Longrightarrow>
    verify_links f W dl rl sphere credential s links = Inr () \<longleftrightarrow> list_all (accepted W D R sphere credential) links"
proof (induction f arbitrary: links)
  case (Suc f)
  show ?case
  proof (cases links rule: rev_cases)
    case (snoc rest l)
    obtain u ps rd where l: "l = ProofChain u ps rd" by (cases l)
    obtain link where link: "to_cid W u = Inr link" using to_cid_total [OF assms(1)] by blast
    have 1: "verify_links f W dl rl sphere credential s (rest @ ps) = Inr () \<longleftrightarrow>
        list_all (accepted W D R sphere credential) (rest @ ps)"
      by (rule Suc.IH) (use Suc.prems snoc l in simp)
    have 2: "verify_links f W dl rl sphere credential s rest = Inr () \<longleftrightarrow>
        list_all (accepted W D R sphere credential) rest"
      by (rule Suc.IH) (use Suc.prems snoc l in simp)
    show ?thesis
    proof (cases "R link")
      case None
      with 1 show ?thesis by (auto simp: snoc l link assms(2,3))
    next
      case (Some r)
      with 2 show ?thesis by (cases "revocation_verify W credential r") (auto simp: snoc l link assms(2,3))
    qed
  qed simp
qed simp

lemma verify_authorization_iff:
  assumes "sphere_ok W" "jwt_ok W" "store_ok (codecs W) s" "value_at (codecs W) memo_to_ipld s c m" "body_at W s (body m) \<sigma>"
    "parse_key W (st_identity \<sigma>) = Inr credential" "as_proof_chain f W now s z = Inr chain" "chain_size chain < g"
  shows "verify_authorization f g W now s c z = Inr () \<longleftrightarrow>
    accepted W (fst (st_delegations \<sigma>)) (fst (st_revocations \<sigma>)) (st_identity \<sigma>) credential chain"
proof -
  obtain auth dl rl where r: "get_authority W c s = Inr auth" "get_delegations W auth s = Inr dl"
      "get_revocations W auth s = Inr rl" "get_identity W c s = Inr (st_identity \<sigma>)"
      "\<And>k. vm_get (delegations_ctx W) dl k s = Inr (fst (st_delegations \<sigma>) k)"
      "\<And>k. vm_get (revocations_ctx W) rl k s = Inr (fst (st_revocations \<sigma>) k)"
    by (rule version_reads [OF assms(1,3-5)]) blast
  have "verify_authorization f g W now s c z =
      verify_links g W dl rl (st_identity \<sigma>) credential s [chain]"
    by (simp only: verify_authorization_def assms(6,7) r(1-4) rbind_simps)
  then show ?thesis
    using verify_links_iff [OF assms(2) r(5,6), of "[chain]" g "st_identity \<sigma>" credential] assms(8) by simp
qed

text \<open>Without revocations every token of an accepted chain is a delegation of the sphere.\<close>

lemma accepted_registered:
  "accepted W D R sphere credential chain \<Longrightarrow> \<forall>u \<in> chain_tokens chain. \<forall>c. to_cid W u = Inr c \<longrightarrow> R c = None \<Longrightarrow>
   u \<in> chain_tokens chain \<Longrightarrow> \<exists>c. to_cid W u = Inr c \<and> D c \<noteq> None"
  by (induction chain arbitrary: u) (auto simp: list_all_iff split: option.splits)

section \<open>The owner's token\<close>

text \<open>A token signed by the sphere's key that lets \<open>owner\<close> authorize others until \<open>e\<close>.\<close>

definition root_token :: "world \<Rightarrow> key_material \<Rightarrow> did \<Rightarrow> did \<Rightarrow> u64 \<Rightarrow> ucan \<Rightarrow> bool" where
  "root_token W key sphere owner e u \<longleftrightarrow>
     iss (payload u) = sphere \<and> aud (payload u) = owner \<and> exp (payload u) = Some e \<and> nbf (payload u) = None \<and>
     prfs (payload u) = None \<and>
     capabilities_iter (cap (payload u)) = [capability_of SPHERE_SEMANTICS (generate_capability sphere Authorize)] \<and>
     self_described W u \<and> km_sign key (signed_data u) = Inr (signature u)"

lemma owner_token_ok:
  assumes "jwt_ok W" "key_total key d"
  obtains u where "owner_token W now nonce key d owner = Inr u" "root_token W key d owner (now + SPHERE_LIFETIME) u"
proof -
  let ?c = "capability_of SPHERE_SEMANTICS (generate_capability d Authorize)"
  let ?g = "\<lparr>sg_issuer = key, sg_audience = owner, sg_capabilities = [?c], sg_expiration = Some (now + SPHERE_LIFETIME),
    sg_not_before = None, sg_facts = [], sg_proofs = [], sg_add_nonce = False\<rparr>"
  have ob: "is_object (cap_caveat ?c)" by (simp add: capability_of_def generate_capability_def)
  then obtain u where u: "signable_sign W nonce ?g = Inr u"
    using sign_one_capability [OF assms(1), of ?g d ?c] assms(2) by auto
  obtain m where m: "capabilities_from_vec [?c] = Inr m" "mset (capabilities_iter m) = mset [?c]"
    using capabilities_from_vec_ok [of "[?c]"] ob by auto
  have "build now (claiming_capability ?c (with_lifetime SPHERE_LIFETIME (for_audience owner (issued_by key builder_default)))) = Inr ?g"
    by (simp add: build_def claiming_capability_def with_lifetime_def for_audience_def issued_by_def builder_default_def
        implied_expiration_def)
  then have "owner_token W now nonce key d owner = Inr u" using u by (simp add: owner_token_def build_and_sign_def)
  moreover have "root_token W key d owner (now + SPHERE_LIFETIME) u"
    using u m assms(2) sign_self_described [OF u]
    by (auto simp: root_token_def signable_sign_def signable_payload_def key_total_def Let_def)
  ultimately show thesis by (rule that)
qed

text \<open>What is relied on: the DID of a key names the key that verifies its signatures.\<close>

definition did_key_ok :: "world \<Rightarrow> key_material \<Rightarrow> did \<Rightarrow> bool" where
  "did_key_ok W key d \<longleftrightarrow>
     (\<exists>credential. parse_key W d = Inr credential \<and>
        (\<forall>b sig. km_sign key b = Inr sig \<longrightarrow> km_verify credential b sig = Inr ()))"

lemma sphere_capability_not_proof:
  "parse_capability url PROOF_DELEGATION_SEMANTICS (capability_of SPHERE_SEMANTICS (generate_capability d a)) = None"
proof -
  have "proof_action_from_str (sphere_ability_display a) = None" by (cases a) (simp_all add: proof_action_from_str_def)
  then show ?thesis
    by (auto simp: parse_capability_def parse_def capability_of_def SPHERE_SEMANTICS_def generate_capability_def
        PROOF_DELEGATION_SEMANTICS_def split: option.split)
qed

lemma root_token_chain:
  assumes "root_token W key d owner e u" "did_key_ok W key d" "now \<le> e"
  shows "from_ucan (Suc f) W now None s u = Inr (ProofChain u [] [])"
proof -
  have "validate W now None u = Inr ()"
    using assms by (auto simp: validate_def is_expired_def is_too_early_def check_signature_def root_token_def did_key_ok_def)
  moreover have "proof_strings u = []" using assms(1) by (simp add: proof_strings_def root_token_def)
  moreover have "redelegations_of W 0 u = Inr []"
    using assms(1) by (simp add: redelegations_of_def root_token_def sphere_capability_not_proof map_filter_simps)
  ultimately show ?thesis by simp
qed

text \<open>What is relied on: the URL parser reads the resource of a sphere.\<close>

definition url_ok :: "world \<Rightarrow> did \<Rightarrow> bool" where
  "url_ok W d \<longleftrightarrow> url_parse W (''sphere:'' @ d) = Some \<lparr>scheme = ''sphere'', path = d\<rparr> \<and> d \<noteq> ''*''"

lemma parse_sphere_capability:
  assumes "url_ok W d"
  shows "parse_capability (url_parse W) SPHERE_SEMANTICS (capability_of SPHERE_SEMANTICS (generate_capability d a)) =
    Some (generate_capability d a)"
  using assms sphere_ability_round_trip [of a]
  by (simp add: parse_capability_def parse_def capability_of_def SPHERE_SEMANTICS_def generate_capability_def
      parse_resource_def sphere_from_url_def parse_caveat_def url_ok_def)

lemma root_token_capability:
  assumes "root_token W key d owner e u" "url_ok W d"
  obtains infos where "reduce_capabilities (url_parse W) SPHERE_SEMANTICS (ProofChain u [] []) = Inr infos"
    "\<And>a. has_capability infos d (generate_capability d a)"
proof -
  let ?c = "generate_capability d Authorize"
  have caps: "self_capabilities (url_parse W) SPHERE_SEMANTICS u = [?c]"
    using assms by (simp add: self_capabilities_def root_token_def parse_sphere_capability)
  let ?info = "self_info SPHERE_SEMANTICS u 0 [] ?c"
  have "reduce_capabilities (url_parse W) SPHERE_SEMANTICS (ProofChain u [] []) = Inr [?info]"
    by (simp add: caps merge.simps)
  moreover have "enables SPHERE_SEMANTICS ?c (generate_capability d a)" for a
    by (cases a) (simp_all add: enables_def generate_capability_def SPHERE_SEMANTICS_def sphere_within_def
        less_eq_sphere_ability_def caveat_enables_def)
  then have "has_capability [?info] d (generate_capability d a)" for a
    using assms(1) by (simp add: has_capability_def self_info_def root_token_def)
  ultimately show thesis by (rule that)
qed

section \<open>Generating\<close>

abbreviation owner_delegation :: "cid \<Rightarrow> delegation_ipld" where
  "owner_delegation j \<equiv> \<lparr>dg_name = ''(OWNER)'', dg_jwt = j\<rparr>"

definition owner_mutation :: "did \<Rightarrow> cid \<Rightarrow> sphere_mutation" where
  "owner_mutation d j =
     (sphere_mutation_new d)\<lparr>sm_delegations := mutation_set j (owner_delegation j) (vmap_mutation_new d)\<rparr>"

lemma owner_mutation_facts:
  "authored d (owner_mutation d j)" "keys_ok W (empty_sphere d) (owner_mutation d j)"
  by (simp_all add: owner_mutation_def authored_def sphere_mutation_new_def vmap_mutation_new_def mutation_set_def
      keys_ok_def empty_sphere_def collision_free_def)

lemma generate_ok:
  assumes "sphere_ok W" "jwt_ok W" "key_total key d" "to_mnemonic key = Inr mnemonic" "store_ok (codecs W) s"
  obtains u j jwt c m g mg s' where "generate W now nonce to_mnemonic key owner s = (Inr (c, AuthUcan u, mnemonic), s')"
    "s \<subseteq>\<^sub>m s'" "store_ok (codecs W) s'" "root_token W key d owner (now + SPHERE_LIFETIME) u"
    "to_cid W u = Inr j" "ucan_encode W u = Inr jwt" "codec_of j = codec_id RawCodec" "s' j = Some (str_bytes jwt)"
    "lineage (codecs W) s' [(c, m), (g, mg)]" "get_first_header (header_str Author) m = Some d"
    "body_at W s' (body mg) (empty_sphere d)" "body_at W s' (body m) (step_sphere (owner_mutation d j) (empty_sphere d))"
proof -
  note env = sphere_ok_env [OF assms(1)]
  have d: "km_did key = Inr d" and sg: "\<And>b. \<exists>sig. km_sign key b = Inr sig" using assms(3) by (auto simp: key_total_def)
  obtain sp b s1 s2 where s2: "sphere_ipld_new W d s = (Inr sp, s1)"
      "for_body (codecs W) sphere_to_ipld sp s1 = (Inr \<lparr>parent = None, headers = [], body = b\<rparr>, s2)"
      "s \<subseteq>\<^sub>m s2" "store_ok (codecs W) s2" "body_at W s2 b (empty_sphere d)"
    by (rule sphere_new_ok [OF assms(1,5)])
  let ?m0 = "\<lparr>parent = None, headers = [(header_str ContentType, content_type_str SphereType), (header_str Version, ''0'')], body = b\<rparr>"
  obtain u where u: "owner_token W now nonce key d owner = Inr u" "root_token W key d owner (now + SPHERE_LIFETIME) u"
    by (rule owner_token_ok [OF assms(2,3)])
  obtain sig where sig: "km_sign key (cid_to_bytes (texts W) (body ?m0)) = Inr sig" using sg by blast
  obtain mg where mg: "memo_sign (texts W) key None ?m0 = (Inr (), mg)" "parent mg = None" "body mg = b"
    using memo_sign_ok [OF sig d, of None] by auto
  obtain sig' where sig': "km_sign key (cid_to_bytes (texts W) (body mg)) = Inr sig'" using sg by blast
  have again: "fst (memo_sign (texts W) key None mg) = Inr ()" using memo_sign_ok [OF sig' d, of None] by (metis fst_conv option.simps(8))
  obtain g s3 where s3: "save_value (codecs W) memo_to_ipld mg s2 = (Inr g, s3)" "value_at (codecs W) memo_to_ipld s3 g mg"
      "s2 \<subseteq>\<^sub>m s3" "store_ok (codecs W) s3"
    by (rule save_value_ok [OF env s2(4) memo_serde])
  obtain jwt where jwt: "ucan_encode W u = Inr jwt" using encode_total [OF assms(2)] by blast
  obtain j s4 where s4: "write_token W jwt s3 = (Inr j, s4)" "to_cid W u = Inr j" "s3 \<subseteq>\<^sub>m s4" "store_ok (codecs W) s4"
      "codec_of j = codec_id RawCodec" "s4 j = Some (str_bytes jwt)"
    by (rule write_require_token [OF assms(2) s3(4) jwt])
  have B: "value_at (codecs W) memo_to_ipld s4 g mg" "body_at W s4 (body mg) (empty_sphere d)"
    using value_at_mono [OF s3(2) s4(3)] body_at_mono [OF s2(5) map_le_trans [OF s3(3) s4(3)]] mg(3) by simp_all
  obtain b' s5 where s5: "apply_mutation_with_cid W g (owner_mutation d j) s4 =
      (Inr \<lparr>rev_identity = st_identity (empty_sphere d), rev_memo = (branch_memo g mg)\<lparr>body := b'\<rparr>\<rparr>, s5)"
      "s4 \<subseteq>\<^sub>m s5" "store_ok (codecs W) s5" "body_at W s5 b' (step_sphere (owner_mutation d j) (empty_sphere d))"
    by (rule apply_mutation_ok [OF assms(1) s4(4) B owner_mutation_facts(2)])
  let ?r = "\<lparr>rev_identity = st_identity (empty_sphere d), rev_memo = (branch_memo g mg)\<lparr>body := b'\<rparr>\<rparr>"
  obtain c m s6 where s6: "revision_sign W now nonce key None ?r s5 = (Inr c, s6)" "s5 \<subseteq>\<^sub>m s6" "store_ok (codecs W) s6"
      "value_at (codecs W) memo_to_ipld s6 c m" "parent m = parent (rev_memo ?r)" "body m = body (rev_memo ?r)"
      "get_first_header (header_str Author) m = Some d"
    by (rule revision_sign_ok [OF env assms(2,3) auth_ok_None s5(3)]) blast
  have mu: "(sphere_mutation_new d)\<lparr>sm_delegations := mutation_set j (owner_delegation j) (sm_delegations (sphere_mutation_new d))\<rparr> =
      owner_mutation d j"
    by (simp add: owner_mutation_def sphere_mutation_new_def)
  have le: "s4 \<subseteq>\<^sub>m s6" by (rule map_le_trans [OF s5(2) s6(2)])
  show thesis
  proof (rule that)
    show "generate W now nonce to_mnemonic key owner s = (Inr (c, AuthUcan u, mnemonic), s6)"
      using s2(1,2) u(1) mg(1) s3(1) jwt s4(1) again s5(1) s6(1)
      by (simp add: generate_def assms(4) d Let_def delegation_register_def mu del: header_str.simps content_type_str.simps)
    show "s \<subseteq>\<^sub>m s6" by (rule map_le_trans [OF s2(3) map_le_trans [OF s3(3) map_le_trans [OF s4(3) le]]])
    show "s6 j = Some (str_bytes jwt)" using s4(6) le by (auto dest: map_leD)
    show "lineage (codecs W) s6 [(c, m), (g, mg)]"
      using s6(4,5) value_at_mono [OF B(1) le] mg(2) by (simp add: branch_memo_fields)
    show "body_at W s6 (body mg) (empty_sphere d)" by (rule body_at_mono [OF B(2) le])
    show "body_at W s6 (body m) (step_sphere (owner_mutation d j) (empty_sphere d))"
      using body_at_mono [OF s5(4) s6(2)] s6(6) by simp
  qed (use u(2) s4(2,5) jwt s6(3,7) in auto)
qed

text \<open>The generated sphere accepts the authorization it gave to its owner.\<close>

lemma root_token_accepted:
  assumes "sphere_ok W" "jwt_ok W" "store_ok (codecs W) s" "value_at (codecs W) memo_to_ipld s c m" "body_at W s (body m) \<sigma>"
    "st_identity \<sigma> = d" "root_token W key d owner e u" "did_key_ok W key d" "now \<le> e" "to_cid W u = Inr j"
    "fst (st_delegations \<sigma>) j \<noteq> None" "fst (st_revocations \<sigma>) j = None"
  shows "verify_authorization (Suc f) (Suc (Suc g)) W now s c (AuthUcan u) = Inr ()"
proof -
  obtain credential where cr: "parse_key W (st_identity \<sigma>) = Inr credential" using assms(6,8) by (auto simp: did_key_ok_def)
  have "as_proof_chain (Suc f) W now s (AuthUcan u) = Inr (ProofChain u [] [])"
    using root_token_chain [OF assms(7-9)] by simp
  from verify_authorization_iff [OF assms(1-5) cr this, of "Suc (Suc g)"] show ?thesis using assms(10-12) by simp
qed

lemma root_token_revoked:
  assumes "sphere_ok W" "jwt_ok W" "store_ok (codecs W) s" "value_at (codecs W) memo_to_ipld s c m" "body_at W s (body m) \<sigma>"
    "st_identity \<sigma> = d" "root_token W key d owner e u" "did_key_ok W key d" "now \<le> e" "to_cid W u = Inr j"
    "fst (st_revocations \<sigma>) j = Some r" "revocation_revoke W j key = Inr r" "km_did key = Inr d" "cid_text_ok (texts W)"
  shows "verify_authorization (Suc f) (Suc (Suc g)) W now s c (AuthUcan u) \<noteq> Inr ()"
proof -
  obtain credential where cr: "parse_key W (st_identity \<sigma>) = Inr credential"
      "\<And>b sig. km_sign key b = Inr sig \<Longrightarrow> km_verify credential b sig = Inr ()"
    using assms(6,8) by (auto simp: did_key_ok_def)
  have "as_proof_chain (Suc f) W now s (AuthUcan u) = Inr (ProofChain u [] [])"
    using root_token_chain [OF assms(7-9)] by simp
  note iff = verify_authorization_iff [OF assms(1-5) cr(1) this, of "Suc (Suc g)"]
  have "revocation_ipld.iss r = d" "revocation_verify W credential r = Inr ()"
    using assms(2,12-14) cr(2) by (auto simp: revocation_revoke_def revocation_verify_def cid_text_ok_def)
  moreover have "iss (payload u) = d" using assms(7) by (simp add: root_token_def)
  ultimately show ?thesis using iff assms(6,10,11) by simp
qed

section \<open>Changing the owner\<close>

definition transfer_mutation :: "did \<Rightarrow> cid \<Rightarrow> cid \<Rightarrow> revocation_ipld \<Rightarrow> sphere_mutation" where
  "transfer_mutation d j' j r =
     (sphere_mutation_new d)\<lparr>sm_delegations := mutation_set j' (owner_delegation j') (vmap_mutation_new d),
       sm_revocations := mutation_set j r (vmap_mutation_new d)\<rparr>"

lemma transfer_state:
  "st_identity (step_sphere (transfer_mutation d j' j r) \<sigma>) = st_identity \<sigma>"
  "fst (st_delegations (step_sphere (transfer_mutation d j' j r) \<sigma>)) = (fst (st_delegations \<sigma>))(j' \<mapsto> owner_delegation j')"
  "fst (st_revocations (step_sphere (transfer_mutation d j' j r) \<sigma>)) = (fst (st_revocations \<sigma>))(j \<mapsto> r)"
  by (simp_all add: step_sphere_def step_version_def transfer_mutation_def mutation_set_def vmap_mutation_new_def)

lemma to_cid_inj:
  assumes "jwt_ok W" "self_described W u" "self_described W v" "to_cid W u = Inr c" "to_cid W v = Inr c"
  shows "u = v"
proof -
  obtain t t' where t: "ucan_encode W u = Inr t" "ucan_encode W v = Inr t'" using encode_total [OF assms(1)] by blast
  have "blake3_256 (codecs W) (str_bytes t) = blake3_256 (codecs W) (str_bytes t')"
    using assms(1,4,5) t by (auto simp: to_cid_def jwt_ok_def raw_ok_def)
  then have "t = t'" using assms(1) str_bytes_inj by (auto simp: jwt_ok_def hash_ok_def dest!: injD)
  then show ?thesis using from_str_encode [OF assms(1,2) t(1)] from_str_encode [OF assms(1,3) t(2)] by simp
qed

lemma change_owner_ok:
  assumes "sphere_ok W" "jwt_ok W" "cid_text_ok (texts W)" "store_ok (codecs W) s" "value_at (codecs W) memo_to_ipld s c m"
    "body_at W s (body m) \<sigma>" "st_identity \<sigma> = d" "restore_key mnemonic = Inr key" "key_total key d" "did_key_ok W key d"
    "url_ok W d" "root_token W key d owner e u" "now \<le> e" "to_cid W u = Inr j"
    "owner_token W now nonce key d next_owner = Inr u'" "to_cid W u' = Inr j'" "revocation_revoke W j key = Inr r"
    "keys_ok W \<sigma> (transfer_mutation d j' j r)"
  obtains c' m' s' where "change_owner (Suc f) W now nonce restore_key c mnemonic next_owner (AuthUcan u) s = (Inr (c', AuthUcan u'), s')"
    "s \<subseteq>\<^sub>m s'" "store_ok (codecs W) s'" "value_at (codecs W) memo_to_ipld s' c' m'" "parent m' = Some c"
    "body_at W s' (body m') (step_sphere (transfer_mutation d j' j r) \<sigma>)"
proof -
  note env = sphere_ok_env [OF assms(1)]
  have d: "km_did key = Inr d" using assms(9) by (simp add: key_total_def)
  obtain sp where sp: "to_body W c s = Inr sp" "identity sp = d"
  proof -
    obtain auth dl rl where "get_identity W c s = Inr (st_identity \<sigma>)" by (rule version_reads [OF assms(1,4-6)]) blast
    then show thesis using that assms(7) by (auto simp: get_identity_def)
  qed
  obtain infos where infos: "reduce_capabilities (url_parse W) SPHERE_SEMANTICS (ProofChain u [] []) = Inr infos"
      "has_capability infos d (generate_capability d Authorize)"
    by (rule root_token_capability [OF assms(12,11)]) blast
  have old: "authorization_cid W (AuthUcan u) = Inr j"
    using assms(2,14) by (auto simp: to_cid_def block_encode_def derive_cid_def jwt_ok_def raw_ok_def)
  obtain jwt where jwt: "ucan_encode W u' = Inr jwt" using encode_total [OF assms(2)] by blast
  obtain s1 where s1: "write_token W jwt s = (Inr j', s1)" "s \<subseteq>\<^sub>m s1" "store_ok (codecs W) s1"
    by (rule write_require_token [OF assms(2,4) jwt]) (use assms(16) in auto)
  let ?\<mu> = "transfer_mutation d j' j r"
  obtain b s2 where s2: "apply_mutation_with_cid W c ?\<mu> s1 =
      (Inr \<lparr>rev_identity = st_identity \<sigma>, rev_memo = (branch_memo c m)\<lparr>body := b\<rparr>\<rparr>, s2)"
      "s1 \<subseteq>\<^sub>m s2" "store_ok (codecs W) s2" "body_at W s2 b (step_sphere ?\<mu> \<sigma>)"
    by (rule apply_mutation_ok [OF assms(1) s1(3) value_at_mono [OF assms(5) s1(2)] body_at_mono [OF assms(6) s1(2)] assms(18)])
  let ?r = "\<lparr>rev_identity = st_identity \<sigma>, rev_memo = (branch_memo c m)\<lparr>body := b\<rparr>\<rparr>"
  obtain c' m' s3 where s3: "revision_sign W now nonce key None ?r s2 = (Inr c', s3)" "s2 \<subseteq>\<^sub>m s3" "store_ok (codecs W) s3"
      "value_at (codecs W) memo_to_ipld s3 c' m'" "parent m' = parent (rev_memo ?r)" "body m' = body (rev_memo ?r)"
    by (rule revision_sign_ok [OF env assms(2,9) auth_ok_None s2(3)]) blast
  have mu: "(sphere_mutation_new d)\<lparr>sm_delegations := mutation_set j' (owner_delegation j') (sm_delegations (sphere_mutation_new d)),
      sm_revocations := mutation_set j r (sm_revocations (sphere_mutation_new d))\<rparr> = ?\<mu>"
    by (simp add: transfer_mutation_def sphere_mutation_new_def)
  show thesis
  proof (rule that)
    show "change_owner (Suc f) W now nonce restore_key c mnemonic next_owner (AuthUcan u) s = (Inr (c', AuthUcan u'), s3)"
      using s1(1) s2(1) s3(1) infos jwt mu
      by (simp add: change_owner_def sp assms(8,15,17) d root_token_chain [OF assms(12,10,13)] old delegation_register_def Let_def
          del: from_ucan.simps reduce_capabilities.simps authorization_cid.simps)
    show "s \<subseteq>\<^sub>m s3" by (rule map_le_trans [OF s1(2) map_le_trans [OF s2(2) s3(2)]])
    show "parent m' = Some c" using s3(5) by (simp add: branch_memo_fields)
    show "body_at W s3 (body m') (step_sphere ?\<mu> \<sigma>)" using body_at_mono [OF s2(4) s3(2)] s3(6) by simp
  qed (use s3(3,4) in auto)
qed

end
