(* ===== verification/Example_World.thy ===== *)
theory Example_World
  imports Example_Env Sphere_Authority
begin

text \<open>
  A concrete world: the codec of \<open>Example_Env\<close>, a byte encoding of JSON in place of DAG-JSON,
  base 16 in place of base 64, keys whose signature is the message behind their name and whose DID spells
  the name, and hashes that keep 32 bytes of a key. It meets the hypotheses the development
  names, so that its theorems apply to it.
\<close>

section \<open>JSON\<close>

fun jenc :: "json \<Rightarrow> bytes" where
  "jenc JNull = [0]"
| "jenc (JBool b) = [1, of_bool b]"
| "jenc (JNumber i) = 2 # of_bool (i < 0) # enc_nat (nat \<bar>i\<bar>)"
| "jenc (JString s) = 3 # enc_bytes (str_bytes s)"
| "jenc (JArray xs) = 4 # concat (map (\<lambda>x. 1 # jenc x) xs) @ [0]"
| "jenc (JObject kvs) = 5 # concat (map (\<lambda>kv. 1 # enc_bytes (str_bytes (fst kv)) @ jenc (snd kv)) kvs) @ [0]"

fun jdec :: "nat \<Rightarrow> bytes \<Rightarrow> (json \<times> bytes) option" where
  "jdec 0 r = None"
| "jdec (Suc f) [] = None"
| "jdec (Suc f) (t # r) =
     (if t = 0 then Some (JNull, r)
      else if t = 1 then (case r of b # r' \<Rightarrow> Some (JBool (b = 1), r') | [] \<Rightarrow> None)
      else if t = 2 then
        (case r of
           b # r' \<Rightarrow> map_option (\<lambda>(n, r''). (JNumber (if b = 1 then - int n else int n), r'')) (dec_nat r')
         | [] \<Rightarrow> None)
      else if t = 3 then map_option (\<lambda>(bs, r'). (JString (bytes_str bs), r')) (dec_bytes r)
      else if t = 4 then map_option (\<lambda>(xs, r'). (JArray xs, r')) (dec_many (jdec f) (length r) r)
      else if t = 5 then map_option (\<lambda>(xs, r'). (JObject xs, r')) (dec_many (dec_pair (jdec f)) (length r) r)
      else None)"

lemma jdec_jenc: "length (jenc j) \<le> f \<Longrightarrow> jdec f (jenc j @ r) = Some (j, r)"
proof (induction j arbitrary: f r)
  case (JArray xs)
  obtain g where f: "f = Suc g" using JArray.prems by (cases f) auto
  have item: "jdec g (jenc x @ r) = Some (x, r)" if "x \<in> set xs" for x r
    using JArray that member_length_concat [of x xs jenc] by (intro JArray.IH) (auto simp: f)
  have "dec_many (jdec g) (length (concat (map (\<lambda>x. 1 # jenc x) xs) @ [0] @ r))
      (concat (map (\<lambda>x. 1 # jenc x) xs) @ [0] @ r) = Some (xs, r)"
    by (rule dec_many_ok) (use item length_le_concat [of xs jenc] in auto)
  then show ?case by (simp add: f)
next
  case (JObject kvs)
  let ?e = "\<lambda>kv. enc_bytes (str_bytes (fst kv)) @ jenc (snd kv)"
  obtain g where f: "f = Suc g" using JObject.prems by (cases f) auto
  have item: "dec_pair (jdec g) (?e kv @ r) = Some (kv, r)" if "kv \<in> set kvs" for kv r
  proof -
    have "jdec g (jenc (snd kv) @ r) = Some (snd kv, r)"
      using JObject that member_length_concat [of kv kvs ?e]
      by (intro JObject.IH [of kv "snd kv"]) (auto simp: f intro: snds.intros)
    then show ?thesis by (simp add: dec_pair_def)
  qed
  have "dec_many (dec_pair (jdec g)) (length (concat (map (\<lambda>x. 1 # ?e x) kvs) @ [0] @ r))
      (concat (map (\<lambda>x. 1 # ?e x) kvs) @ [0] @ r) = Some (kvs, r)"
    by (rule dec_many_ok) (use item length_le_concat [of kvs ?e] in auto)
  then show ?case by (simp add: f)
qed (auto simp: gr0_conv_Suc Suc_le_eq elim!: less_natE)

definition of_jenc :: "bytes \<Rightarrow> json option" where
  "of_jenc b = (case jdec (length b) b of Some (j, []) \<Rightarrow> Some j | _ \<Rightarrow> None)"

lemma of_jenc [simp]: "of_jenc (jenc j) = Some j"
  using jdec_jenc [of j _ "[]"] by (simp add: of_jenc_def)

section \<open>Headers and payloads\<close>

definition jopt :: "('a \<Rightarrow> json) \<Rightarrow> 'a option \<Rightarrow> json" where
  "jopt f x = (case x of None \<Rightarrow> JNull | Some y \<Rightarrow> JArray [f y])"

definition of_jopt :: "(json \<Rightarrow> 'a option) \<Rightarrow> json \<Rightarrow> 'a option option" where
  "of_jopt g j = (case j of JNull \<Rightarrow> Some None | JArray [i] \<Rightarrow> map_option Some (g i) | _ \<Rightarrow> None)"

fun of_jstring :: "json \<Rightarrow> string option" where
  "of_jstring (JString s) = Some s"
| "of_jstring _ = None"

fun of_jnumber :: "json \<Rightarrow> u64 option" where
  "of_jnumber (JNumber i) = Some (word_of_int i)"
| "of_jnumber _ = None"

fun of_jobject :: "json \<Rightarrow> (string \<times> json) list option" where
  "of_jobject (JObject kvs) = Some kvs"
| "of_jobject _ = None"

fun of_jarray :: "json \<Rightarrow> json list option" where
  "of_jarray (JArray xs) = Some xs"
| "of_jarray _ = None"

lemma of_jopt_jopt: "(\<And>x. g (f x) = Some x) \<Longrightarrow> of_jopt g (jopt f x) = Some x"
  by (simp add: of_jopt_def jopt_def split: option.split)

definition abilities_json :: "abilities \<Rightarrow> json" where
  "abilities_json a = JObject (map (\<lambda>(n, js). (n, JArray js)) a)"

definition abilities_of_json :: "json \<Rightarrow> abilities option" where
  "abilities_of_json j = Option.bind (of_jobject j) (traverse (\<lambda>(n, i). map_option (Pair n) (of_jarray i)))"

definition caps_json :: "capabilities \<Rightarrow> json" where
  "caps_json c = JObject (map (\<lambda>(r, a). (r, abilities_json a)) c)"

definition caps_of_json :: "json \<Rightarrow> capabilities option" where
  "caps_of_json j = Option.bind (of_jobject j) (traverse (\<lambda>(r, i). map_option (Pair r) (abilities_of_json i)))"

definition strings_of_json :: "json \<Rightarrow> string list option" where
  "strings_of_json j = Option.bind (of_jarray j) (traverse of_jstring)"

lemma abilities_round [simp]: "abilities_of_json (abilities_json a) = Some a"
proof -
  have "traverse (\<lambda>(n, i). map_option (Pair n) (of_jarray i)) (map (\<lambda>(n, js). (n, JArray js)) a) = Some a"
    by (rule traverse_map_id) auto
  then show ?thesis by (simp add: abilities_of_json_def abilities_json_def)
qed

lemma caps_round [simp]: "caps_of_json (caps_json c) = Some c"
proof -
  have "traverse (\<lambda>(r, i). map_option (Pair r) (abilities_of_json i)) (map (\<lambda>(r, a). (r, abilities_json a)) c) = Some c"
    by (rule traverse_map_id) auto
  then show ?thesis by (simp add: caps_of_json_def caps_json_def)
qed

lemma strings_round [simp]: "strings_of_json (JArray (map JString ss)) = Some ss"
  using traverse_map_id [of ss of_jstring JString] by (simp add: strings_of_json_def)

definition header_json :: "ucan_header \<Rightarrow> json" where
  "header_json h = JArray [JString (jwt_alg h), JString (jwt_typ h)]"

definition header_of_json :: "json \<Rightarrow> ucan_header option" where
  "header_of_json j =
     (case j of JArray [JString a, JString t] \<Rightarrow> Some \<lparr>jwt_alg = a, jwt_typ = t\<rparr> | _ \<Rightarrow> None)"

definition payload_json :: "ucan_payload \<Rightarrow> json" where
  "payload_json p =
     JArray [JString (ucv p), JString (iss p), jopt (\<lambda>w. JNumber (uint w)) (exp p), jopt (\<lambda>w. JNumber (uint w)) (nbf p),
       jopt JString (nnc p), caps_json (cap p), jopt JObject (fct p), jopt (\<lambda>ss. JArray (map JString ss)) (prfs p),
       JString (aud p)]"

definition payload_of_json :: "json \<Rightarrow> ucan_payload option" where
  "payload_of_json j =
     (case j of
        JArray [JString v, JString i, e, n, c, cp, f, p, JString a] \<Rightarrow>
          Option.bind (of_jopt of_jnumber e) (\<lambda>e. Option.bind (of_jopt of_jnumber n) (\<lambda>n.
          Option.bind (of_jopt of_jstring c) (\<lambda>c. Option.bind (caps_of_json cp) (\<lambda>cp.
          Option.bind (of_jopt of_jobject f) (\<lambda>f. Option.bind (of_jopt strings_of_json p) (\<lambda>p.
            Some \<lparr>ucv = v, iss = i, aud = a, exp = e, nbf = n, nnc = c, cap = cp, fct = f, prfs = p\<rparr>))))))
      | _ \<Rightarrow> None)"

lemma header_round [simp]: "header_of_json (header_json h) = Some h"
  by (simp add: header_of_json_def header_json_def)

lemma payload_round [simp]: "payload_of_json (payload_json p) = Some p"
  by (simp add: payload_of_json_def payload_json_def of_jopt_jopt)

section \<open>Text\<close>

definition hex_char :: "nat \<Rightarrow> char" where
  "hex_char n = char_of (65 + n)"

definition hex_value :: "char \<Rightarrow> nat" where
  "hex_value c = of_char c - 65"

fun hex :: "bytes \<Rightarrow> string" where
  "hex [] = []"
| "hex (b # bs) = hex_char (unat b div 16) # hex_char (unat b mod 16) # hex bs"

fun unhex :: "string \<Rightarrow> bytes option" where
  "unhex [] = Some []"
| "unhex [_] = None"
| "unhex (x # y # s) = map_option (Cons (of_nat (16 * hex_value x + hex_value y))) (unhex s)"

lemma hex_value_char [simp]: "n < 16 \<Longrightarrow> hex_value (hex_char n) = n"
  by (simp add: hex_value_def hex_char_def)

lemma unat_byte_less: "unat (b :: byte) < 256"
  using unsigned_less [of b] by simp

lemma unhex_hex [simp]: "unhex (hex bs) = Some bs"
proof (induction bs)
  case (Cons b bs)
  have "unat b div 16 < 16" using unat_byte_less [of b] by simp
  with Cons show ?case by (simp add: div_mult_mod_eq mult.commute)
qed simp

lemma hex_append: "hex (a @ b) = hex a @ hex b"
  by (induction a) auto

lemma hex_chars: "c \<in> set (hex bs) \<Longrightarrow> (of_char c :: nat) < 128 \<and> c \<noteq> CHR ''.''"
proof (induction bs)
  case (Cons b bs)
  have "(of_char (hex_char n) :: nat) < 128 \<and> hex_char n \<noteq> CHR ''.''" if "n < 16" for n
  proof -
    have "(of_char (hex_char n) :: nat) = 65 + n" using that by (simp add: hex_char_def)
    moreover have "(of_char CHR ''.'' :: nat) = 46" by simp
    ultimately show ?thesis using that by force
  qed
  moreover have "unat b div 16 < 16" using unat_byte_less [of b] by simp
  ultimately show ?case using Cons by auto
qed simp

definition ex_cid_bytes :: "cid \<Rightarrow> bytes" where
  "ex_cid_bytes c = enc_nat (codec_of c) @ digest_of c"

definition ex_texts :: text_env where
  "ex_texts =
     \<lparr>cid_to_bytes = ex_cid_bytes, base64_encode = hex, base64_decode = unhex,
      cid_to_string = (\<lambda>c. hex (ex_cid_bytes c)),
      cid_from_string = (\<lambda>s. Option.bind (unhex s) (\<lambda>b. map_option (\<lambda>(n, d). Cid n d) (dec_nat b)))\<rparr>"

lemma ex_base64_ok: "base64_ok ex_texts"
  using hex_chars by (simp add: base64_ok_def ex_texts_def)

lemma ex_cid_text_ok: "cid_text_ok ex_texts"
  by (simp add: cid_text_ok_def ex_texts_def ex_cid_bytes_def)

section \<open>Keys\<close>

definition ex_did :: "string \<Rightarrow> did" where
  "ex_did name = ''did:key:zed'' @ name"

definition ex_key :: "string \<Rightarrow> key_material" where
  "ex_key name =
     \<lparr>km_did = Inr (ex_did name), km_alg = ''EdDSA'', km_sign = (\<lambda>b. Inr (str_bytes name @ b)),
      km_verify = (\<lambda>b sig. if sig = str_bytes name @ b then Inr () else Inl (Anyhow ''Could not verify signature''))\<rparr>"

definition ex_url :: "string \<Rightarrow> url option" where
  "ex_url s =
     (case split_on CHR '':'' s of
        w # _ \<Rightarrow> if w = s then None else Some \<lparr>scheme = w, path = drop (Suc (length w)) s\<rparr>
      | [] \<Rightarrow> None)"

definition ex_world :: world where
  "ex_world =
     \<lparr>codecs = ex_env, texts = ex_texts,
      header_to_json = (\<lambda>h. Some (jenc (header_json h))),
      header_from_json = (\<lambda>b. Option.bind (of_jenc b) header_of_json),
      payload_to_json = (\<lambda>p. Some (jenc (payload_json p))),
      payload_from_json = (\<lambda>b. Option.bind (of_jenc b) payload_of_json),
      url_parse = ex_url, bs58_decode = (\<lambda>s. Some (str_bytes s)),
      hash_string = (\<lambda>k. ex_hash (str_bytes k)), hash_multihash = (\<lambda>d. ex_hash (rev d)),
      key_constructors = [str_bytes ''ed'' \<mapsto> (\<lambda>b. Inr (ex_key (bytes_str b)))]\<rparr>"

lemma ex_world_env [simp]: "codecs ex_world = ex_env" "texts ex_world = ex_texts"
  by (simp_all add: ex_world_def)

lemma ex_env_ok: "env_ok ex_env"
  using ex_codec_ok ex_hash_ok by (simp add: env_ok_def)

lemma ex_jwt_ok: "jwt_ok ex_world"
  using ex_base64_ok ex_hash_ok by (simp add: jwt_ok_def raw_ok_def json_ok_def ex_world_def ex_env_def)

lemma ex_sphere_ok: "sphere_ok ex_world"
  using ex_env_ok by (simp add: sphere_ok_def) (simp add: ex_world_def)

lemma ex_key_total: "key_total (ex_key name) (ex_did name)"
  by (simp add: key_total_def ex_key_def)

lemma ex_key_ok: "key_ok (ex_key name)"
  by (simp add: key_ok_def ex_key_def)

lemma ex_parse_key [simp]: "parse_key ex_world (ex_did name) = Inr (ex_key name)"
proof -
  have "bytes_str (map of_char name) = name" using bytes_str_inverse [of name] by (simp add: str_bytes_def)
  then show ?thesis
    by (simp add: parse_key_def ex_did_def DID_KEY_PREFIX_def strip_prefix_def ex_world_def str_bytes_def)
qed

lemma ex_did_key_ok: "did_key_ok ex_world (ex_key name) (ex_did name)"
  by (simp add: did_key_ok_def) (simp add: ex_key_def)

lemma ex_url_ok: "url_ok ex_world (ex_did name)"
  by (simp add: url_ok_def ex_world_def ex_url_def ex_did_def)

section \<open>Collisions\<close>

lemma ex_inj_free:
  assumes "inj_on (hash_string ex_world) K"
  shows "collision_free (content_ctx ex_world) K" "collision_free (identities_ctx ex_world) K"
proof -
  note ok = ctx_ok [OF ex_sphere_ok]
  show "collision_free (content_ctx ex_world) K"
    by (rule collision_free_inj)
      (use ok assms in \<open>simp_all add: hamt_ok_def content_ctx_def DEFAULT_BIT_WIDTH_def\<close>)
  show "collision_free (identities_ctx ex_world) K"
    by (rule collision_free_inj)
      (use ok assms in \<open>simp_all add: hamt_ok_def identities_ctx_def DEFAULT_BIT_WIDTH_def\<close>)
qed

text \<open>Strings that begin with different characters.\<close>

lemma ex_strings_free:
  assumes "inj_on hd K" "[] \<notin> K"
  shows "collision_free (content_ctx ex_world) K" "collision_free (identities_ctx ex_world) K"
proof -
  have "inj_on (hash_string ex_world) K"
  proof (rule inj_onI)
    fix a b assume ab: "a \<in> K" "b \<in> K" "hash_string ex_world a = hash_string ex_world b"
    have h: "hd (hash_string ex_world k) = of_char (hd k)" if "k \<in> K" for k
      using that assms(2) by (cases k) (auto simp: ex_world_def ex_hash_def str_bytes_def)
    have "(of_char (hd a) :: byte) = of_char (hd b)" using ab h by metis
    then have "hd a = hd b" using str_bytes_inj [of "[hd a]" "[hd b]"] by (simp add: str_bytes_def)
    then show "a = b" using inj_onD [OF assms(1)] ab by blast
  qed
  then show "collision_free (content_ctx ex_world) K" "collision_free (identities_ctx ex_world) K"
    by (rule ex_inj_free)+
qed

lemma ex_cids_free:
  assumes "inj_on (\<lambda>c. hash_multihash ex_world (digest_of c)) K"
  shows "collision_free (delegations_ctx ex_world) K" "collision_free (revocations_ctx ex_world) K"
proof -
  note ok = ctx_ok [OF ex_sphere_ok]
  show "collision_free (delegations_ctx ex_world) K"
    by (rule collision_free_inj)
      (use ok assms in \<open>simp_all add: hamt_ok_def delegations_ctx_def DEFAULT_BIT_WIDTH_def\<close>)
  show "collision_free (revocations_ctx ex_world) K"
    by (rule collision_free_inj)
      (use ok assms in \<open>simp_all add: hamt_ok_def revocations_ctx_def DEFAULT_BIT_WIDTH_def\<close>)
qed

end
