(* ===== verification/Example_Sphere.thy ===== *)
theory Example_Sphere
  imports Example_World
begin

text \<open>
  A small sphere in the world of \<open>Example_World\<close>: a genesis, a first revision, and two
  revisions that both grow from the first. The witnesses of the sphere's properties use it.
\<close>

abbreviation ex_owner :: did where
  "ex_owner \<equiv> ex_did ''s''"

lemma ex_owner_key: "key_total (ex_key ''s'') ex_owner"
  by (rule ex_key_total)

definition ex_entry :: cid where
  "ex_entry = Cid 113 [7]"

definition ex_newer :: cid where
  "ex_newer = Cid 113 [8]"

text \<open>One entry is added to the content.\<close>

definition ex_put :: "string \<Rightarrow> cid \<Rightarrow> sphere_mutation" where
  "ex_put k v =
     (sphere_mutation_new ex_owner)\<lparr>sm_content := mutation_set k v (vmap_mutation_new ex_owner)\<rparr>"

abbreviation ex_edit :: "string \<Rightarrow> sphere_mutation" where
  "ex_edit k \<equiv> ex_put k ex_entry"

abbreviation ex_slugs :: "string set" where
  "ex_slugs \<equiv> {''a'', ''b'', ''c'', ex_owner}"

lemma ex_universe: "universe_ok ex_world ex_slugs {}"
proof -
  have "inj_on hd ex_slugs" "[] \<notin> ex_slugs" by (simp_all add: ex_did_def)
  then show ?thesis using ex_strings_free [of ex_slugs] ex_cids_free [of "{}"] by (simp add: universe_ok_def)
qed

lemma ex_edit_in: "k \<in> ex_slugs \<Longrightarrow> mutation_in ex_slugs {} (ex_put k v)"
  by (auto simp: mutation_in_def ex_put_def sphere_mutation_new_def vmap_mutation_new_def mutation_set_def)

lemma ex_edit_authored: "authored ex_owner (ex_put k v)"
  by (simp add: authored_def ex_put_def sphere_mutation_new_def vmap_mutation_new_def mutation_set_def)

lemma ex_edit_content: "fst (st_content (step_sphere (ex_put k v) \<sigma>)) = (fst (st_content \<sigma>))(k \<mapsto> v)"
  by (simp add: step_sphere_def step_version_def ex_put_def mutation_set_def vmap_mutation_new_def)

lemma ex_edit_effective: "snd (st_content \<sigma>) \<noteq> snd (st_content (step_sphere (ex_put k v) \<sigma>)) \<Longrightarrow>
  effective \<sigma> (ex_put k v) = ex_put k v"
  by (cases "st_content \<sigma>")
    (auto simp: effective_def effective_changes_def step_sphere_def step_version_def ex_put_def
      sphere_mutation_new_def mutation_set_def vmap_mutation_new_def)

abbreviation ex_first :: sphere_state where
  "ex_first \<equiv> step_sphere (ex_edit ''a'') (empty_sphere ex_owner)"

abbreviation ex_memo_at :: "blocks \<Rightarrow> cid \<Rightarrow> memo \<Rightarrow> bool" where
  "ex_memo_at \<equiv> value_at ex_env memo_to_ipld"

text \<open>A new sphere beside what a store has.\<close>

lemma ex_genesis:
  assumes "store_ok ex_env s"
  obtains g mg s' where "s \<subseteq>\<^sub>m s'" "store_ok ex_env s'" "base_at ex_world s' ex_slugs {} (g, mg, empty_sphere d)" "parent mg = None"
proof -
  have st: "store_ok (codecs ex_world) s" using assms by simp
  obtain sp b s1 s2 where s2: "s \<subseteq>\<^sub>m s2" "store_ok (codecs ex_world) s2" "body_at ex_world s2 b (empty_sphere d)"
    by (rule sphere_new_ok [OF ex_sphere_ok st])
  let ?mg = "\<lparr>parent = None, headers = [], body = b\<rparr>"
  obtain g s3 where s3: "value_at (codecs ex_world) memo_to_ipld s3 g ?mg" "s2 \<subseteq>\<^sub>m s3" "store_ok (codecs ex_world) s3"
    by (rule save_value_ok [OF sphere_ok_env [OF ex_sphere_ok] s2(2) memo_serde])
  then show thesis
    using body_at_mono [OF s2(3) s3(2)] map_le_trans [OF s2(1) s3(2)]
    by (intro that [of s3 g ?mg]) (simp_all add: base_at_def state_in_def empty_sphere_def)
qed

text \<open>A revision of a complete version, made and signed by the owner.\<close>

lemma ex_revise:
  assumes "store_ok ex_env s" "base_at ex_world s ex_slugs {} (p, mp, \<sigma>)" "k \<in> ex_slugs"
  obtains c m s' where "s \<subseteq>\<^sub>m s'" "store_ok ex_env s'" "base_at ex_world s' ex_slugs {} (c, m, step_sphere (ex_put k v) \<sigma>)"
    "revisions ex_world s' ex_slugs {} (p, mp, \<sigma>) [(c, m, ex_put k v)]" "parent m = Some p"
proof -
  have B: "value_at (codecs ex_world) memo_to_ipld s p mp" "body_at ex_world s (body mp) \<sigma>" "state_in ex_slugs {} \<sigma>"
    using assms(2) by (simp_all add: base_at_def)
  have st: "store_ok (codecs ex_world) s" using assms(1) by simp
  obtain c m s' where s': "s \<subseteq>\<^sub>m s'" "store_ok (codecs ex_world) s'" "value_at (codecs ex_world) memo_to_ipld s' c m" "parent m = Some p"
      "get_first_header (header_str Author) m = Some ex_owner" "base_at ex_world s' ex_slugs {} (c, m, step_sphere (ex_put k v) \<sigma>)"
    by (rule authored_header [OF ex_sphere_ok ex_jwt_ok ex_key_total auth_ok_None st B ex_universe ex_edit_in [OF assms(3)]]) blast
  have "body_sparse ex_world s' (body m) (step_sphere (ex_put k v) \<sigma>)"
    using s'(6) body_at_sparse [OF s'(2)] by (simp add: base_at_def)
  with s' show thesis
    using ex_edit_in [OF assms(3)] ex_edit_authored by (intro that [of s' c m]) auto
qed

lemma ex_scenario:
  obtains g mg p mp n mn r mr q mq s where "store_ok ex_env s" "lineage ex_env s [(p, mp), (g, mg)]"
    "body_at ex_world s (body mg) (empty_sphere ex_owner)"
    "base_at ex_world s ex_slugs {} (p, mp, ex_first)"
    "revisions ex_world s ex_slugs {} (g, mg, empty_sphere ex_owner) [(p, mp, ex_edit ''a'')]"
    "revisions ex_world s ex_slugs {} (p, mp, ex_first) [(n, mn, ex_edit ''b'')]"
    "revisions ex_world s ex_slugs {} (p, mp, ex_first) [(r, mr, ex_edit ''c'')]"
    "revisions ex_world s ex_slugs {} (p, mp, ex_first) [(q, mq, ex_put ''a'' ex_newer)]"
proof -
  obtain g mg s3 where s3: "store_ok ex_env s3" "base_at ex_world s3 ex_slugs {} (g, mg, empty_sphere ex_owner)" "parent mg = None"
    by (rule ex_genesis [OF store_ok_empty])
  obtain p mp s4 where s4: "s3 \<subseteq>\<^sub>m s4" "store_ok ex_env s4" "base_at ex_world s4 ex_slugs {} (p, mp, ex_first)"
      "revisions ex_world s4 ex_slugs {} (g, mg, empty_sphere ex_owner) [(p, mp, ex_edit ''a'')]" "parent mp = Some g"
    by (rule ex_revise [OF s3(1,2), of "''a''"]) (simp, blast)
  obtain n mn s5 where s5: "s4 \<subseteq>\<^sub>m s5" "store_ok ex_env s5"
      "revisions ex_world s5 ex_slugs {} (p, mp, ex_first) [(n, mn, ex_edit ''b'')]"
    by (rule ex_revise [OF s4(2,3), of "''b''"]) (simp, blast)
  obtain r mr s6 where s6: "s5 \<subseteq>\<^sub>m s6" "store_ok ex_env s6"
      "revisions ex_world s6 ex_slugs {} (p, mp, ex_first) [(r, mr, ex_edit ''c'')]"
    by (rule ex_revise [OF s5(2) base_at_mono [OF s4(3) s5(1)], of "''c''"]) (simp, blast)
  have le: "s4 \<subseteq>\<^sub>m s6" by (rule map_le_trans [OF s5(1) s6(1)])
  obtain q mq s7 where s7: "s6 \<subseteq>\<^sub>m s7" "store_ok ex_env s7"
      "revisions ex_world s7 ex_slugs {} (p, mp, ex_first) [(q, mq, ex_put ''a'' ex_newer)]"
    by (rule ex_revise [OF s6(2) base_at_mono [OF s4(3) le], of "''a''"]) (simp, blast)
  have le: "s4 \<subseteq>\<^sub>m s7" "s3 \<subseteq>\<^sub>m s7" by (rule map_le_trans [OF le s7(1)])
      (rule map_le_trans [OF s4(1) map_le_trans [OF le s7(1)]])
  show thesis
  proof (rule that [of s7 p mp g mg n mn r mr q mq])
    show "lineage ex_env s7 [(p, mp), (g, mg)]"
      using s4(3,5) s3(2,3) value_at_mono [OF _ le(1)] value_at_mono [OF _ le(2)] by (simp add: base_at_def)
    show "body_at ex_world s7 (body mg) (empty_sphere ex_owner)"
      using s3(2) body_at_mono [OF _ le(2)] by (simp add: base_at_def)
    show "revisions ex_world s7 ex_slugs {} (p, mp, ex_first) [(n, mn, ex_edit ''b'')]"
      by (rule revisions_mono [OF s5(3) map_le_trans [OF s6(1) s7(1)]])
    show "revisions ex_world s7 ex_slugs {} (p, mp, ex_first) [(r, mr, ex_edit ''c'')]"
      by (rule revisions_mono [OF s6(3) s7(1)])
  qed (rule s7 base_at_mono [OF s4(3) le(1)] revisions_mono [OF s4(4) le(1)])+
qed

end
