(* ===== verification/Sphere_Spec.thy ===== *)
theory Sphere_Spec
  imports Example_Sphere
begin

text \<open>
  The properties of spheres and their histories, with witnesses in the sphere of
  \<open>Example_Sphere\<close>.
\<close>

section \<open>Versions\<close>

text \<open>C2: applying a mutation to a complete version succeeds. The new revision is a child of the
  version, keeps its identity, and its body holds the four maps after the changes, each with the
  changelog that made it; the store only gains blocks.\<close>

theorem apply_refines_step:
  assumes "sphere_ok W" "store_ok (codecs W) s" "value_at (codecs W) memo_to_ipld s c m"
    "body_at W s (body m) \<sigma>" "keys_ok W \<sigma> \<mu>"
  shows "\<exists>r s'. apply_mutation_with_cid W c \<mu> s = (Inr r, s') \<and> rev_identity r = st_identity \<sigma> \<and>
    parent (rev_memo r) = Some c \<and> lamport_order (rev_memo r) = lamport_order m + 1 \<and>
    body_at W s' (body (rev_memo r)) (step_sphere \<mu> \<sigma>) \<and> s \<subseteq>\<^sub>m s' \<and> store_ok (codecs W) s'"
proof -
  obtain b s' where "apply_mutation_with_cid W c \<mu> s =
       (Inr \<lparr>rev_identity = st_identity \<sigma>, rev_memo = (branch_memo c m)\<lparr>body := b\<rparr>\<rparr>, s')"
    "s \<subseteq>\<^sub>m s'" "store_ok (codecs W) s'" "body_at W s' b (step_sphere \<mu> \<sigma>)"
    by (rule apply_mutation_ok [OF assms])
  moreover have "lamport_order ((branch_memo c m)\<lparr>body := b\<rparr>) = lamport_order m + 1"
    using lamport_branch [of c m] by (simp add: lamport_order_def get_first_header_def)
  ultimately show ?thesis by (simp add: branch_memo_fields)
qed

theorem apply_refines_step_witness:
  "\<exists>c s r s'. apply_mutation_with_cid ex_world c (ex_edit ''b'') s = (Inr r, s') \<and> parent (rev_memo r) = Some c \<and>
     body_at ex_world s' (body (rev_memo r)) (step_sphere (ex_edit ''b'') ex_first)"
proof -
  obtain g mg p mp s where s: "store_ok ex_env s" "base_at ex_world s ex_slugs {} (p, mp, ex_first)"
    by (rule ex_scenario)
  have "keys_ok ex_world ex_first (ex_edit ''b'')"
    using keys_ok_in [OF ex_universe] s(2) ex_edit_in [of "''b''"] by (auto simp: base_at_def)
  then show ?thesis
    using apply_refines_step [OF ex_sphere_ok, of s p mp ex_first "ex_edit ''b''"] s by (auto simp: base_at_def)
qed

text \<open>C12: the mutation derived from a signed revision is the mutation that was applied, except
  for changes to a map that left the map and its changelog as they were; it has the same
  effect.\<close>

theorem derive_inverts_apply:
  assumes "sphere_ok W" "jwt_ok W" "universe_ok W KS KC" "key_total key d" "auth_ok W s auth" "store_ok (codecs W) s"
    "base_at W s KS KC (p, mp, \<sigma>)" "mutation_in KS KC \<mu>" "authored d \<mu>"
  shows "\<exists>c s'. sbind (apply_mutation_with_cid W p \<mu> s) (\<lambda>r s. revision_sign W now nonce key auth r s) = (Inr c, s') \<and>
    derive_mutation W c s' = Inr (effective \<sigma> \<mu>) \<and> step_sphere (effective \<sigma> \<mu>) \<sigma> = step_sphere \<mu> \<sigma>"
proof -
  have B: "value_at (codecs W) memo_to_ipld s p mp" "body_at W s (body mp) \<sigma>" "state_in KS KC \<sigma>"
    using assms(7) by (simp_all add: base_at_def)
  obtain c m s' where s': "sbind (apply_mutation_with_cid W p \<mu> s) (\<lambda>r s. revision_sign W now nonce key auth r s) = (Inr c, s')"
      "s \<subseteq>\<^sub>m s'" "store_ok (codecs W) s'" "value_at (codecs W) memo_to_ipld s' c m" "parent m = Some p"
      "get_first_header (header_str Author) m = Some d" "base_at W s' KS KC (c, m, step_sphere \<mu> \<sigma>)"
    by (rule authored_header [OF assms(1,2,4-6) B assms(3,8)])
  have "body_sparse W s' (body m) (step_sphere \<mu> \<sigma>)"
    using s'(7) body_at_sparse [OF s'(3)] by (simp add: base_at_def)
  then have "derive_mutation W c s' = Inr (effective \<sigma> \<mu>)"
    by (rule derive_mutation_ok [OF assms(1) s'(4,5) value_at_mono [OF B(1) s'(2)]
        body_sparse_mono [OF body_at_sparse [OF assms(6) B(2)] s'(2)] _ s'(6) assms(9)])
  with s'(1) show ?thesis by simp
qed

theorem derive_inverts_apply_witness:
  "\<exists>p s c s'. sbind (apply_mutation_with_cid ex_world p (ex_edit ''b'') s)
       (\<lambda>r s. revision_sign ex_world 1000 [] (ex_key ''s'') None r s) = (Inr c, s') \<and>
     derive_mutation ex_world c s' = Inr (ex_edit ''b'')"
proof -
  obtain g mg p mp s where s: "store_ok ex_env s" "base_at ex_world s ex_slugs {} (p, mp, ex_first)"
    by (rule ex_scenario)
  have "effective ex_first (ex_edit ''b'') = ex_edit ''b''"
    by (rule ex_edit_effective)
      (simp add: step_sphere_def step_version_def ex_put_def mutation_set_def vmap_mutation_new_def)
  then show ?thesis
    using derive_inverts_apply [OF ex_sphere_ok ex_jwt_ok ex_universe ex_owner_key auth_ok_None _ s(2)
        ex_edit_in ex_edit_authored, of "''b''" ex_entry 1000 "[]"] s(1) by auto
qed

lemma body_fun:
  assumes "sphere_ok W" "store_ok (codecs W) s" "store_ok (codecs W) t" "body_at W s b \<sigma>" "body_at W t b \<tau>"
  shows "\<sigma> = \<tau>"
proof -
  note env = sphere_ok_env [OF assms(1)] and X = ctx_ok [OF assms(1)]
  have h: "hash_ok (codecs W)" using env by (simp add: env_ok_def)
  note u = union_le [OF h assms(2,3)]
  let ?u = "s ++ t"
  obtain sp book auth sp' book' auth' where
      1: "body_is W ?u (\<lambda>c v. vm_sparse (content_ctx W) ?u c (fst v) (snd v)) (\<lambda>c v. vm_sparse (identities_ctx W) ?u c (fst v) (snd v))
        (\<lambda>c v. vm_sparse (delegations_ctx W) ?u c (fst v) (snd v)) (\<lambda>c v. vm_sparse (revocations_ctx W) ?u c (fst v) (snd v)) b \<sigma> sp book auth"
    and 2: "body_is W ?u (\<lambda>c v. vm_sparse (content_ctx W) ?u c (fst v) (snd v)) (\<lambda>c v. vm_sparse (identities_ctx W) ?u c (fst v) (snd v))
        (\<lambda>c v. vm_sparse (delegations_ctx W) ?u c (fst v) (snd v)) (\<lambda>c v. vm_sparse (revocations_ctx W) ?u c (fst v) (snd v)) b \<tau> sp' book' auth'"
    using body_at_sparse [OF u(3) body_at_mono [OF assms(4) u(1)]] body_at_sparse [OF u(3) body_at_mono [OF assms(5) u(2)]]
    unfolding body_sparse_def by blast
  note 1 = 1 [unfolded body_is_def] and 2 = 2 [unfolded body_is_def]
  have sp: "sp = sp'" by (rule value_at_fun [OF env sphere_serde]) (use 1 2 in blast)+
  have book: "book = book'" by (rule value_at_fun [OF env address_book_serde]) (use 1 2 sp in blast)+
  have auth: "auth = auth'" by (rule value_at_fun [OF env authority_serde]) (use 1 2 sp in blast)+
  have "st_content \<sigma> = st_content \<tau>" using vm_sparse_fun [OF X(1), of ?u "content sp"] 1 2 sp by (simp add: prod_eq_iff) blast
  moreover have "st_identities \<sigma> = st_identities \<tau>"
    using vm_sparse_fun [OF X(2), of ?u "identities book"] 1 2 book by (simp add: prod_eq_iff) blast
  moreover have "st_delegations \<sigma> = st_delegations \<tau>"
    using vm_sparse_fun [OF X(3), of ?u "delegations auth"] 1 2 auth by (simp add: prod_eq_iff) blast
  moreover have "st_revocations \<sigma> = st_revocations \<tau>"
    using vm_sparse_fun [OF X(4), of ?u "revocations auth"] 1 2 auth by (simp add: prod_eq_iff) blast
  ultimately show ?thesis using 1 2 sp by (intro sphere_state.equality) simp_all
qed

text \<open>C23: two versions, made by applying mutations in any two stores to any two spheres, have the
  same body CID exactly if they are the same sphere: the same identity and the same maps with
  the same changelogs. What the stores had before, and the versions before the last, leave no
  trace in the CID, and no two spheres share one.\<close>

theorem body_cid_identifies:
  assumes "sphere_ok W"
    "store_ok (codecs W) s" "value_at (codecs W) memo_to_ipld s c m" "body_at W s (body m) \<sigma>" "keys_ok W \<sigma> \<mu>"
    "store_ok (codecs W) t" "value_at (codecs W) memo_to_ipld t e n" "body_at W t (body n) \<tau>" "keys_ok W \<tau> \<nu>"
  shows "\<exists>r s' q t'. apply_mutation_with_cid W c \<mu> s = (Inr r, s') \<and> apply_mutation_with_cid W e \<nu> t = (Inr q, t') \<and>
    (body (rev_memo r) = body (rev_memo q) \<longleftrightarrow> step_sphere \<mu> \<sigma> = step_sphere \<nu> \<tau>)"
proof -
  obtain b s' where s': "apply_mutation_with_cid W c \<mu> s =
      (Inr \<lparr>rev_identity = st_identity \<sigma>, rev_memo = (branch_memo c m)\<lparr>body := b\<rparr>\<rparr>, s')"
      "store_ok (codecs W) s'" "body_at W s' b (step_sphere \<mu> \<sigma>)"
    by (rule apply_mutation_ok [OF assms(1-5)])
  obtain d t' where t': "apply_mutation_with_cid W e \<nu> t =
      (Inr \<lparr>rev_identity = st_identity \<tau>, rev_memo = (branch_memo e n)\<lparr>body := d\<rparr>\<rparr>, t')"
      "store_ok (codecs W) t'" "body_at W t' d (step_sphere \<nu> \<tau>)"
    by (rule apply_mutation_ok [OF assms(1,6-9)])
  have "b = d \<longleftrightarrow> step_sphere \<mu> \<sigma> = step_sphere \<nu> \<tau>"
    using body_fun [OF assms(1) s'(2) t'(2)] s'(3) t'(3)
      body_sparse_cid [OF body_at_sparse [OF s'(2,3)]] body_at_sparse [OF t'(2,3)] by metis
  with s'(1) t'(1) show ?thesis by simp
qed

text \<open>An entry that two versions disagree on is set to the same value on both.\<close>

theorem body_cid_identifies_witness:
  "\<exists>p s q t r s' r' t'. p \<noteq> q \<and> apply_mutation_with_cid ex_world p (ex_edit ''a'') s = (Inr r, s') \<and>
     apply_mutation_with_cid ex_world q (ex_edit ''a'') t = (Inr r', t') \<and> body (rev_memo r) = body (rev_memo r')"
proof -
  obtain g mg s3 where s3: "store_ok ex_env s3" "base_at ex_world s3 ex_slugs {} (g, mg, empty_sphere ex_owner)" "parent mg = None"
    by (rule ex_genesis [OF store_ok_empty])
  obtain p mp s where s: "s3 \<subseteq>\<^sub>m s" "store_ok ex_env s" "base_at ex_world s ex_slugs {} (p, mp, ex_first)" "parent mp = Some g"
    by (rule ex_revise [OF s3(1,2), of "''a''"]) (simp, blast)
  let ?\<tau> = "step_sphere (ex_put ''a'' ex_newer) ex_first"
  obtain q mq t where t: "s \<subseteq>\<^sub>m t" "store_ok ex_env t" "base_at ex_world t ex_slugs {} (q, mq, ?\<tau>)" "parent mq = Some p"
    by (rule ex_revise [OF s(2,3), of "''a''" ex_newer]) (simp, blast)
  have B: "ex_memo_at s p mp" "body_at ex_world s (body mp) ex_first" "state_in ex_slugs {} ex_first"
      "ex_memo_at t q mq" "body_at ex_world t (body mq) ?\<tau>" "state_in ex_slugs {} ?\<tau>" "ex_memo_at t p mp" "ex_memo_at t g mg"
    using s(3) t(3) value_at_mono [OF _ t(1)] value_at_mono [OF _ map_le_trans [OF s(1) t(1)]] s3(2) by (auto simp: base_at_def)
  have k: "keys_ok ex_world ex_first (ex_edit ''a'')" "keys_ok ex_world ?\<tau> (ex_edit ''a'')"
    using keys_ok_in [OF ex_universe] B(3,6) ex_edit_in [of "''a''" ex_entry] by blast+
  have st: "store_ok (codecs ex_world) s" "store_ok (codecs ex_world) t" using s(2) t(2) by simp_all
  have m: "value_at (codecs ex_world) memo_to_ipld s p mp" "value_at (codecs ex_world) memo_to_ipld t q mq" using B(1,4) by simp_all
  have "lineage ex_env t [(q, mq), (p, mp), (g, mg)]" using B(4,7,8) t(4) s(4) s3(3) by simp
  then have "p \<noteq> q" using lineage_distinct [OF ex_env_ok] by fastforce
  moreover have "step_sphere (ex_edit ''a'') ex_first = step_sphere (ex_edit ''a'') ?\<tau>"
    by (simp add: step_sphere_def step_version_def ex_put_def mutation_set_def vmap_mutation_new_def sphere_mutation_new_def empty_sphere_def)
  ultimately show ?thesis
    using body_cid_identifies [OF ex_sphere_ok st(1) m(1) B(2) k(1) st(2) m(2) B(5) k(2)] by blast
qed

section \<open>Histories\<close>

text \<open>C13: hydrating the versions after a complete base, of which only the changelogs are at
  hand, succeeds and makes the last version complete: its body can be read with all its maps.\<close>

theorem hydrate_restores:
  assumes "sphere_ok W" "universe_ok W KS KC" "store_ok (codecs W) s" "base_at W s KS KC (p, mp, \<sigma>p)"
    "lineage (codecs W) s ((p, mp) # hs)" "revisions W s KS KC (p, mp, \<sigma>p) rs" "rs \<noteq> []" "length rs < f"
  shows "\<exists>s'. hydrate_timeslice f W (without_past (slice (fst (last rs)) (Some p))) s = (Inr (), s') \<and> s \<subseteq>\<^sub>m s' \<and>
    store_ok (codecs W) s' \<and> body_at W s' (body (fst (snd (last rs)))) (final_state rs \<sigma>p)"
proof -
  obtain s' where s': "hydrate_all W (map fst rs) s = (Inr (), s')" "s \<subseteq>\<^sub>m s'" "store_ok (codecs W) s'"
      "base_at W s' KS KC (last_version (p, mp, \<sigma>p) rs)"
    using hydrate_all_ok [OF assms(1-4,6)] by blast
  moreover have "hydrate_timeslice f W (without_past (slice (fst (last rs)) (Some p))) s = (Inr (), s')"
    using series_exclude [OF sphere_ok_env [OF assms(1)] assms(5-8)] s'(1) by (simp add: hydrate_timeslice_def)
  ultimately show ?thesis using assms(7) by (auto simp: base_at_def last_version_def)
qed

theorem hydrate_restores_witness:
  "\<exists>n (mn :: memo) p s s'. hydrate_timeslice 2 ex_world (without_past (slice n (Some p))) s = (Inr (), s') \<and>
     body_at ex_world s' (body mn) (step_sphere (ex_edit ''b'') ex_first)"
proof -
  obtain g mg p mp n mn s where s: "store_ok ex_env s" "lineage ex_env s [(p, mp), (g, mg)]"
      "base_at ex_world s ex_slugs {} (p, mp, ex_first)"
      "revisions ex_world s ex_slugs {} (p, mp, ex_first) [(n, mn, ex_edit ''b'')]"
    by (rule ex_scenario)
  then have "\<exists>s'. hydrate_timeslice 2 ex_world (without_past (slice n (Some p))) s = (Inr (), s') \<and>
      body_at ex_world s' (body mn) (step_sphere (ex_edit ''b'') ex_first)"
    using hydrate_restores [OF ex_sphere_ok ex_universe _ s(3) _ s(4), of "[(g, mg)]" 2] by (auto simp del: revisions.simps)
  then show ?thesis by blast
qed

text \<open>C14: compacting a series of versions gives one version, a child of the version before the
  series, that has the same maps as the last version of the series.\<close>

theorem compact_keeps_maps:
  assumes "sphere_ok W" "jwt_ok W" "universe_ok W KS KC" "key_total (author_key a) d"
    "auth_ok W s (author_authorization a)" "store_ok (codecs W) s" "base_at W s KS KC (p, mp, \<sigma>p)"
    "lineage (codecs W) s ((p, mp) # hs)" "revisions W s KS KC (p, mp, \<sigma>p) rs" "rs \<noteq> []" "length rs < f"
  shows "\<exists>c m \<sigma> s'. compact f W now nonce (fst (last rs)) (fst (hd rs)) a s = (Inr c, s') \<and> s \<subseteq>\<^sub>m s' \<and>
    value_at (codecs W) memo_to_ipld s' c m \<and> parent m = Some p \<and> body_at W s' (body m) \<sigma> \<and>
    sphere_maps \<sigma> = sphere_maps (final_state rs \<sigma>p)"
proof -
  obtain c m \<mu> s' where "compact f W now nonce (fst (last rs)) (fst (hd rs)) a s = (Inr c, s')" "s \<subseteq>\<^sub>m s'"
    "base_at W s' KS KC (c, m, step_sphere \<mu> \<sigma>p)" "revisions W s' KS KC (p, mp, \<sigma>p) [(c, m, \<mu>)]"
    "sphere_maps (step_sphere \<mu> \<sigma>p) = sphere_maps (final_state rs \<sigma>p)"
    by (rule compact_ok [OF assms])
  then show ?thesis by (auto simp: base_at_def)
qed

theorem compact_keeps_maps_witness:
  "\<exists>g p n s c m \<sigma> s'. compact 3 ex_world 1000 [] n p \<lparr>author_key = ex_key ''s'', author_authorization = None\<rparr> s = (Inr c, s') \<and>
     ex_memo_at s' c m \<and> parent m = Some g \<and> body_at ex_world s' (body m) \<sigma> \<and>
     fst (st_content \<sigma>) = [''a'' \<mapsto> ex_entry, ''b'' \<mapsto> ex_entry]"
proof -
  obtain g mg p mp n mn s where s: "store_ok ex_env s" "lineage ex_env s [(p, mp), (g, mg)]"
      "body_at ex_world s (body mg) (empty_sphere ex_owner)"
      "revisions ex_world s ex_slugs {} (g, mg, empty_sphere ex_owner) [(p, mp, ex_edit ''a'')]"
      "revisions ex_world s ex_slugs {} (p, mp, ex_first) [(n, mn, ex_edit ''b'')]"
    by (rule ex_scenario)
  let ?a = "\<lparr>author_key = ex_key ''s'', author_authorization = None\<rparr>" and ?rs = "[(p, mp, ex_edit ''a''), (n, mn, ex_edit ''b'')]"
  have l: "lineage (codecs ex_world) s ((g, mg) # [])" using s(2) by simp
  have b: "base_at ex_world s ex_slugs {} (g, mg, empty_sphere ex_owner)"
    using l s(3) by (simp add: base_at_def state_in_def empty_sphere_def)
  have r: "revisions ex_world s ex_slugs {} (g, mg, empty_sphere ex_owner) ?rs" using s(4,5) by simp
  have k: "key_total (author_key ?a) ex_owner" "auth_ok ex_world s (author_authorization ?a)"
    using ex_key_total by (simp_all add: auth_ok_None)
  have st: "store_ok (codecs ex_world) s" using s(1) by simp
  obtain c m \<sigma> s' where c: "compact 3 ex_world 1000 [] n p ?a s = (Inr c, s')" "ex_memo_at s' c m" "parent m = Some g"
      "body_at ex_world s' (body m) \<sigma>" "sphere_maps \<sigma> = sphere_maps (final_state ?rs (empty_sphere ex_owner))"
    using compact_keeps_maps [OF ex_sphere_ok ex_jwt_ok ex_universe k st b l r, of 3 1000 "[]"] by auto
  have "fst (st_content \<sigma>) = [''a'' \<mapsto> ex_entry, ''b'' \<mapsto> ex_entry]"
    using c(5) by (simp add: sphere_maps_def ex_edit_content) (simp add: empty_sphere_def)
  with c(1-4) show ?thesis by blast
qed

text \<open>C3: rebasing a local series onto a series received for the same base first hydrates the
  received one; the result is the received state with the mutations of the local series done
  again, in their order, each as a version signed by the given key.\<close>

theorem rebase_replays:
  assumes "sphere_ok W" "jwt_ok W" "universe_ok W KS KC" "key_total key d" "auth_ok W s auth" "store_ok (codecs W) s"
    "base_at W s KS KC (p, mp, \<sigma>p)" "lineage (codecs W) s ((p, mp) # hs)"
    "revisions W s KS KC (p, mp, \<sigma>p) ns" "ns \<noteq> []" "length ns < f"
    "revisions W s KS KC (p, mp, \<sigma>p) rs" "rs \<noteq> []" "length rs < f"
  shows "\<exists>c m rs' s'. rebase f W now nonces (fst (last rs)) p (fst (last ns)) key auth s = (Inr c, s') \<and> s \<subseteq>\<^sub>m s' \<and>
    value_at (codecs W) memo_to_ipld s' c m \<and> body_at W s' (body m) (replay \<sigma>p rs (final_state ns \<sigma>p)) \<and>
    replayed W s' d \<sigma>p rs (last_version (p, mp, \<sigma>p) ns) rs' \<and> fst (last_version (last_version (p, mp, \<sigma>p) ns) rs') = c"
proof -
  obtain c m rs' s' where "rebase f W now nonces (fst (last rs)) p (fst (last ns)) key auth s = (Inr c, s')"
    "s \<subseteq>\<^sub>m s'" "store_ok (codecs W) s'" "base_at W s' KS KC (c, m, replay \<sigma>p rs (final_state ns \<sigma>p))"
    "replayed W s' d \<sigma>p rs (last_version (p, mp, \<sigma>p) ns) rs'"
    "last_version (last_version (p, mp, \<sigma>p) ns) rs' = (c, m, replay \<sigma>p rs (final_state ns \<sigma>p))"
    by (rule rebase_ok [OF assms])
  then show ?thesis by (intro exI [of _ c] exI [of _ m] exI [of _ rs'] exI [of _ s']) (simp add: base_at_def)
qed

theorem rebase_replays_witness:
  "\<exists>r p n s c m \<sigma> s'. rebase 2 ex_world 1000 (\<lambda>_. []) r p n (ex_key ''s'') None s = (Inr c, s') \<and> ex_memo_at s' c m \<and>
     body_at ex_world s' (body m) \<sigma> \<and> fst (st_content \<sigma>) = [''a'' \<mapsto> ex_entry, ''b'' \<mapsto> ex_entry, ''c'' \<mapsto> ex_entry]"
proof -
  obtain g mg p mp n mn r mr s where s: "store_ok ex_env s" "lineage ex_env s [(p, mp), (g, mg)]"
      "base_at ex_world s ex_slugs {} (p, mp, ex_first)"
      "revisions ex_world s ex_slugs {} (p, mp, ex_first) [(n, mn, ex_edit ''b'')]"
      "revisions ex_world s ex_slugs {} (p, mp, ex_first) [(r, mr, ex_edit ''c'')]"
    by (rule ex_scenario)
  have st: "store_ok (codecs ex_world) s" "lineage (codecs ex_world) s ((p, mp) # [(g, mg)])" using s(1,2) by simp_all
  let ?\<sigma> = "replay ex_first [(r, mr, ex_edit ''c'')] (final_state [(n, mn, ex_edit ''b'')] ex_first)"
  obtain c m s' where c: "rebase 2 ex_world 1000 (\<lambda>_. []) r p n (ex_key ''s'') None s = (Inr c, s')" "ex_memo_at s' c m"
      "body_at ex_world s' (body m) ?\<sigma>"
    using rebase_replays [OF ex_sphere_ok ex_jwt_ok ex_universe ex_owner_key auth_ok_None st(1) s(3) st(2) s(4) _ _ s(5),
        of 2 1000 "\<lambda>_. []"] by auto
  have "effective ex_first (ex_edit ''c'') = ex_edit ''c''"
    by (rule ex_edit_effective)
      (simp add: step_sphere_def step_version_def ex_put_def mutation_set_def vmap_mutation_new_def)
  then have "fst (st_content ?\<sigma>) = [''a'' \<mapsto> ex_entry, ''b'' \<mapsto> ex_entry, ''c'' \<mapsto> ex_entry]"
    by (simp add: ex_edit_content) (simp add: empty_sphere_def)
  with c show ?thesis by blast
qed

text \<open>C32: when there are no local changes, so that the local version is the old base itself, a
  rebase does not stop at the received version. It does the old base's own mutation again on
  top of the received state, so that the older changes overwrite the newer ones.\<close>

theorem rebase_repeats_base:
  assumes "sphere_ok W" "jwt_ok W" "universe_ok W KS KC" "key_total key d" "auth_ok W s auth" "store_ok (codecs W) s"
    "base_at W s KS KC (p, mp, step_sphere \<mu> \<sigma>g)" "lineage (codecs W) s ((p, mp) # (g, mg) # hs)"
    "body_at W s (body mg) \<sigma>g" "revisions W s KS KC (g, mg, \<sigma>g) [(p, mp, \<mu>)]"
    "revisions W s KS KC (p, mp, step_sphere \<mu> \<sigma>g) ns" "ns \<noteq> []" "length ns < f" "1 < f"
  shows "\<exists>c m s'. rebase f W now nonces p p (fst (last ns)) key auth s = (Inr c, s') \<and>
    value_at (codecs W) memo_to_ipld s' c m \<and> parent m = Some (fst (last ns)) \<and>
    body_at W s' (body m) (step_sphere (effective \<sigma>g \<mu>) (final_state ns (step_sphere \<mu> \<sigma>g)))"
proof -
  obtain c m s' where "rebase f W now nonces p p (fst (last ns)) key auth s = (Inr c, s')"
    "base_at W s' KS KC (c, m, step_sphere (effective \<sigma>g \<mu>) (final_state ns (step_sphere \<mu> \<sigma>g)))"
    "parent m = Some (fst (last ns))"
    by (rule rebase_unchanged [OF assms(1-8) body_at_sparse [OF assms(6,9)] assms(10) refl assms(11-)])
  then show ?thesis by (auto simp: base_at_def)
qed

theorem rebase_repeats_base_witness:
  "\<exists>p mp q mq s c m \<sigma> s'. revisions ex_world s ex_slugs {} (p, mp, ex_first) [(q, mq, ex_put ''a'' ex_newer)] \<and>
     rebase 2 ex_world 1000 (\<lambda>_. []) p p q (ex_key ''s'') None s = (Inr c, s') \<and> ex_memo_at s' c m \<and> parent m = Some q \<and>
     body_at ex_world s' (body m) \<sigma> \<and> fst (st_content \<sigma>) ''a'' = Some ex_entry"
proof -
  obtain g mg p mp q mq s where s: "store_ok ex_env s" "lineage ex_env s [(p, mp), (g, mg)]"
      "body_at ex_world s (body mg) (empty_sphere ex_owner)" "base_at ex_world s ex_slugs {} (p, mp, ex_first)"
      "revisions ex_world s ex_slugs {} (g, mg, empty_sphere ex_owner) [(p, mp, ex_edit ''a'')]"
      "revisions ex_world s ex_slugs {} (p, mp, ex_first) [(q, mq, ex_put ''a'' ex_newer)]"
    by (rule ex_scenario)
  have st: "store_ok (codecs ex_world) s" "lineage (codecs ex_world) s ((p, mp) # (g, mg) # [])" using s(1,2) by simp_all
  have e: "effective (empty_sphere ex_owner) (ex_edit ''a'') = ex_edit ''a''"
    by (rule ex_edit_effective)
      (simp add: step_sphere_def step_version_def ex_put_def mutation_set_def vmap_mutation_new_def empty_sphere_def changelog_default_def)
  obtain c m s' where c: "rebase 2 ex_world 1000 (\<lambda>_. []) p p q (ex_key ''s'') None s = (Inr c, s')" "ex_memo_at s' c m"
      "parent m = Some q" "body_at ex_world s' (body m) (step_sphere (ex_edit ''a'') (step_sphere (ex_put ''a'' ex_newer) ex_first))"
    using rebase_repeats_base [OF ex_sphere_ok ex_jwt_ok ex_universe ex_owner_key auth_ok_None st(1) s(4) st(2) s(3,5,6),
        of 2 1000 "\<lambda>_. []"] e by auto
  have "fst (st_content (step_sphere (ex_edit ''a'') (step_sphere (ex_put ''a'' ex_newer) ex_first))) ''a'' = Some ex_entry"
    by (simp add: ex_edit_content)
  with c s(6) show ?thesis by blast
qed

text \<open>C28: a revision whose author header names another identity than the changelog of its content
  cannot be derived or hydrated. This is what a rebase makes when the signer is not the author of
  the rebased changes, as the changelogs keep their author.\<close>

theorem foreign_changelog_rejected:
  assumes "sphere_ok W" "value_at (codecs W) memo_to_ipld s c m" "parent m = Some p"
    "value_at (codecs W) memo_to_ipld s p mp" "body_sparse W s (body mp) \<sigma>p" "body_sparse W s (body m) (step_sphere \<mu> \<sigma>p)"
    "get_first_header (header_str Author) m = Some d" "mut_did (sm_content \<mu>) \<noteq> d"
    "step_version (sm_content \<mu>) (st_content \<sigma>p) \<noteq> st_content \<sigma>p"
  shows "derive_mutation W c s = Inl (Anyhow ''Changelog has unexpected author'') \<and>
    hydrate_with_cid W c s = (Inl (Anyhow ''Changelog has unexpected author''), s)"
proof -
  have st: "st_content (step_sphere \<mu> \<sigma>p) = step_version (sm_content \<mu>) (st_content \<sigma>p)" by (simp add: step_sphere_def)
  have "derive_mutation W c s = Inl (Anyhow ''Changelog has unexpected author'')"
    by (rule derive_mutation_parts [OF assms(1-7)], unfold st)
      (simp add: derive_part_author [OF ctx_ok(1) [OF assms(1)] _ _ assms(8,9)])
  moreover have "to_memo W c s = Inr m"
    unfolding to_memo_def by (rule load_value_ok [OF sphere_ok_env [OF assms(1)] memo_serde assms(2)])
  ultimately show ?thesis using assms(3) by (simp add: hydrate_with_cid_def)
qed

theorem foreign_changelog_rejected_witness:
  "\<exists>p s c s'. sbind (apply_mutation_with_cid ex_world p (ex_edit ''b'') s)
       (\<lambda>r s. revision_sign ex_world 1000 [] (ex_key ''x'') None r s) = (Inr c, s') \<and>
     derive_mutation ex_world c s' = Inl (Anyhow ''Changelog has unexpected author'')"
proof -
  obtain g mg p mp s where s: "store_ok ex_env s" "base_at ex_world s ex_slugs {} (p, mp, ex_first)"
    by (rule ex_scenario)
  have st: "store_ok (codecs ex_world) s" using s(1) by simp
  have B: "value_at (codecs ex_world) memo_to_ipld s p mp" "body_at ex_world s (body mp) ex_first" "state_in ex_slugs {} ex_first"
    using s(2) by (simp_all add: base_at_def)
  have k: "''b'' \<in> ex_slugs" by simp
  obtain c m s' where s': "sbind (apply_mutation_with_cid ex_world p (ex_edit ''b'') s)
        (\<lambda>r s. revision_sign ex_world 1000 [] (ex_key ''x'') None r s) = (Inr c, s')"
      "s \<subseteq>\<^sub>m s'" "store_ok (codecs ex_world) s'" "value_at (codecs ex_world) memo_to_ipld s' c m" "parent m = Some p"
      "get_first_header (header_str Author) m = Some (ex_did ''x'')"
      "base_at ex_world s' ex_slugs {} (c, m, step_sphere (ex_edit ''b'') ex_first)"
    by (rule authored_header [OF ex_sphere_ok ex_jwt_ok ex_key_total auth_ok_None st B ex_universe ex_edit_in [OF k]])
  have "body_sparse ex_world s' (body m) (step_sphere (ex_edit ''b'') ex_first)"
    using s'(7) body_at_sparse [OF s'(3)] by (simp add: base_at_def)
  moreover have "body_sparse ex_world s' (body mp) ex_first"
    by (rule body_sparse_mono [OF body_at_sparse [OF st B(2)] s'(2)])
  moreover have "mut_did (sm_content (ex_edit ''b'')) \<noteq> ex_did ''x''"
    by (simp add: ex_put_def mutation_set_def vmap_mutation_new_def ex_did_def)
  moreover have "step_version (sm_content (ex_edit ''b'')) (st_content ex_first) \<noteq> st_content ex_first"
    by (simp add: step_version_def step_sphere_def ex_put_def mutation_set_def vmap_mutation_new_def)
  ultimately have "derive_mutation ex_world c s' = Inl (Anyhow ''Changelog has unexpected author'')"
    using foreign_changelog_rejected [OF ex_sphere_ok s'(4,5) value_at_mono [OF B(1) s'(2)] _ _ s'(6)] by blast
  with s'(1) show ?thesis by blast
qed

text \<open>Walking back from the newest version of a lineage ends; it yields the whole lineage, or
  the part after a given ancestor, or that part with the ancestor, and the same versions in
  chronological order.\<close>

theorem timeline_slices:
  assumes "env_ok E" "lineage E s (xs @ y # ys)" "xs \<noteq> []" "length (xs @ y # ys) < f"
  shows "timeline_stream f E s (Some (fst (hd xs))) None e = (xs @ y # ys, Inr ()) \<and>
    to_chronological f E s (without_past (slice (fst (hd xs)) (Some (fst y)))) = Inr (rev (map fst xs)) \<and>
    to_chronological f E s (with_past (slice (fst (hd xs)) (Some (fst y)))) = Inr (fst y # rev (map fst xs))"
proof -
  have "timeline_stream f E s (Some (fst (hd xs))) None e = (xs @ y # ys, Inr ())"
    using stream_all [OF assms(1,2) _ assms(4), of None e] assms(3) by simp
  moreover have "to_chronological f E s (without_past (slice (fst (hd xs)) (Some (fst y)))) = Inr (rev (map fst xs))"
    by (rule chronological_exclude [OF assms(1-3)]) (use assms(4) in simp)
  moreover have "to_chronological f E s (with_past (slice (fst (hd xs)) (Some (fst y)))) = Inr (fst y # rev (map fst xs))"
    using chronological_include [OF assms(1,2), of f] assms(3,4) by simp
  ultimately show ?thesis by blast
qed

theorem timeline_slices_witness:
  "\<exists>p mp g mg s. timeline_stream 3 ex_env s (Some p) None False = ([(p, mp), (g, mg)], Inr ()) \<and>
     to_chronological 3 ex_env s (with_past (slice p (Some g))) = Inr [g, p]"
proof -
  obtain g mg p mp s where "lineage ex_env s [(p, mp), (g, mg)]" by (rule ex_scenario)
  then have "timeline_stream 3 ex_env s (Some p) None False = ([(p, mp), (g, mg)], Inr ()) \<and>
      to_chronological 3 ex_env s (with_past (slice p (Some g))) = Inr [g, p]"
    using timeline_slices [OF ex_env_ok, of s "[(p, mp)]" "(g, mg)" "[]" 3 False] by simp
  then show ?thesis by blast
qed

text \<open>The changelog that results from appending one list of changes to another has the effect
  of doing one after the other, and still names each key at most once.\<close>

theorem append_changes_sequential:
  "run_ops (append_changes xs ys) m = run_ops ys (run_ops xs m) \<and>
   (distinct (map op_key xs) \<longrightarrow> distinct (map op_key (append_changes xs ys)))"
  by (simp add: run_append_changes append_changes_distinct)

theorem append_changes_sequential_witness:
  "distinct (map op_key (append_changes [Add ''a'' (1 :: nat)] [Remove ''a'', Add ''a'' 2])) \<and>
   run_ops (append_changes [Add ''a'' (1 :: nat)] [Remove ''a'', Add ''a'' 2]) Map.empty ''a'' = Some 2"
  using append_changes_sequential [of "[Add ''a'' (1 :: nat)]" "[Remove ''a'', Add ''a'' 2]"] by simp

end
