(* ===== verification/Authority_Spec.thy ===== *)
theory Authority_Spec
  imports Example_Sphere
begin

text \<open>
  The properties of tokens, proof chains and the authority of a sphere, with witnesses in the
  world of \<open>Example_World\<close>.
\<close>

section \<open>Example tokens\<close>

text \<open>A token signed by the key named \<open>k\<close>, in force until 2000.\<close>

definition ex_payload :: "string \<Rightarrow> did \<Rightarrow> capabilities \<Rightarrow> string list option \<Rightarrow> ucan_payload" where
  "ex_payload k a caps ps =
     \<lparr>ucv = UCAN_VERSION, iss = ex_did k, aud = a, exp = Some 2000, nbf = None, nnc = None, cap = caps, fct = None, prfs = ps\<rparr>"

abbreviation ex_header :: ucan_header where
  "ex_header \<equiv> \<lparr>jwt_alg = ''EdDSA'', jwt_typ = ''JWT''\<rparr>"

definition ex_data :: "ucan_payload \<Rightarrow> bytes" where
  "ex_data p = str_bytes (hex (jenc (header_json ex_header)) @ ''.'' @ hex (jenc (payload_json p)))"

definition ex_token :: "string \<Rightarrow> did \<Rightarrow> capabilities \<Rightarrow> string list option \<Rightarrow> ucan" where
  "ex_token k a caps ps =
     \<lparr>header = ex_header, payload = ex_payload k a caps ps, signed_data = ex_data (ex_payload k a caps ps),
      signature = str_bytes k @ ex_data (ex_payload k a caps ps)\<rparr>"

lemma ex_token_fields [simp]:
  "payload (ex_token k a caps ps) = ex_payload k a caps ps" "iss (ex_payload k a caps ps) = ex_did k"
  "aud (ex_payload k a caps ps) = a" "exp (ex_payload k a caps ps) = Some 2000" "nbf (ex_payload k a caps ps) = None"
  "cap (ex_payload k a caps ps) = caps" "prfs (ex_payload k a caps ps) = ps"
  by (simp_all add: ex_token_def ex_payload_def)

lemma ex_token_self: "self_described ex_world (ex_token k a caps ps)"
  by (simp add: self_described_def header_base64_def payload_base64_def ex_world_def ex_texts_def ex_token_def ex_data_def)

lemma ex_token_valid: "validate ex_world 1000 None (ex_token k a caps ps) = Inr ()"
proof -
  have "check_signature ex_world (ex_token k a caps ps) = Inr ()"
    by (simp add: check_signature_def) (simp add: ex_key_def ex_token_def)
  then show ?thesis by (simp add: validate_def is_expired_def is_too_early_def)
qed

abbreviation ex_resource :: string where
  "ex_resource \<equiv> ''sphere:'' @ ex_did ''s''"

definition ex_claims :: "string list \<Rightarrow> capabilities" where
  "ex_claims as = [(ex_resource, map (\<lambda>a. (a, [JObject []])) as)]"

lemma ex_iter:
  "capabilities_iter (ex_claims as) = map (\<lambda>a. \<lparr>cap_resource = ex_resource, cap_ability = a, cap_caveat = JObject []\<rparr>) as"
  by (induction as) (simp_all add: ex_claims_def capabilities_iter_entries entries_def)

lemma ex_capability: "capability_of SPHERE_SEMANTICS (generate_capability (ex_did ''s'') a) =
  \<lparr>cap_resource = ex_resource, cap_ability = sphere_ability_display a, cap_caveat = JObject []\<rparr>"
  by (simp add: capability_of_def SPHERE_SEMANTICS_def generate_capability_def)

text \<open>The sphere lets \<open>m\<close> push; \<open>m\<close> claims to pass on both pushing and authorizing.\<close>

definition ex_grant :: ucan where
  "ex_grant = ex_token ''s'' (ex_did ''m'') (ex_claims [sphere_ability_display Push]) None"

definition ex_grant_cid :: cid where
  "ex_grant_cid = (case to_cid ex_world ex_grant of Inr c \<Rightarrow> c | Inl _ \<Rightarrow> Cid 0 [])"

definition ex_claim :: ucan where
  "ex_claim = ex_token ''m'' (ex_did ''x'') (ex_claims [sphere_ability_display Authorize, sphere_ability_display Push])
     (Some [cid_to_string ex_texts ex_grant_cid])"

definition ex_tokens :: blocks where
  "ex_tokens = snd (write_token ex_world (case ucan_encode ex_world ex_grant of Inr t \<Rightarrow> t | Inl _ \<Rightarrow> []) Map.empty)"

definition ex_chain :: proof_chain where
  "ex_chain = ProofChain ex_claim [ProofChain ex_grant [] []] []"

lemma ex_self_capabilities:
  "self_capabilities (url_parse ex_world) SPHERE_SEMANTICS (ex_token k a (ex_claims (map sphere_ability_display as')) ps) =
    map (generate_capability (ex_did ''s'')) as'"
proof -
  have "map_while (parse_capability (url_parse ex_world) SPHERE_SEMANTICS)
      (map (\<lambda>a. capability_of SPHERE_SEMANTICS (generate_capability (ex_did ''s'') a)) as') = map (generate_capability (ex_did ''s'')) as'"
    using parse_sphere_capability [OF ex_url_ok, of "''s''"] by (induction as') simp_all
  then show ?thesis by (simp add: self_capabilities_def ex_iter ex_capability comp_def)
qed

lemma ex_no_redelegation: "redelegations_of ex_world n (ex_token k a (ex_claims (map sphere_ability_display as)) ps) = Inr []"
proof -
  have "List.map_filter (parse_capability (url_parse ex_world) PROOF_DELEGATION_SEMANTICS)
      (map (\<lambda>a. capability_of SPHERE_SEMANTICS (generate_capability (ex_did ''s'') a)) as) = []"
    by (induction as) (simp_all add: map_filter_simps sphere_capability_not_proof)
  then show ?thesis by (simp add: redelegations_of_def ex_iter ex_capability comp_def)
qed

lemma ex_chain_ok: "chain_ok ex_world 1000 None ex_tokens ex_chain"
proof -
  obtain t where t: "ucan_encode ex_world ex_grant = Inr t" using encode_total [OF ex_jwt_ok] by blast
  obtain c s where c: "write_token ex_world t Map.empty = (Inr c, s)" "to_cid ex_world ex_grant = Inr c"
      "codec_of c = codec_id RawCodec" "s c = Some (str_bytes t)"
    by (rule write_require_token [OF ex_jwt_ok _ t, of Map.empty]) (auto simp: store_ok_def)
  have s: "ex_tokens = s" "ex_grant_cid = c" using c t by (simp_all add: ex_tokens_def ex_grant_cid_def)
  have "require_token ex_world c s = Inr t"
    by (rule require_token_at [OF ex_jwt_ok, of s c t]) (use c utf8_ok_ascii [OF encode_ascii [OF ex_jwt_ok t]] in auto)
  moreover have "ucan_from_str ex_world t = Inr ex_grant"
    by (rule from_str_encode [OF ex_jwt_ok _ t]) (simp add: ex_grant_def ex_token_self)
  ultimately have n: "names_token ex_world ex_tokens (cid_to_string ex_texts ex_grant_cid) ex_grant"
    using ex_cid_text_ok s by (auto simp: names_token_def cid_text_ok_def)
  have r: "redelegations_of ex_world k ex_grant = Inr []" "redelegations_of ex_world k ex_claim = Inr []" for k
    using ex_no_redelegation [of k _ _ "[Push]"] ex_no_redelegation [of k _ _ "[Authorize, Push]"]
    by (simp_all add: ex_grant_def ex_claim_def)
  have "proof_strings ex_claim = [cid_to_string ex_texts ex_grant_cid]" "proof_strings ex_grant = []"
    by (simp_all add: proof_strings_def ex_claim_def ex_grant_def)
  moreover have "validate_link_to (ProofChain ex_grant [] []) ex_claim = Inr ()"
    by (simp add: validate_link_to_def ex_grant_def ex_claim_def lifetime_encompasses_def lifetime_begins_before_def
        lifetime_ends_after_def)
  moreover have "validate ex_world 1000 None ex_claim = Inr ()" "validate ex_world 1000 None ex_grant = Inr ()"
    by (simp_all add: ex_token_valid ex_claim_def ex_grant_def)
  ultimately show ?thesis using n r by (simp add: ex_chain_def)
qed

lemma ex_capabilities:
  "self_capabilities (url_parse ex_world) SPHERE_SEMANTICS ex_grant = [generate_capability (ex_did ''s'') Push]"
  "self_capabilities (url_parse ex_world) SPHERE_SEMANTICS ex_claim =
     [generate_capability (ex_did ''s'') Authorize, generate_capability (ex_did ''s'') Push]"
  using ex_self_capabilities [of "''s''" _ "[Push]"] ex_self_capabilities [of "''m''" _ "[Authorize, Push]"]
  by (simp_all add: ex_grant_def ex_claim_def)

lemma ex_enables: "enables SPHERE_SEMANTICS (generate_capability d a) (generate_capability d b) \<longleftrightarrow> b \<le> a"
  by (simp add: enables_def generate_capability_def SPHERE_SEMANTICS_def sphere_within_def caveat_enables_def)

section \<open>Tokens\<close>

text \<open>C25: a signed token survives its text form and the store: it is written under the CID that
  \<open>to_cid\<close> computes, found there again, and parses to itself.\<close>

theorem token_round_trip:
  assumes "jwt_ok W" "store_ok (codecs W) s" "signable_sign W nonce g = Inr u"
  shows "\<exists>t c s'. ucan_encode W u = Inr t \<and> write_token W t s = (Inr c, s') \<and> to_cid W u = Inr c \<and> s \<subseteq>\<^sub>m s' \<and>
    require_token W c s' = Inr t \<and> ucan_from_str W t = Inr u"
proof -
  obtain t where t: "ucan_encode W u = Inr t" using encode_total [OF assms(1)] by blast
  obtain c s' where c: "write_token W t s = (Inr c, s')" "to_cid W u = Inr c" "s \<subseteq>\<^sub>m s'"
      "codec_of c = codec_id RawCodec" "s' c = Some (str_bytes t)"
    by (rule write_require_token [OF assms(1,2) t])
  have "require_token W c s' = Inr t"
    by (rule require_token_at [OF assms(1), of s' c t]) (use c utf8_ok_ascii [OF encode_ascii [OF assms(1) t]] in auto)
  moreover have "ucan_from_str W t = Inr u" by (rule from_str_encode [OF assms(1) sign_self_described [OF assms(3)] t])
  ultimately show ?thesis using t c by blast
qed

theorem token_round_trip_witness:
  "\<exists>u t. owner_token ex_world 1000 [] (ex_key ''s'') (ex_did ''s'') (ex_did ''o'') = Inr u \<and>
     ucan_encode ex_world u = Inr t \<and> ucan_from_str ex_world t = Inr u"
proof -
  obtain u where u: "owner_token ex_world 1000 [] (ex_key ''s'') (ex_did ''s'') (ex_did ''o'') = Inr u"
    by (rule owner_token_ok [OF ex_jwt_ok ex_key_total])
  then obtain g where g: "signable_sign ex_world [] g = Inr u"
    by (auto simp: owner_token_def build_and_sign_def)
  show ?thesis using token_round_trip [OF ex_jwt_ok _ g, of Map.empty] u by (auto simp: store_ok_def)
qed

section \<open>Proof chains\<close>

text \<open>C18: every token of a chain that was resolved is in force and correctly signed by its issuer,
  and it is in force for as long as the token at the head of the chain.\<close>

theorem chain_tokens_in_force:
  assumes "from_ucan f W now None s u = Inr chain" "a \<in> chain_tokens chain"
  shows "check_signature W a = Inr () \<and> \<not> is_expired now None a \<and> \<not> is_too_early now a \<and> lifetime_encompasses a u"
proof -
  have "chain_ok W now None s chain" "chain_ucan chain = u" using assms(1) by (simp_all add: from_ucan_iff)
  then have "validate W now None a = Inr ()" "lifetime_encompasses a u" using chain_ok_tokens [OF _ assms(2)] by blast+
  then show ?thesis by (auto simp: validate_def split: if_splits)
qed

theorem chain_tokens_in_force_witness:
  "from_ucan 2 ex_world 1000 None ex_tokens ex_claim = Inr ex_chain \<and> check_signature ex_world ex_grant = Inr ()"
proof -
  have "from_ucan 2 ex_world 1000 None ex_tokens ex_claim = Inr ex_chain"
    using ex_chain_ok by (simp add: from_ucan_iff ex_chain_def)
  then show ?thesis using chain_tokens_in_force [of 2 ex_world 1000 ex_tokens ex_claim ex_chain ex_grant]
    by (simp add: ex_chain_def)
qed

text \<open>C17: reducing a resolved chain never panics. Each identity it names as the originator of a
  capability is the issuer of a token of the chain; and if no token of the chain lists a
  capability before a weaker one, that identity claimed a capability that was handed on, link by
  link, and covers the one in question.\<close>

theorem capabilities_originate:
  assumes "from_ucan f W now t s u = Inr chain"
  shows "\<exists>infos. reduce_capabilities (url_parse W) SPHERE_SEMANTICS chain = Inr infos \<and>
    (\<forall>i \<in> set infos. originators i \<subseteq> (\<lambda>u. iss (payload u)) ` chain_tokens chain) \<and>
    (tame_chain (url_parse W) SPHERE_SEMANTICS chain \<longrightarrow>
      (\<forall>i \<in> set infos. \<forall>d \<in> originators i. \<exists>c. grounded (url_parse W) SPHERE_SEMANTICS chain d c \<and>
        (c = info_capability i \<or> enables SPHERE_SEMANTICS c (info_capability i))))"
proof -
  obtain infos where i: "reduce_capabilities (url_parse W) SPHERE_SEMANTICS chain = Inr infos"
    using reduce_returns [of W now t s chain] assms by (auto simp: from_ucan_iff)
  then show ?thesis using reduce_issuers [OF i] sphere_scope.reduce_grounded [OF i] by blast
qed

theorem capabilities_originate_witness:
  "(\<exists>infos. reduce_capabilities (url_parse ex_world) SPHERE_SEMANTICS ex_chain = Inr infos \<and>
      (\<forall>i \<in> set infos. originators i \<subseteq> {ex_did ''s'', ex_did ''m''})) \<and>
   (\<exists>infos. reduce_capabilities (url_parse ex_world) SPHERE_SEMANTICS (ProofChain ex_grant [] []) = Inr infos \<and> infos \<noteq> [] \<and>
      (\<forall>i \<in> set infos. \<forall>d \<in> originators i. \<exists>c. grounded (url_parse ex_world) SPHERE_SEMANTICS (ProofChain ex_grant [] []) d c \<and>
        (c = info_capability i \<or> enables SPHERE_SEMANTICS c (info_capability i))))"
proof
  have "from_ucan 2 ex_world 1000 None ex_tokens ex_claim = Inr ex_chain"
    using ex_chain_ok by (simp add: from_ucan_iff ex_chain_def)
  from capabilities_originate [OF this]
  show "\<exists>infos. reduce_capabilities (url_parse ex_world) SPHERE_SEMANTICS ex_chain = Inr infos \<and>
      (\<forall>i \<in> set infos. originators i \<subseteq> {ex_did ''s'', ex_did ''m''})"
    by (auto simp: ex_chain_def ex_grant_def ex_claim_def)
  let ?g = "ProofChain ex_grant [] []"
  have g: "reduce_capabilities (url_parse ex_world) SPHERE_SEMANTICS ?g =
      Inr [self_info SPHERE_SEMANTICS ex_grant 0 [] (generate_capability (ex_did ''s'') Push)]"
    by (simp add: ex_capabilities merge.simps)
  have t: "tame_chain (url_parse ex_world) SPHERE_SEMANTICS ?g"
    by (simp add: node_infos_def tame_def ex_capabilities)
  have "from_ucan 2 ex_world 1000 None ex_tokens ex_grant = Inr ?g"
    using ex_chain_ok by (simp add: from_ucan_iff ex_chain_def)
  from capabilities_originate [OF this] g t
  show "\<exists>infos. reduce_capabilities (url_parse ex_world) SPHERE_SEMANTICS ?g = Inr infos \<and> infos \<noteq> [] \<and>
      (\<forall>i \<in> set infos. \<forall>d \<in> originators i. \<exists>c. grounded (url_parse ex_world) SPHERE_SEMANTICS ?g d c \<and>
        (c = info_capability i \<or> enables SPHERE_SEMANTICS c (info_capability i)))"
    by simp
qed

text \<open>C33: the proviso is needed. The sphere lets \<open>m\<close> push, and \<open>m\<close> issues a token that claims
  authorizing and pushing. The merge lets the claim to authorize take over the sphere as an
  originator from the weaker claim, so that authorizing counts as granted by the sphere, which
  never granted it.\<close>

theorem stronger_claim_absorbs:
  "from_ucan 2 ex_world 1000 None ex_tokens ex_claim = Inr ex_chain \<and>
   (\<exists>infos. reduce_capabilities (url_parse ex_world) SPHERE_SEMANTICS ex_chain = Inr infos \<and>
      has_capability infos (ex_did ''s'') (generate_capability (ex_did ''s'') Authorize)) \<and>
   (\<nexists>c. grounded (url_parse ex_world) SPHERE_SEMANTICS ex_chain (ex_did ''s'') c \<and>
      enables SPHERE_SEMANTICS c (generate_capability (ex_did ''s'') Authorize))"
proof (intro conjI)
  let ?p = "generate_capability (ex_did ''s'') Push" and ?a = "generate_capability (ex_did ''s'') Authorize"
  show "from_ucan 2 ex_world 1000 None ex_tokens ex_claim = Inr ex_chain"
    using ex_chain_ok by (simp add: from_ucan_iff ex_chain_def)
  have le: "Push \<le> Authorize" "\<not> Authorize \<le> Push" by (simp_all add: less_eq_sphere_ability_def)
  let ?g = "self_info SPHERE_SEMANTICS ex_grant 0 [] ?p"
  let ?i = "\<lambda>c. self_info SPHERE_SEMANTICS ex_claim 1 [?g] c"
  have g: "reduce_capabilities (url_parse ex_world) SPHERE_SEMANTICS (ProofChain ex_grant [] []) = Inr [?g]"
    by (simp add: ex_capabilities merge.simps)
  have os: "originators ?g = {ex_did ''s''}" by (simp add: self_info_def ex_grant_def)
  then have "originators (?i ?p) = {ex_did ''s''}" "info_capability (?i c) = c" for c
    by (auto simp: self_info_def claim_originators_def Let_def ex_enables)
  then have m: "merge SPHERE_SEMANTICS [?i ?a, ?i ?p] [] = [(?i ?a)\<lparr>originators := insert (ex_did ''s'') (originators (?i ?a))\<rparr>]"
    using le by (simp add: merge.simps ex_enables)
  have "reduce_capabilities (url_parse ex_world) SPHERE_SEMANTICS ex_chain = Inr (merge SPHERE_SEMANTICS [?i ?a, ?i ?p] [])"
    using g by (simp add: ex_chain_def ex_capabilities enumerate_eq_zip Let_def)
  then show "\<exists>infos. reduce_capabilities (url_parse ex_world) SPHERE_SEMANTICS ex_chain = Inr infos \<and>
      has_capability infos (ex_did ''s'') ?a"
    unfolding m by (simp add: has_capability_def ex_enables self_info_def)
  have leaf: "c = ?p" if "grounded (url_parse ex_world) SPHERE_SEMANTICS (ProofChain ex_grant [] []) d c" for d c
    using that by cases (simp_all add: ex_capabilities)
  have "c = ?p" if "grounded (url_parse ex_world) SPHERE_SEMANTICS ex_chain (ex_did ''s'') c" for c
    using that unfolding ex_chain_def
  proof cases
    case claim
    then show ?thesis by (simp add: ex_claim_def ex_did_def)
  next
    case (inherit i c')
    then have "enables SPHERE_SEMANTICS ?p c" using leaf [of "ex_did ''s''" c'] by simp
    with inherit(1) le show ?thesis by (auto simp: ex_capabilities ex_enables)
  qed simp
  moreover have "\<not> enables SPHERE_SEMANTICS ?p ?a" using le by (simp add: ex_enables)
  ultimately show "\<nexists>c. grounded (url_parse ex_world) SPHERE_SEMANTICS ex_chain (ex_did ''s'') c \<and>
      enables SPHERE_SEMANTICS c ?a"
    by blast
qed

section \<open>Link records\<close>

text \<open>C27: a link record is accepted only if it names a link, and its chain of proofs contains a
  token issued by the very sphere the record speaks for.\<close>

theorem link_record_from_sphere:
  assumes "link_record_validate f W now s r = Inr ()"
  shows "get_link W r \<noteq> None \<and> (\<exists>chain. chain_ucan chain = r \<and> chain_ok W now (publishing_time r) s chain \<and>
    to_sphere_identity r \<in> (\<lambda>u. iss (payload u)) ` chain_tokens chain)"
  using link_record_issued_by_sphere [OF assms] assms by (auto simp: link_record_validate_def split: if_splits)

definition ex_record :: link_record where
  "ex_record =
     (let p = (ex_payload ''s'' (ex_did ''s'') (ex_claims [sphere_ability_display Publish]) None)
                \<lparr>fct := Some [(''link'', JString (cid_to_string ex_texts ex_entry))]\<rparr>
      in \<lparr>header = ex_header, payload = p, signed_data = ex_data p, signature = str_bytes ''s'' @ ex_data p\<rparr>)"

theorem link_record_from_sphere_witness:
  "link_record_validate 1 ex_world 1000 Map.empty ex_record = Inr () \<and> get_link ex_world ex_record \<noteq> None"
proof -
  have f: "iss (payload ex_record) = ex_did ''s''" "aud (payload ex_record) = ex_did ''s''" "exp (payload ex_record) = Some 2000"
      "nbf (payload ex_record) = None" "prfs (payload ex_record) = None"
      "cap (payload ex_record) = ex_claims [sphere_ability_display Publish]"
    by (simp_all add: ex_record_def Let_def)
  have l: "get_link ex_world ex_record = Some ex_entry"
    using ex_cid_text_ok by (simp add: get_link_def ex_record_def Let_def LINK_RECORD_FACT_NAME_def cid_text_ok_def)
  have cs: "check_signature ex_world ex_record = Inr ()"
    by (simp add: check_signature_def f) (simp add: ex_key_def ex_record_def Let_def)
  have rd: "redelegations_of ex_world 0 ex_record = Inr []"
    using ex_no_redelegation [of 0 k a "[Publish]"] f(6) by (simp add: redelegations_of_def)
  have ch: "from_ucan 1 ex_world 1000 (publishing_time ex_record) Map.empty ex_record = Inr (ProofChain ex_record [] [])"
    by (simp add: validate_def is_expired_def is_too_early_def publishing_time_def f cs proof_strings_def rd)
  have "self_capabilities (url_parse ex_world) SPHERE_SEMANTICS ex_record = [generate_capability (ex_did ''s'') Publish]"
    using ex_self_capabilities [of k a "[Publish]"] f(6) by (simp add: self_capabilities_def)
  then have "reduce_capabilities (url_parse ex_world) SPHERE_SEMANTICS (ProofChain ex_record [] []) =
      Inr [self_info SPHERE_SEMANTICS ex_record 0 [] (generate_capability (ex_did ''s'') Publish)]"
    by (simp add: merge.simps)
  then have v: "link_record_validate 1 ex_world 1000 Map.empty ex_record = Inr ()"
    using ch by (simp add: link_record_validate_def l cs has_capability_def to_sphere_identity_def f self_info_def ex_enables
        del: from_ucan.simps reduce_capabilities.simps)
  with link_record_from_sphere [OF v] show ?thesis by blast
qed

section \<open>The owner of a sphere\<close>

text \<open>C24: generating a sphere succeeds, and the version it returns accepts the authorization it
  hands to the owner, until the token expires.\<close>

theorem generated_owner_accepted:
  assumes "sphere_ok W" "jwt_ok W" "key_total key d" "did_key_ok W key d" "to_mnemonic key = Inr mnemonic" "store_ok (codecs W) s"
    "t \<le> now + SPHERE_LIFETIME"
  shows "\<exists>c z s'. generate W now nonce to_mnemonic key owner s = (Inr (c, z, mnemonic), s') \<and> s \<subseteq>\<^sub>m s' \<and>
    get_identity W c s' = Inr d \<and> verify_authorization (Suc f) (Suc (Suc g)) W t s' c z = Inr ()"
proof -
  obtain u j c m s' where s': "generate W now nonce to_mnemonic key owner s = (Inr (c, AuthUcan u, mnemonic), s')"
      "s \<subseteq>\<^sub>m s'" "store_ok (codecs W) s'" "root_token W key d owner (now + SPHERE_LIFETIME) u" "to_cid W u = Inr j"
      "value_at (codecs W) memo_to_ipld s' c m" "body_at W s' (body m) (step_sphere (owner_mutation d j) (empty_sphere d))"
    by (rule generate_ok [where to_mnemonic = to_mnemonic and key = key, OF assms(1-3,5,6)]) auto
  let ?\<sigma> = "step_sphere (owner_mutation d j) (empty_sphere d)"
  have \<sigma>: "st_identity ?\<sigma> = d" "fst (st_delegations ?\<sigma>) j \<noteq> None" "fst (st_revocations ?\<sigma>) j = None"
    by (simp_all add: step_sphere_def step_version_def owner_mutation_def mutation_set_def vmap_mutation_new_def
        sphere_mutation_new_def empty_sphere_def)
  have "verify_authorization (Suc f) (Suc (Suc g)) W t s' c (AuthUcan u) = Inr ()"
    by (rule root_token_accepted [OF assms(1,2) s'(3,6,7) \<sigma>(1) s'(4) assms(4,7) s'(5) \<sigma>(2,3)])
  moreover have "get_identity W c s' = Inr d"
    by (rule version_reads [OF assms(1) s'(3,6,7)]) (simp add: \<sigma>(1))
  ultimately show ?thesis using s'(1,2) by blast
qed

theorem generated_owner_accepted_witness:
  "\<exists>c z s'. generate ex_world 1000 [] (\<lambda>_. Inr ''words'') (ex_key ''s'') (ex_did ''o'') Map.empty = (Inr (c, z, ''words''), s') \<and>
     verify_authorization (Suc 0) (Suc (Suc 0)) ex_world 2000 s' c z = Inr ()"
proof -
  have "(2000 :: u64) \<le> 1000 + SPHERE_LIFETIME" by (simp add: SPHERE_LIFETIME_def)
  then show ?thesis
    using generated_owner_accepted [OF ex_sphere_ok ex_jwt_ok ex_owner_key ex_did_key_ok, of "\<lambda>_. Inr ''words''" "''words''"
      Map.empty 2000 1000 "[]" "ex_did ''o''" 0 0] by (auto simp: store_ok_def)
qed

text \<open>C4: after a change of owner the old owner's authorization, a token that the sphere's own key
  issued, is no longer accepted and the new owner's is.\<close>

theorem owner_transferred:
  assumes "sphere_ok W" "jwt_ok W" "cid_text_ok (texts W)" "store_ok (codecs W) s" "value_at (codecs W) memo_to_ipld s c m"
    "body_at W s (body m) \<sigma>" "st_identity \<sigma> = d" "restore_key mnemonic = Inr key" "key_total key d" "did_key_ok W key d"
    "url_ok W d" "root_token W key d owner e u" "now \<le> e" "to_cid W u = Inr j"
    "owner_token W now nonce key d next_owner = Inr u'" "to_cid W u' = Inr j'" "revocation_revoke W j key = Inr r"
    "keys_ok W \<sigma> (transfer_mutation d j' j r)" "owner \<noteq> next_owner" "fst (st_revocations \<sigma>) j' = None"
    "now \<le> now + SPHERE_LIFETIME"
  shows "\<exists>c' s'. change_owner (Suc f) W now nonce restore_key c mnemonic next_owner (AuthUcan u) s = (Inr (c', AuthUcan u'), s') \<and>
    s \<subseteq>\<^sub>m s' \<and> verify_authorization (Suc f) (Suc (Suc g)) W now s' c' (AuthUcan u) \<noteq> Inr () \<and>
    verify_authorization (Suc f) (Suc (Suc g)) W now s' c' (AuthUcan u') = Inr ()"
proof -
  obtain c' m' s' where s': "change_owner (Suc f) W now nonce restore_key c mnemonic next_owner (AuthUcan u) s = (Inr (c', AuthUcan u'), s')"
      "s \<subseteq>\<^sub>m s'" "store_ok (codecs W) s'" "value_at (codecs W) memo_to_ipld s' c' m'"
      "body_at W s' (body m') (step_sphere (transfer_mutation d j' j r) \<sigma>)"
    by (rule change_owner_ok [where restore_key = restore_key and key = key, OF assms(1-18)])
  let ?\<sigma> = "step_sphere (transfer_mutation d j' j r) \<sigma>"
  obtain v where v: "owner_token W now nonce key d next_owner = Inr v" "root_token W key d next_owner (now + SPHERE_LIFETIME) v"
    by (rule owner_token_ok [OF assms(2,9)])
  then have u': "root_token W key d next_owner (now + SPHERE_LIFETIME) u'" using assms(15) by simp
  have "j \<noteq> j'"
  proof
    assume "j = j'"
    then have "u = u'" using to_cid_inj [OF assms(2), of u u' j] assms(12,14,16) u' by (simp add: root_token_def)
    then show False using assms(12,19) u' by (simp add: root_token_def)
  qed
  then have \<sigma>: "st_identity ?\<sigma> = d" "fst (st_delegations ?\<sigma>) j' \<noteq> None" "fst (st_revocations ?\<sigma>) j' = None"
      "fst (st_revocations ?\<sigma>) j = Some r"
    using assms(7,20) by (simp_all add: transfer_state)
  have d: "km_did key = Inr d" using assms(9) by (simp add: key_total_def)
  show ?thesis
    using s'(1,2) root_token_revoked [OF assms(1,2) s'(3-5) \<sigma>(1) assms(12,10,13,14) \<sigma>(4) assms(17) d assms(3)]
      root_token_accepted [OF assms(1,2) s'(3-5) \<sigma>(1) u' assms(10,21,16) \<sigma>(2,3)] by blast
qed

text \<open>In the example world the tokens of owners with different names have different hashes.\<close>

lemma ex_jenc_tail: "\<exists>pre. jenc (payload_json p) = pre @ enc_bytes (str_bytes (aud p)) @ [0]"
  by (simp add: payload_json_def)

definition ex_tail :: "string \<Rightarrow> bytes" where
  "ex_tail name = str_bytes (hex (str_bytes (hex (drop (length (enc_bytes (str_bytes name)) - 7) (enc_bytes (str_bytes name)) @ [0]))))"

lemma length_hex: "length (hex bs) = 2 * length bs"
  by (induction bs) auto

lemma length_enc_bytes: "length (enc_bytes bs) = 2 * length bs + 1"
  by (induction bs) auto

lemma enc_bytes_snoc: "enc_bytes (a @ [b]) = butlast (enc_bytes a) @ [1, b, 0]"
proof (induction a)
  case (Cons c a)
  have "enc_bytes a \<noteq> []" by (cases a) auto
  with Cons show ?case by simp
qed simp

lemma length_ex_tail: "3 \<le> length name \<Longrightarrow> length (ex_tail name) = 32"
  by (simp add: ex_tail_def str_bytes_def length_hex length_enc_bytes)

lemma ex_token_hash:
  assumes "root_token ex_world (ex_key k) d owner e u" "to_cid ex_world u = Inr c" "3 \<le> length owner"
  shows "hash_multihash ex_world (digest_of c) = rev (ex_tail owner)"
proof -
  let ?h = "hex (jenc (header_json (header u)))" and ?p = "hex (jenc (payload_json (payload u)))"
  let ?e = "enc_bytes (str_bytes owner)"
  have enc: "header_base64 ex_world (header u) = Inr ?h" "payload_base64 ex_world (payload u) = Inr ?p"
    by (simp_all add: header_base64_def payload_base64_def ex_world_def ex_texts_def)
  have "signed_data u = str_bytes (?h @ ''.'' @ ?p)" "signature u = str_bytes k @ signed_data u"
    using assms(1) enc by (simp_all add: root_token_def self_described_def ex_key_def)
  then have q: "signature u = (str_bytes k @ str_bytes ?h @ str_bytes ''.'') @ str_bytes ?p"
    by (simp only: str_bytes_append append_assoc)
  have "digest_of c = str_bytes (?h @ ''.'' @ ?p @ ''.'' @ hex (signature u))"
    using assms(2) enc by (auto simp: to_cid_def ucan_encode_def) (simp_all add: ex_texts_def ex_env_def)
  then obtain q' where q': "digest_of c = q' @ str_bytes (hex (str_bytes ?p))"
    unfolding q hex_append str_bytes_append by (metis append_assoc)
  obtain pre where pre: "jenc (payload_json (payload u)) = pre @ ?e @ [0]"
    using ex_jenc_tail [of "payload u"] assms(1) by (auto simp: root_token_def)
  have e: "?e = take (length ?e - 7) ?e @ drop (length ?e - 7) ?e" by simp
  have "jenc (payload_json (payload u)) = (pre @ take (length ?e - 7) ?e) @ (drop (length ?e - 7) ?e @ [0])"
    unfolding pre by (subst e) (simp only: append_assoc)
  then have "str_bytes (hex (str_bytes ?p)) = str_bytes (hex (str_bytes (hex (pre @ take (length ?e - 7) ?e)))) @ ex_tail owner"
    by (simp only: hex_append str_bytes_append ex_tail_def)
  then show ?thesis using q' length_ex_tail [OF assms(3)] by (simp add: ex_world_def ex_hash_def)
qed

lemma hex_inj: "hex a = hex b \<Longrightarrow> a = b"
  by (metis unhex_hex option.inject)

lemma ex_tail_last: "ex_tail (a @ [x]) = ex_tail (b @ [y]) \<Longrightarrow> x = y"
proof -
  have e: "\<exists>pre. drop (length (enc_bytes (str_bytes (a @ [x]))) - 7) (enc_bytes (str_bytes (a @ [x]))) @ [0] = pre @ [of_char x, 0, 0]"
      for a x
  proof -
    have "enc_bytes (str_bytes (a @ [x])) = (butlast (enc_bytes (str_bytes a)) @ [1]) @ [of_char x, 0]"
      using enc_bytes_snoc [of "str_bytes a" "of_char x"] by (simp add: str_bytes_def)
    then show ?thesis by (simp add: length_enc_bytes)
  qed
  assume "ex_tail (a @ [x]) = ex_tail (b @ [y])"
  then have "drop (length (enc_bytes (str_bytes (a @ [x]))) - 7) (enc_bytes (str_bytes (a @ [x]))) @ [0] =
      drop (length (enc_bytes (str_bytes (b @ [y]))) - 7) (enc_bytes (str_bytes (b @ [y]))) @ [0]"
    unfolding ex_tail_def by (rule hex_inj [OF str_bytes_inj [OF hex_inj [OF str_bytes_inj]]])
  then have "(of_char x :: byte) = of_char y" using e [of a x] e [of b y] by auto
  then have "str_bytes [x] = str_bytes [y]" by (simp add: str_bytes_def)
  then have "[x] = [y]" by (rule str_bytes_inj)
  then show ?thesis by simp
qed

theorem owner_transferred_witness:
  "\<exists>c z c' z' s s'. generate ex_world 1000 [] (\<lambda>_. Inr ''words'') (ex_key ''s'') (ex_did ''one'') Map.empty = (Inr (c, z, ''words''), s) \<and>
     change_owner (Suc 0) ex_world 1000 [] (\<lambda>_. Inr (ex_key ''s'')) c ''words'' (ex_did ''two'') z s = (Inr (c', z'), s') \<and>
     verify_authorization (Suc 0) (Suc (Suc 0)) ex_world 1000 s' c' z \<noteq> Inr () \<and>
     verify_authorization (Suc 0) (Suc (Suc 0)) ex_world 1000 s' c' z' = Inr ()"
proof -
  have st: "store_ok (codecs ex_world) Map.empty" by (simp add: store_ok_def)
  obtain u j c m g mg s where g: "generate ex_world 1000 [] (\<lambda>_. Inr ''words'') (ex_key ''s'') (ex_did ''one'') Map.empty =
        (Inr (c, AuthUcan u, ''words''), s)"
      "store_ok (codecs ex_world) s" "root_token ex_world (ex_key ''s'') ex_owner (ex_did ''one'') (1000 + SPHERE_LIFETIME) u"
      "to_cid ex_world u = Inr j" "lineage (codecs ex_world) s [(c, m), (g, mg)]"
      "body_at ex_world s (body m) (step_sphere (owner_mutation ex_owner j) (empty_sphere ex_owner))"
    by (rule generate_ok [where to_mnemonic = "\<lambda>_. Inr ''words''" and key = "ex_key ''s''" and mnemonic = "''words''"
          and now = 1000 and nonce = "[]" and owner = "ex_did ''one''", OF ex_sphere_ok ex_jwt_ok ex_owner_key refl st])
  have m: "value_at (codecs ex_world) memo_to_ipld s c m" using g(5) by simp
  obtain u' where u': "owner_token ex_world 1000 [] (ex_key ''s'') ex_owner (ex_did ''two'') = Inr u'"
      "root_token ex_world (ex_key ''s'') ex_owner (ex_did ''two'') (1000 + SPHERE_LIFETIME) u'"
    by (rule owner_token_ok [OF ex_jwt_ok ex_owner_key])
  obtain j' where j': "to_cid ex_world u' = Inr j'" using to_cid_total [OF ex_jwt_ok] by blast
  obtain r where r: "revocation_revoke ex_world j (ex_key ''s'') = Inr r" by (simp add: revocation_revoke_def ex_key_def)
  have n: "ex_did ''one'' = ''did:key:zedon'' @ [CHR ''e'']" "ex_did ''two'' = ''did:key:zedtw'' @ [CHR ''o'']"
    by (simp_all add: ex_did_def)
  have "ex_tail (ex_did ''one'') \<noteq> ex_tail (ex_did ''two'')"
  proof
    assume "ex_tail (ex_did ''one'') = ex_tail (ex_did ''two'')"
    then have "CHR ''e'' = CHR ''o''" unfolding n by (rule ex_tail_last)
    then show False by simp
  qed
  then have h: "hash_multihash ex_world (digest_of j) \<noteq> hash_multihash ex_world (digest_of j')"
    using ex_token_hash [OF g(3,4)] ex_token_hash [OF u'(2) j'] by (simp add: n)
  let ?\<sigma> = "step_sphere (owner_mutation ex_owner j) (empty_sphere ex_owner)" and ?\<mu> = "transfer_mutation ex_owner j' j r"
  have dom: "fst (st_delegations ?\<sigma>) = [j \<mapsto> owner_delegation j]" "fst (st_revocations ?\<sigma>) = Map.empty"
      "fst (st_content ?\<sigma>) = Map.empty" "fst (st_identities ?\<sigma>) = Map.empty" "st_identity ?\<sigma> = ex_owner"
    by (simp_all add: step_sphere_def step_version_def owner_mutation_def mutation_set_def vmap_mutation_new_def
        sphere_mutation_new_def empty_sphere_def)
  have ks: "op_key ` set (mut_changes (sm_content ?\<mu>)) = {}" "op_key ` set (mut_changes (sm_identities ?\<mu>)) = {}"
      "op_key ` set (mut_changes (sm_delegations ?\<mu>)) = {j'}" "op_key ` set (mut_changes (sm_revocations ?\<mu>)) = {j}"
    by (simp_all add: transfer_mutation_def mutation_set_def vmap_mutation_new_def sphere_mutation_new_def)
  have "inj_on (\<lambda>c. hash_multihash ex_world (digest_of c)) {j, j'}" using h by (auto simp: inj_on_def)
  then have "keys_ok ex_world ?\<sigma> ?\<mu>"
    unfolding keys_ok_def dom ks
    using ex_cids_free(1) [of "{j, j'}"] ex_cids_free(2) [of "{j}"] ex_strings_free [of "{}"] by (simp add: insert_commute)
  moreover have "ex_did ''one'' \<noteq> ex_did ''two''" by (simp add: ex_did_def)
  moreover have "(1000 :: u64) \<le> 1000 + SPHERE_LIFETIME" by (simp add: SPHERE_LIFETIME_def)
  ultimately have "\<exists>c' s'. change_owner (Suc 0) ex_world 1000 [] (\<lambda>_. Inr (ex_key ''s'')) c ''words'' (ex_did ''two'') (AuthUcan u) s =
        (Inr (c', AuthUcan u'), s') \<and> s \<subseteq>\<^sub>m s' \<and>
      verify_authorization (Suc 0) (Suc (Suc 0)) ex_world 1000 s' c' (AuthUcan u) \<noteq> Inr () \<and>
      verify_authorization (Suc 0) (Suc (Suc 0)) ex_world 1000 s' c' (AuthUcan u') = Inr ()"
    by (intro owner_transferred [OF ex_sphere_ok ex_jwt_ok _ g(2) m g(6) dom(5) _ ex_owner_key ex_did_key_ok ex_url_ok g(3) _ g(4)
        u'(1) j' r]) (simp_all add: ex_cid_text_ok dom)
  with g(1) show ?thesis by blast
qed

section \<open>Revocations\<close>

text \<open>C34: a revocation that the sphere itself issued and correctly signed has no effect on a token
  that someone else issued: the authorization is accepted, and the proofs behind the token are
  not looked at either. The check asks for a revocation whose issuer is both the sphere and the
  issuer of the token, where its comment says either.\<close>

theorem sphere_revocation_ignored:
  assumes "sphere_ok W" "jwt_ok W" "store_ok (codecs W) s" "value_at (codecs W) memo_to_ipld s c m" "body_at W s (body m) \<sigma>"
    "parse_key W (st_identity \<sigma>) = Inr credential" "as_proof_chain f W now s z = Inr (ProofChain u ps rd)"
    "to_cid W u = Inr j" "fst (st_delegations \<sigma>) j \<noteq> None" "fst (st_revocations \<sigma>) j = Some r"
    "revocation_ipld.iss r = st_identity \<sigma>" "revocation_verify W credential r = Inr ()" "iss (payload u) \<noteq> st_identity \<sigma>"
    "chain_size (ProofChain u ps rd) < g"
  shows "verify_authorization f g W now s c z = Inr ()"
  using verify_authorization_iff [OF assms(1-7,14)] assms(8-13) by simp

definition ex_revoked :: ucan where
  "ex_revoked = ex_token ''m'' (ex_did ''x'') (ex_claims [sphere_ability_display Authorize]) None"

theorem sphere_revocation_ignored_witness:
  "\<exists>c m \<sigma> j r s. ex_memo_at s c m \<and> body_at ex_world s (body m) \<sigma> \<and> st_identity \<sigma> = ex_owner \<and>
     to_cid ex_world ex_revoked = Inr j \<and> fst (st_revocations \<sigma>) j = Some r \<and>
     revocation_revoke ex_world j (ex_key ''s'') = Inr r \<and>
     verify_authorization 1 2 ex_world 1000 s c (AuthUcan ex_revoked) = Inr ()"
proof -
  obtain g mg p mp s where s: "store_ok ex_env s" "lineage ex_env s [(p, mp), (g, mg)]"
      "body_at ex_world s (body mg) (empty_sphere ex_owner)"
    by (rule ex_scenario)
  obtain j where j: "to_cid ex_world ex_revoked = Inr j" using to_cid_total [OF ex_jwt_ok] by blast
  obtain r where r: "revocation_revoke ex_world j (ex_key ''s'') = Inr r" by (simp add: revocation_revoke_def ex_key_def)
  have rv: "revocation_verify ex_world (ex_key ''s'') r = Inr ()" "revocation_ipld.iss r = ex_owner"
    using revoke_verify [OF _ _ ex_key_ok r] ex_base64_ok ex_cid_text_ok by (simp_all add: ex_key_def)
  have ne: "ex_did ''m'' \<noteq> ex_owner" by (simp add: ex_did_def)
  let ?\<mu> = "(sphere_mutation_new ex_owner)\<lparr>sm_delegations := mutation_set j \<lparr>dg_name = ''x'', dg_jwt = j\<rparr> (vmap_mutation_new ex_owner),
    sm_revocations := mutation_set j r (vmap_mutation_new ex_owner)\<rparr>"
  let ?\<sigma> = "step_sphere ?\<mu> (empty_sphere ex_owner)"
  have U: "universe_ok ex_world {} {j}"
    using ex_strings_free [of "{}"] ex_cids_free [of "{j}"] by (simp add: universe_ok_def)
  have in\<mu>: "mutation_in {} {j} ?\<mu>" "state_in {} {j} (empty_sphere ex_owner)"
    by (simp_all add: mutation_in_def state_in_def sphere_mutation_new_def vmap_mutation_new_def mutation_set_def empty_sphere_def)
  have B: "store_ok (codecs ex_world) s" "value_at (codecs ex_world) memo_to_ipld s g mg" using s(1,2) by simp_all
  obtain c m s' where s': "store_ok (codecs ex_world) s'" "value_at (codecs ex_world) memo_to_ipld s' c m"
      "base_at ex_world s' {} {j} (c, m, ?\<sigma>)"
    by (rule authored_header [OF ex_sphere_ok ex_jwt_ok ex_owner_key auth_ok_None B s(3) in\<mu>(2) U in\<mu>(1)])
  have \<sigma>: "st_identity ?\<sigma> = ex_owner" "fst (st_delegations ?\<sigma>) j \<noteq> None" "fst (st_revocations ?\<sigma>) j = Some r"
    by (simp_all add: step_sphere_def step_version_def mutation_set_def vmap_mutation_new_def empty_sphere_def)
  have b: "body_at ex_world s' (body m) ?\<sigma>" using s'(3) by (simp add: base_at_def)
  have ch: "as_proof_chain 1 ex_world 1000 s' (AuthUcan ex_revoked) = Inr (ProofChain ex_revoked [] [])"
    using ex_no_redelegation [of 0 "''m''" "ex_did ''x''" "[Authorize]" None]
    by (simp add: ex_revoked_def ex_token_valid proof_strings_def)
  have "verify_authorization 1 2 ex_world 1000 s' c (AuthUcan ex_revoked) = Inr ()"
    by (rule sphere_revocation_ignored [OF ex_sphere_ok ex_jwt_ok s'(1,2) b _ ch j \<sigma>(2,3), of "ex_key ''s''"])
      (use rv \<sigma>(1) ne in \<open>simp_all add: ex_revoked_def\<close>)
  with s'(2) b \<sigma> j r show ?thesis by (metis ex_world_env(1))
qed

section \<open>Signatures of versions\<close>

lemma revision_proof_audience:
  assumes "revision_proof W now nonce sphere key (Some z) s = Inr (Some u)"
  shows "aud (payload u) = sphere" "self_described W u"
proof -
  obtain w where u: "build_and_sign W now nonce (with_nonce (claiming_capability (capability_of SPHERE_SEMANTICS (generate_capability sphere Publish))
      (witnessed_by W w (with_lifetime 120 (for_audience sphere (issued_by key builder_default)))))) = Inr u"
    using assms by (auto simp: revision_proof_def)
  obtain g where g: "signable_sign W nonce g = Inr u" "sg_audience g = sphere"
    using u by (auto simp: build_and_sign_def build_def with_nonce_def claiming_capability_def witnessed_by_def with_lifetime_def
        for_audience_def issued_by_def builder_default_def split: sum.splits)
  show "self_described W u" by (rule sign_self_described [OF g(1)])
  show "aud (payload u) = sphere"
    using g by (auto simp: signable_sign_def signable_payload_def Let_def split: sum.splits)
qed

lemma revision_sign_headers:
  assumes "env_ok (codecs W)" "jwt_ok W" "key_total key d" "as_ucan W s z = Inr w" "store_ok (codecs W) s"
  obtains c m u t sig s' where "revision_sign W now nonce key (Some z) r s = (Inr c, s')" "s \<subseteq>\<^sub>m s'" "store_ok (codecs W) s'"
    "value_at (codecs W) memo_to_ipld s' c m" "body m = body (rev_memo r)" "get_first_header ''Proof'' m = Some t"
    "ucan_from_str W t = Inr u" "aud (payload u) = rev_identity r" "get_first_header ''Signature'' m = Some (base64_encode (texts W) sig)"
    "km_sign key (cid_to_bytes (texts W) (body m)) = Inr sig"
proof -
  have auth: "auth_ok W s (Some z)" using assms(4) by (simp add: auth_ok_def)
  obtain ou where ou: "revision_proof W now nonce (rev_identity r) key (Some z) s = Inr ou"
    using revision_proof_ok [OF assms(2,3) auth] by blast
  then obtain u where u: "revision_proof W now nonce (rev_identity r) key (Some z) s = Inr (Some u)"
    using assms(4) by (auto simp: revision_proof_def)
  obtain t where t: "ucan_encode W u = Inr t" using encode_total [OF assms(2)] by blast
  obtain sig where sig: "km_sign key (cid_to_bytes (texts W) (body (rev_memo r))) = Inr sig"
    using assms(3) by (auto simp: key_total_def)
  have d: "km_did key = Inr d" using assms(3) by (simp add: key_total_def)
  obtain m where m: "memo_sign (texts W) key (map_option Inr (Some t)) (rev_memo r) = (Inr (), m)"
      "body m = body (rev_memo r)" "get_first_header ''Signature'' m = Some (base64_encode (texts W) sig)"
      "get_first_header ''Proof'' m = Some t"
    by (rule memo_sign_ok [OF sig d, of "Some t"]) blast
  obtain c s' where s': "save_value (codecs W) memo_to_ipld m s = (Inr c, s')"
      "value_at (codecs W) memo_to_ipld s' c m" "s \<subseteq>\<^sub>m s'" "store_ok (codecs W) s'"
    by (rule save_value_ok [OF assms(1,5) memo_serde])
  have "revision_sign W now nonce key (Some z) r s = (Inr c, s')" using u t m(1) s'(1) by (simp add: revision_sign_def)
  then show thesis
    using that s' m revision_proof_audience [OF u] from_str_encode [OF assms(2) _ t] sig by metis
qed

lemma get_header_first: "get_first_header n m = Some v \<Longrightarrow> \<exists>rest. get_header n m = v # rest"
proof -
  have "map_option snd (find P hs) = Some v \<Longrightarrow> \<exists>rest. map snd (filter P hs) = v # rest"
    for P :: "string \<times> string \<Rightarrow> bool" and hs
    by (induction hs) (auto split: if_splits)
  then show "get_first_header n m = Some v \<Longrightarrow> \<exists>rest. get_header n m = v # rest"
    by (simp add: get_first_header_def get_header_def)
qed

text \<open>C35: a version that an authorized author saves does not pass the check of its signature. The
  proof that is attached to it is addressed to the sphere, and the check takes the addressee of
  the proof for the signer; so it fails whenever the sphere's key does not accept the author's
  signatures.\<close>

theorem author_signature_rejected:
  assumes "sphere_ok W" "jwt_ok W" "key_total key d" "store_ok (codecs W) s" "value_at (codecs W) memo_to_ipld s p mp"
    "body_at W s (body mp) \<sigma>" "keys_ok W \<sigma> \<mu>" "as_ucan W s z = Inr w" "parse_key W (st_identity \<sigma>) = Inr credential"
    "\<And>b sig. km_sign key b = Inr sig \<Longrightarrow> km_verify credential b sig \<noteq> Inr ()"
  shows "\<exists>c s'. sbind (apply_mutation_with_cid W p \<mu> s) (\<lambda>r s. revision_sign W now nonce key (Some z) r s) = (Inr c, s') \<and>
    (\<forall>f t. verify_signature f W t s' c \<noteq> Inr ())"
proof -
  note env = sphere_ok_env [OF assms(1)]
  obtain b s1 where s1: "apply_mutation_with_cid W p \<mu> s =
       (Inr \<lparr>rev_identity = st_identity \<sigma>, rev_memo = (branch_memo p mp)\<lparr>body := b\<rparr>\<rparr>, s1)"
      "s \<subseteq>\<^sub>m s1" "store_ok (codecs W) s1"
    by (rule apply_mutation_ok [OF assms(1,4-7)])
  let ?r = "\<lparr>rev_identity = st_identity \<sigma>, rev_memo = (branch_memo p mp)\<lparr>body := b\<rparr>\<rparr>"
  obtain c m u t sig s' where s': "revision_sign W now nonce key (Some z) ?r s1 = (Inr c, s')"
      "value_at (codecs W) memo_to_ipld s' c m" "get_first_header ''Proof'' m = Some t" "ucan_from_str W t = Inr u"
      "aud (payload u) = rev_identity ?r" "get_first_header ''Signature'' m = Some (base64_encode (texts W) sig)"
      "km_sign key (cid_to_bytes (texts W) (body m)) = Inr sig"
    by (rule revision_sign_headers [OF env assms(2,3) as_ucan_mono [OF assms(8) s1(2)] s1(3)])
  have memo: "to_memo W c s' = Inr m" unfolding to_memo_def by (rule load_value_ok [OF env memo_serde s'(2)])
  obtain ps ss where hs: "get_header (header_str Proof) m = t # ps" "get_header (header_str Signature) m = base64_encode (texts W) sig # ss"
    using get_header_first [OF s'(3)] get_header_first [OF s'(6)] by auto
  obtain e where e: "km_verify credential (cid_to_bytes (texts W) (body m)) sig = Inl e"
    using assms(10) [OF s'(7)] by (cases "km_verify credential (cid_to_bytes (texts W) (body m)) sig") auto
  have "verify_signature f W x s' c \<noteq> Inr ()" for f x
    by (simp add: verify_signature_def memo hs s'(4,5) assms(9) e base64_decode [OF assms(2)] del: header_str.simps)
  with s1(1) s'(1) show ?thesis by auto
qed

theorem author_signature_rejected_witness:
  "\<exists>p s c s'. sbind (apply_mutation_with_cid ex_world p (ex_edit ''b'') s)
       (\<lambda>r s. revision_sign ex_world 1000 [] (ex_key ''m'') (Some (AuthUcan ex_grant)) r s) = (Inr c, s') \<and>
     verify_signature 5 ex_world 1000 s' c \<noteq> Inr ()"
proof -
  obtain g mg p mp s where s: "store_ok ex_env s" "base_at ex_world s ex_slugs {} (p, mp, ex_first)"
    by (rule ex_scenario)
  have st: "store_ok (codecs ex_world) s" using s(1) by simp
  have B: "value_at (codecs ex_world) memo_to_ipld s p mp" "body_at ex_world s (body mp) ex_first" "state_in ex_slugs {} ex_first"
    using s(2) by (simp_all add: base_at_def)
  have k: "keys_ok ex_world ex_first (ex_edit ''b'')" by (rule keys_ok_in [OF ex_universe B(3) ex_edit_in]) simp
  have id: "parse_key ex_world (st_identity ex_first) = Inr (ex_key ''s'')"
    by (simp add: step_sphere_def empty_sphere_def)
  have no: "km_verify (ex_key ''s'') b sig \<noteq> Inr ()" if "km_sign (ex_key ''m'') b = Inr sig" for b sig
    using that by (auto simp: ex_key_def str_bytes_def)
  show ?thesis
    using author_signature_rejected [OF ex_sphere_ok ex_jwt_ok ex_key_total [of "''m''"] st B(1,2) k _ id no, of "AuthUcan ex_grant" ex_grant 1000 "[]"]
    by (metis as_ucan.simps(1))
qed

end
