(* ===== verification/Sphere_Db.thy ===== *)
theory Sphere_Db
  imports Memo
begin

text \<open>
  Key-value storage and the sphere database (\<^verbatim>\<open>noosphere-storage/src/store.rs\<close>,
  \<^verbatim>\<open>implementation/memory.rs\<close>, \<^verbatim>\<open>implementation/tracking.rs\<close>, \<^verbatim>\<open>key_value.rs\<close>, \<^verbatim>\<open>db.rs\<close>,
  \<^verbatim>\<open>retry.rs\<close>): the primitive stores, keys with serialized values on top of them, and the
  database that files the links of every block beside the block and answers queries over them.
\<close>

section \<open>Primitive stores\<close>

type_synonym entries = "bytes \<rightharpoonup> bytes"

definition memory_read :: "bytes \<Rightarrow> entries \<Rightarrow> bytes option \<times> entries" where
  "memory_read k m = (m k, m)"

definition memory_write :: "bytes \<Rightarrow> bytes \<Rightarrow> entries \<Rightarrow> bytes option \<times> entries" where
  "memory_write k b m = (m k, m(k \<mapsto> b))"

definition memory_remove :: "bytes \<Rightarrow> entries \<Rightarrow> bytes option \<times> entries" where
  "memory_remove k m = (m k, m(k := None))"

text \<open>A store that counts what is read and written.\<close>

record store_stats =
  reads :: u64
  writes :: u64
  removes :: u64
  bytes_read :: u64
  bytes_written :: u64
  bytes_removed :: u64
  flushes :: u64

record 's tracking_store =
  stats :: store_stats
  tracked :: 's

abbreviation byte_count :: "bytes option \<Rightarrow> u64" where
  "byte_count v \<equiv> (case v of Some b \<Rightarrow> of_nat (length b) | None \<Rightarrow> 0)"

definition tracking_read ::
    "(bytes \<Rightarrow> 's \<Rightarrow> bytes option \<times> 's) \<Rightarrow> bytes \<Rightarrow> 's tracking_store \<Rightarrow> bytes option \<times> 's tracking_store" where
  "tracking_read rd k t =
     (case rd k (tracked t) of (v, s) \<Rightarrow>
        (v, \<lparr>stats = (stats t)\<lparr>reads := reads (stats t) + 1, bytes_read := bytes_read (stats t) + byte_count v\<rparr>,
             tracked = s\<rparr>))"

definition tracking_write ::
    "(bytes \<Rightarrow> bytes \<Rightarrow> 's \<Rightarrow> bytes option \<times> 's) \<Rightarrow> bytes \<Rightarrow> bytes \<Rightarrow> 's tracking_store \<Rightarrow> bytes option \<times> 's tracking_store" where
  "tracking_write wr k b t =
     (case wr k b (tracked t) of (v, s) \<Rightarrow>
        (v, \<lparr>stats = (stats t)\<lparr>writes := writes (stats t) + 1,
                              bytes_written := bytes_written (stats t) + of_nat (length b)\<rparr>,
             tracked = s\<rparr>))"

definition tracking_remove ::
    "(bytes \<Rightarrow> 's \<Rightarrow> bytes option \<times> 's) \<Rightarrow> bytes \<Rightarrow> 's tracking_store \<Rightarrow> bytes option \<times> 's tracking_store" where
  "tracking_remove rm k t =
     (case rm k (tracked t) of (v, s) \<Rightarrow>
        (v, \<lparr>stats = (stats t)\<lparr>removes := removes (stats t) + 1,
                              bytes_removed := bytes_removed (stats t) + byte_count v\<rparr>,
             tracked = s\<rparr>))"

definition tracking_flush :: "'s tracking_store \<Rightarrow> 's tracking_store" where
  "tracking_flush t = t\<lparr>stats := (stats t)\<lparr>flushes := flushes (stats t) + 1\<rparr>\<rparr>"

section \<open>Keys with serialized values\<close>

definition set_key ::
    "codec_env \<Rightarrow> (bytes \<Rightarrow> bytes \<Rightarrow> 's \<Rightarrow> bytes option \<times> 's) \<Rightarrow> ('a \<Rightarrow> ipld) \<Rightarrow> bytes \<Rightarrow> 'a \<Rightarrow> 's \<Rightarrow> unit result \<times> 's" where
  "set_key E wr to_ipld k v s =
     (case encode E DagCborCodec (to_ipld v) of
        None \<Rightarrow> (Inl (Anyhow ''encode''), s)
      | Some cbor \<Rightarrow> (Inr (), snd (wr k cbor s)))"

definition unset_key :: "(bytes \<Rightarrow> 's \<Rightarrow> bytes option \<times> 's) \<Rightarrow> bytes \<Rightarrow> 's \<Rightarrow> unit result \<times> 's" where
  "unset_key rm k s = (Inr (), snd (rm k s))"

definition get_key ::
    "codec_env \<Rightarrow> (bytes \<Rightarrow> 's \<Rightarrow> bytes option \<times> 's) \<Rightarrow> (ipld \<Rightarrow> 'a option) \<Rightarrow> bytes \<Rightarrow> 's \<Rightarrow> 'a option result \<times> 's" where
  "get_key E rd from_ipld k s =
     (case rd k s of (v, s') \<Rightarrow>
        (case v of
           None \<Rightarrow> Inr None
         | Some b \<Rightarrow>
             rbind (of_option (Anyhow ''decode'') (decode E DagCborCodec b)) (\<lambda>i.
               rbind (of_option (Anyhow ''from_ipld'') (from_ipld i)) (\<lambda>x. Inr (Some x))), s'))"

definition require_key ::
    "codec_env \<Rightarrow> (bytes \<Rightarrow> 's \<Rightarrow> bytes option \<times> 's) \<Rightarrow> (ipld \<Rightarrow> 'a option) \<Rightarrow> bytes \<Rightarrow> 's \<Rightarrow> 'a result \<times> 's" where
  "require_key E rd from_ipld k s =
     (case get_key E rd from_ipld k s of (r, s') \<Rightarrow>
        (rbind r (\<lambda>v. of_option (Anyhow ''No value found'') v), s'))"

text \<open>What a \<open>Store\<close> promises: its entries are a map, and reading does not change them.\<close>

locale primitive_store =
  fixes rd :: "bytes \<Rightarrow> 's \<Rightarrow> bytes option \<times> 's"
    and wr :: "bytes \<Rightarrow> bytes \<Rightarrow> 's \<Rightarrow> bytes option \<times> 's"
    and rm :: "bytes \<Rightarrow> 's \<Rightarrow> bytes option \<times> 's"
    and view :: "'s \<Rightarrow> entries"
  assumes rd_value: "fst (rd k s) = view s k" and rd_keeps: "view (snd (rd k s)) = view s"
    and wr_old: "fst (wr k b s) = view s k" and wr_updates: "view (snd (wr k b s)) = (view s)(k \<mapsto> b)"
    and rm_old: "fst (rm k s) = view s k" and rm_updates: "view (snd (rm k s)) = (view s)(k := None)"
begin

lemma get_key_value:
  "fst (get_key E rd g k s) =
     (case view s k of
        None \<Rightarrow> Inr None
      | Some b \<Rightarrow>
          rbind (of_option (Anyhow ''decode'') (decode E DagCborCodec b)) (\<lambda>i.
            rbind (of_option (Anyhow ''from_ipld'') (g i)) (\<lambda>x. Inr (Some x))))"
  using rd_value [of k s] by (simp add: get_key_def case_prod_beta)

lemma get_key_keeps: "view (snd (get_key E rd g k s)) = view s"
  using rd_keeps [of k s] by (simp add: get_key_def case_prod_beta)

lemma get_after_set:
  assumes "codec_ok E" "serde f g"
  shows "fst (set_key E wr f k v s) = Inr ()"
    and "fst (get_key E rd g k' (snd (set_key E wr f k v s))) =
      (if k' = k then Inr (Some v) else fst (get_key E rd g k' s))"
proof -
  obtain b where b: "encode E DagCborCodec (f v) = Some b" "decode E DagCborCodec b = Some (f v)"
    using assms by (auto simp: codec_ok_def serde_def)
  then show "fst (set_key E wr f k v s) = Inr ()" by (simp add: set_key_def)
  show "fst (get_key E rd g k' (snd (set_key E wr f k v s))) =
      (if k' = k then Inr (Some v) else fst (get_key E rd g k' s))"
    using b assms(2) by (simp add: get_key_value set_key_def wr_updates serde_def)
qed

lemma get_after_unset:
  "fst (get_key E rd g k' (snd (unset_key rm k s))) = (if k' = k then Inr None else fst (get_key E rd g k' s))"
  by (simp add: get_key_value unset_key_def rm_updates)

lemma require_missing:
  "view s k = None \<Longrightarrow> fst (require_key E rd g k s) = Inl (Anyhow ''No value found'')"
  using rd_value [of k s] by (simp add: require_key_def get_key_def case_prod_beta)

end

interpretation memory: primitive_store memory_read memory_write memory_remove "\<lambda>m. m"
  by unfold_locales (simp_all add: memory_read_def memory_write_def memory_remove_def)

text \<open>Tracking keeps the promise of the store that it wraps.\<close>

context primitive_store
begin

lemma tracking_promise:
  "primitive_store (tracking_read rd) (tracking_write wr) (tracking_remove rm) (\<lambda>t. view (tracked t))"
  by unfold_locales
    (simp_all add: tracking_read_def tracking_write_def tracking_remove_def case_prod_beta rd_value rd_keeps wr_old
      wr_updates rm_old rm_updates)

end

interpretation tracking: primitive_store "tracking_read memory_read" "tracking_write memory_write"
    "tracking_remove memory_remove" tracked
  by (rule memory.tracking_promise)

section \<open>The sphere database\<close>

record sphere_db =
  block_store :: blocks
  link_store :: entries
  version_store :: entries
  metadata_store :: entries

definition sphere_db_new :: sphere_db where
  "sphere_db_new = \<lparr>block_store = Map.empty, link_store = Map.empty, version_store = Map.empty, metadata_store = Map.empty\<rparr>"

definition set_version :: "codec_env \<Rightarrow> did \<Rightarrow> cid \<Rightarrow> sphere_db \<Rightarrow> unit result \<times> sphere_db" where
  "set_version E d c db =
     (case set_key E memory_write ILink (str_bytes d) c (version_store db) of (r, m) \<Rightarrow> (r, db\<lparr>version_store := m\<rparr>))"

definition get_version :: "codec_env \<Rightarrow> did \<Rightarrow> sphere_db \<Rightarrow> cid option result" where
  "get_version E d db = fst (get_key E memory_read cid_from_ipld (str_bytes d) (version_store db))"

definition require_version :: "codec_env \<Rightarrow> did \<Rightarrow> sphere_db \<Rightarrow> cid result" where
  "require_version E d db =
     rbind (get_version E d db) (of_option (Anyhow ''No version was found for sphere''))"

definition set_metadata :: "codec_env \<Rightarrow> ('a \<Rightarrow> ipld) \<Rightarrow> bytes \<Rightarrow> 'a \<Rightarrow> sphere_db \<Rightarrow> unit result \<times> sphere_db" where
  "set_metadata E f k v db =
     (case set_key E memory_write f k v (metadata_store db) of (r, m) \<Rightarrow> (r, db\<lparr>metadata_store := m\<rparr>))"

definition get_metadata :: "codec_env \<Rightarrow> (ipld \<Rightarrow> 'a option) \<Rightarrow> bytes \<Rightarrow> sphere_db \<Rightarrow> 'a option result" where
  "get_metadata E g k db = fst (get_key E memory_read g k (metadata_store db))"

definition links_to_ipld :: "cid list \<Rightarrow> ipld" where
  "links_to_ipld cs = IList (map ILink cs)"

definition get_block_links :: "codec_env \<Rightarrow> text_env \<Rightarrow> sphere_db \<Rightarrow> cid \<Rightarrow> cid list option result" where
  "get_block_links E T db c =
     fst (get_key E memory_read (list_from_ipld cid_from_ipld) (str_bytes (cid_to_string T c)) (link_store db))"

definition put_links :: "codec_env \<Rightarrow> text_env \<Rightarrow> codec \<Rightarrow> cid \<Rightarrow> bytes \<Rightarrow> sphere_db \<Rightarrow> unit result \<times> sphere_db" where
  "put_links E T C c block db =
     (case references E C block of
        None \<Rightarrow> (Inl (Anyhow ''references''), db)
      | Some links \<Rightarrow>
          (case set_key E memory_write links_to_ipld (str_bytes (cid_to_string T c)) links (link_store db) of
             (r, m) \<Rightarrow> (r, db\<lparr>link_store := m\<rparr>)))"

definition db_put_block :: "cid \<Rightarrow> bytes \<Rightarrow> sphere_db \<Rightarrow> sphere_db" where
  "db_put_block c block db = db\<lparr>block_store := put_block c block (block_store db)\<rparr>"

text \<open>\<open>put\<close> of the trait: the block first, its links after it.\<close>

definition db_put :: "codec_env \<Rightarrow> text_env \<Rightarrow> codec \<Rightarrow> ipld \<Rightarrow> sphere_db \<Rightarrow> cid result \<times> sphere_db" where
  "db_put E T C i db =
     (case encode E C i of
        None \<Rightarrow> (Inl (Anyhow ''encode''), db)
      | Some block \<Rightarrow>
          let c = Cid (codec_id C) (blake3_256 E block) in
          sbind (put_links E T C c block (db_put_block c block db)) (\<lambda>_ db. (Inr c, db)))"

text \<open>\<open>persist\<close>: \<open>cids\<close> are the keys of the memory store, in the order of its hash map.\<close>

fun persist :: "codec_env \<Rightarrow> text_env \<Rightarrow> blocks \<Rightarrow> cid list \<Rightarrow> sphere_db \<Rightarrow> unit result \<times> sphere_db" where
  "persist E T memory [] db = (Inr (), db)"
| "persist E T memory (c # cids) db =
     (case require_block c memory of
        Inl e \<Rightarrow> (Inl e, db)
      | Inr block \<Rightarrow>
          let db = db_put_block c block db in
          sbind (if codec_of c = codec_id DagCborCodec then put_links E T DagCborCodec c block db
                 else if codec_of c = codec_id RawCodec then put_links E T RawCodec c block db
                 else (Inr (), db)) (\<lambda>_ db. persist E T memory cids db))"

section \<open>Queries over links\<close>

text \<open>
  The stack of links that remain and the set of links that were visited. The stream yields the
  links for which the predicate holds; it ends with an error if the predicate or the link
  store fails. The fuel counts the turns of the loop.
\<close>

fun query_links ::
    "nat \<Rightarrow> (cid \<Rightarrow> bool result) \<Rightarrow> (cid \<Rightarrow> cid list option result) \<Rightarrow> cid set \<Rightarrow> cid list \<Rightarrow> cid list \<times> unit result" where
  "query_links 0 predicate links visited remaining = ([], Inl OutOfFuel)"
| "query_links (Suc f) predicate links visited remaining =
     (if remaining = [] then ([], Inr ())
      else let c = last remaining; rest = butlast remaining in
        if c \<in> visited then query_links f predicate links visited rest
        else (case predicate c of
                Inl e \<Rightarrow> ([], Inl e)
              | Inr False \<Rightarrow> query_links f predicate links (insert c visited) rest
              | Inr True \<Rightarrow>
                  (case links c of
                     Inl e \<Rightarrow> ([], Inl e)
                   | Inr ls \<Rightarrow>
                       (case query_links f predicate links (insert c visited)
                               (rest @ (case ls of Some l \<Rightarrow> l | None \<Rightarrow> [])) of
                          (out, r) \<Rightarrow> (c # out, r)))))"

definition stream_links :: "nat \<Rightarrow> codec_env \<Rightarrow> text_env \<Rightarrow> sphere_db \<Rightarrow> cid \<Rightarrow> cid list \<times> unit result" where
  "stream_links f E T db c = query_links f (\<lambda>_. Inr True) (get_block_links E T db) {} [c]"

definition stream_blocks :: "nat \<Rightarrow> codec_env \<Rightarrow> text_env \<Rightarrow> sphere_db \<Rightarrow> cid \<Rightarrow> (cid \<times> bytes) list \<times> unit result" where
  "stream_blocks f E T db c =
     (case stream_links f E T db c of (cids, r) \<Rightarrow>
        (List.map_filter (\<lambda>c. map_option (Pair c) (get_block c (block_store db))) cids, r))"

text \<open>The links reached from a root through links for which the predicate holds.\<close>

inductive linked :: "(cid \<Rightarrow> bool) \<Rightarrow> (cid \<Rightarrow> cid list) \<Rightarrow> cid \<Rightarrow> cid \<Rightarrow> bool"
  for p :: "cid \<Rightarrow> bool" and nexts :: "cid \<Rightarrow> cid list" where
  linked_root: "p c \<Longrightarrow> linked p nexts c c"
| linked_step: "linked p nexts r c \<Longrightarrow> c' \<in> set (nexts c) \<Longrightarrow> p c' \<Longrightarrow> linked p nexts r c'"

lemma linked_holds: "linked p nexts r d \<Longrightarrow> p r \<and> p d"
  by (induction rule: linked.induct) auto

lemma linked_start:
  assumes "linked p nexts c' d" "p c" "c' \<in> set (nexts c)"
  shows "linked p nexts c d"
  using assms by (induction rule: linked.induct) (auto intro: linked.intros dest: linked_holds)

lemma linked_mono: "linked p nexts r d \<Longrightarrow> (\<And>c. p c \<Longrightarrow> q c) \<Longrightarrow> linked q nexts r d"
  by (induction rule: linked.induct) (auto intro: linked.intros)

text \<open>One turn of the loop: the links reached through \<open>c\<close> are \<open>c\<close> and those reached from its own links.\<close>

lemma linked_visit:
  fixes p :: "cid \<Rightarrow> bool"
  assumes "p c" "c \<notin> V"
  shows "{d. \<exists>r \<in> R \<union> {c}. linked (\<lambda>x. p x \<and> x \<notin> V) nexts r d} =
    insert c {d. \<exists>r \<in> R \<union> set (nexts c). linked (\<lambda>x. p x \<and> x \<notin> insert c V) nexts r d}" (is "?A = insert c ?B")
proof (intro equalityI subsetI)
  fix d assume "d \<in> ?A"
  then obtain r where r: "r \<in> R \<union> {c}" "linked (\<lambda>x. p x \<and> x \<notin> V) nexts r d" by blast
  from r(2,1) show "d \<in> insert c ?B"
  proof (induction rule: linked.induct)
    case (linked_root r)
    then show ?case by (cases "r = c") (auto intro: linked.linked_root)
  next
    case (linked_step r x y)
    show ?case
    proof (cases "y = c \<or> x = c")
      case True
      with linked_step.hyps show ?thesis by (auto intro: linked.linked_root)
    next
      case False
      then obtain r' where "r' \<in> R \<union> set (nexts c)" "linked (\<lambda>x. p x \<and> x \<notin> insert c V) nexts r' x"
        using linked_step.IH linked_step.prems by blast
      moreover from this(2) have "linked (\<lambda>x. p x \<and> x \<notin> insert c V) nexts r' y"
        by (rule linked.linked_step) (use linked_step.hyps False in auto)
      ultimately show ?thesis by blast
    qed
  qed
next
  fix d assume "d \<in> insert c ?B"
  then consider "d = c" | r where "r \<in> R \<union> set (nexts c)" "linked (\<lambda>x. p x \<and> x \<notin> insert c V) nexts r d" by blast
  then show "d \<in> ?A"
  proof cases
    case 1
    then show ?thesis using assms by (auto intro: linked.linked_root)
  next
    case 2
    have l: "linked (\<lambda>x. p x \<and> x \<notin> V) nexts r d" by (rule linked_mono [OF 2(2)]) simp
    show ?thesis
    proof (cases "r \<in> R")
      case False
      then have "linked (\<lambda>x. p x \<and> x \<notin> V) nexts c d" using linked_start [OF l] assms 2(1) by simp
      then show ?thesis by blast
    qed (use l in blast)
  qed
qed

text \<open>
  On a finite graph the query ends without an error, and it yields every link that is reached,
  once. The fuel is one turn for every link that is ever pushed.
\<close>

lemma query_links_ok:
  assumes "\<And>c. nexts c = (case ls c of Some l \<Rightarrow> l | None \<Rightarrow> [])" "finite U" "\<And>c. c \<in> U \<Longrightarrow> set (nexts c) \<subseteq> U"
  shows "set remaining \<subseteq> U \<Longrightarrow> length remaining + (\<Sum>c \<in> U - V. length (nexts c)) < f \<Longrightarrow>
    \<exists>out. query_links f (\<lambda>c. Inr (p c)) (\<lambda>c. Inr (ls c)) V remaining = (out, Inr ()) \<and> distinct out \<and>
      set out = {d. \<exists>r \<in> set remaining. linked (\<lambda>c. p c \<and> c \<notin> V) nexts r d}"
proof (induction f arbitrary: V remaining)
  case (Suc f)
  show ?case
  proof (cases remaining rule: rev_cases)
    case (snoc rest c)
    have cU: "c \<in> U" "set rest \<subseteq> U" using Suc.prems(1) snoc by auto
    consider (seen) "c \<in> V" | (no) "c \<notin> V" "\<not> p c" | (yes) "c \<notin> V" "p c" by blast
    then show ?thesis
    proof cases
      case seen
      then obtain out where "query_links f (\<lambda>c. Inr (p c)) (\<lambda>c. Inr (ls c)) V rest = (out, Inr ())" "distinct out"
          "set out = {d. \<exists>r \<in> set rest. linked (\<lambda>c. p c \<and> c \<notin> V) nexts r d}"
        using Suc.IH [of rest V] Suc.prems cU snoc by auto
      moreover have "\<not> linked (\<lambda>c. p c \<and> c \<notin> V) nexts c d" for d using seen linked_holds by blast
      ultimately show ?thesis using seen by (auto simp: snoc)
    next
      case no
      have "(\<Sum>c \<in> U - insert c V. length (nexts c)) \<le> (\<Sum>c \<in> U - V. length (nexts c))"
        by (rule sum_mono2) (use assms(2) in auto)
      then obtain out where "query_links f (\<lambda>c. Inr (p c)) (\<lambda>c. Inr (ls c)) (insert c V) rest = (out, Inr ())" "distinct out"
          "set out = {d. \<exists>r \<in> set rest. linked (\<lambda>x. p x \<and> x \<notin> insert c V) nexts r d}"
        using Suc.IH [of rest "insert c V"] Suc.prems cU snoc by auto
      moreover have "(\<lambda>x. p x \<and> x \<notin> insert c V) = (\<lambda>x. p x \<and> x \<notin> V)" using no by auto
      moreover have "\<not> linked (\<lambda>c. p c \<and> c \<notin> V) nexts c d" for d using no linked_holds by blast
      ultimately show ?thesis using no by (auto simp: snoc)
    next
      case yes
      have "(\<Sum>x \<in> U - V. length (nexts x)) = length (nexts c) + (\<Sum>x \<in> U - insert c V. length (nexts x))"
        using sum.remove [of "U - V" c "\<lambda>x. length (nexts x)"] assms(2) cU(1) yes(1) by (simp add: Diff_insert [symmetric])
      then obtain out where out: "query_links f (\<lambda>c. Inr (p c)) (\<lambda>c. Inr (ls c)) (insert c V) (rest @ nexts c) = (out, Inr ())"
          "distinct out" "set out = {d. \<exists>r \<in> set (rest @ nexts c). linked (\<lambda>x. p x \<and> x \<notin> insert c V) nexts r d}"
        using Suc.IH [of "rest @ nexts c" "insert c V"] Suc.prems cU assms(3) snoc by auto
      have "c \<notin> set out" using out(3) linked_holds by fastforce
      moreover have "set (c # out) = {d. \<exists>r \<in> set remaining. linked (\<lambda>x. p x \<and> x \<notin> V) nexts r d}"
        using linked_visit [of p c V "set rest" nexts] yes out(3) by (simp add: snoc Un_commute)
      moreover have "query_links (Suc f) (\<lambda>c. Inr (p c)) (\<lambda>c. Inr (ls c)) V remaining = (c # out, Inr ())"
        using yes out(1) by (simp add: snoc assms(1))
      ultimately show ?thesis using out(2) by (intro exI [of _ "c # out"]) simp
    qed
  qed simp
qed simp

section \<open>Versions and links are kept\<close>

lemma cid_serde: "serde ILink cid_from_ipld"
  by (simp add: serde_def)

lemma links_serde: "serde links_to_ipld (list_from_ipld cid_from_ipld)"
  using list_round [OF cid_serde] by (simp add: serde_def links_to_ipld_def)

lemma version_set_get:
  assumes "codec_ok E"
  shows "fst (set_version E d c db) = Inr ()"
    and "get_version E d' (snd (set_version E d c db)) = (if d' = d then Inr (Some c) else get_version E d' db)"
  using memory.get_after_set [OF assms cid_serde] str_bytes_inj
  by (auto simp: set_version_def get_version_def case_prod_beta)

lemma version_set_only:
  "block_store (snd (set_version E d c db)) = block_store db" "link_store (snd (set_version E d c db)) = link_store db"
  "metadata_store (snd (set_version E d c db)) = metadata_store db"
  by (simp_all add: set_version_def case_prod_beta)

text \<open>The links of a block are filed: the index has what the codec reads from it.\<close>

definition filed :: "codec_env \<Rightarrow> text_env \<Rightarrow> sphere_db \<Rightarrow> cid \<Rightarrow> bool" where
  "filed E T db c \<longleftrightarrow>
     (\<exists>b C ls. block_store db c = Some b \<and> codec_of c = codec_id C \<and> references E C b = Some ls \<and>
        get_block_links E T db c = Inr (Some ls))"

text \<open>The links of every block are filed.\<close>

definition links_ok :: "codec_env \<Rightarrow> text_env \<Rightarrow> sphere_db \<Rightarrow> bool" where
  "links_ok E T db \<longleftrightarrow>
     (\<forall>c b C. block_store db c = Some b \<longrightarrow> codec_of c = codec_id C \<longrightarrow>
        (\<exists>ls. references E C b = Some ls \<and> get_block_links E T db c = Inr (Some ls)))"

lemma codec_id_inj: "codec_id C = codec_id C' \<longleftrightarrow> C = C'"
  by (cases C; cases C') simp_all

lemma links_ok_new: "links_ok E T sphere_db_new"
  by (simp add: links_ok_def sphere_db_new_def)

lemma put_links_get:
  assumes "codec_ok E" "inj (cid_to_string T)" "references E C block = Some ls"
  shows "fst (put_links E T C c block db) = Inr ()"
    and "block_store (snd (put_links E T C c block db)) = block_store db"
    and "get_block_links E T (snd (put_links E T C c block db)) c' =
      (if c' = c then Inr (Some ls) else get_block_links E T db c')"
proof -
  have k: "str_bytes (cid_to_string T c') = str_bytes (cid_to_string T c) \<longleftrightarrow> c' = c"
    using assms(2) str_bytes_inj by (auto dest: injD)
  show "fst (put_links E T C c block db) = Inr ()" "block_store (snd (put_links E T C c block db)) = block_store db"
      "get_block_links E T (snd (put_links E T C c block db)) c' =
      (if c' = c then Inr (Some ls) else get_block_links E T db c')"
    using memory.get_after_set [OF assms(1) links_serde, where k = "str_bytes (cid_to_string T c)"] assms(3) k
    by (auto simp: put_links_def get_block_links_def case_prod_beta)
qed

lemma links_ok_file:
  assumes "codec_ok E" "inj (cid_to_string T)" "links_ok E T db" "codec_of c = codec_id C" "references E C block = Some ls"
  shows "links_ok E T (snd (put_links E T C c block (db_put_block c block db)))"
  using assms(3) put_links_get [OF assms(1,2,5), of c "db_put_block c block db"] assms(4,5)
  unfolding links_ok_def
  by (auto simp: db_put_block_def put_block_def codec_id_inj get_block_links_def)

lemma db_put_links_ok:
  assumes "codec_ok E" "inj (cid_to_string T)" "links_ok E T db" "db_put E T C i db = (Inr c, db')"
  shows "links_ok E T db'" and "block_store db' = snd (put E C i (block_store db))" "fst (put E C i (block_store db)) = Inr c"
proof -
  obtain block where b: "encode E C i = Some block" using assms(4) by (cases "encode E C i") (auto simp: db_put_def)
  let ?c = "Cid (codec_id C) (blake3_256 E block)"
  have p: "sbind (put_links E T C ?c block (db_put_block ?c block db)) (\<lambda>_ db. (Inr ?c, db)) = (Inr c, db')"
    using assms(4) b by (simp add: db_put_def Let_def)
  obtain ls where ls: "references E C block = Some ls"
    using p by (cases "references E C block") (auto simp: put_links_def)
  note g = put_links_get [OF assms(1,2) ls, of ?c "db_put_block ?c block db"]
  have c: "c = ?c" "db' = snd (put_links E T C ?c block (db_put_block ?c block db))"
    using p g(1) by (cases "put_links E T C ?c block (db_put_block ?c block db)"; simp)+
  show "links_ok E T db'" unfolding c(2) by (rule links_ok_file [OF assms(1-3) _ ls]) simp
  show "block_store db' = snd (put E C i (block_store db))" "fst (put E C i (block_store db)) = Inr c"
    using b c g(2) by (simp_all add: put_def Let_def db_put_block_def)
qed

text \<open>Which links are on file after a block was put, alone or with its links.\<close>

lemma filed_put_block:
  "filed E T (db_put_block c b db) d \<longleftrightarrow>
     (if d = c then \<exists>C ls. codec_of c = codec_id C \<and> references E C b = Some ls \<and> get_block_links E T db c = Inr (Some ls)
      else filed E T db d)"
  by (auto simp: filed_def db_put_block_def put_block_def get_block_links_def)

lemma filed_put_links:
  assumes "codec_ok E" "inj (cid_to_string T)" "codec_of c = codec_id C" "references E C b = Some ls"
  shows "filed E T (snd (put_links E T C c b (db_put_block c b db))) d \<longleftrightarrow> d = c \<or> filed E T db d"
  using put_links_get [OF assms(1,2,4), of c "db_put_block c b db"] assms(3,4)
  by (auto simp: filed_def db_put_block_def put_block_def get_block_links_def)

lemma file_step:
  assumes "codec_ok E" "inj (cid_to_string T)" "\<And>C. codec_of c = codec_id C \<Longrightarrow> references E C b \<noteq> None"
  obtains db' where "(if codec_of c = codec_id DagCborCodec then put_links E T DagCborCodec c b (db_put_block c b db)
      else if codec_of c = codec_id RawCodec then put_links E T RawCodec c b (db_put_block c b db)
      else (Inr (), db_put_block c b db)) = (Inr (), db')"
    "\<And>d. filed E T db' d \<longleftrightarrow> (if d = c then \<exists>C. codec_of c = codec_id C else filed E T db d)"
proof (cases "\<exists>C. codec_of c = codec_id C")
  case True
  then obtain C where C: "codec_of c = codec_id C" by blast
  then obtain ls where ls: "references E C b = Some ls" using assms(3) by blast
  obtain db' where db': "put_links E T C c b (db_put_block c b db) = (Inr (), db')"
    using put_links_get(1) [OF assms(1,2) ls, of c "db_put_block c b db"] by (metis prod.collapse)
  show thesis
  proof (rule that)
    show "(if codec_of c = codec_id DagCborCodec then put_links E T DagCborCodec c b (db_put_block c b db)
        else if codec_of c = codec_id RawCodec then put_links E T RawCodec c b (db_put_block c b db)
        else (Inr (), db_put_block c b db)) = (Inr (), db')"
      using db' C by (cases C) simp_all
    show "filed E T db' d \<longleftrightarrow> (if d = c then \<exists>C. codec_of c = codec_id C else filed E T db d)" for d
      using filed_put_links [OF assms(1,2) C ls, of db d] db' True by simp
  qed
next
  case False
  then have "codec_of c \<noteq> codec_id DagCborCodec" "codec_of c \<noteq> codec_id RawCodec" by blast+
  moreover have "filed E T (db_put_block c b db) d \<longleftrightarrow> (if d = c then \<exists>C. codec_of c = codec_id C else filed E T db d)" for d
    using False by (simp only: filed_put_block) auto
  ultimately show thesis by (intro that [of "db_put_block c b db"]) simp_all
qed

lemma db_put_filed:
  assumes "codec_ok E" "inj (cid_to_string T)" "encode E C i = Some b" "c = Cid (codec_id C) (blake3_256 E b)"
  shows "references E C b = Some ls \<Longrightarrow> fst (db_put E T C i db) = Inr c \<and>
      (filed E T (snd (db_put E T C i db)) d \<longleftrightarrow> d = c \<or> filed E T db d)"
    and "references E C b = None \<Longrightarrow> db_put E T C i db = (Inl (Anyhow ''references''), db_put_block c b db)"
proof -
  have c: "codec_of c = codec_id C" using assms(4) by simp
  show "fst (db_put E T C i db) = Inr c \<and> (filed E T (snd (db_put E T C i db)) d \<longleftrightarrow> d = c \<or> filed E T db d)"
    if ls: "references E C b = Some ls"
  proof -
    obtain db' where db': "put_links E T C c b (db_put_block c b db) = (Inr (), db')"
      using put_links_get(1) [OF assms(1,2) ls, of c "db_put_block c b db"] by (metis prod.collapse)
    then have "db_put E T C i db = (Inr c, db')" using assms(3,4) by (simp add: db_put_def)
    then show ?thesis using filed_put_links [OF assms(1,2) c ls, of db d] db' by simp
  qed
  show "db_put E T C i db = (Inl (Anyhow ''references''), db_put_block c b db)" if "references E C b = None"
    using that assms(3,4) by (simp add: db_put_def put_links_def)
qed

lemma persist_filed:
  assumes "codec_ok E" "inj (cid_to_string T)"
    "\<And>c b C. memory c = Some b \<Longrightarrow> codec_of c = codec_id C \<Longrightarrow> references E C b \<noteq> None"
  shows "set cids \<subseteq> dom memory \<Longrightarrow> \<exists>db'. persist E T memory cids db = (Inr (), db') \<and>
    (\<forall>d. filed E T db' d \<longleftrightarrow> (if d \<in> set cids then \<exists>C. codec_of d = codec_id C else filed E T db d))"
proof (induction cids arbitrary: db)
  case (Cons c cids)
  obtain b where b: "memory c = Some b" using Cons.prems by auto
  obtain db1 where db1: "(if codec_of c = codec_id DagCborCodec then put_links E T DagCborCodec c b (db_put_block c b db)
      else if codec_of c = codec_id RawCodec then put_links E T RawCodec c b (db_put_block c b db)
      else (Inr (), db_put_block c b db)) = (Inr (), db1)"
      "\<And>d. filed E T db1 d \<longleftrightarrow> (if d = c then \<exists>C. codec_of c = codec_id C else filed E T db d)"
    by (rule file_step [OF assms(1,2), of c b db]) (use assms(3) b in blast)+
  have sub: "set cids \<subseteq> dom memory" using Cons.prems by simp
  from Cons.IH [OF sub, of db1] obtain db' where db': "persist E T memory cids db1 = (Inr (), db')"
      "\<forall>d. filed E T db' d \<longleftrightarrow> (if d \<in> set cids then \<exists>C. codec_of d = codec_id C else filed E T db1 d)"
    by (elim exE conjE)
  have "persist E T memory (c # cids) db = (Inr (), db')"
    using b db'(1) by (simp add: require_block_def get_block_def Let_def db1(1) del: codec_id.simps)
  moreover have "filed E T db' d \<longleftrightarrow> (if d \<in> set (c # cids) then \<exists>C. codec_of d = codec_id C else filed E T db d)" for d
    using db1(2) [of d] db'(2) by (cases "d = c") simp_all
  ultimately show ?case by blast
qed simp

text \<open>Persisting a memory store copies its blocks and files their links.\<close>

lemma persist_ok:
  assumes "codec_ok E" "inj (cid_to_string T)"
    "\<And>c b C. memory c = Some b \<Longrightarrow> codec_of c = codec_id C \<Longrightarrow> references E C b \<noteq> None"
  shows "links_ok E T db \<Longrightarrow> set cids \<subseteq> dom memory \<Longrightarrow>
    \<exists>db'. persist E T memory cids db = (Inr (), db') \<and> links_ok E T db' \<and>
      block_store db' = block_store db ++ (memory |` set cids)"
proof (induction cids arbitrary: db)
  case (Cons c cids)
  obtain b where b: "memory c = Some b" using Cons.prems(2) by auto
  let ?db = "db_put_block c b db"
  obtain db1 where db1: "(if codec_of c = codec_id DagCborCodec then put_links E T DagCborCodec c b ?db
      else if codec_of c = codec_id RawCodec then put_links E T RawCodec c b ?db else (Inr (), ?db)) = (Inr (), db1)"
      "links_ok E T db1" "block_store db1 = (block_store db)(c \<mapsto> b)"
  proof (cases "\<exists>C. codec_of c = codec_id C")
    case True
    then obtain C where C: "codec_of c = codec_id C" by blast
    then obtain ls where ls: "references E C b = Some ls" using assms(3) [OF b] by blast
    note g = put_links_get [OF assms(1,2) ls, of c ?db] links_ok_file [OF assms(1,2) Cons.prems(1) C ls]
    show thesis
      by (rule that [of "snd (put_links E T C c b ?db)"])
        (use g C in \<open>cases C; simp add: db_put_block_def put_block_def prod_eq_iff\<close>)+
  next
    case False
    then have "codec_of c \<noteq> codec_id DagCborCodec" "codec_of c \<noteq> codec_id RawCodec" by blast+
    moreover have "links_ok E T ?db"
      using Cons.prems(1) False by (auto simp: links_ok_def db_put_block_def put_block_def get_block_links_def)
    ultimately show thesis by (intro that [of ?db]) (simp_all add: db_put_block_def put_block_def)
  qed
  have sub: "set cids \<subseteq> dom memory" using Cons.prems(2) by simp
  obtain db' where "persist E T memory cids db1 = (Inr (), db')" "links_ok E T db'"
      "block_store db' = block_store db1 ++ (memory |` set cids)"
    using Cons.IH [OF db1(2) sub] by blast
  moreover have "block_store db1 ++ (memory |` set cids) = block_store db ++ (memory |` set (c # cids))"
    by (rule ext) (use db1(3) b in \<open>auto simp: map_add_def restrict_map_def split: option.split\<close>)
  ultimately show ?case
    using db1(1) b by (auto simp: require_block_def get_block_def Let_def simp del: codec_id.simps)
qed simp

text \<open>Streaming the blocks of a DAG that is complete in the database.\<close>

abbreviation next_links :: "codec_env \<Rightarrow> text_env \<Rightarrow> sphere_db \<Rightarrow> cid \<Rightarrow> cid list" where
  "next_links E T db c \<equiv> (case get_block_links E T db c of Inr (Some ls) \<Rightarrow> ls | _ \<Rightarrow> [])"

lemma query_links_cong:
  assumes "\<And>c. c \<in> U \<Longrightarrow> links c = links' c" "\<And>c. c \<in> U \<Longrightarrow> set (case links' c of Inr (Some ls) \<Rightarrow> ls | _ \<Rightarrow> []) \<subseteq> U"
  shows "set remaining \<subseteq> U \<Longrightarrow> query_links f p links V remaining = query_links f p links' V remaining"
proof (induction f arbitrary: V remaining)
  case (Suc f)
  show ?case
  proof (cases remaining rule: rev_cases)
    case (snoc rest c)
    then have c: "c \<in> U" "set rest \<subseteq> U" using Suc.prems by auto
    have "set (case ls of Some l \<Rightarrow> l | None \<Rightarrow> []) \<subseteq> U" if "links' c = Inr ls" for ls
      using assms(2) [OF c(1)] that by (cases ls) auto
    then have "query_links f p links V (rest @ (case ls of Some l \<Rightarrow> l | None \<Rightarrow> [])) =
        query_links f p links' V (rest @ (case ls of Some l \<Rightarrow> l | None \<Rightarrow> []))" if "links' c = Inr ls" for ls V
      using Suc.IH c(2) that by simp
    then show ?thesis
      using Suc.IH [OF c(2)] assms(1) [OF c(1)] by (auto simp: snoc Let_def split: sum.split bool.split)
  qed simp
qed simp

lemma map_filter_present:
  "\<forall>c \<in> set cs. m c \<noteq> None \<Longrightarrow> List.map_filter (\<lambda>c. map_option (Pair c) (m c)) cs = map (\<lambda>c. (c, the (m c))) cs"
  by (induction cs) (auto simp: map_filter_simps)

lemma stream_blocks_ok:
  assumes "links_ok E T db" "finite U" "\<And>c. c \<in> U \<Longrightarrow> \<exists>b C. block_store db c = Some b \<and> codec_of c = codec_id C"
    "\<And>c. c \<in> U \<Longrightarrow> set (next_links E T db c) \<subseteq> U" "r0 \<in> U" "1 + (\<Sum>c \<in> U. length (next_links E T db c)) < f"
  shows "\<exists>out. stream_blocks f E T db r0 = (out, Inr ()) \<and> distinct (map fst out) \<and>
    set out = {(c, b). linked (\<lambda>_. True) (next_links E T db) r0 c \<and> block_store db c = Some b}"
proof -
  let ?ls = "\<lambda>c. case get_block_links E T db c of Inr (Some ls) \<Rightarrow> Some ls | _ \<Rightarrow> None"
  have nexts: "next_links E T db c = (case ?ls c of Some l \<Rightarrow> l | None \<Rightarrow> [])" for c
    by (auto split: sum.split option.split)
  have links: "get_block_links E T db c = Inr (?ls c)" if "c \<in> U" for c
    using assms(1) assms(3) [OF that] by (fastforce simp: links_ok_def)
  obtain cids where cids: "query_links f (\<lambda>c. Inr True) (\<lambda>c. Inr (?ls c)) {} [r0] = (cids, Inr ())" "distinct cids"
      "set cids = {d. linked (\<lambda>_. True) (next_links E T db) r0 d}"
    using query_links_ok [of "next_links E T db", OF nexts assms(2,4), of "[r0]" "{}" f "\<lambda>_. True"] assms(5,6) by auto
  have "query_links f (\<lambda>c. Inr True) (get_block_links E T db) {} [r0] = (cids, Inr ())"
    unfolding cids(1) [symmetric]
    by (rule query_links_cong [of U]) (use links assms(4,5) in \<open>auto split: sum.splits option.splits\<close>)
  moreover have inU: "c \<in> U" if "linked (\<lambda>_. True) (next_links E T db) r0 c" for c
    using that assms(4,5) by (induction rule: linked.induct) auto
  then have "\<forall>c \<in> set cids. block_store db c \<noteq> None" using cids(3) assms(3) by blast
  ultimately have "stream_blocks f E T db r0 = (map (\<lambda>c. (c, the (block_store db c))) cids, Inr ())"
    by (simp add: stream_blocks_def stream_links_def get_block_def map_filter_present)
  moreover have "set (map (\<lambda>c. (c, the (block_store db c))) cids) =
      {(c, b). linked (\<lambda>_. True) (next_links E T db) r0 c \<and> block_store db c = Some b}"
    using cids(3) \<open>\<forall>c \<in> set cids. block_store db c \<noteq> None\<close> by force
  ultimately show ?thesis using cids(2) by (simp add: comp_def)
qed

section \<open>Retrying\<close>

text \<open>
  Durations in nanoseconds. Raising a duration to a power is floating-point arithmetic, an
  argument. An attempt takes a time and gives a result; it is cut off by the timeout.
\<close>

datatype backoff = Linear (increment: nat) (ceiling: nat) | Exponential (exponent: u32) (ceiling: nat)

fun backoff_step :: "(u32 \<Rightarrow> nat \<Rightarrow> nat) \<Rightarrow> backoff \<Rightarrow> nat \<Rightarrow> nat" where
  "backoff_step powf (Linear inc limit) d = min (d + inc) limit"
| "backoff_step powf (Exponential e limit) d = min (powf e d) limit"

record retry =
  maximum_retries :: u32
  attempt_window :: nat
  minimum_delay :: nat
  retry_backoff :: "backoff option"

definition retry_default :: retry where
  "retry_default = \<lparr>maximum_retries = 2, attempt_window = 1000000000, minimum_delay = 100000000,
     retry_backoff = Some (Linear 1000000000 3000000000)\<rparr>"

text \<open>The time to wait before the next attempt, given the time that was spent on the last.\<close>

definition remaining_window :: "retry \<Rightarrow> nat \<Rightarrow> nat" where
  "remaining_window R spent = attempt_window R - min (max spent (minimum_delay R)) (attempt_window R)"

text \<open>
  The answer, and the time that the attempts and the pauses after them took. An answer that
  arrives together with the timeout counts as late.
\<close>

fun retry_get ::
    "nat \<Rightarrow> (u32 \<Rightarrow> nat \<Rightarrow> nat) \<Rightarrow> retry \<Rightarrow> (nat \<Rightarrow> nat \<times> bytes option result) \<Rightarrow> u32 \<Rightarrow> nat \<Rightarrow> bytes option result \<times> nat" where
  "retry_get 0 powf R attempt retry_count next_timeout = (Inl OutOfFuel, 0)"
| "retry_get (Suc f) powf R attempt retry_count next_timeout =
     (if retry_count > maximum_retries R then (Inl (Anyhow ''Failed to get''), 0)
      else case attempt (unat retry_count) of (time, result) \<Rightarrow>
        (case (if time < next_timeout then result else Inl (Anyhow ''Timed out'')) of
           Inr maybe_block \<Rightarrow> (Inr maybe_block, time)
         | Inl _ \<Rightarrow>
             let spent_window_time = min time next_timeout in
             (case retry_get f powf R attempt (retry_count + 1)
                     (case retry_backoff R of Some b \<Rightarrow> backoff_step powf b next_timeout | None \<Rightarrow> next_timeout) of
                (r, elapsed) \<Rightarrow> (r, spent_window_time + remaining_window R spent_window_time + elapsed))))"

fun timeout_at :: "(u32 \<Rightarrow> nat \<Rightarrow> nat) \<Rightarrow> retry \<Rightarrow> nat \<Rightarrow> nat \<Rightarrow> nat" where
  "timeout_at powf R t 0 = t"
| "timeout_at powf R t (Suc n) =
     timeout_at powf R (case retry_backoff R of Some b \<Rightarrow> backoff_step powf b t | None \<Rightarrow> t) n"

text \<open>The answer is that of the first attempt that gives one in time; every attempt up to the limit is made.\<close>

lemma retry_get_ok:
  assumes "unat (maximum_retries R) < 2 ^ 32 - 1"
  shows "unat c + n = Suc (unat (maximum_retries R)) \<Longrightarrow> n < f \<Longrightarrow>
    fst (retry_get f powf R attempt c t) =
      (case find (\<lambda>i. fst (attempt (unat c + i)) < timeout_at powf R t i \<and> \<not> isl (snd (attempt (unat c + i)))) [0..<n] of
         Some i \<Rightarrow> snd (attempt (unat c + i))
       | None \<Rightarrow> Inl (Anyhow ''Failed to get''))"
proof (induction n arbitrary: c t f)
  case 0
  then obtain g where "f = Suc g" by (cases f) auto
  moreover have "c > maximum_retries R" using 0 by (simp add: word_less_nat_alt)
  ultimately show ?case by simp
next
  case (Suc n)
  obtain g where f: "f = Suc g" using Suc.prems(2) by (cases f) auto
  have le: "\<not> c > maximum_retries R" using Suc.prems(1) by (simp add: word_less_nat_alt)
  have c1: "unat (c + 1) = Suc (unat c)" using Suc.prems(1) assms by (simp add: unat_word_ariths)
  let ?t = "case retry_backoff R of Some b \<Rightarrow> backoff_step powf b t | None \<Rightarrow> t"
  have IH: "fst (retry_get g powf R attempt (c + 1) ?t) =
      (case find (\<lambda>i. fst (attempt (unat c + Suc i)) < timeout_at powf R t (Suc i) \<and> \<not> isl (snd (attempt (unat c + Suc i)))) [0..<n] of
         Some i \<Rightarrow> snd (attempt (unat c + Suc i)) | None \<Rightarrow> Inl (Anyhow ''Failed to get''))"
    using Suc.IH [of "c + 1" g ?t] Suc.prems f c1 by (simp cong: option.case_cong)
  obtain time result where a: "attempt (unat c) = (time, result)" by force
  have up: "[0..<Suc n] = 0 # map Suc [0..<n]" by (simp add: upt_conv_Cons map_Suc_upt del: upt_Suc)
  have fm: "find P (map Suc xs) = map_option Suc (find (\<lambda>i. P (Suc i)) xs)" for P and xs :: "nat list"
    by (induction xs) auto
  show ?case
  proof (cases "time < t \<and> \<not> isl result")
    case True
    then show ?thesis using f le a by (cases result) (simp_all add: up del: upt_Suc)
  next
    case False
    then have "fst (retry_get f powf R attempt c t) = fst (retry_get g powf R attempt (c + 1) ?t)"
      using f le a by (cases result) (auto simp: Let_def split: prod.split)
    moreover have "find (\<lambda>i. fst (attempt (unat c + i)) < timeout_at powf R t i \<and> \<not> isl (snd (attempt (unat c + i)))) [0..<Suc n] =
        map_option Suc (find (\<lambda>i. fst (attempt (unat c + Suc i)) < timeout_at powf R t (Suc i) \<and>
          \<not> isl (snd (attempt (unat c + Suc i)))) [0..<n])"
      using False a unfolding up find.simps fm by auto
    ultimately show ?thesis unfolding IH by (simp add: option.case_eq_if option.map_sel)
  qed
qed

text \<open>An attempt with the pause after it lasts as long as the window or as the attempt, whichever is longer.\<close>

lemma attempt_time: "spent + remaining_window R spent \<le> max (attempt_window R) spent"
  by (simp add: remaining_window_def)

lemma retry_get_time:
  assumes "unat (maximum_retries R) < 2 ^ 32 - 1"
  shows "unat c + n = Suc (unat (maximum_retries R)) \<Longrightarrow> n < f \<Longrightarrow>
    snd (retry_get f powf R attempt c t) \<le> (\<Sum>i<n. max (attempt_window R) (timeout_at powf R t i))"
proof (induction n arbitrary: c t f)
  case 0
  then obtain g where "f = Suc g" by (cases f) auto
  moreover have "c > maximum_retries R" using 0 by (simp add: word_less_nat_alt)
  ultimately show ?case by simp
next
  case (Suc n)
  obtain g where f: "f = Suc g" using Suc.prems(2) by (cases f) auto
  have le: "\<not> c > maximum_retries R" using Suc.prems(1) by (simp add: word_less_nat_alt)
  have c1: "unat (c + 1) = Suc (unat c)" using Suc.prems(1) assms by (simp add: unat_word_ariths)
  let ?t = "case retry_backoff R of Some b \<Rightarrow> backoff_step powf b t | None \<Rightarrow> t"
  let ?rest = "\<Sum>i<n. max (attempt_window R) (timeout_at powf R ?t i)"
  have IH: "snd (retry_get g powf R attempt (c + 1) ?t) \<le> ?rest"
    using Suc.IH [of "c + 1" g ?t] Suc.prems f c1 by simp
  have sum: "(\<Sum>i<Suc n. max (attempt_window R) (timeout_at powf R t i)) = max (attempt_window R) t + ?rest"
    by (subst sum.lessThan_Suc_shift) simp
  obtain time result where a: "attempt (unat c) = (time, result)" by force
  show ?case
  proof (cases "time < t \<and> \<not> isl result")
    case True
    then have "snd (retry_get f powf R attempt c t) = time" using f le a by (cases result) simp_all
    with True show ?thesis unfolding sum by linarith
  next
    case False
    then have "snd (retry_get f powf R attempt c t) =
        min time t + remaining_window R (min time t) + snd (retry_get g powf R attempt (c + 1) ?t)"
      using f le a by (cases result) (auto simp: Let_def split: prod.split)
    moreover have "min time t + remaining_window R (min time t) \<le> max (attempt_window R) t"
      using attempt_time [of "min time t" R] by linarith
    ultimately show ?thesis unfolding sum using IH by linarith
  qed
qed

end
