(* ===== verification/Block_Stream.thy ===== *)
theory Block_Stream
  imports Sphere_Db
begin

text \<open>
  Streams of blocks (\<^verbatim>\<open>noosphere-core/src/stream/block.rs\<close>, \<^verbatim>\<open>blocks_in/ledger.rs\<close>): putting the
  blocks of a blocks_in into a sphere database, and the ledger that tells which blocks of a
  blocks_in no other block refers to. A blocks_in is the blocks it yields and how it ends.
\<close>

section \<open>Putting a stream\<close>

type_synonym block_stream = "(cid \<times> bytes) list \<times> unit result"

fun put_blocks :: "codec_env \<Rightarrow> text_env \<Rightarrow> (cid \<times> bytes) list \<Rightarrow> sphere_db \<Rightarrow> unit result \<times> sphere_db" where
  "put_blocks E T [] db = (Inr (), db)"
| "put_blocks E T ((c, block) # rest) db =
     (let db = db_put_block c block db in
      sbind (if codec_of c = codec_id DagCborCodec then put_links E T DagCborCodec c block db
             else if codec_of c = codec_id RawCodec then put_links E T RawCodec c block db
             else (Inr (), db)) (\<lambda>_ db. put_blocks E T rest db))"

definition put_block_stream :: "codec_env \<Rightarrow> text_env \<Rightarrow> block_stream \<Rightarrow> sphere_db \<Rightarrow> unit result \<times> sphere_db" where
  "put_block_stream E T blocks_in db = sbind (put_blocks E T (fst blocks_in) db) (\<lambda>_ db. (snd blocks_in, db))"

section \<open>The ledger\<close>

record block_ledger =
  lg_references :: "cid set"
  lg_blocks :: "cid set"

definition ledger_default :: block_ledger where
  "ledger_default = \<lparr>lg_references = {}, lg_blocks = {}\<rparr>"

definition ledger_record :: "codec_env \<Rightarrow> cid \<Rightarrow> bytes \<Rightarrow> block_ledger \<Rightarrow> unit result \<times> block_ledger" where
  "ledger_record E c block l =
     (let l = l\<lparr>lg_blocks := insert c (lg_blocks l)\<rparr>;
          note_links = (\<lambda>C. case references E C block of
            None \<Rightarrow> (Inl (Anyhow ''references''), l)
          | Some links \<Rightarrow> (Inr (), l\<lparr>lg_references := lg_references l \<union> set links\<rparr>)) in
      if codec_of c = codec_id DagCborCodec then note_links DagCborCodec
      else if codec_of c = codec_id RawCodec then note_links RawCodec
      else (Inr (), l))"

definition orphans :: "block_ledger \<Rightarrow> cid set" where
  "orphans l = lg_blocks l - lg_references l"

definition missing_references :: "block_ledger \<Rightarrow> cid set" where
  "missing_references l = {c \<in> lg_references l. c \<notin> lg_blocks l}"

text \<open>What the wrapped stream yields, how it ends, and the ledger at its end.\<close>

fun record_blocks :: "codec_env \<Rightarrow> (cid \<times> bytes) list \<Rightarrow> block_ledger \<Rightarrow> (cid \<times> bytes) list \<times> unit result \<times> block_ledger" where
  "record_blocks E [] l = ([], Inr (), l)"
| "record_blocks E ((c, block) # rest) l =
     (case ledger_record E c block l of
        (Inl e, l) \<Rightarrow> ([], Inl e, l)
      | (Inr _, l) \<Rightarrow> (case record_blocks E rest l of (out, r, l) \<Rightarrow> ((c, block) # out, r, l)))"

text \<open>\<open>record_stream_orphans\<close>: the buffer is extended only if the blocks_in ends without an error.\<close>

definition record_stream_orphans :: "codec_env \<Rightarrow> block_stream \<Rightarrow> cid set \<Rightarrow> block_stream \<times> cid set" where
  "record_stream_orphans E blocks_in buffer =
     (case record_blocks E (fst blocks_in) ledger_default of (out, r, l) \<Rightarrow>
        (case rbind r (\<lambda>_. snd blocks_in) of
           Inl e \<Rightarrow> ((out, Inl e), buffer)
         | Inr _ \<Rightarrow> ((out, Inr ()), buffer \<union> orphans l)))"

section \<open>What a stream leaves in the database\<close>

lemma put_links_ok:
  assumes "codec_ok E" "references E C block = Some links"
  obtains m where "put_links E T C c block db = (Inr (), db\<lparr>link_store := m\<rparr>)"
proof -
  have "\<exists>m. set_key E memory_write links_to_ipld (str_bytes (cid_to_string T c)) links (link_store db) = (Inr (), m)"
    using memory.get_after_set(1) [OF assms(1) links_serde, of "str_bytes (cid_to_string T c)" links "link_store db"]
    by (metis prod.collapse)
  with that assms(2) show thesis by (auto simp: put_links_def)
qed

text \<open>Blocks whose links can be read are all put, and nothing but the link index changes beside them.\<close>

lemma put_blocks_ok:
  assumes "codec_ok E"
  shows "(\<And>c b C. (c, b) \<in> set bs \<Longrightarrow> codec_of c = codec_id C \<Longrightarrow> references E C b \<noteq> None) \<Longrightarrow>
    \<exists>m. put_blocks E T bs db = (Inr (), db\<lparr>block_store := block_store db ++ map_of (rev bs), link_store := m\<rparr>)"
proof (induction bs arbitrary: db)
  case Nil
  show ?case by (rule exI [of _ "link_store db"]) simp
next
  case (Cons x bs)
  obtain c b where x: "x = (c, b)" by (cases x)
  let ?db = "db_put_block c b db"
  have "\<exists>m. (if codec_of c = codec_id DagCborCodec then put_links E T DagCborCodec c b ?db
      else if codec_of c = codec_id RawCodec then put_links E T RawCodec c b ?db
      else (Inr (), ?db)) = (Inr (), ?db\<lparr>link_store := m\<rparr>)"
  proof -
    have "\<exists>m. put_links E T C c b ?db = (Inr (), ?db\<lparr>link_store := m\<rparr>)" if "codec_of c = codec_id C" for C
      using Cons.prems [of c b C] that x put_links_ok [OF assms] by (metis list.set_intros(1) option.exhaust)
    moreover have "\<exists>m. ?db = ?db\<lparr>link_store := m\<rparr>" by (rule exI [of _ "link_store ?db"]) simp
    ultimately show ?thesis by auto
  qed
  then obtain m where m: "(if codec_of c = codec_id DagCborCodec then put_links E T DagCborCodec c b ?db
      else if codec_of c = codec_id RawCodec then put_links E T RawCodec c b ?db
      else (Inr (), ?db)) = (Inr (), ?db\<lparr>link_store := m\<rparr>)" by blast
  have ok: "references E C b' \<noteq> None" if "(c', b') \<in> set bs" "codec_of c' = codec_id C" for c' b' C
    by (rule Cons.prems [of c' b' C]) (use that in simp_all)
  let ?db1 = "?db\<lparr>link_store := m\<rparr>"
  have "\<exists>m'. put_blocks E T bs ?db1 = (Inr (), ?db1\<lparr>block_store := block_store ?db1 ++ map_of (rev bs), link_store := m'\<rparr>)"
    by (rule Cons.IH) (rule ok)
  then obtain m' where m': "put_blocks E T bs (?db\<lparr>link_store := m\<rparr>) =
      (Inr (), ?db\<lparr>block_store := block_store ?db ++ map_of (rev bs), link_store := m'\<rparr>)"
    by auto
  show ?case
    unfolding x put_blocks.simps Let_def m sbind_simps m'
    by (intro exI [of _ m']) (simp add: db_put_block_def put_block_def)
qed

text \<open>The links of all of them are on file afterwards.\<close>

lemma put_blocks_filed:
  assumes "codec_ok E" "inj (cid_to_string T)"
  shows "(\<And>c b C. (c, b) \<in> set bs \<Longrightarrow> codec_of c = codec_id C \<Longrightarrow> references E C b \<noteq> None) \<Longrightarrow>
    \<exists>db'. put_blocks E T bs db = (Inr (), db') \<and>
      (\<forall>d. filed E T db' d \<longleftrightarrow> (if d \<in> fst ` set bs then \<exists>C. codec_of d = codec_id C else filed E T db d))"
proof (induction bs arbitrary: db)
  case (Cons x bs)
  obtain c b where x: "x = (c, b)" by (cases x)
  obtain db1 where db1: "(if codec_of c = codec_id DagCborCodec then put_links E T DagCborCodec c b (db_put_block c b db)
      else if codec_of c = codec_id RawCodec then put_links E T RawCodec c b (db_put_block c b db)
      else (Inr (), db_put_block c b db)) = (Inr (), db1)"
      "\<And>d. filed E T db1 d \<longleftrightarrow> (if d = c then \<exists>C. codec_of c = codec_id C else filed E T db d)"
    by (rule file_step [OF assms, of c b db]) (use Cons.prems [of c b] x in auto)
  have ok: "references E C b' \<noteq> None" if "(c', b') \<in> set bs" "codec_of c' = codec_id C" for c' b' C
    by (rule Cons.prems [of c' b' C]) (use that in simp_all)
  have "\<exists>db'. put_blocks E T bs db1 = (Inr (), db') \<and>
      (\<forall>d. filed E T db' d \<longleftrightarrow> (if d \<in> fst ` set bs then \<exists>C. codec_of d = codec_id C else filed E T db1 d))"
    by (rule Cons.IH) (rule ok)
  then obtain db' where db': "put_blocks E T bs db1 = (Inr (), db')"
      "\<forall>d. filed E T db' d \<longleftrightarrow> (if d \<in> fst ` set bs then \<exists>C. codec_of d = codec_id C else filed E T db1 d)"
    by (elim exE conjE)
  have "put_blocks E T (x # bs) db = (Inr (), db')"
    unfolding x put_blocks.simps Let_def db1(1) sbind_simps by (rule db'(1))
  moreover have "filed E T db' d \<longleftrightarrow> (if d \<in> fst ` set (x # bs) then \<exists>C. codec_of d = codec_id C else filed E T db d)" for d
    using db1(2) [of d] db'(2) by (cases "d = c") (simp_all add: x)
  ultimately show ?case by blast
qed simp

text \<open>The ledger's orphans: blocks of the stream that no block of the stream links to.\<close>

lemma record_blocks_ok:
  "record_blocks E bs l = (out, Inr (), l') \<Longrightarrow>
   out = bs \<and> lg_blocks l' = lg_blocks l \<union> fst ` set bs \<and>
   lg_references l' = lg_references l \<union>
     {r. \<exists>c b C links. (c, b) \<in> set bs \<and> codec_of c = codec_id C \<and> references E C b = Some links \<and> r \<in> set links}"
proof (induction bs arbitrary: l out)
  case (Cons x bs)
  obtain c b where x: "x = (c, b)" by (cases x)
  obtain l1 out1 where l1: "ledger_record E c b l = (Inr (), l1)" "record_blocks E bs l1 = (out1, Inr (), l')" "out = x # out1"
    using Cons.prems by (auto simp: x split: prod.splits sum.splits)
  have C: "codec_of c = codec_id C \<longleftrightarrow> (C = DagCborCodec \<and> codec_of c = codec_id DagCborCodec) \<or>
      (C = RawCodec \<and> codec_of c = codec_id RawCodec)" for C by (cases C) auto
  have "lg_blocks l1 = insert c (lg_blocks l)" "lg_references l1 = lg_references l \<union>
      {r. \<exists>C links. codec_of c = codec_id C \<and> references E C b = Some links \<and> r \<in> set links}"
    using l1(1) by (auto simp: ledger_record_def Let_def C split: if_splits option.splits)
  with Cons.IH [OF l1(2)] l1(3) show ?case by (auto simp: x)
qed simp

end
