(* ===== verification/Body_Chunk.thy ===== *)
theory Body_Chunk
  imports Memo
begin

text \<open>
  Bodies as linked lists of chunks (\<^verbatim>\<open>noosphere-core/src/data/body_chunk.rs\<close>,
  \<^verbatim>\<open>view/content.rs\<close>): cutting bytes into chunks, storing the chunks from the last to the
  first, and reading them back at once or as a stream. The content-defined chunker is
  third-party code: the argument \<open>chunker\<close> gives the offset and length of every chunk.
\<close>

section \<open>Chunks\<close>

record body_chunk =
  chunk_bytes :: bytes
  chunk_next :: "cid option"

fun byte_from_ipld :: "ipld \<Rightarrow> byte option" where
  "byte_from_ipld (IInteger i) = (if 0 \<le> i \<and> i < 256 then Some (word_of_int i) else None)"
| "byte_from_ipld _ = None"

definition byte_to_ipld :: "byte \<Rightarrow> ipld" where
  "byte_to_ipld b = IInteger (uint b)"

definition chunk_to_ipld :: "body_chunk \<Rightarrow> ipld" where
  "chunk_to_ipld c = IMap
     [(''bytes'', IList (map byte_to_ipld (chunk_bytes c))), (''next'', option_to_ipld ILink (chunk_next c))]"

definition chunk_from_ipld :: "ipld \<Rightarrow> body_chunk option" where
  "chunk_from_ipld i = do {
     b \<leftarrow> Option.bind (field ''bytes'' i) (list_from_ipld byte_from_ipld);
     n \<leftarrow> option_from_ipld cid_from_ipld (field ''next'' i);
     Some \<lparr>chunk_bytes = b, chunk_next = n\<rparr>
   }"

text \<open>A slice \<open>&bytes[offset..offset + length]\<close>, which panics out of range.\<close>

definition slice_bytes :: "bytes \<Rightarrow> nat \<times> nat \<Rightarrow> bytes result" where
  "slice_bytes bs c =
     (if fst c + snd c \<le> length bs then Inr (take (snd c) (drop (fst c) bs))
      else Inl (Panic ''range end index out of range for slice''))"

fun store_chunks :: "codec_env \<Rightarrow> bytes list \<Rightarrow> cid option \<Rightarrow> blocks \<Rightarrow> cid option result \<times> blocks" where
  "store_chunks E [] next_cid s = (Inr next_cid, s)"
| "store_chunks E (b # bs) next_cid s =
     sbind (save_value E chunk_to_ipld \<lparr>chunk_bytes = b, chunk_next = next_cid\<rparr> s) (\<lambda>c s.
       store_chunks E bs (Some c) s)"

definition store_bytes :: "codec_env \<Rightarrow> (bytes \<Rightarrow> (nat \<times> nat) list) \<Rightarrow> bytes \<Rightarrow> blocks \<Rightarrow> cid result \<times> blocks" where
  "store_bytes E chunker bs s =
     (case rtraverse (slice_bytes bs) (chunker bs) of
        Inl e \<Rightarrow> (Inl e, s)
      | Inr byte_chunks \<Rightarrow>
          sbind (store_chunks E (rev byte_chunks) None s) (\<lambda>next_cid s.
            (of_option (Anyhow ''No CID; did you try to store zero bytes?'') next_cid, s)))"

text \<open>The walk along the list takes one unit of fuel for every chunk, and one for its end.\<close>

fun load_rest :: "nat \<Rightarrow> codec_env \<Rightarrow> blocks \<Rightarrow> cid option \<Rightarrow> bytes \<Rightarrow> bytes result" where
  "load_rest 0 E s next_cid all_bytes = Inl OutOfFuel"
| "load_rest (Suc f) E s next_cid all_bytes =
     (case next_cid of
        None \<Rightarrow> Inr all_bytes
      | Some c \<Rightarrow>
          rbind (load_value E chunk_from_ipld c s) (\<lambda>chunk.
            load_rest f E s (chunk_next chunk) (all_bytes @ chunk_bytes chunk)))"

definition load_all_bytes :: "nat \<Rightarrow> codec_env \<Rightarrow> blocks \<Rightarrow> body_chunk \<Rightarrow> bytes result" where
  "load_all_bytes f E s chunk = load_rest f E s (chunk_next chunk) (chunk_bytes chunk)"

text \<open>\<open>BodyChunkDecoder::stream\<close>: what it yields and how it ends.\<close>

fun chunk_stream :: "nat \<Rightarrow> codec_env \<Rightarrow> blocks \<Rightarrow> cid option \<Rightarrow> bytes list \<times> unit result" where
  "chunk_stream 0 E s next_cid = ([], Inl OutOfFuel)"
| "chunk_stream (Suc f) E s next_cid =
     (case next_cid of
        None \<Rightarrow> ([], Inr ())
      | Some c \<Rightarrow>
          (case load_value E chunk_from_ipld c s of
             Inl _ \<Rightarrow> ([], Inl (Anyhow ''UnexpectedEof''))
           | Inr chunk \<Rightarrow>
               (case chunk_stream f E s (chunk_next chunk) of (out, r) \<Rightarrow> (chunk_bytes chunk # out, r))))"

section \<open>Storing and loading\<close>

lemma byte_serde: "serde byte_to_ipld byte_from_ipld"
proof -
  have "uint b < 256" for b :: byte using uint_lt2p [of b] by simp
  moreover from this have "uint b < 18446744073709551616" for b :: byte by (rule order_less_trans) simp
  moreover have "- 18446744073709551616 \<le> uint b" for b :: byte by (rule order_trans [OF _ uint_ge_0]) simp
  ultimately show ?thesis by (simp add: serde_def byte_to_ipld_def)
qed

lemma chunk_serde: "serde chunk_to_ipld chunk_from_ipld"
  using list_round [OF byte_serde]
  by (auto simp: serde_def chunk_to_ipld_def chunk_from_ipld_def string_less_simps)

text \<open>The list of chunks that starts at \<open>next_cid\<close>.\<close>

fun chunks_at :: "codec_env \<Rightarrow> blocks \<Rightarrow> cid option \<Rightarrow> bytes list \<Rightarrow> bool" where
  "chunks_at E s next_cid [] \<longleftrightarrow> next_cid = None"
| "chunks_at E s next_cid (b # bs) \<longleftrightarrow>
     (\<exists>c n. next_cid = Some c \<and> value_at E chunk_to_ipld s c \<lparr>chunk_bytes = b, chunk_next = n\<rparr> \<and> chunks_at E s n bs)"

lemma chunks_at_mono: "chunks_at E s n bs \<Longrightarrow> s \<subseteq>\<^sub>m s' \<Longrightarrow> chunks_at E s' n bs"
  by (induction bs arbitrary: n) (auto intro: value_at_mono)

lemma store_chunks_ok:
  assumes "env_ok E"
  shows "store_ok E s \<Longrightarrow> chunks_at E s n done_bs \<Longrightarrow>
    \<exists>n' s'. store_chunks E bs n s = (Inr n', s') \<and> s \<subseteq>\<^sub>m s' \<and> store_ok E s' \<and> chunks_at E s' n' (rev bs @ done_bs)"
proof (induction bs arbitrary: s n done_bs)
  case (Cons b bs)
  obtain c s1 where s1: "save_value E chunk_to_ipld \<lparr>chunk_bytes = b, chunk_next = n\<rparr> s = (Inr c, s1)"
      "value_at E chunk_to_ipld s1 c \<lparr>chunk_bytes = b, chunk_next = n\<rparr>" "s \<subseteq>\<^sub>m s1" "store_ok E s1"
    by (rule save_value_ok [OF assms Cons.prems(1) chunk_serde])
  then have "chunks_at E s1 (Some c) (b # done_bs)" using chunks_at_mono [OF Cons.prems(2)] by auto
  with Cons.IH [OF s1(4)] obtain n' s' where "store_chunks E bs (Some c) s1 = (Inr n', s')" "s1 \<subseteq>\<^sub>m s'" "store_ok E s'"
      "chunks_at E s' n' (rev bs @ b # done_bs)"
    by blast
  with s1(1,3) show ?case by (auto intro: map_le_trans)
qed simp

lemma load_rest_ok:
  assumes "env_ok E"
  shows "chunks_at E s n bs \<Longrightarrow> length bs < f \<Longrightarrow> load_rest f E s n acc = Inr (acc @ concat bs)"
proof (induction bs arbitrary: n f acc)
  case Nil
  then show ?case by (cases f) auto
next
  case (Cons b bs)
  then obtain g where f: "f = Suc g" by (cases f) auto
  obtain c n' where c: "n = Some c" "value_at E chunk_to_ipld s c \<lparr>chunk_bytes = b, chunk_next = n'\<rparr>" "chunks_at E s n' bs"
    using Cons.prems(1) by auto
  then show ?case using Cons.IH [OF c(3), of g "acc @ b"] Cons.prems(2) f load_value_ok [OF assms chunk_serde c(2)] by simp
qed

lemma chunk_stream_ok:
  assumes "env_ok E"
  shows "chunks_at E s n bs \<Longrightarrow> length bs < f \<Longrightarrow> chunk_stream f E s n = (bs, Inr ())"
proof (induction bs arbitrary: n f)
  case Nil
  then show ?case by (cases f) auto
next
  case (Cons b bs)
  then obtain g where f: "f = Suc g" by (cases f) auto
  obtain c n' where c: "n = Some c" "value_at E chunk_to_ipld s c \<lparr>chunk_bytes = b, chunk_next = n'\<rparr>" "chunks_at E s n' bs"
    using Cons.prems(1) by auto
  then show ?case using Cons.IH [OF c(3), of g] Cons.prems(2) f load_value_ok [OF assms chunk_serde c(2)] by simp
qed

text \<open>What is relied on: the chunks are slices that make up the bytes, and only no bytes have no chunks.\<close>

definition chunker_ok :: "(bytes \<Rightarrow> (nat \<times> nat) list) \<Rightarrow> bool" where
  "chunker_ok chunker \<longleftrightarrow>
     (\<forall>bs. \<exists>cs. rtraverse (slice_bytes bs) (chunker bs) = Inr cs \<and> concat cs = bs \<and> (bs = [] \<longrightarrow> cs = []))"

lemma store_bytes_ok:
  assumes "env_ok E" "store_ok E s" "chunker_ok chunker"
  obtains cs n s' where "rtraverse (slice_bytes bs) (chunker bs) = Inr cs" "concat cs = bs"
    "store_bytes E chunker bs s = (of_option (Anyhow ''No CID; did you try to store zero bytes?'') n, s')"
    "s \<subseteq>\<^sub>m s'" "store_ok E s'" "chunks_at E s' n cs" "n = None \<longleftrightarrow> bs = []"
proof -
  obtain cs where cs: "rtraverse (slice_bytes bs) (chunker bs) = Inr cs" "concat cs = bs" "bs = [] \<longrightarrow> cs = []"
    using assms(3) unfolding chunker_ok_def by blast
  obtain n s' where s': "store_chunks E (rev cs) None s = (Inr n, s')" "s \<subseteq>\<^sub>m s'" "store_ok E s'" "chunks_at E s' n cs"
    using store_chunks_ok [OF assms(1,2), of None "[]" "rev cs"] by auto
  have "n = None \<longleftrightarrow> cs = []" using s'(4) by (cases cs) auto
  with cs s' show thesis by (intro that [of cs n s']) (auto simp: store_bytes_def)
qed

end
