(* ===== verification/Storage_Spec.thy ===== *)
theory Storage_Spec
  imports Example_World Block_Stream Body_Chunk
begin

text \<open>
  The properties of the sphere database, of the retrying store and of the chunks of a body,
  with witnesses in the world of \<open>Example_World\<close>.
\<close>

section \<open>Links\<close>

text \<open>C16: which blocks have their links in the link index. Putting a value files the links of its
  block, persisting a memory store and putting a stream of blocks file the links of all their
  blocks, and none of them takes a block off the index. A block that is put by itself, and the
  block of a value whose links cannot be read, are stored without their links.\<close>

theorem db_links_filed:
  assumes "codec_ok E" "inj (cid_to_string T)"
  shows "(\<forall>C i b c db d. encode E C i = Some b \<longrightarrow> c = Cid (codec_id C) (blake3_256 E b) \<longrightarrow>
       (case references E C b of
          Some ls \<Rightarrow> fst (db_put E T C i db) = Inr c \<and> (filed E T (snd (db_put E T C i db)) d \<longleftrightarrow> d = c \<or> filed E T db d)
        | None \<Rightarrow> db_put E T C i db = (Inl (Anyhow ''references''), db_put_block c b db))) \<and>
    (\<forall>c b db d. filed E T (db_put_block c b db) d \<longleftrightarrow>
       (if d = c then \<exists>C ls. codec_of c = codec_id C \<and> references E C b = Some ls \<and> get_block_links E T db c = Inr (Some ls)
        else filed E T db d)) \<and>
    (\<forall>memory cids db. set cids \<subseteq> dom memory \<longrightarrow>
       (\<forall>c b C. memory c = Some b \<longrightarrow> codec_of c = codec_id C \<longrightarrow> references E C b \<noteq> None) \<longrightarrow>
       (\<exists>db'. persist E T memory cids db = (Inr (), db') \<and>
          (\<forall>d. filed E T db' d \<longleftrightarrow> (if d \<in> set cids then \<exists>C. codec_of d = codec_id C else filed E T db d)))) \<and>
    (\<forall>bs db. (\<forall>c b C. (c, b) \<in> set bs \<longrightarrow> codec_of c = codec_id C \<longrightarrow> references E C b \<noteq> None) \<longrightarrow>
       (\<exists>db'. put_block_stream E T (bs, Inr ()) db = (Inr (), db') \<and>
          (\<forall>d. filed E T db' d \<longleftrightarrow> (if d \<in> fst ` set bs then \<exists>C. codec_of d = codec_id C else filed E T db d))))"
proof (intro conjI allI impI)
  show "case references E C b of
      Some ls \<Rightarrow> fst (db_put E T C i db) = Inr c \<and> (filed E T (snd (db_put E T C i db)) d \<longleftrightarrow> d = c \<or> filed E T db d)
    | None \<Rightarrow> db_put E T C i db = (Inl (Anyhow ''references''), db_put_block c b db)"
    if "encode E C i = Some b" "c = Cid (codec_id C) (blake3_256 E b)" for C i b c db d
    using db_put_filed [OF assms that] by (cases "references E C b") simp_all
  show "filed E T (db_put_block c b db) d \<longleftrightarrow>
      (if d = c then \<exists>C ls. codec_of c = codec_id C \<and> references E C b = Some ls \<and> get_block_links E T db c = Inr (Some ls)
       else filed E T db d)" for c b db d
    by (rule filed_put_block)
  show "\<exists>db'. persist E T memory cids db = (Inr (), db') \<and>
      (\<forall>d. filed E T db' d \<longleftrightarrow> (if d \<in> set cids then \<exists>C. codec_of d = codec_id C else filed E T db d))"
    if "set cids \<subseteq> dom memory" "\<forall>c b C. memory c = Some b \<longrightarrow> codec_of c = codec_id C \<longrightarrow> references E C b \<noteq> None"
    for memory cids db
    by (rule persist_filed [OF assms _ that(1)]) (use that(2) in blast)
  show "\<exists>db'. put_block_stream E T (bs, Inr ()) db = (Inr (), db') \<and>
      (\<forall>d. filed E T db' d \<longleftrightarrow> (if d \<in> fst ` set bs then \<exists>C. codec_of d = codec_id C else filed E T db d))"
    if "\<forall>c b C. (c, b) \<in> set bs \<longrightarrow> codec_of c = codec_id C \<longrightarrow> references E C b \<noteq> None" for bs db
  proof -
    have "\<exists>db'. put_blocks E T bs db = (Inr (), db') \<and>
        (\<forall>d. filed E T db' d \<longleftrightarrow> (if d \<in> fst ` set bs then \<exists>C. codec_of d = codec_id C else filed E T db d))"
      by (rule put_blocks_filed [OF assms]) (use that in blast)
    then show ?thesis by (elim exE conjE) (intro exI conjI, simp_all add: put_block_stream_def)
  qed
qed

lemma ex_cid_string_inj: "inj (cid_to_string ex_texts)"
  using ex_cid_text_ok by (metis cid_text_ok_def injI option.inject)

definition ex_leaf :: cid where
  "ex_leaf = Cid (codec_id DagCborCodec) (enc (IString ''leaf''))"

text \<open>A leaf, and a node that links to it twice.\<close>

definition ex_node :: ipld where
  "ex_node = IList [ILink ex_leaf, ILink ex_leaf]"

definition ex_node_cid :: cid where
  "ex_node_cid = Cid (codec_id DagCborCodec) (enc ex_node)"

lemma ex_references: "plain i \<Longrightarrow> references ex_env DagCborCodec (enc i) = Some (links_of i)"
  using dec_enc [of i _ "[]"] by (simp add: ex_env_def)

lemma ex_db_put:
  assumes "plain i" "links_ok ex_env ex_texts db"
  obtains db' where "db_put ex_env ex_texts DagCborCodec i db = (Inr (Cid (codec_id DagCborCodec) (enc i)), db')"
    "block_store db' = (block_store db)(Cid (codec_id DagCborCodec) (enc i) \<mapsto> enc i)" "links_ok ex_env ex_texts db'"
    "\<And>c. get_block_links ex_env ex_texts db' c =
       (if c = Cid (codec_id DagCborCodec) (enc i) then Inr (Some (links_of i)) else get_block_links ex_env ex_texts db c)"
proof -
  let ?c = "Cid (codec_id DagCborCodec) (enc i)"
  note r = put_links_get [OF ex_codec_ok ex_cid_string_inj ex_references [OF assms(1)], of ?c "db_put_block ?c (enc i) db"]
  obtain db' where db': "put_links ex_env ex_texts DagCborCodec ?c (enc i) (db_put_block ?c (enc i) db) = (Inr (), db')"
    using r(1) by (metis prod.collapse)
  have p: "db_put ex_env ex_texts DagCborCodec i db = (Inr ?c, db')"
    using db' assms(1) by (simp add: db_put_def Let_def) (simp add: ex_env_def)
  show thesis
  proof (rule that [OF p])
    show "links_ok ex_env ex_texts db'" by (rule db_put_links_ok(1) [OF ex_codec_ok ex_cid_string_inj assms(2) p])
    show "block_store db' = (block_store db)(?c \<mapsto> enc i)"
      using r(2) db' by (simp add: db_put_block_def put_block_def)
    show "get_block_links ex_env ex_texts db' c = (if c = ?c then Inr (Some (links_of i)) else get_block_links ex_env ex_texts db c)" for c
      using r(3) [of c] db' by (simp add: get_block_links_def db_put_block_def)
  qed
qed

text \<open>A leaf and a node that links to it, put one after the other; the node put by itself is not filed.\<close>

theorem db_links_filed_witness:
  "\<exists>db1 db2. db_put ex_env ex_texts DagCborCodec (IString ''leaf'') sphere_db_new = (Inr ex_leaf, db1) \<and>
     db_put ex_env ex_texts DagCborCodec ex_node db1 = (Inr ex_node_cid, db2) \<and>
     filed ex_env ex_texts db2 ex_leaf \<and> filed ex_env ex_texts db2 ex_node_cid \<and>
     get_block_links ex_env ex_texts db2 ex_node_cid = Inr (Some [ex_leaf, ex_leaf]) \<and>
     \<not> filed ex_env ex_texts (db_put_block ex_node_cid (enc ex_node) sphere_db_new) ex_node_cid"
proof -
  note L = db_links_filed [OF ex_codec_ok ex_cid_string_inj]
  have pl: "plain (IString ''leaf'')" "plain ex_node" by (simp_all add: ex_node_def)
  have enc: "encode ex_env DagCborCodec i = Some (enc i)" "Cid (codec_id DagCborCodec) (blake3_256 ex_env (enc i)) = Cid (codec_id DagCborCodec) (enc i)"
    if "plain i" for i using that by (simp_all add: ex_env_def)
  note P = L [THEN conjunct1, rule_format]
  obtain db1 where db1: "db_put ex_env ex_texts DagCborCodec (IString ''leaf'') sphere_db_new = (Inr ex_leaf, db1)" "links_ok ex_env ex_texts db1"
    by (rule ex_db_put [OF pl(1) links_ok_new]) (simp add: ex_leaf_def)
  obtain db2 where db2: "db_put ex_env ex_texts DagCborCodec ex_node db1 = (Inr ex_node_cid, db2)"
      "get_block_links ex_env ex_texts db2 ex_node_cid = Inr (Some [ex_leaf, ex_leaf])"
    by (rule ex_db_put [OF pl(2) db1(2)]) (simp add: ex_node_cid_def ex_node_def)
  have "filed ex_env ex_texts db1 ex_leaf"
    using P [OF enc(1) [OF pl(1)] refl, of sphere_db_new ex_leaf] ex_references [OF pl(1)] db1(1)
    by (simp add: enc(2) [OF pl(1)] ex_leaf_def del: codec_id.simps)
  moreover have "filed ex_env ex_texts db2 d \<longleftrightarrow> d = ex_node_cid \<or> filed ex_env ex_texts db1 d" for d
    using P [OF enc(1) [OF pl(2)] refl, of db1 d] ex_references [OF pl(2)] db2(1)
    by (simp add: enc(2) [OF pl(2)] ex_node_cid_def del: codec_id.simps)
  moreover have "get_block_links ex_env ex_texts sphere_db_new ex_node_cid = Inr None"
    by (simp add: get_block_links_def sphere_db_new_def get_key_def memory_read_def)
  then have "\<not> filed ex_env ex_texts (db_put_block ex_node_cid (enc ex_node) sphere_db_new) ex_node_cid"
    using L [THEN conjunct2, THEN conjunct1, rule_format, of ex_node_cid "enc ex_node" sphere_db_new ex_node_cid] by simp
  ultimately show ?thesis using db1(1) db2 by blast
qed

text \<open>C15: when the blocks reached from a root are at hand, streaming them ends, also if blocks are
  reached on several ways, and yields each of them exactly once.\<close>

theorem stream_blocks_complete:
  assumes "links_ok E T db" "finite U" "\<And>c. c \<in> U \<Longrightarrow> \<exists>b C. block_store db c = Some b \<and> codec_of c = codec_id C"
    "\<And>c. c \<in> U \<Longrightarrow> set (next_links E T db c) \<subseteq> U" "r0 \<in> U" "1 + (\<Sum>c \<in> U. length (next_links E T db c)) < f"
  shows "\<exists>out. stream_blocks f E T db r0 = (out, Inr ()) \<and> distinct (map fst out) \<and>
    set out = {(c, b). linked (\<lambda>_. True) (next_links E T db) r0 c \<and> block_store db c = Some b}"
  by (rule stream_blocks_ok [OF assms])

theorem stream_blocks_complete_witness:
  "\<exists>db out. stream_blocks 4 ex_env ex_texts db ex_node_cid = (out, Inr ()) \<and> distinct (map fst out) \<and>
     (ex_leaf, enc (IString ''leaf'')) \<in> set out \<and> (ex_node_cid, enc ex_node) \<in> set out"
proof -
  have pl: "plain (IString ''leaf'')" "plain ex_node" by (simp_all add: ex_node_def)
  have ne: "ex_leaf \<noteq> ex_node_cid" by (simp add: ex_leaf_def ex_node_cid_def ex_node_def)
  obtain db1 where db1: "block_store db1 = (block_store sphere_db_new)(ex_leaf \<mapsto> enc (IString ''leaf''))"
      "links_ok ex_env ex_texts db1" "get_block_links ex_env ex_texts db1 ex_leaf = Inr (Some [])"
    by (rule ex_db_put [OF pl(1) links_ok_new]) (simp add: ex_leaf_def)
  obtain db where db: "block_store db = (block_store db1)(ex_node_cid \<mapsto> enc ex_node)" "links_ok ex_env ex_texts db"
      "get_block_links ex_env ex_texts db ex_node_cid = Inr (Some [ex_leaf, ex_leaf])"
      "get_block_links ex_env ex_texts db ex_leaf = get_block_links ex_env ex_texts db1 ex_leaf"
  proof (rule ex_db_put [OF pl(2) db1(2), folded ex_node_cid_def])
    fix db' assume "block_store db' = (block_store db1)(ex_node_cid \<mapsto> enc ex_node)" "links_ok ex_env ex_texts db'"
      "\<And>c. get_block_links ex_env ex_texts db' c =
        (if c = ex_node_cid then Inr (Some (links_of ex_node)) else get_block_links ex_env ex_texts db1 c)"
    then show thesis using ne by (intro that [of db']) (auto simp: ex_node_def)
  qed
  let ?U = "{ex_node_cid, ex_leaf}"
  have nx: "next_links ex_env ex_texts db ex_node_cid = [ex_leaf, ex_leaf]" "next_links ex_env ex_texts db ex_leaf = []"
    using db(3,4) db1(3) by simp_all
  have bl: "block_store db ex_node_cid = Some (enc ex_node)" "block_store db ex_leaf = Some (enc (IString ''leaf''))"
    using db(1) db1(1) ne by simp_all
  have cd: "codec_of ex_node_cid = codec_id DagCborCodec" "codec_of ex_leaf = codec_id DagCborCodec"
    by (simp_all add: ex_node_cid_def ex_leaf_def)
  obtain out where out: "stream_blocks 4 ex_env ex_texts db ex_node_cid = (out, Inr ())" "distinct (map fst out)"
      "set out = {(c, b). linked (\<lambda>_. True) (next_links ex_env ex_texts db) ex_node_cid c \<and> block_store db c = Some b}"
  proof -
    have U: "\<exists>b C. block_store db c = Some b \<and> codec_of c = codec_id C" "set (next_links ex_env ex_texts db c) \<subseteq> ?U" if "c \<in> ?U" for c
    proof -
      show "\<exists>b C. block_store db c = Some b \<and> codec_of c = codec_id C" using that bl cd by blast
      show "set (next_links ex_env ex_texts db c) \<subseteq> ?U" using that db(3,4) db1(3) by fastforce
    qed
    have n: "1 + (\<Sum>c \<in> ?U. length (next_links ex_env ex_texts db c)) < 4" using nx ne by simp
    show thesis using stream_blocks_complete [OF db(2) _ U _ n] that by auto
  qed
  have "linked (\<lambda>_. True) (next_links ex_env ex_texts db) ex_node_cid ex_node_cid" by (rule linked_root) simp
  moreover from this have "linked (\<lambda>_. True) (next_links ex_env ex_texts db) ex_node_cid ex_leaf"
    by (rule linked_step) (simp_all add: nx)
  ultimately show ?thesis using out bl by blast
qed

section \<open>Retrying\<close>

text \<open>C29: the retrying store makes at most one attempt more than its limit of retries and returns
  the answer of the first attempt that gives one within its window, the windows growing by the
  backoff; without such an attempt it fails.\<close>

theorem retry_bounded:
  assumes "unat (maximum_retries R) < 2 ^ 32 - 1" "Suc (unat (maximum_retries R)) < f"
  shows "fst (retry_get f powf R attempt 0 (attempt_window R)) =
    (case find (\<lambda>i. fst (attempt i) < timeout_at powf R (attempt_window R) i \<and> \<not> isl (snd (attempt i)))
            [0..<Suc (unat (maximum_retries R))] of
       Some i \<Rightarrow> snd (attempt i)
     | None \<Rightarrow> Inl (Anyhow ''Failed to get''))"
  using retry_get_ok [OF assms(1), of 0 "Suc (unat (maximum_retries R))" f powf attempt "attempt_window R"] assms(2)
  by (simp del: upt_Suc cong: option.case_cong)

text \<open>Of the default configuration: the first two attempts time out, the third answers.\<close>

theorem retry_bounded_witness:
  "fst (retry_get 4 (\<lambda>e d. d) retry_default (\<lambda>i. (1500000000, if i = 0 then Inr None else Inr (Some [7]))) 0 1000000000) =
     Inr (Some [7])"
  using retry_bounded [of retry_default 4 "\<lambda>e d. d" "\<lambda>i. (1500000000, if i = 0 then Inr None else Inr (Some [7]))"]
  by (simp add: retry_default_def upt_rec)

text \<open>C40: a read through the retrying store ends in bounded time, pauses included, even if the store
  behind it never answers: every attempt with the pause after it takes no longer than the window
  that was configured or the timeout that the backoff gave it, whichever is longer.\<close>

theorem retry_time_bounded:
  assumes "unat (maximum_retries R) < 2 ^ 32 - 1" "Suc (unat (maximum_retries R)) < f"
  shows "snd (retry_get f powf R attempt 0 (attempt_window R)) \<le>
    (\<Sum>i \<le> unat (maximum_retries R). max (attempt_window R) (timeout_at powf R (attempt_window R) i))"
  using retry_get_time [OF assms(1), of 0 "Suc (unat (maximum_retries R))" f powf attempt "attempt_window R"] assms(2)
  by (simp add: lessThan_Suc_atMost)

text \<open>Of the default configuration: a store that never answers is given up after six seconds.\<close>

theorem retry_time_bounded_witness:
  "snd (retry_get 4 (\<lambda>e d. d) retry_default (\<lambda>i. (10 ^ 15, Inr None)) 0 1000000000) \<le> 6000000000"
proof -
  have R: "unat (maximum_retries retry_default) = 2" "attempt_window retry_default = 1000000000" by (simp_all add: retry_default_def)
  have "{..2 :: nat} = {0, Suc 0, Suc (Suc 0)}" by auto
  then have "(\<Sum>i \<le> (2 :: nat). max 1000000000 (timeout_at (\<lambda>e d. d) retry_default 1000000000 i)) = 6000000000"
    by (simp add: retry_default_def)
  then show ?thesis
    using retry_time_bounded [of retry_default 4 "\<lambda>e d. d" "\<lambda>i. (10 ^ 15, Inr None)"] unfolding R by simp
qed

section \<open>Bodies\<close>

text \<open>C26: the bytes of a body, cut into chunks and stored as a linked list, are read back from the
  CID of the first chunk, at once or as a stream of the chunks. No bytes at all cannot be
  stored.\<close>

theorem body_round_trip:
  assumes "env_ok E" "store_ok E s" "chunker_ok chunker" "bs \<noteq> []"
  shows "\<exists>c b cs s'. store_bytes E chunker bs s = (Inr c, s') \<and> s \<subseteq>\<^sub>m s' \<and>
    load_value E chunk_from_ipld c s' = Inr b \<and> (\<forall>f > length cs. load_all_bytes f E s' b = Inr bs) \<and>
    (\<forall>f > length cs. chunk_stream f E s' (Some c) = (cs, Inr ())) \<and> concat cs = bs \<and>
    store_bytes E chunker [] s = (Inl (Anyhow ''No CID; did you try to store zero bytes?''), s)"
proof -
  obtain cs n s' where s': "concat cs = bs"
    "store_bytes E chunker bs s = (of_option (Anyhow ''No CID; did you try to store zero bytes?'') n, s')"
    "s \<subseteq>\<^sub>m s'" "chunks_at E s' n cs" "n = None \<longleftrightarrow> bs = []"
    by (rule store_bytes_ok [OF assms(1-3), of bs])
  obtain c where c: "n = Some c" using s'(5) assms(4) by blast
  obtain x xs where cs: "cs = x # xs" using s'(4) c by (cases cs) auto
  then obtain n' where n': "value_at E chunk_to_ipld s' c \<lparr>chunk_bytes = x, chunk_next = n'\<rparr>" "chunks_at E s' n' xs"
    using s'(4) c by auto
  have "load_all_bytes f E s' \<lparr>chunk_bytes = x, chunk_next = n'\<rparr> = Inr bs" if "f > length cs" for f
    using load_rest_ok [OF assms(1) n'(2), of f x] that s'(1) by (simp add: load_all_bytes_def cs)
  moreover have "chunk_stream f E s' (Some c) = (cs, Inr ())" if "f > length cs" for f
    using chunk_stream_ok [OF assms(1) s'(4) that] c by simp
  moreover have "store_bytes E chunker [] s = (Inl (Anyhow ''No CID; did you try to store zero bytes?''), s)"
  proof -
    have "rtraverse (slice_bytes []) (chunker []) = Inr []" using assms(3) unfolding chunker_ok_def by blast
    then show ?thesis by (simp add: store_bytes_def)
  qed
  moreover have "store_bytes E chunker bs s = (Inr c, s')" using s'(2) c by simp
  ultimately show ?thesis
    using s'(1,3) load_value_ok [OF assms(1) chunk_serde n'(1)]
    by (intro exI [of _ c] exI [of _ "\<lparr>chunk_bytes = x, chunk_next = n'\<rparr>"] exI [of _ cs] exI [of _ s']) simp
qed

definition ex_chunker :: "bytes \<Rightarrow> (nat \<times> nat) list" where
  "ex_chunker bs = map (\<lambda>i. (i, 1)) [0..<length bs]"

lemma ex_chunker_ok: "chunker_ok ex_chunker"
proof -
  have "rtraverse (slice_bytes bs) (ex_chunker bs) = Inr (map (\<lambda>b. [b]) bs)" for bs
    by (simp add: rtraverse_eq_Inr ex_chunker_def list_all2_conv_all_nth slice_bytes_def take_Suc_conv_app_nth)
  then show ?thesis by (simp add: chunker_ok_def)
qed

theorem body_round_trip_witness:
  "\<exists>c b s. store_bytes ex_env ex_chunker [1, 2, 3] Map.empty = (Inr c, s) \<and>
     load_value ex_env chunk_from_ipld c s = Inr b \<and> (\<exists>f. load_all_bytes f ex_env s b = Inr [1, 2, 3])"
proof -
  have "store_ok ex_env Map.empty" "[1, 2, 3 :: byte] \<noteq> []" by (simp_all add: store_ok_def)
  note b = body_round_trip [OF ex_env_ok this(1) ex_chunker_ok this(2)]
  then obtain c b cs s where "store_bytes ex_env ex_chunker [1, 2, 3] Map.empty = (Inr c, s)"
      "load_value ex_env chunk_from_ipld c s = Inr b" "\<forall>f > length (cs :: bytes list). load_all_bytes f ex_env s b = Inr [1, 2, 3]"
    by (elim exE conjE)
  then show ?thesis by (intro exI [of _ c] exI [of _ b] exI [of _ s]) auto
qed

end
