(* ===== verification/Bundle.thy ===== *)
theory Bundle
  imports Sphere_History Body_Chunk Block_Stream "HOL-Library.RBT"
begin

text \<open>
  Bundles (\<^verbatim>\<open>noosphere-core/src/data/bundle.rs\<close>): the blocks of some versions of a sphere, by the
  text of their CIDs, as older gateways exchange them. A \<open>BTreeMap\<close> is a red-black tree of the
  library, which is ordered the same way. The trait \<open>TryBundle\<close> is one operation per type here;
  those on maps take the operation for their entries as an argument.
\<close>

section \<open>Bundles\<close>

type_synonym block_bundle = "(string, bytes) rbt"

definition bundle_len :: "block_bundle \<Rightarrow> nat" where
  "bundle_len B = length (RBT.entries B)"

definition bundle_is_empty :: "block_bundle \<Rightarrow> bool" where
  "bundle_is_empty B \<longleftrightarrow> bundle_len B = 0"

definition bundle_contains :: "text_env \<Rightarrow> cid \<Rightarrow> block_bundle \<Rightarrow> bool" where
  "bundle_contains T c B \<longleftrightarrow> RBT.lookup B (cid_to_string T c) \<noteq> None"

definition bundle_add :: "text_env \<Rightarrow> cid \<Rightarrow> bytes \<Rightarrow> block_bundle \<Rightarrow> bool \<times> block_bundle" where
  "bundle_add T c bs B =
     (let cid_string = cid_to_string T c in
      if RBT.lookup B cid_string \<noteq> None then (False, B) else (True, RBT.insert cid_string bs B))"

definition bundle_merge :: "block_bundle \<Rightarrow> block_bundle \<Rightarrow> block_bundle" where
  "bundle_merge B other = RBT.union B other"

fun load_entries :: "codec_env \<Rightarrow> text_env \<Rightarrow> (string \<times> bytes) list \<Rightarrow> sphere_db \<Rightarrow> unit result \<times> sphere_db" where
  "load_entries E T [] db = (Inr (), db)"
| "load_entries E T ((cid_string, block_bytes) # rest) db =
     (case cid_from_string T cid_string of
        None \<Rightarrow> (Inl (Anyhow ''Cid''), db)
      | Some c \<Rightarrow>
          (let db = db_put_block c block_bytes db in
           sbind (if codec_of c = codec_id DagCborCodec then put_links E T DagCborCodec c block_bytes db
                  else if codec_of c = codec_id RawCodec then put_links E T RawCodec c block_bytes db
                  else (Inr (), db)) (\<lambda>_ db. load_entries E T rest db)))"

definition load_into :: "codec_env \<Rightarrow> text_env \<Rightarrow> block_bundle \<Rightarrow> sphere_db \<Rightarrow> unit result \<times> sphere_db" where
  "load_into E T B db = load_entries E T (RBT.entries B) db"

section \<open>What is added for each type\<close>

type_synonym bundling = "block_bundle \<Rightarrow> unit result \<times> block_bundle"

text \<open>\<open>extend_bundle\<close> of the trait, which adds the serialized value alone.\<close>

definition bundle_value :: "world \<Rightarrow> ('a \<Rightarrow> ipld) \<Rightarrow> 'a \<Rightarrow> bundling" where
  "bundle_value W f x B =
     (case block_serialize (codecs W) DagCborCodec (\<lambda>x. Some (f x)) x of
        Inl e \<Rightarrow> (Inl e, B)
      | Inr (self_cid, self_bytes) \<Rightarrow> (Inr (), snd (bundle_add (texts W) self_cid self_bytes B)))"

text \<open>A block that has to be in the store, as it is. This is all that is done for a \<open>Jwt\<close>.\<close>

definition bundle_block :: "world \<Rightarrow> blocks \<Rightarrow> cid \<Rightarrow> bundling" where
  "bundle_block W s c B =
     (case require_block c s of
        Inl e \<Rightarrow> (Inl e, B)
      | Inr bs \<Rightarrow> (Inr (), snd (bundle_add (texts W) c bs B)))"

text \<open>A block that has to be in the store and deserialize.\<close>

definition require_value :: "world \<Rightarrow> (ipld \<Rightarrow> 'a option) \<Rightarrow> blocks \<Rightarrow> cid \<Rightarrow> (bytes \<times> 'a) result" where
  "require_value W g s c =
     rbind (require_block c s) (\<lambda>bs.
       rbind (block_deserialize (codecs W) DagCborCodec (\<lambda>i. of_option (Anyhow ''from_ipld'') (g i)) bs) (\<lambda>x.
         Inr (bs, x)))"

text \<open>The chunks of a body; the fuel is their number and one more.\<close>

fun bundle_chunks :: "nat \<Rightarrow> world \<Rightarrow> blocks \<Rightarrow> cid option \<Rightarrow> bundling" where
  "bundle_chunks 0 W s next_cid B = (Inl OutOfFuel, B)"
| "bundle_chunks (Suc f) W s next_cid B =
     (case next_cid of
        None \<Rightarrow> (Inr (), B)
      | Some c \<Rightarrow>
          (case require_value W chunk_from_ipld s c of
             Inl e \<Rightarrow> (Inl e, B)
           | Inr (bs, chunk) \<Rightarrow> bundle_chunks f W s (chunk_next chunk) (snd (bundle_add (texts W) c bs B))))"

text \<open>Changelogs and versioned maps, for the operation on their values.\<close>

fun bundle_added :: "('v \<Rightarrow> bundling) \<Rightarrow> ('k, 'v) map_operation list \<Rightarrow> bundling" where
  "bundle_added g [] B = (Inr (), B)"
| "bundle_added g (Add k v # ops) B = sbind (g v B) (\<lambda>_ B. bundle_added g ops B)"
| "bundle_added g (Remove k # ops) B = bundle_added g ops B"

definition bundle_changelog :: "('k, 'v) hamt_ctx \<Rightarrow> world \<Rightarrow> blocks \<Rightarrow> ('v \<Rightarrow> bundling) \<Rightarrow> cid \<Rightarrow> bundling" where
  "bundle_changelog X W s g c B =
     (case require_value W (changelog_from_ipld (key_from_ipld X) (val_from_ipld X)) s c of
        Inl e \<Rightarrow> (Inl e, B)
      | Inr (bs, cl) \<Rightarrow> bundle_added g (changes cl) (snd (bundle_add (texts W) c bs B)))"

definition bundle_vmap :: "('k, 'v) hamt_ctx \<Rightarrow> world \<Rightarrow> blocks \<Rightarrow> ('v \<Rightarrow> bundling) \<Rightarrow> vmap_ipld \<Rightarrow> bundling" where
  "bundle_vmap X W s g m B =
     (case block_serialize (codecs W) DagCborCodec (\<lambda>m. Some (vmap_to_ipld m)) m of
        Inl e \<Rightarrow> (Inl e, B)
      | Inr (self_cid, self_bytes) \<Rightarrow>
          sbind (bundle_changelog X W s g (vm_changelog m) B) (\<lambda>_ B.
            (Inr (), snd (bundle_add (texts W) self_cid self_bytes B))))"

definition bundle_vmap_with_cid :: "('k, 'v) hamt_ctx \<Rightarrow> world \<Rightarrow> blocks \<Rightarrow> ('v \<Rightarrow> bundling) \<Rightarrow> cid \<Rightarrow> bundling" where
  "bundle_vmap_with_cid X W s g c B =
     (case load_value (codecs W) vmap_from_ipld c s of Inl e \<Rightarrow> (Inl e, B) | Inr m \<Rightarrow> bundle_vmap X W s g m B)"

text \<open>A link record with the tokens that prove it; a stack of CIDs is still to be read.\<close>

fun bundle_proofs :: "nat \<Rightarrow> world \<Rightarrow> blocks \<Rightarrow> cid list \<Rightarrow> bundling" where
  "bundle_proofs 0 W s remaining B = (Inl OutOfFuel, B)"
| "bundle_proofs (Suc f) W s remaining B =
     (if remaining = [] then (Inr (), B)
      else let c = last remaining in
        (case rbind (require_token W c s) (ucan_from_str W) of
           Inl e \<Rightarrow> (Inl e, B)
         | Inr u \<Rightarrow>
             sbind (bundle_block W s c B) (\<lambda>_ B.
               case rtraverse (\<lambda>p. of_option (Anyhow ''Cid'') (cid_from_string (texts W) p)) (proof_strings u) of
                 Inl e \<Rightarrow> (Inl e, B)
               | Inr proofs \<Rightarrow> bundle_proofs f W s (butlast remaining @ proofs) B)))"

definition bundle_link_record :: "nat \<Rightarrow> world \<Rightarrow> blocks \<Rightarrow> link_record \<Rightarrow> bundling" where
  "bundle_link_record f W s lr B =
     (case authorization_cid W (AuthUcan lr) of Inl e \<Rightarrow> (Inl e, B) | Inr c \<Rightarrow> bundle_proofs f W s [c] B)"

definition bundle_identity :: "nat \<Rightarrow> world \<Rightarrow> blocks \<Rightarrow> identity_ipld \<Rightarrow> bundling" where
  "bundle_identity f W s i B =
     sbind (bundle_value W identity_to_ipld i B) (\<lambda>_ B.
       case link_record i of Some c \<Rightarrow> bundle_proofs f W s [c] B | None \<Rightarrow> (Inr (), B))"

definition bundle_delegation :: "world \<Rightarrow> blocks \<Rightarrow> delegation_ipld \<Rightarrow> bundling" where
  "bundle_delegation W s d B =
     sbind (bundle_value W delegation_to_ipld d B) (\<lambda>_ B. bundle_block W s (dg_jwt d) B)"

definition bundle_revocation :: "world \<Rightarrow> blocks \<Rightarrow> revocation_ipld \<Rightarrow> bundling" where
  "bundle_revocation W s r B = bundle_value W revocation_to_ipld r B"

definition bundle_authority :: "world \<Rightarrow> blocks \<Rightarrow> cid \<Rightarrow> bundling" where
  "bundle_authority W s c B =
     (case require_value W authority_from_ipld s c of
        Inl e \<Rightarrow> (Inl e, B)
      | Inr (self_bytes, auth) \<Rightarrow>
          sbind (bundle_vmap_with_cid (delegations_ctx W) W s (bundle_delegation W s) (delegations auth) B) (\<lambda>_ B.
            sbind (bundle_vmap_with_cid (revocations_ctx W) W s (bundle_revocation W s) (revocations auth) B) (\<lambda>_ B.
              (Inr (), snd (bundle_add (texts W) c self_bytes B)))))"

definition bundle_address_book :: "nat \<Rightarrow> world \<Rightarrow> blocks \<Rightarrow> cid \<Rightarrow> bundling" where
  "bundle_address_book f W s c B =
     (case require_value W address_book_from_ipld s c of
        Inl e \<Rightarrow> (Inl e, B)
      | Inr (self_bytes, book) \<Rightarrow>
          sbind (bundle_vmap_with_cid (identities_ctx W) W s (bundle_identity f W s) (identities book) B) (\<lambda>_ B.
            (Inr (), snd (bundle_add (texts W) c self_bytes B))))"

text \<open>
  The body of a version of a sphere, where \<open>g\<close> is the operation on the entries of its content:
  the parts that its mutation changed.
\<close>

definition bundle_sphere :: "nat \<Rightarrow> world \<Rightarrow> blocks \<Rightarrow> (cid \<Rightarrow> bundling) \<Rightarrow> cid \<Rightarrow> memo \<Rightarrow> bundling" where
  "bundle_sphere f W s g self_cid m B =
     (case rbind (derive_mutation W self_cid s) (\<lambda>\<mu>. rbind (to_body W self_cid s) (\<lambda>sphere_body. Inr (\<mu>, sphere_body))) of
        Inl e \<Rightarrow> (Inl e, B)
      | Inr (\<mu>, sphere_body) \<Rightarrow>
          sbind (bundle_block W s (body m) B) (\<lambda>_ B.
            sbind (if mut_changes (sm_content \<mu>) \<noteq> []
                   then bundle_vmap_with_cid (content_ctx W) W s g (content sphere_body) B
                   else (Inr (), B)) (\<lambda>_ B.
              sbind (if mut_changes (sm_delegations \<mu>) \<noteq> [] \<or> mut_changes (sm_revocations \<mu>) \<noteq> []
                     then bundle_authority W s (authority sphere_body) B
                     else (Inr (), B)) (\<lambda>_ B.
                if mut_changes (sm_identities \<mu>) \<noteq> []
                then bundle_address_book f W s (address_book sphere_body) B
                else (Inr (), B)))))"

text \<open>A memo; the content of a sphere may hold memos of other spheres, so the fuel bounds the depth too.\<close>

fun bundle_memo :: "nat \<Rightarrow> world \<Rightarrow> blocks \<Rightarrow> memo \<Rightarrow> bundling" where
  "bundle_memo 0 W s m B = (Inl OutOfFuel, B)"
| "bundle_memo (Suc f) W s m B =
     (case block_serialize (codecs W) DagCborCodec (\<lambda>m. Some (memo_to_ipld m)) m of
        Inl e \<Rightarrow> (Inl e, B)
      | Inr (self_cid, self_bytes) \<Rightarrow>
          let B = snd (bundle_add (texts W) self_cid self_bytes B) in
          (case get_first_header (header_str ContentType) m of
             None \<Rightarrow> bundle_block W s (body m) B
           | Some content_type \<Rightarrow>
               if content_type_from_str content_type = SphereType
               then bundle_sphere f W s
                      (\<lambda>c B. case load_value (codecs W) memo_from_ipld c s of
                                Inl e \<Rightarrow> (Inl e, B)
                              | Inr m \<Rightarrow> bundle_memo f W s m B) self_cid m B
               else bundle_chunks f W s (Some (body m)) B))"

definition bundle_memo_with_cid :: "nat \<Rightarrow> world \<Rightarrow> blocks \<Rightarrow> cid \<Rightarrow> bundling" where
  "bundle_memo_with_cid f W s c B =
     (case load_value (codecs W) memo_from_ipld c s of Inl e \<Rightarrow> (Inl e, B) | Inr m \<Rightarrow> bundle_memo f W s m B)"

section \<open>Bundles of versions\<close>

fun bundle_memos :: "nat \<Rightarrow> world \<Rightarrow> blocks \<Rightarrow> (cid \<times> memo) list \<Rightarrow> bundling" where
  "bundle_memos f W s [] B = (Inr (), B)"
| "bundle_memos f W s ((c, m) # items) B = sbind (bundle_memo f W s m B) (\<lambda>_ B. bundle_memos f W s items B)"

definition bundled :: "unit result \<times> block_bundle \<Rightarrow> block_bundle result" where
  "bundled r = (case r of (Inl e, B) \<Rightarrow> Inl e | (Inr _, B) \<Rightarrow> Inr B)"

definition from_timeslice :: "nat \<Rightarrow> world \<Rightarrow> blocks \<Rightarrow> timeslice \<Rightarrow> block_bundle result" where
  "from_timeslice f W s t =
     (case slice_stream f (codecs W) s t of
        (items, r) \<Rightarrow> bundled (sbind (bundle_memos f W s items RBT.empty) (\<lambda>_ B. (r, B))))"

definition to_bundle :: "nat \<Rightarrow> world \<Rightarrow> cid \<Rightarrow> blocks \<Rightarrow> block_bundle result" where
  "to_bundle f W c s = bundled (bundle_memo_with_cid f W s c RBT.empty)"

definition bundle_until_ancestor :: "nat \<Rightarrow> world \<Rightarrow> cid \<Rightarrow> cid option \<Rightarrow> blocks \<Rightarrow> block_bundle result" where
  "bundle_until_ancestor f W c ancestor s = from_timeslice f W s (without_past (slice c ancestor))"

end
