(* ===== verification/Bundle_Rep.thy ===== *)
theory Bundle_Rep
  imports Bundle
begin

text \<open>
  What bundles carry: the blocks with which a store that has the version before a series can
  hydrate the series. The locale \<open>try_bundle\<close> is the contract of the trait \<open>TryBundle\<close>: an
  operation only adds well-formed blocks, and whether it succeeds does not depend on what the
  bundle has already.
\<close>

section \<open>The blocks of a bundle\<close>

definition bundle_blocks :: "text_env \<Rightarrow> block_bundle \<Rightarrow> blocks" where
  "bundle_blocks T B = (\<lambda>c. RBT.lookup B (cid_to_string T c))"

text \<open>A block under its own digest, with links that can be read.\<close>

definition block_fine :: "codec_env \<Rightarrow> cid \<Rightarrow> bytes \<Rightarrow> bool" where
  "block_fine E c b \<longleftrightarrow> digest_of c = blake3_256 E b \<and> (\<forall>C. codec_of c = codec_id C \<longrightarrow> references E C b \<noteq> None)"

text \<open>What is relied on: the links of every encoded value, and of every block of the store, can be read.\<close>

definition bundler_ok :: "world \<Rightarrow> blocks \<Rightarrow> bool" where
  "bundler_ok W s \<longleftrightarrow>
     env_ok (codecs W) \<and> cid_text_ok (texts W) \<and> (\<forall>c b. s c = Some b \<longrightarrow> block_fine (codecs W) c b) \<and>
     (\<forall>i b. encode (codecs W) DagCborCodec i = Some b \<longrightarrow> references (codecs W) DagCborCodec b \<noteq> None)"

definition bundle_ok :: "world \<Rightarrow> block_bundle \<Rightarrow> bool" where
  "bundle_ok W B \<longleftrightarrow>
     (\<forall>k b. RBT.lookup B k = Some b \<longrightarrow> (\<exists>c. k = cid_to_string (texts W) c \<and> block_fine (codecs W) c b))"

definition grows :: "world \<Rightarrow> block_bundle \<Rightarrow> block_bundle \<Rightarrow> bool" where
  "grows W B B' \<longleftrightarrow> bundle_ok W B' \<and> bundle_blocks (texts W) B \<subseteq>\<^sub>m bundle_blocks (texts W) B'"

lemma grows_refl: "bundle_ok W B \<Longrightarrow> grows W B B"
  by (simp add: grows_def)

lemma grows_trans: "grows W B B' \<Longrightarrow> grows W B' B'' \<Longrightarrow> grows W B B''"
  by (auto simp: grows_def intro: map_le_trans)

lemma grows_ok: "grows W B B' \<Longrightarrow> bundle_ok W B'"
  by (simp add: grows_def)

lemma bundle_ok_empty: "bundle_ok W RBT.empty"
  by (simp add: bundle_ok_def)

lemma cid_string_eq: "cid_text_ok T \<Longrightarrow> cid_to_string T c = cid_to_string T d \<longleftrightarrow> c = d"
  by (auto simp: cid_text_ok_def dest: arg_cong [of _ _ "cid_from_string T"])

text \<open>After adding a block it is there, whether it was new or not.\<close>

lemma add_ok:
  assumes "bundler_ok W s" "bundle_ok W B" "block_fine (codecs W) c b"
  shows "grows W B (snd (bundle_add (texts W) c b B))" "bundle_blocks (texts W) (snd (bundle_add (texts W) c b B)) c = Some b"
proof -
  have T: "cid_text_ok (texts W)" and h: "hash_ok (codecs W)" using assms(1) by (simp_all add: bundler_ok_def env_ok_def)
  have same: "b' = b" if b': "RBT.lookup B (cid_to_string (texts W) c) = Some b'" for b'
  proof -
    from assms(2) b' obtain d where "cid_to_string (texts W) c = cid_to_string (texts W) d" "block_fine (codecs W) d b'"
      unfolding bundle_ok_def by blast
    then have "block_fine (codecs W) c b'" using cid_string_eq [OF T] by simp
    then have "blake3_256 (codecs W) b' = blake3_256 (codecs W) b" using assms(3) by (simp add: block_fine_def)
    with h show ?thesis unfolding hash_ok_def by (rule injD)
  qed
  show "bundle_blocks (texts W) (snd (bundle_add (texts W) c b B)) c = Some b"
    using same by (auto simp: bundle_add_def bundle_blocks_def Let_def)
  have "bundle_ok W (snd (bundle_add (texts W) c b B))"
    using assms(2,3) by (auto simp: bundle_ok_def bundle_add_def Let_def)
  moreover have "bundle_blocks (texts W) B \<subseteq>\<^sub>m bundle_blocks (texts W) (snd (bundle_add (texts W) c b B))"
    by (auto simp: bundle_add_def bundle_blocks_def Let_def map_le_def dom_def)
  ultimately show "grows W B (snd (bundle_add (texts W) c b B))" by (simp add: grows_def)
qed

lemma encoded_fine:
  assumes "bundler_ok W s" "encode (codecs W) DagCborCodec i = Some b"
  shows "block_fine (codecs W) (derive_cid (codecs W) DagCborCodec b) b"
  unfolding block_fine_def
proof (intro conjI allI impI)
  fix C assume "codec_of (derive_cid (codecs W) DagCborCodec b) = codec_id C"
  then have "C = DagCborCodec" by (cases C) (simp_all add: derive_cid_def)
  then show "references (codecs W) C b \<noteq> None" using assms by (auto simp: bundler_ok_def)
qed (simp add: derive_cid_def)

lemma serialized_ok:
  assumes "bundler_ok W s" "serde f g"
  obtains c b where "block_serialize (codecs W) DagCborCodec (\<lambda>x. Some (f x)) x = Inr (c, b)"
    "block_fine (codecs W) c b" "\<And>t. t c = Some b \<Longrightarrow> value_at (codecs W) f t c x"
proof -
  have p: "plain (f x)" using assms(2) by (simp add: serde_def)
  then obtain b where b: "encode (codecs W) DagCborCodec (f x) = Some b"
    using assms(1) by (auto simp: bundler_ok_def env_ok_def codec_ok_def)
  show thesis
    by (rule that [of "derive_cid (codecs W) DagCborCodec b" b])
      (use p b encoded_fine [OF assms(1) b] in \<open>auto simp: block_serialize_def block_encode_def has_block_def\<close>)
qed

lemma stored_fine: "bundler_ok W s \<Longrightarrow> require_block c s = Inr b \<Longrightarrow> block_fine (codecs W) c b"
  by (cases "s c") (auto simp: bundler_ok_def require_block_def get_block_def of_option_def)

lemma value_at_serialized:
  assumes "value_at (codecs W) f s c x"
  obtains b where "block_serialize (codecs W) DagCborCodec (\<lambda>x. Some (f x)) x = Inr (c, b)" "require_block c s = Inr b"
    "\<And>t. t c = Some b \<Longrightarrow> value_at (codecs W) f t c x"
proof -
  from assms obtain b where "plain (f x)" "encode (codecs W) DagCborCodec (f x) = Some b"
      "c = derive_cid (codecs W) DagCborCodec b" "s c = Some b"
    unfolding has_block_def by blast
  then show thesis
    by (intro that [of b]) (simp_all add: has_block_def block_serialize_def block_encode_def require_block_def get_block_def)
qed

lemma require_value_ok:
  assumes "bundler_ok W s" "serde f g" "value_at (codecs W) f s c x"
  obtains b where "require_value W g s c = Inr (b, x)" "block_fine (codecs W) c b"
    "\<And>t. t c = Some b \<Longrightarrow> value_at (codecs W) f t c x"
proof -
  from assms(3) obtain b where b: "plain (f x)" "encode (codecs W) DagCborCodec (f x) = Some b"
      "c = derive_cid (codecs W) DagCborCodec b" "s c = Some b"
    unfolding has_block_def by blast
  have "\<exists>b. encode (codecs W) DagCborCodec (f x) = Some b \<and> decode (codecs W) DagCborCodec b = Some (f x)"
    using b(1) assms(1) by (simp add: bundler_ok_def env_ok_def codec_ok_def)
  then have d: "decode (codecs W) DagCborCodec b = Some (f x)" using b(2) by simp
  have r: "require_block c s = Inr b" using b(4) by (simp add: require_block_def get_block_def)
  show thesis
  proof (rule that)
    show "require_value W g s c = Inr (b, x)"
      using d r assms(2) by (simp add: require_value_def block_deserialize_def block_decode_def serde_def)
    show "block_fine (codecs W) c b" by (rule stored_fine [OF assms(1) r])
    show "value_at (codecs W) f t c x" if "t c = Some b" for t using that b by (simp add: has_block_def)
  qed
qed

lemma require_value_fine: "bundler_ok W s \<Longrightarrow> require_value W g s c = Inr (b, x) \<Longrightarrow> block_fine (codecs W) c b"
  by (rule stored_fine) (auto simp: require_value_def)

text \<open>Doing one thing after another.\<close>

lemma sbind_extends:
  assumes "grows W B (snd r)" "\<And>x B1. grows W B B1 \<Longrightarrow> grows W B1 (snd (k x B1))"
  shows "grows W B (snd (sbind r k))"
proof (cases "fst r")
  case (Inr x)
  then have "sbind r k = k x (snd r)" by (cases r) simp
  then show ?thesis using grows_trans [OF assms(1) assms(2) [OF assms(1), of x]] by simp
qed (use assms(1) in \<open>cases r; simp\<close>)

lemma sbind_outcome:
  assumes "fst r = fst r0" "\<And>x B B0. fst (k x B) = fst (k x B0)"
  shows "fst (sbind r k) = fst (sbind r0 k)"
  using assms by (cases r; cases r0; cases "fst r") (auto simp: assms(2))

section \<open>The contract of an operation\<close>

locale try_bundle =
  fixes extend :: "world \<Rightarrow> blocks \<Rightarrow> 'v \<Rightarrow> bundling"
  assumes extends: "bundler_ok W s \<Longrightarrow> bundle_ok W B \<Longrightarrow> grows W B (snd (extend W s v B))"
    and outcome: "fst (extend W s v B) = fst (extend W s v B0)"
begin

lemma bundle_added_extends:
  "bundler_ok W s \<Longrightarrow> bundle_ok W B \<Longrightarrow> grows W B (snd (bundle_added (extend W s) ops B))"
proof (induction ops arbitrary: B)
  case (Cons x ops)
  show ?case
  proof (cases x)
    case (Add k v)
    obtain r B1 where B1: "extend W s v B = (r, B1)" by fastforce
    have g: "grows W B B1" using extends [OF Cons.prems, of v] B1 by simp
    show ?thesis
    proof (cases r)
      case (Inr y)
      then show ?thesis using grows_trans [OF g Cons.IH [OF Cons.prems(1) grows_ok [OF g]]] by (simp add: Add B1)
    qed (use g B1 in \<open>simp add: Add\<close>)
  qed (use Cons in simp)
qed (simp add: grows_refl)

lemma bundle_added_outcome:
  "fst (bundle_added (extend W s) ops B) = fst (bundle_added (extend W s) ops B0)"
proof (induction ops arbitrary: B B0)
  case (Cons x ops)
  show ?case
  proof (cases x)
    case (Add k v)
    have "fst (extend W s v B) = fst (extend W s v B0)" by (rule outcome)
    then show ?thesis using Cons.IH
      by (cases "extend W s v B"; cases "extend W s v B0"; cases "fst (extend W s v B)") (simp_all add: Add)
  qed (use Cons.IH in simp)
qed simp

text \<open>All the values that a changelog adds can be bundled if each of them can.\<close>

lemma bundle_added_ok:
  "(\<And>k v. Add k v \<in> set ops \<Longrightarrow> fst (extend W s v RBT.empty) = Inr ()) \<Longrightarrow>
   fst (bundle_added (extend W s) ops B) = Inr ()"
proof (induction ops arbitrary: B)
  case (Cons x ops)
  show ?case
  proof (cases x)
    case (Add k v)
    have "fst (extend W s v B) = Inr ()" using outcome [of W s v B RBT.empty] Cons.prems [of k v] Add by simp
    moreover have "fst (bundle_added (extend W s) ops B') = Inr ()" for B' by (rule Cons.IH) (use Cons.prems Add in auto)
    ultimately show ?thesis by (cases "extend W s v B") (simp add: Add)
  qed (use Cons in simp)
qed simp

lemma vmap_extends:
  assumes "bundler_ok W s" "bundle_ok W B"
  shows "grows W B (snd (bundle_vmap_with_cid X W s (extend W s) c B))"
proof (cases "load_value (codecs W) vmap_from_ipld c s")
  case (Inr m)
  obtain self b where self: "block_serialize (codecs W) DagCborCodec (\<lambda>m. Some (vmap_to_ipld m)) m = Inr (self, b)"
      "block_fine (codecs W) self b"
    by (rule serialized_ok [OF assms(1) vmap_serde]) blast
  obtain r B1 where B1: "bundle_changelog X W s (extend W s) (vm_changelog m) B = (r, B1)" by fastforce
  have g: "grows W B B1"
  proof (cases "require_value W (changelog_from_ipld (key_from_ipld X) (val_from_ipld X)) s (vm_changelog m)")
    case (Inl e)
    then show ?thesis using B1 grows_refl [OF assms(2)] by (simp add: bundle_changelog_def)
  next
    case (Inr p)
    obtain bs cl where p: "p = (bs, cl)" by (cases p)
    have "block_fine (codecs W) (vm_changelog m) bs" by (rule require_value_fine [OF assms(1) Inr [unfolded p]])
    note a = add_ok(1) [OF assms this]
    have "B1 = snd (bundle_added (extend W s) (changes cl) (snd (bundle_add (texts W) (vm_changelog m) bs B)))"
      using B1 Inr p by (simp add: bundle_changelog_def)
    then show ?thesis using grows_trans [OF a bundle_added_extends [OF assms(1) grows_ok [OF a]]] by simp
  qed
  show ?thesis
  proof (cases r)
    case (Inr x)
    then show ?thesis
      using grows_trans [OF g add_ok(1) [OF assms(1) grows_ok [OF g] self(2)]] self(1) B1 \<open>load_value _ _ _ _ = _\<close>
      by (simp add: bundle_vmap_with_cid_def bundle_vmap_def)
  qed (use g self(1) B1 Inr in \<open>simp add: bundle_vmap_with_cid_def bundle_vmap_def\<close>)
qed (simp add: bundle_vmap_with_cid_def grows_refl [OF assms(2)])

lemma vmap_outcome:
  "fst (bundle_vmap_with_cid X W s (extend W s) c B) = fst (bundle_vmap_with_cid X W s (extend W s) c B0)"
proof -
  have "fst (bundle_changelog X W s (extend W s) d B) = fst (bundle_changelog X W s (extend W s) d B0)" for d
    by (auto simp: bundle_changelog_def split: sum.splits intro: bundle_added_outcome)
  then have "fst (bundle_vmap X W s (extend W s) m B) = fst (bundle_vmap X W s (extend W s) m B0)" for m
    by (auto simp: bundle_vmap_def split: sum.splits intro: sbind_outcome)
  then show ?thesis by (simp add: bundle_vmap_with_cid_def split: sum.splits)
qed

text \<open>A map in the store is bundled with its changelog.\<close>

lemma vmap_bundled:
  assumes "bundler_ok W s" "bundle_ok W B" "serde (changelog_to_ipld (key_to_ipld X) (val_to_ipld X)) (changelog_from_ipld (key_from_ipld X) (val_from_ipld X))"
    "value_at (codecs W) vmap_to_ipld s c m" "value_at (codecs W) (changelog_to_ipld (key_to_ipld X) (val_to_ipld X)) s (vm_changelog m) cl"
    "\<And>k v. Add k v \<in> set (changes cl) \<Longrightarrow> fst (extend W s v RBT.empty) = Inr ()"
  obtains B' where "bundle_vmap_with_cid X W s (extend W s) c B = (Inr (), B')" "grows W B B'"
    "value_at (codecs W) vmap_to_ipld (bundle_blocks (texts W) B') c m"
    "value_at (codecs W) (changelog_to_ipld (key_to_ipld X) (val_to_ipld X)) (bundle_blocks (texts W) B') (vm_changelog m) cl"
proof -
  have env: "env_ok (codecs W)" using assms(1) by (simp add: bundler_ok_def)
  have ld: "load_value (codecs W) vmap_from_ipld c s = Inr m" by (rule load_value_ok [OF env vmap_serde assms(4)])
  obtain b where b: "block_serialize (codecs W) DagCborCodec (\<lambda>x. Some (vmap_to_ipld x)) m = Inr (c, b)" "require_block c s = Inr b"
      "\<And>t. t c = Some b \<Longrightarrow> value_at (codecs W) vmap_to_ipld t c m"
    by (rule value_at_serialized [where f = vmap_to_ipld and c = c and x = m and s = s and W = W]) (use assms(4) in blast)+
  obtain bs where bs: "require_value W (changelog_from_ipld (key_from_ipld X) (val_from_ipld X)) s (vm_changelog m) = Inr (bs, cl)"
      "block_fine (codecs W) (vm_changelog m) bs"
      "\<And>t. t (vm_changelog m) = Some bs \<Longrightarrow> value_at (codecs W) (changelog_to_ipld (key_to_ipld X) (val_to_ipld X)) t (vm_changelog m) cl"
    by (rule require_value_ok [OF assms(1,3,5)]) blast
  let ?B1 = "snd (bundle_add (texts W) (vm_changelog m) bs B)"
  note a1 = add_ok [OF assms(1,2) bs(2)]
  obtain B2 where B2: "bundle_added (extend W s) (changes cl) ?B1 = (Inr (), B2)"
    using bundle_added_ok [of "changes cl" W s ?B1] assms(6) by (cases "bundle_added (extend W s) (changes cl) ?B1") auto
  have g2: "grows W ?B1 B2" using bundle_added_extends [OF assms(1) grows_ok [OF a1(1)], of "changes cl"] B2 by simp
  note a3 = add_ok [OF assms(1) grows_ok [OF g2] stored_fine [OF assms(1) b(2)]]
  let ?B3 = "snd (bundle_add (texts W) c b B2)"
  have le: "bundle_blocks (texts W) ?B1 \<subseteq>\<^sub>m bundle_blocks (texts W) ?B3"
    using grows_trans [OF g2 a3(1)] by (simp add: grows_def)
  show thesis
  proof (rule that [of ?B3])
    show "bundle_vmap_with_cid X W s (extend W s) c B = (Inr (), ?B3)"
      by (simp add: bundle_vmap_with_cid_def bundle_vmap_def bundle_changelog_def ld b(1) bs(1) B2)
    show "grows W B ?B3" by (rule grows_trans [OF grows_trans [OF a1(1) g2] a3(1)])
    show "value_at (codecs W) vmap_to_ipld (bundle_blocks (texts W) ?B3) c m" by (rule b(3)) (rule a3(2))
    show "value_at (codecs W) (changelog_to_ipld (key_to_ipld X) (val_to_ipld X)) (bundle_blocks (texts W) ?B3) (vm_changelog m) cl"
      by (rule value_at_mono [OF _ le], rule bs(3)) (rule a1(2))
  qed
qed

end

section \<open>The operations\<close>

lemma bundle_value_extends:
  assumes "bundler_ok W s" "bundle_ok W B" "serde f g"
  shows "grows W B (snd (bundle_value W f x B))"
proof -
  obtain c b where "block_serialize (codecs W) DagCborCodec (\<lambda>x. Some (f x)) x = Inr (c, b)" "block_fine (codecs W) c b"
    by (rule serialized_ok [OF assms(1,3)]) blast
  then show ?thesis using add_ok(1) [OF assms(1,2)] by (simp add: bundle_value_def)
qed

lemma bundle_value_outcome: "fst (bundle_value W f x B) = fst (bundle_value W f x B0)"
  by (simp add: bundle_value_def split: sum.splits)

lemma bundle_block_extends: "bundler_ok W s \<Longrightarrow> bundle_ok W B \<Longrightarrow> grows W B (snd (bundle_block W s c B))"
  using add_ok(1) stored_fine by (cases "require_block c s") (auto simp: bundle_block_def grows_refl)

lemma bundle_block_outcome: "fst (bundle_block W s c B) = fst (bundle_block W s c B0)"
  by (simp add: bundle_block_def split: sum.splits)

lemma bundle_chunks_extends: "bundler_ok W s \<Longrightarrow> bundle_ok W B \<Longrightarrow> grows W B (snd (bundle_chunks f W s n B))"
proof (induction f arbitrary: n B)
  case (Suc f)
  show ?case
  proof (cases n)
    case (Some c)
    show ?thesis
    proof (cases "require_value W chunk_from_ipld s c")
      case (Inr p)
      obtain bs chunk where p: "p = (bs, chunk)" by (cases p)
      note a = add_ok(1) [OF Suc.prems require_value_fine [OF Suc.prems(1) Inr [unfolded p]]]
      show ?thesis using grows_trans [OF a Suc.IH [OF Suc.prems(1) grows_ok [OF a]]] by (simp add: Some Inr p)
    qed (simp add: Some grows_refl [OF Suc.prems(2)])
  qed (simp add: grows_refl [OF Suc.prems(2)])
qed (simp add: grows_refl)

lemma bundle_chunks_outcome: "fst (bundle_chunks f W s n B) = fst (bundle_chunks f W s n B0)"
proof (induction f arbitrary: n B B0)
  case (Suc f)
  show ?case by (auto split: option.split sum.split intro: Suc.IH)
qed simp

lemma bundle_proofs_extends: "bundler_ok W s \<Longrightarrow> bundle_ok W B \<Longrightarrow> grows W B (snd (bundle_proofs f W s cs B))"
proof (induction f arbitrary: cs B)
  case (Suc f)
  have k: "grows W B1 (snd (case r of Inl e \<Rightarrow> (Inl e, B1) | Inr proofs \<Rightarrow> bundle_proofs f W s (butlast cs @ proofs) B1))"
    if "grows W B B1" for B1 r
    using Suc.IH [OF Suc.prems(1) grows_ok [OF that]] grows_refl [OF grows_ok [OF that]] by (cases r) simp_all
  have "grows W B (snd (sbind (bundle_block W s c B) (\<lambda>_ B1. case r of Inl e \<Rightarrow> (Inl e, B1)
      | Inr proofs \<Rightarrow> bundle_proofs f W s (butlast cs @ proofs) B1)))" for c r
    by (rule sbind_extends [OF bundle_block_extends [OF Suc.prems]]) (rule k)
  then show ?case by (auto simp: Let_def grows_refl [OF Suc.prems(2)] split: sum.split)
qed (simp add: grows_refl)

lemma bundle_proofs_outcome: "fst (bundle_proofs f W s cs B) = fst (bundle_proofs f W s cs B0)"
proof (induction f arbitrary: cs B B0)
  case (Suc f)
  have "fst (case r of Inl e \<Rightarrow> (Inl e, B1) | Inr proofs \<Rightarrow> bundle_proofs f W s (butlast cs @ proofs) B1) =
      fst (case r of Inl e \<Rightarrow> (Inl e, B2) | Inr proofs \<Rightarrow> bundle_proofs f W s (butlast cs @ proofs) B2)" for r B1 B2
    using Suc.IH by (cases r) simp_all
  then show ?case
    by (auto simp: Let_def split: sum.split intro!: sbind_outcome bundle_block_outcome)
qed simp

interpretation rl: try_bundle bundle_revocation
  by unfold_locales (simp_all add: bundle_revocation_def bundle_value_extends [OF _ _ revocation_serde] bundle_value_outcome)

interpretation dl: try_bundle bundle_delegation
proof
  fix W s B v assume "bundler_ok W s" "bundle_ok W B"
  then show "grows W B (snd (bundle_delegation W s v B))"
    unfolding bundle_delegation_def
    by (intro sbind_extends bundle_value_extends [OF _ _ delegation_serde] bundle_block_extends) (auto dest: grows_ok)
qed (auto simp: bundle_delegation_def intro!: sbind_outcome bundle_value_outcome bundle_block_outcome)

interpretation ids: try_bundle "bundle_identity f" for f
proof
  fix W s B v assume ok: "bundler_ok W s" "bundle_ok W B"
  show "grows W B (snd (bundle_identity f W s v B))"
    unfolding bundle_identity_def
    by (rule sbind_extends [OF bundle_value_extends [OF ok identity_serde]])
      (auto split: option.split intro: bundle_proofs_extends [OF ok(1)] grows_refl dest: grows_ok)
next
  fix W s B B0 and v :: identity_ipld
  have "fst (case link_record v of None \<Rightarrow> (Inr (), B1) | Some c \<Rightarrow> bundle_proofs f W s [c] B1) =
    fst (case link_record v of None \<Rightarrow> (Inr (), B2) | Some c \<Rightarrow> bundle_proofs f W s [c] B2)" for B1 B2
    using bundle_proofs_outcome by (cases "link_record v") simp_all
  then show "fst (bundle_identity f W s v B) = fst (bundle_identity f W s v B0)"
    unfolding bundle_identity_def by (intro sbind_outcome bundle_value_outcome)
qed

lemma bundle_authority_extends:
  assumes "bundler_ok W s" "bundle_ok W B"
  shows "grows W B (snd (bundle_authority W s c B))"
proof (cases "require_value W authority_from_ipld s c")
  case (Inr p)
  obtain b auth where p: "p = (b, auth)" by (cases p)
  note fine = require_value_fine [OF assms(1) Inr [unfolded p]]
  have "grows W B (snd (sbind (bundle_vmap_with_cid (delegations_ctx W) W s (bundle_delegation W s) (delegations auth) B) (\<lambda>_ B.
      sbind (bundle_vmap_with_cid (revocations_ctx W) W s (bundle_revocation W s) (revocations auth) B) (\<lambda>_ B.
        (Inr (), snd (bundle_add (texts W) c b B))))))"
    by (intro sbind_extends dl.vmap_extends rl.vmap_extends)
      (auto simp: assms add_ok(1) [OF assms(1) _ fine] dest: grows_ok)
  then show ?thesis by (simp add: bundle_authority_def Inr p)
qed (simp add: bundle_authority_def grows_refl [OF assms(2)])

lemma bundle_authority_outcome: "fst (bundle_authority W s c B) = fst (bundle_authority W s c B0)"
  by (auto simp: bundle_authority_def split: sum.split intro!: sbind_outcome dl.vmap_outcome rl.vmap_outcome)

lemma bundle_address_book_extends:
  assumes "bundler_ok W s" "bundle_ok W B"
  shows "grows W B (snd (bundle_address_book f W s c B))"
proof (cases "require_value W address_book_from_ipld s c")
  case (Inr p)
  obtain b book where p: "p = (b, book)" by (cases p)
  note fine = require_value_fine [OF assms(1) Inr [unfolded p]]
  have "grows W B (snd (sbind (bundle_vmap_with_cid (identities_ctx W) W s (bundle_identity f W s) (identities book) B) (\<lambda>_ B.
        (Inr (), snd (bundle_add (texts W) c b B)))))"
    by (intro sbind_extends ids.vmap_extends) (auto simp: assms add_ok(1) [OF assms(1) _ fine] dest: grows_ok)
  then show ?thesis by (simp add: bundle_address_book_def Inr p)
qed (simp add: bundle_address_book_def grows_refl [OF assms(2)])

lemma bundle_address_book_outcome: "fst (bundle_address_book f W s c B) = fst (bundle_address_book f W s c B0)"
  by (auto simp: bundle_address_book_def split: sum.split intro!: sbind_outcome ids.vmap_outcome)

text \<open>The operation on the entries of the content is that on memos, with less fuel.\<close>

lemma if_extends: "(b \<Longrightarrow> grows W B (snd r)) \<Longrightarrow> bundle_ok W B \<Longrightarrow> grows W B (snd (if b then r else (Inr (), B)))"
  by (simp add: grows_refl)

lemma if_outcome: "fst r = fst r0 \<Longrightarrow> fst (if b then r else (Inr (), B)) = fst (if b then r0 else (Inr (), B0))"
  by simp

lemma sphere_extends:
  assumes "try_bundle g" "bundler_ok W s" "bundle_ok W B"
  shows "grows W B (snd (bundle_sphere f W s (g W s) c m B))"
proof (cases "rbind (derive_mutation W c s) (\<lambda>\<mu>. rbind (to_body W c s) (\<lambda>b. Inr (\<mu>, b)))")
  case (Inr p)
  obtain \<mu> b where p: "p = (\<mu>, b)" by (cases p)
  show ?thesis
    unfolding bundle_sphere_def Inr p sum.case prod.case
    by (intro sbind_extends if_extends bundle_block_extends try_bundle.vmap_extends [OF assms(1)] bundle_authority_extends
        bundle_address_book_extends assms(2)) (auto simp: assms(3) dest: grows_ok)
qed (simp add: bundle_sphere_def grows_refl [OF assms(3)])

lemma sphere_outcome:
  assumes "try_bundle g"
  shows "fst (bundle_sphere f W s (g W s) c m B) = fst (bundle_sphere f W s (g W s) c m B0)"
proof (cases "rbind (derive_mutation W c s) (\<lambda>\<mu>. rbind (to_body W c s) (\<lambda>b. Inr (\<mu>, b)))")
  case (Inr p)
  obtain \<mu> b where p: "p = (\<mu>, b)" by (cases p)
  show ?thesis
    unfolding bundle_sphere_def Inr p sum.case prod.case
    by (intro sbind_outcome if_outcome bundle_block_outcome try_bundle.vmap_outcome [OF assms] bundle_authority_outcome
        bundle_address_book_outcome)
qed (simp add: bundle_sphere_def)

lemma bundle_memo_Suc:
  "bundle_memo (Suc f) W s m B =
     (case block_serialize (codecs W) DagCborCodec (\<lambda>m. Some (memo_to_ipld m)) m of
        Inl e \<Rightarrow> (Inl e, B)
      | Inr (c, b) \<Rightarrow>
          (case get_first_header (header_str ContentType) m of
             None \<Rightarrow> bundle_block W s (body m) (snd (bundle_add (texts W) c b B))
           | Some t \<Rightarrow>
               if content_type_from_str t = SphereType
               then bundle_sphere f W s (bundle_memo_with_cid f W s) c m (snd (bundle_add (texts W) c b B))
               else bundle_chunks f W s (Some (body m)) (snd (bundle_add (texts W) c b B))))"
  unfolding bundle_memo.simps Let_def bundle_memo_with_cid_def [abs_def] by (rule refl)

lemma memo_try:
  assumes "\<And>W s m B. bundler_ok W s \<Longrightarrow> bundle_ok W B \<Longrightarrow> grows W B (snd (bundle_memo f W s m B))"
    "\<And>W s m B B0. fst (bundle_memo f W s m B) = fst (bundle_memo f W s m B0)"
  shows "try_bundle (bundle_memo_with_cid f)"
  by unfold_locales
    (auto simp: bundle_memo_with_cid_def split: sum.split intro: assms grows_refl)

lemma bundle_memo_laws:
  "(\<forall>W s m B. bundler_ok W s \<longrightarrow> bundle_ok W B \<longrightarrow> grows W B (snd (bundle_memo f W s m B))) \<and>
   (\<forall>W s m B B0. fst (bundle_memo f W s m B) = fst (bundle_memo f W s m B0))"
proof (induction f)
  case (Suc f)
  then have law: "try_bundle (bundle_memo_with_cid f)" using memo_try [of f] by blast
  have "grows W B (snd (bundle_memo (Suc f) W s m B))" if ok: "bundler_ok W s" "bundle_ok W B" for W s m B
  proof -
    obtain c b where b: "block_serialize (codecs W) DagCborCodec (\<lambda>m. Some (memo_to_ipld m)) m = Inr (c, b)" "block_fine (codecs W) c b"
      by (rule serialized_ok [OF ok(1) memo_serde]) blast
    note a = add_ok(1) [OF ok b(2)] and B1 = grows_ok [OF add_ok(1) [OF ok b(2)]]
    show ?thesis
      unfolding bundle_memo_Suc b(1) sum.case prod.case
      using grows_trans [OF a bundle_block_extends [OF ok(1) B1]] grows_trans [OF a sphere_extends [OF law ok(1) B1]]
        grows_trans [OF a bundle_chunks_extends [OF ok(1) B1]]
      by (simp split: option.split)
  qed
  moreover have "fst (bundle_memo (Suc f) W s m B) = fst (bundle_memo (Suc f) W s m B0)" for W s m B B0
    unfolding bundle_memo_Suc
    by (auto split: sum.split option.split intro: bundle_block_outcome sphere_outcome [OF law] bundle_chunks_outcome)
  ultimately show ?case by blast
qed (simp add: grows_refl)

interpretation links: try_bundle "bundle_memo_with_cid f" for f
  using bundle_memo_laws [of f] by (intro memo_try) blast+

section \<open>Versions of a sphere\<close>

context try_bundle
begin

text \<open>A map of which the changelog is at hand is so where the bundle is.\<close>

lemma version_bundled:
  assumes "bundler_ok W s" "bundle_ok W B" "hamt_ok X" "henv X = codecs W" "vm_sparse X s c m cl"
    "\<And>k v. Add k v \<in> set (changes cl) \<Longrightarrow> fst (extend W s v RBT.empty) = Inr ()"
  obtains B' where "bundle_vmap_with_cid X W s (extend W s) c B = (Inr (), B')" "grows W B B'"
    "\<And>t. bundle_blocks (texts W) B' \<subseteq>\<^sub>m t \<Longrightarrow> vm_sparse X t c m cl"
proof -
  obtain b s0 where b: "value_at (codecs W) vmap_to_ipld s c b" "store_ok (codecs W) s0" "hamt_at X s0 (vm_hamt b) m"
      "value_at (codecs W) (changelog_to_ipld (key_to_ipld X) (val_to_ipld X)) s (vm_changelog b) cl"
    using assms(5) unfolding vm_sparse_def assms(4) by blast
  obtain B' where B': "bundle_vmap_with_cid X W s (extend W s) c B = (Inr (), B')" "grows W B B'"
      "value_at (codecs W) vmap_to_ipld (bundle_blocks (texts W) B') c b"
      "value_at (codecs W) (changelog_to_ipld (key_to_ipld X) (val_to_ipld X)) (bundle_blocks (texts W) B') (vm_changelog b) cl"
    by (rule vmap_bundled [OF assms(1,2) hamt_ok_changelog_serde [OF assms(3)] b(1,4) assms(6)])
  have "vm_sparse X (bundle_blocks (texts W) B') c m cl" unfolding vm_sparse_def assms(4) using b(2,3) B'(3,4) by blast
  then show thesis using that [OF B'(1,2)] vm_sparse_mono by blast
qed

end

lemma book_bundled:
  assumes "bundler_ok W s" "sphere_ok W" "bundle_ok W B" "value_at (codecs W) address_book_to_ipld s c book"
    "vm_sparse (identities_ctx W) s (identities book) m cl"
    "\<And>k v. Add k v \<in> set (changes cl) \<Longrightarrow> fst (bundle_identity f W s v RBT.empty) = Inr ()"
  obtains B' where "bundle_address_book f W s c B = (Inr (), B')" "grows W B B'"
    "\<And>t. bundle_blocks (texts W) B' \<subseteq>\<^sub>m t \<Longrightarrow>
       value_at (codecs W) address_book_to_ipld t c book \<and> vm_sparse (identities_ctx W) t (identities book) m cl"
proof -
  obtain b where b: "require_value W address_book_from_ipld s c = Inr (b, book)" "block_fine (codecs W) c b"
      "\<And>t. t c = Some b \<Longrightarrow> value_at (codecs W) address_book_to_ipld t c book"
    by (rule require_value_ok [OF assms(1) address_book_serde assms(4)]) blast
  obtain B1 where B1: "bundle_vmap_with_cid (identities_ctx W) W s (bundle_identity f W s) (identities book) B = (Inr (), B1)"
      "grows W B B1" "\<And>t. bundle_blocks (texts W) B1 \<subseteq>\<^sub>m t \<Longrightarrow> vm_sparse (identities_ctx W) t (identities book) m cl"
    by (rule ids.version_bundled [OF assms(1,3) ctx_ok(2) [OF assms(2)] ctx_henv(2) assms(5,6)]) blast+
  let ?B2 = "snd (bundle_add (texts W) c b B1)"
  note a = add_ok [OF assms(1) grows_ok [OF B1(2)] b(2)]
  show thesis
  proof (rule that [of ?B2])
    show "bundle_address_book f W s c B = (Inr (), ?B2)" by (simp add: bundle_address_book_def b(1) B1(1))
    show "grows W B ?B2" by (rule grows_trans [OF B1(2) a(1)])
    fix t assume t: "bundle_blocks (texts W) ?B2 \<subseteq>\<^sub>m t"
    have "value_at (codecs W) address_book_to_ipld (bundle_blocks (texts W) ?B2) c book" by (rule b(3)) (rule a(2))
    moreover have "bundle_blocks (texts W) B1 \<subseteq>\<^sub>m t" using a(1) t by (auto simp: grows_def intro: map_le_trans)
    ultimately show "value_at (codecs W) address_book_to_ipld t c book \<and> vm_sparse (identities_ctx W) t (identities book) m cl"
      using B1(3) value_at_mono [OF _ t] by blast
  qed
qed

lemma revocation_bundles:
  assumes "bundler_ok W s"
  shows "fst (bundle_revocation W s v B) = Inr ()"
proof -
  obtain c b where "block_serialize (codecs W) DagCborCodec (\<lambda>x. Some (revocation_to_ipld x)) v = Inr (c, b)"
    by (rule serialized_ok [OF assms revocation_serde]) blast
  then show ?thesis by (simp add: bundle_revocation_def bundle_value_def)
qed

lemma authority_bundled:
  assumes "bundler_ok W s" "sphere_ok W" "bundle_ok W B" "value_at (codecs W) authority_to_ipld s c auth"
    "vm_sparse (delegations_ctx W) s (delegations auth) m cl" "vm_sparse (revocations_ctx W) s (revocations auth) m' cl'"
    "\<And>k v. Add k v \<in> set (changes cl) \<Longrightarrow> fst (bundle_delegation W s v RBT.empty) = Inr ()"
  obtains B' where "bundle_authority W s c B = (Inr (), B')" "grows W B B'"
    "\<And>t. bundle_blocks (texts W) B' \<subseteq>\<^sub>m t \<Longrightarrow> value_at (codecs W) authority_to_ipld t c auth \<and>
       vm_sparse (delegations_ctx W) t (delegations auth) m cl \<and> vm_sparse (revocations_ctx W) t (revocations auth) m' cl'"
proof -
  obtain b where b: "require_value W authority_from_ipld s c = Inr (b, auth)" "block_fine (codecs W) c b"
      "\<And>t. t c = Some b \<Longrightarrow> value_at (codecs W) authority_to_ipld t c auth"
    by (rule require_value_ok [OF assms(1) authority_serde assms(4)]) blast
  obtain B1 where B1: "bundle_vmap_with_cid (delegations_ctx W) W s (bundle_delegation W s) (delegations auth) B = (Inr (), B1)"
      "grows W B B1" "\<And>t. bundle_blocks (texts W) B1 \<subseteq>\<^sub>m t \<Longrightarrow> vm_sparse (delegations_ctx W) t (delegations auth) m cl"
    by (rule dl.version_bundled [OF assms(1,3) ctx_ok(3) [OF assms(2)] ctx_henv(3) assms(5,7)]) blast+
  obtain B2 where B2: "bundle_vmap_with_cid (revocations_ctx W) W s (bundle_revocation W s) (revocations auth) B1 = (Inr (), B2)"
      "grows W B1 B2" "\<And>t. bundle_blocks (texts W) B2 \<subseteq>\<^sub>m t \<Longrightarrow> vm_sparse (revocations_ctx W) t (revocations auth) m' cl'"
    by (rule rl.version_bundled [OF assms(1) grows_ok [OF B1(2)] ctx_ok(4) [OF assms(2)] ctx_henv(4) assms(6)
          revocation_bundles [OF assms(1)]]) blast
  let ?B3 = "snd (bundle_add (texts W) c b B2)"
  note a = add_ok [OF assms(1) grows_ok [OF B2(2)] b(2)]
  show thesis
  proof (rule that [of ?B3])
    show "bundle_authority W s c B = (Inr (), ?B3)" by (simp add: bundle_authority_def b(1) B1(1) B2(1))
    show "grows W B ?B3" by (rule grows_trans [OF grows_trans [OF B1(2) B2(2)] a(1)])
    fix t assume t: "bundle_blocks (texts W) ?B3 \<subseteq>\<^sub>m t"
    have "value_at (codecs W) authority_to_ipld (bundle_blocks (texts W) ?B3) c auth" by (rule b(3)) (rule a(2))
    moreover have t2: "bundle_blocks (texts W) B2 \<subseteq>\<^sub>m t" using a(1) t by (auto simp: grows_def intro: map_le_trans)
    moreover have "bundle_blocks (texts W) B1 \<subseteq>\<^sub>m t" using B2(2) t2 by (auto simp: grows_def intro: map_le_trans)
    ultimately show "value_at (codecs W) authority_to_ipld t c auth \<and>
        vm_sparse (delegations_ctx W) t (delegations auth) m cl \<and> vm_sparse (revocations_ctx W) t (revocations auth) m' cl'"
      using B1(3) B2(3) value_at_mono [OF _ t] by blast
  qed
qed

text \<open>Where a version is, an unchanged part of the next version is too, under the same CID.\<close>

lemma sparse_unchanged:
  assumes "vm_sparse X s c (fst v) (snd v)" "vm_sparse X t c' (fst v) (snd v)"
  shows "vm_sparse X t c (fst v) (snd v)"
  using assms vm_sparse_cid [OF assms] by simp

lemma book_unchanged:
  assumes "value_at (codecs W) address_book_to_ipld s c book" "vm_sparse (identities_ctx W) s (identities book) (fst v) (snd v)"
    "value_at (codecs W) address_book_to_ipld t c' book'" "vm_sparse (identities_ctx W) t (identities book') (fst v) (snd v)"
  shows "value_at (codecs W) address_book_to_ipld t c book" "vm_sparse (identities_ctx W) t (identities book) (fst v) (snd v)"
proof -
  have "book = book'" by (rule address_book_ipld.equality) (simp_all add: vm_sparse_cid [OF assms(2,4)])
  then show "value_at (codecs W) address_book_to_ipld t c book" using assms(3) value_at_cid [OF assms(1), of t c'] by simp
  show "vm_sparse (identities_ctx W) t (identities book) (fst v) (snd v)" by (rule sparse_unchanged [OF assms(2,4)])
qed

lemma authority_unchanged:
  assumes "value_at (codecs W) authority_to_ipld s c auth" "vm_sparse (delegations_ctx W) s (delegations auth) (fst v) (snd v)"
    "vm_sparse (revocations_ctx W) s (revocations auth) (fst w) (snd w)"
    "value_at (codecs W) authority_to_ipld t c' auth'" "vm_sparse (delegations_ctx W) t (delegations auth') (fst v) (snd v)"
    "vm_sparse (revocations_ctx W) t (revocations auth') (fst w) (snd w)"
  shows "value_at (codecs W) authority_to_ipld t c auth"
proof -
  have "auth = auth'"
    by (rule authority_ipld.equality) (simp_all add: vm_sparse_cid [OF assms(2,5)] vm_sparse_cid [OF assms(3,6)])
  then show ?thesis using assms(4) value_at_cid [OF assms(1), of t c'] by simp
qed

abbreviation version_sparse :: "('k::linorder, 'v) hamt_ctx \<Rightarrow> blocks \<Rightarrow> cid \<Rightarrow> ('k, 'v) version \<Rightarrow> bool" where
  "version_sparse X s c v \<equiv> vm_sparse X s c (fst v) (snd v)"

abbreviation body_parts :: "world \<Rightarrow> blocks \<Rightarrow> cid \<Rightarrow> sphere_state \<Rightarrow> sphere_ipld \<Rightarrow> address_book_ipld \<Rightarrow> authority_ipld \<Rightarrow> bool" where
  "body_parts W s \<equiv> body_is W s (version_sparse (content_ctx W) s) (version_sparse (identities_ctx W) s)
     (version_sparse (delegations_ctx W) s) (version_sparse (revocations_ctx W) s)"

lemma body_carried:
  assumes "body_parts W s b \<sigma> sp book auth" "body_sparse W t bp \<sigma>p" "value_at (codecs W) sphere_to_ipld t b sp"
    "st_content \<sigma> = st_content \<sigma>p \<or> version_sparse (content_ctx W) t (content sp) (st_content \<sigma>)"
    "st_identities \<sigma> = st_identities \<sigma>p \<or>
       value_at (codecs W) address_book_to_ipld t (address_book sp) book \<and>
       version_sparse (identities_ctx W) t (identities book) (st_identities \<sigma>)"
    "st_delegations \<sigma> = st_delegations \<sigma>p \<and> st_revocations \<sigma> = st_revocations \<sigma>p \<or>
       value_at (codecs W) authority_to_ipld t (authority sp) auth \<and>
       version_sparse (delegations_ctx W) t (delegations auth) (st_delegations \<sigma>) \<and>
       version_sparse (revocations_ctx W) t (revocations auth) (st_revocations \<sigma>)"
  shows "body_sparse W t b \<sigma>"
proof -
  obtain sp' book' auth' where P: "body_parts W t bp \<sigma>p sp' book' auth'"
    using assms(2) unfolding body_sparse_def by blast
  note S = assms(1) [unfolded body_is_def] and P = P [unfolded body_is_def]
  have c: "version_sparse (content_ctx W) t (content sp) (st_content \<sigma>)"
    using assms(4) S P sparse_unchanged [of "content_ctx W" s "content sp" "st_content \<sigma>" t "content sp'"] by auto
  have i: "value_at (codecs W) address_book_to_ipld t (address_book sp) book"
      "version_sparse (identities_ctx W) t (identities book) (st_identities \<sigma>)"
    using assms(5) S P book_unchanged [of W s "address_book sp" book "st_identities \<sigma>" t "address_book sp'" book'] by auto
  have "version_sparse (delegations_ctx W) t (delegations auth) (st_delegations \<sigma>)"
      "version_sparse (revocations_ctx W) t (revocations auth) (st_revocations \<sigma>)"
    using assms(6) S P sparse_unchanged [of "delegations_ctx W" s "delegations auth" "st_delegations \<sigma>" t "delegations auth'"]
      sparse_unchanged [of "revocations_ctx W" s "revocations auth" "st_revocations \<sigma>" t "revocations auth'"] by auto
  moreover have "value_at (codecs W) authority_to_ipld t (authority sp) auth"
    using assms(6) S P authority_unchanged [of W s "authority sp" auth "st_delegations \<sigma>" "st_revocations \<sigma>" t "authority sp'" auth']
    by auto
  ultimately have "body_parts W t b \<sigma> sp book auth" unfolding body_is_def using S assms(3) c i by blast
  then show ?thesis unfolding body_sparse_def by blast
qed

text \<open>Every entry that the changelogs of a version add can be bundled by itself.\<close>

definition entries_bundle :: "nat \<Rightarrow> world \<Rightarrow> blocks \<Rightarrow> sphere_state \<Rightarrow> bool" where
  "entries_bundle f W s \<sigma> \<longleftrightarrow>
     (\<forall>k v. Add k v \<in> set (changes (snd (st_content \<sigma>))) \<longrightarrow> fst (bundle_memo_with_cid f W s v RBT.empty) = Inr ()) \<and>
     (\<forall>k v. Add k v \<in> set (changes (snd (st_identities \<sigma>))) \<longrightarrow> fst (bundle_identity f W s v RBT.empty) = Inr ()) \<and>
     (\<forall>k v. Add k v \<in> set (changes (snd (st_delegations \<sigma>))) \<longrightarrow> fst (bundle_delegation W s v RBT.empty) = Inr ())"

lemma effective_none: "mut_changes (effective_changes v \<mu>) = [] \<Longrightarrow> step_version \<mu> v = v"
  by (auto simp: effective_changes_def step_version_def split: if_splits)

abbreviation held_by :: "world \<Rightarrow> block_bundle \<Rightarrow> (blocks \<Rightarrow> bool) \<Rightarrow> bool" where
  "held_by W B P \<equiv> \<forall>t. bundle_blocks (texts W) B \<subseteq>\<^sub>m t \<longrightarrow> P t"

lemma held_grows: "held_by W B P \<Longrightarrow> grows W B B' \<Longrightarrow> held_by W B' P"
  by (auto simp: grows_def intro: map_le_trans)

text \<open>The parts of a version: each is bundled, or it did not change.\<close>

lemma content_part:
  assumes "bundler_ok W s" "sphere_ok W" "bundle_ok W B" "v = step_version \<mu> vp" "version_sparse (content_ctx W) s c v"
    "\<And>k x. Add k x \<in> set (changes (snd v)) \<Longrightarrow> fst (bundle_memo_with_cid f W s x RBT.empty) = Inr ()"
  obtains B' where "(if mut_changes (effective_changes vp \<mu>) \<noteq> []
      then bundle_vmap_with_cid (content_ctx W) W s (bundle_memo_with_cid f W s) c B else (Inr (), B)) = (Inr (), B')"
    "grows W B B'" "held_by W B' (\<lambda>t. v = vp \<or> version_sparse (content_ctx W) t c v)"
proof (cases "mut_changes (effective_changes vp \<mu>) = []")
  case True
  then show thesis using effective_none [of vp \<mu>] assms(3,4) by (intro that [of B]) (auto simp: grows_refl)
next
  case False
  obtain B' where "bundle_vmap_with_cid (content_ctx W) W s (bundle_memo_with_cid f W s) c B = (Inr (), B')" "grows W B B'"
      "\<And>t. bundle_blocks (texts W) B' \<subseteq>\<^sub>m t \<Longrightarrow> version_sparse (content_ctx W) t c v"
    by (rule links.version_bundled [OF assms(1,3) ctx_ok(1) [OF assms(2)] ctx_henv(1) assms(5,6)]) blast+
  with False show thesis by (intro that [of B']) auto
qed

lemma book_part:
  assumes "bundler_ok W s" "sphere_ok W" "bundle_ok W B" "v = step_version \<mu> vp" "value_at (codecs W) address_book_to_ipld s c book"
    "version_sparse (identities_ctx W) s (identities book) v"
    "\<And>k x. Add k x \<in> set (changes (snd v)) \<Longrightarrow> fst (bundle_identity f W s x RBT.empty) = Inr ()"
  obtains B' where "(if mut_changes (effective_changes vp \<mu>) \<noteq> [] then bundle_address_book f W s c B else (Inr (), B)) = (Inr (), B')"
    "grows W B B'" "held_by W B' (\<lambda>t. v = vp \<or>
       value_at (codecs W) address_book_to_ipld t c book \<and> version_sparse (identities_ctx W) t (identities book) v)"
proof (cases "mut_changes (effective_changes vp \<mu>) = []")
  case True
  then show thesis using effective_none [of vp \<mu>] assms(3,4) by (intro that [of B]) (auto simp: grows_refl)
next
  case False
  obtain B' where "bundle_address_book f W s c B = (Inr (), B')" "grows W B B'"
      "\<And>t. bundle_blocks (texts W) B' \<subseteq>\<^sub>m t \<Longrightarrow>
        value_at (codecs W) address_book_to_ipld t c book \<and> version_sparse (identities_ctx W) t (identities book) v"
    by (rule book_bundled [OF assms(1-3,5-7)]) blast+
  with False show thesis by (intro that [of B']) auto
qed

lemma authority_part:
  assumes "bundler_ok W s" "sphere_ok W" "bundle_ok W B" "v = step_version \<mu> vp" "w = step_version \<nu> wp"
    "value_at (codecs W) authority_to_ipld s c auth" "version_sparse (delegations_ctx W) s (delegations auth) v"
    "version_sparse (revocations_ctx W) s (revocations auth) w"
    "\<And>k x. Add k x \<in> set (changes (snd v)) \<Longrightarrow> fst (bundle_delegation W s x RBT.empty) = Inr ()"
  obtains B' where "(if mut_changes (effective_changes vp \<mu>) \<noteq> [] \<or> mut_changes (effective_changes wp \<nu>) \<noteq> []
      then bundle_authority W s c B else (Inr (), B)) = (Inr (), B')" "grows W B B'"
    "held_by W B' (\<lambda>t. v = vp \<and> w = wp \<or> value_at (codecs W) authority_to_ipld t c auth \<and>
       version_sparse (delegations_ctx W) t (delegations auth) v \<and> version_sparse (revocations_ctx W) t (revocations auth) w)"
proof (cases "mut_changes (effective_changes vp \<mu>) = [] \<and> mut_changes (effective_changes wp \<nu>) = []")
  case True
  then show thesis using effective_none [of vp \<mu>] effective_none [of wp \<nu>] assms(3-5)
    by (intro that [of B]) (auto simp: grows_refl)
next
  case False
  obtain B' where "bundle_authority W s c B = (Inr (), B')" "grows W B B'"
      "\<And>t. bundle_blocks (texts W) B' \<subseteq>\<^sub>m t \<Longrightarrow> value_at (codecs W) authority_to_ipld t c auth \<and>
        version_sparse (delegations_ctx W) t (delegations auth) v \<and> version_sparse (revocations_ctx W) t (revocations auth) w"
    by (rule authority_bundled [OF assms(1-3,6-9)]) blast+
  with False show thesis by (intro that [of B']) auto
qed

lemma bundle_sphere_ok:
  assumes "bundler_ok W s" "sphere_ok W" "bundle_ok W B" "value_at (codecs W) memo_to_ipld s c m" "parent m = Some p"
    "value_at (codecs W) memo_to_ipld s p mp" "body_sparse W s (body mp) \<sigma>p" "body_sparse W s (body m) (step_sphere \<mu> \<sigma>p)"
    "get_first_header (header_str Author) m = Some d" "authored d \<mu>" "entries_bundle f W s (step_sphere \<mu> \<sigma>p)"
  obtains B' where "bundle_sphere f W s (bundle_memo_with_cid f W s) c m B = (Inr (), B')" "grows W B B'"
    "held_by W B' (\<lambda>t. body_sparse W t (body mp) \<sigma>p \<longrightarrow> body_sparse W t (body m) (step_sphere \<mu> \<sigma>p))"
proof -
  let ?\<sigma> = "step_sphere \<mu> \<sigma>p"
  note env = sphere_ok_env [OF assms(2)]
  obtain sp book auth where S: "body_parts W s (body m) ?\<sigma> sp book auth"
    using assms(8) unfolding body_sparse_def by blast
  note S' = S [unfolded body_is_def]
  have dm: "derive_mutation W c s = Inr (effective \<sigma>p \<mu>)" by (rule derive_mutation_ok [OF assms(2,4-10)])
  have tb: "to_body W c s = Inr sp"
    using S' load_value_ok [OF env sphere_serde, of s "body m" sp]
    by (simp add: to_body_def to_memo_def load_value_ok [OF env memo_serde assms(4)])
  obtain b where b: "require_block (body m) s = Inr b" "\<And>t. t (body m) = Some b \<Longrightarrow> value_at (codecs W) sphere_to_ipld t (body m) sp"
    by (rule value_at_serialized [where f = sphere_to_ipld and c = "body m" and x = sp and s = s and W = W]) (use S' in blast)+
  let ?B1 = "snd (bundle_add (texts W) (body m) b B)"
  note a = add_ok [OF assms(1,3) stored_fine [OF assms(1) b(1)]]
  have h1: "held_by W ?B1 (\<lambda>t. value_at (codecs W) sphere_to_ipld t (body m) sp)"
    using b(2) [of "bundle_blocks (texts W) ?B1"] a(2) value_at_mono by blast
  obtain B2 where B2: "(if mut_changes (effective_changes (st_content \<sigma>p) (sm_content \<mu>)) \<noteq> []
        then bundle_vmap_with_cid (content_ctx W) W s (bundle_memo_with_cid f W s) (content sp) ?B1 else (Inr (), ?B1)) = (Inr (), B2)"
      "grows W ?B1 B2"
      "held_by W B2 (\<lambda>t. st_content ?\<sigma> = st_content \<sigma>p \<or> version_sparse (content_ctx W) t (content sp) (st_content ?\<sigma>))"
    by (rule content_part [OF assms(1,2) grows_ok [OF a(1)], where v = "st_content ?\<sigma>" and vp = "st_content \<sigma>p" and \<mu> = "sm_content \<mu>"
          and c = "content sp" and f = f])
      (use S' assms(11) in \<open>auto simp: step_sphere_def entries_bundle_def\<close>)
  obtain B3 where B3: "(if mut_changes (effective_changes (st_delegations \<sigma>p) (sm_delegations \<mu>)) \<noteq> [] \<or>
          mut_changes (effective_changes (st_revocations \<sigma>p) (sm_revocations \<mu>)) \<noteq> []
        then bundle_authority W s (authority sp) B2 else (Inr (), B2)) = (Inr (), B3)" "grows W B2 B3"
      "held_by W B3 (\<lambda>t. st_delegations ?\<sigma> = st_delegations \<sigma>p \<and> st_revocations ?\<sigma> = st_revocations \<sigma>p \<or>
        value_at (codecs W) authority_to_ipld t (authority sp) auth \<and>
        version_sparse (delegations_ctx W) t (delegations auth) (st_delegations ?\<sigma>) \<and>
        version_sparse (revocations_ctx W) t (revocations auth) (st_revocations ?\<sigma>))"
    by (rule authority_part [OF assms(1,2) grows_ok [OF B2(2)], where v = "st_delegations ?\<sigma>" and vp = "st_delegations \<sigma>p"
          and \<mu> = "sm_delegations \<mu>" and w = "st_revocations ?\<sigma>" and wp = "st_revocations \<sigma>p" and \<nu> = "sm_revocations \<mu>"
          and c = "authority sp" and auth = auth])
      (use S' assms(11) in \<open>auto simp: step_sphere_def entries_bundle_def\<close>)
  obtain B4 where B4: "(if mut_changes (effective_changes (st_identities \<sigma>p) (sm_identities \<mu>)) \<noteq> []
        then bundle_address_book f W s (address_book sp) B3 else (Inr (), B3)) = (Inr (), B4)" "grows W B3 B4"
      "held_by W B4 (\<lambda>t. st_identities ?\<sigma> = st_identities \<sigma>p \<or> value_at (codecs W) address_book_to_ipld t (address_book sp) book \<and>
        version_sparse (identities_ctx W) t (identities book) (st_identities ?\<sigma>))"
    by (rule book_part [OF assms(1,2) grows_ok [OF B3(2)], where v = "st_identities ?\<sigma>" and vp = "st_identities \<sigma>p"
          and \<mu> = "sm_identities \<mu>" and c = "address_book sp" and book = book and f = f])
      (use S' assms(11) in \<open>auto simp: step_sphere_def entries_bundle_def\<close>)
  have g: "grows W ?B1 B4" "grows W B2 B4" using B2(2) B3(2) B4(2) by (blast intro: grows_trans)+
  show thesis
  proof (rule that [of B4])
    show "bundle_sphere f W s (bundle_memo_with_cid f W s) c m B = (Inr (), B4)"
      by (simp only: bundle_sphere_def dm tb rbind_simps sum.case prod.case bundle_block_def b(1) sbind_simps effective_def
          sphere_mutation.select_convs B2(1) B3(1) B4(1))
    show "grows W B B4" by (rule grows_trans [OF a(1) g(1)])
    show "held_by W B4 (\<lambda>t. body_sparse W t (body mp) \<sigma>p \<longrightarrow> body_sparse W t (body m) ?\<sigma>)"
      using held_grows [OF h1 g(1)] held_grows [OF B2(3) g(2)] held_grows [OF B3(3) B4(2)] B4(3)
      by (blast intro: body_carried [OF S])
  qed
qed

lemma bundle_version_ok:
  assumes "bundler_ok W s" "sphere_ok W" "bundle_ok W B" "value_at (codecs W) memo_to_ipld s c m" "parent m = Some p"
    "value_at (codecs W) memo_to_ipld s p mp" "body_sparse W s (body mp) \<sigma>p" "body_sparse W s (body m) (step_sphere \<mu> \<sigma>p)"
    "get_first_header (header_str Author) m = Some d" "authored d \<mu>" "entries_bundle f W s (step_sphere \<mu> \<sigma>p)"
    "memo_content_type m = Some SphereType"
  obtains B' where "bundle_memo (Suc f) W s m B = (Inr (), B')" "grows W B B'"
    "held_by W B' (\<lambda>t. value_at (codecs W) memo_to_ipld t c m \<and>
       (body_sparse W t (body mp) \<sigma>p \<longrightarrow> body_sparse W t (body m) (step_sphere \<mu> \<sigma>p)))"
proof -
  obtain b where b: "block_serialize (codecs W) DagCborCodec (\<lambda>x. Some (memo_to_ipld x)) m = Inr (c, b)" "require_block c s = Inr b"
      "\<And>t. t c = Some b \<Longrightarrow> value_at (codecs W) memo_to_ipld t c m"
    by (rule value_at_serialized [where f = memo_to_ipld and c = c and x = m and s = s and W = W]) (use assms(4) in blast)+
  let ?B1 = "snd (bundle_add (texts W) c b B)"
  note a = add_ok [OF assms(1,3) stored_fine [OF assms(1) b(2)]]
  have h1: "held_by W ?B1 (\<lambda>t. value_at (codecs W) memo_to_ipld t c m)"
    using b(3) [of "bundle_blocks (texts W) ?B1"] a(2) value_at_mono by blast
  obtain B' where B': "bundle_sphere f W s (bundle_memo_with_cid f W s) c m ?B1 = (Inr (), B')" "grows W ?B1 B'"
      "held_by W B' (\<lambda>t. body_sparse W t (body mp) \<sigma>p \<longrightarrow> body_sparse W t (body m) (step_sphere \<mu> \<sigma>p))"
    by (rule bundle_sphere_ok [OF assms(1,2) grows_ok [OF a(1)] assms(4-11)])
  obtain ct where "get_first_header (header_str ContentType) m = Some ct" "content_type_from_str ct = SphereType"
    using assms(12) by (auto simp: memo_content_type_def)
  then have "bundle_memo (Suc f) W s m B = (Inr (), B')" by (simp only: bundle_memo_Suc b(1) sum.case prod.case option.case simp_thms if_True B'(1))
  then show thesis using grows_trans [OF a(1) B'(2)] held_grows [OF h1 B'(2)] B'(3) by (intro that [of B']) blast+
qed

section \<open>Series of versions\<close>

text \<open>The versions are those of a sphere, and the entries that they add can be bundled.\<close>

fun series_bundles :: "nat \<Rightarrow> world \<Rightarrow> blocks \<Rightarrow> sphere_state \<Rightarrow> (cid \<times> memo \<times> sphere_mutation) list \<Rightarrow> bool" where
  "series_bundles f W s \<sigma> [] = True"
| "series_bundles f W s \<sigma> ((c, m, \<mu>) # rs) =
     (memo_content_type m = Some SphereType \<and> entries_bundle f W s (step_sphere \<mu> \<sigma>) \<and>
      series_bundles f W s (step_sphere \<mu> \<sigma>) rs)"

lemma bundle_memos_append:
  "bundle_memos f W s (xs @ ys) B = sbind (bundle_memos f W s xs B) (\<lambda>_ B. bundle_memos f W s ys B)"
  by (induction f W s xs B rule: bundle_memos.induct) (auto simp: sbind_def split: prod.split sum.split)

lemma bundle_series_ok:
  assumes "bundler_ok W s" "sphere_ok W"
  shows "value_at (codecs W) memo_to_ipld s p mp \<Longrightarrow> body_sparse W s (body mp) \<sigma>p \<Longrightarrow>
    revisions W s KS KC (p, mp, \<sigma>p) rs \<Longrightarrow> series_bundles f W s \<sigma>p rs \<Longrightarrow> bundle_ok W B \<Longrightarrow>
    \<exists>B'. bundle_memos (Suc f) W s (rev (versions_of rs)) B = (Inr (), B') \<and> grows W B B' \<and>
      held_by W B' (\<lambda>t. body_sparse W t (body mp) \<sigma>p \<longrightarrow> revisions W t KS KC (p, mp, \<sigma>p) rs)"
proof (induction rs arbitrary: p mp \<sigma>p B)
  case Nil
  then show ?case by (simp add: grows_refl)
next
  case (Cons r rs)
  obtain c m \<mu> where r: "r = (c, m, \<mu>)" by (cases r)
  note R = Cons.prems(3) [unfolded r revisions.simps] and E = Cons.prems(4) [unfolded r series_bundles.simps]
  obtain d where d: "get_first_header (header_str Author) m = Some d" "authored d \<mu>" using R by blast
  let ?\<sigma> = "step_sphere \<mu> \<sigma>p"
  have "\<exists>B'. bundle_memos (Suc f) W s (rev (versions_of rs)) B = (Inr (), B') \<and> grows W B B' \<and>
      held_by W B' (\<lambda>t. body_sparse W t (body m) ?\<sigma> \<longrightarrow> revisions W t KS KC (c, m, ?\<sigma>) rs)"
    by (rule Cons.IH) (use R E Cons.prems(5) in blast)+
  then obtain B1 where B1: "bundle_memos (Suc f) W s (rev (versions_of rs)) B = (Inr (), B1)" "grows W B B1"
      "held_by W B1 (\<lambda>t. body_sparse W t (body m) ?\<sigma> \<longrightarrow> revisions W t KS KC (c, m, ?\<sigma>) rs)"
    by blast
  obtain B2 where B2: "bundle_memo (Suc f) W s m B1 = (Inr (), B2)" "grows W B1 B2"
      "held_by W B2 (\<lambda>t. value_at (codecs W) memo_to_ipld t c m \<and>
        (body_sparse W t (body mp) \<sigma>p \<longrightarrow> body_sparse W t (body m) ?\<sigma>))"
    by (rule bundle_version_ok [OF assms grows_ok [OF B1(2)], of c m p mp \<sigma>p \<mu> d f]) (use R E d Cons.prems(1,2) in auto)
  have "held_by W B2 (\<lambda>t. body_sparse W t (body mp) \<sigma>p \<longrightarrow> revisions W t KS KC (p, mp, \<sigma>p) (r # rs))"
    using held_grows [OF B1(3) B2(2)] B2(3) R unfolding r revisions.simps by blast
  moreover have "bundle_memos (Suc f) W s (rev (versions_of (r # rs))) B = (Inr (), B2)"
    using B1(1) B2(1) by (simp add: r bundle_memos_append del: bundle_memo.simps)
  ultimately show ?case using grows_trans [OF B1(2) B2(2)] by blast
qed

section \<open>Loading a bundle\<close>

lemma load_entries_put:
  "cid_text_ok T \<Longrightarrow> load_entries E T (map (\<lambda>(c, b). (cid_to_string T c, b)) es) db = put_blocks E T es db"
  by (induction es arbitrary: db) (auto simp: cid_text_ok_def Let_def sbind_def split: prod.split sum.split)

lemma load_into_ok:
  assumes "env_ok (codecs W)" "cid_text_ok (texts W)" "bundle_ok W B" "store_ok (codecs W) (block_store db)"
  obtains db' where "load_into (codecs W) (texts W) B db = (Inr (), db')" "block_store db \<subseteq>\<^sub>m block_store db'"
    "bundle_blocks (texts W) B \<subseteq>\<^sub>m block_store db'" "store_ok (codecs W) (block_store db')"
proof -
  let ?E = "codecs W" and ?T = "texts W"
  define es where "es = map (\<lambda>(k, b). (the (cid_from_string ?T k), b)) (RBT.entries B)"
  have entry: "\<exists>c. k = cid_to_string ?T c \<and> block_fine ?E c b" if "(k, b) \<in> set (RBT.entries B)" for k b
    using that assms(3) map_of_entries [of B] distinct_entries [of B] unfolding bundle_ok_def by (metis map_of_is_SomeI)
  have T: "cid_from_string ?T (cid_to_string ?T c) = Some c" for c using assms(2) by (simp add: cid_text_ok_def)
  have "map (\<lambda>(c, b). (cid_to_string ?T c, b)) es = RBT.entries B"
    unfolding es_def map_map by (rule map_idI) (use entry T in force)
  then have ld: "load_into ?E ?T B db = put_blocks ?E ?T es db"
    using load_entries_put [OF assms(2), of ?E es db] by (simp add: load_into_def)
  have fine: "block_fine ?E c b" if "(c, b) \<in> set es" for c b
    using that entry T unfolding es_def by force
  obtain m where m: "put_blocks ?E ?T es db = (Inr (), db\<lparr>block_store := block_store db ++ map_of (rev es), link_store := m\<rparr>)"
    using put_blocks_ok [of ?E es ?T db] fine assms(1) unfolding block_fine_def env_ok_def by blast
  have ok: "store_ok ?E (map_of (rev es))"
    unfolding store_ok_def using fine map_of_SomeD [of "rev es"] by (auto simp: block_fine_def)
  have "map_of (rev es) c = Some b" if b: "bundle_blocks ?T B c = Some b" for c b
  proof -
    have "(cid_to_string ?T c, b) \<in> set (RBT.entries B)"
      using b map_of_entries [of B] unfolding bundle_blocks_def by (metis map_of_SomeD)
    then have "(\<lambda>(k, b). (the (cid_from_string ?T k), b)) (cid_to_string ?T c, b) \<in> set es"
      unfolding es_def set_map by (rule imageI)
    then have "(c, b) \<in> set es" by (simp add: T)
    then have "c \<in> fst ` set (rev es)" by force
    then obtain b' where b': "map_of (rev es) c = Some b'" by (metis map_of_eq_None_iff not_Some_eq)
    then have "block_fine ?E c b'" using fine map_of_SomeD by fastforce
    moreover have "block_fine ?E c b" using fine \<open>(c, b) \<in> set es\<close> by blast
    ultimately have "b' = b" using assms(1) by (simp add: block_fine_def env_ok_def hash_ok_def inj_eq)
    with b' show ?thesis by simp
  qed
  then have le: "bundle_blocks ?T B \<subseteq>\<^sub>m map_of (rev es)" by (auto simp: map_le_def)
  have h: "hash_ok ?E" using assms(1) by (simp add: env_ok_def)
  show thesis
    using ld m union_le(1,3) [OF h assms(4) ok] map_le_trans [OF le union_le(2) [OF h assms(4) ok]]
    by (intro that [of "db\<lparr>block_store := block_store db ++ map_of (rev es), link_store := m\<rparr>"]) simp_all
qed

section \<open>From one store to another\<close>

text \<open>The bundle of a series, loaded where the version before the series is complete.\<close>

lemma bundle_until_ok:
  assumes "bundler_ok W s" "sphere_ok W" "lineage (codecs W) s ((p, mp) # hs)" "body_sparse W s (body mp) \<sigma>p"
    "revisions W s KS KC (p, mp, \<sigma>p) rs" "rs \<noteq> []" "length rs < Suc f" "series_bundles f W s \<sigma>p rs"
  obtains B where "bundle_until_ancestor (Suc f) W (fst (last rs)) (Some p) s = Inr B" "bundle_ok W B"
    "held_by W B (\<lambda>t. body_sparse W t (body mp) \<sigma>p \<longrightarrow> revisions W t KS KC (p, mp, \<sigma>p) rs)"
proof -
  note env = sphere_ok_env [OF assms(2)]
  have mp: "value_at (codecs W) memo_to_ipld s p mp" using assms(3) by simp
  obtain B where B: "bundle_memos (Suc f) W s (rev (versions_of rs)) RBT.empty = (Inr (), B)" "grows W RBT.empty B"
      "held_by W B (\<lambda>t. body_sparse W t (body mp) \<sigma>p \<longrightarrow> revisions W t KS KC (p, mp, \<sigma>p) rs)"
    using bundle_series_ok [OF assms(1,2) mp assms(4,5,8) bundle_ok_empty] by blast
  have "fst (hd (rev (versions_of rs))) = fst (last rs)" using assms(6) by (simp add: hd_rev last_map case_prod_beta)
  then have "slice_stream (Suc f) (codecs W) s (without_past (slice (fst (last rs)) (Some p))) = (rev (versions_of rs), Inr ())"
    using stream_exclude [OF env lineage_revisions [OF assms(3,5)], of "Suc f"] assms(6,7)
    by (simp add: slice_stream_def slice_def without_past_def del: timeline_stream.simps)
  then have "bundle_until_ancestor (Suc f) W (fst (last rs)) (Some p) s = Inr B"
    using B(1) by (simp add: bundle_until_ancestor_def from_timeslice_def bundled_def)
  then show thesis using that grows_ok [OF B(2)] B(3) by blast
qed

end
