(* ===== verification/Bundle_Spec.thy ===== *)
theory Bundle_Spec
  imports Bundle_Rep Example_Sphere
begin

text \<open>
  The property of bundles, with a witness beside the sphere of \<open>Example_Sphere\<close>: what is left out
  of a bundle can be rebuilt from the version before.
\<close>

section \<open>A sphere with an entry to bundle\<close>

lemma ex_bundler_ok:
  assumes "store_ok ex_env s"
  shows "bundler_ok ex_world s"
proof -
  have "references ex_env C b \<noteq> None" for C b
    by (auto simp: ex_env_def split: codec.split option.split prod.split list.split)
  then show ?thesis using assms ex_cid_text_ok sphere_ok_env [OF ex_sphere_ok] by (simp add: bundler_ok_def block_fine_def store_ok_def)
qed

lemma ex_header_names: "to_lowercase ''Author'' \<noteq> to_lowercase ''Content-Type''"
  by code_simp

text \<open>A memo without a content type, whose body is a block of the store.\<close>

lemma ex_plain_memo:
  obtains e s where "store_ok ex_env s" "\<And>t. s \<subseteq>\<^sub>m t \<Longrightarrow> fst (bundle_memo_with_cid 2 ex_world t e RBT.empty) = Inr ()"
proof -
  let ?leaf = "\<lparr>parent = None, headers = [], body = Cid 113 []\<rparr>"
  have env: "env_ok ex_env" using sphere_ok_env [OF ex_sphere_ok] by simp
  obtain c0 s0 where s0: "ex_memo_at s0 c0 ?leaf" "store_ok ex_env s0"
    by (rule save_value_ok [OF env store_ok_empty memo_serde, of ?leaf])
  let ?m = "\<lparr>parent = None, headers = [], body = c0\<rparr>"
  obtain e s where s: "ex_memo_at s e ?m" "s0 \<subseteq>\<^sub>m s" "store_ok ex_env s"
    by (rule save_value_ok [OF env s0(2) memo_serde, of ?m])
  have "fst (bundle_memo_with_cid 2 ex_world t e RBT.empty) = Inr ()" if t: "s \<subseteq>\<^sub>m t" for t
  proof -
    have ld: "load_value ex_env memo_from_ipld e t = Inr ?m" by (rule load_value_ok [OF env memo_serde value_at_mono [OF s(1) t]])
    obtain b where "block_serialize (codecs ex_world) DagCborCodec (\<lambda>x. Some (memo_to_ipld x)) ?m = Inr (e, b)"
      by (rule value_at_serialized [where f = memo_to_ipld and c = e and x = ?m and s = s and W = ex_world]) (use s(1) in simp, blast)
    moreover obtain b0 where "require_block c0 t = Inr b0"
      by (rule value_at_serialized [where f = memo_to_ipld and c = c0 and x = ?leaf and s = t and W = ex_world])
        (use value_at_mono [OF s0(1) map_le_trans [OF s(2) t]] in simp, blast)
    ultimately show ?thesis
      using ld unfolding numeral_2_eq_2 bundle_memo_with_cid_def bundle_memo_Suc by (simp add: get_first_header_def bundle_block_def)
  qed
  with s(3) that show thesis by blast
qed

text \<open>C9: the versions of a sphere after some version, bundled in one store and loaded into
  another that has that version, can be hydrated there: the bundle is made and loaded without
  an error, and the last version becomes complete.\<close>

theorem bundle_hydrates:
  assumes "bundler_ok W s" "sphere_ok W" "universe_ok W KS KC"
    "lineage (codecs W) s ((p, mp) # hs)" "body_sparse W s (body mp) \<sigma>p" "revisions W s KS KC (p, mp, \<sigma>p) rs"
    "series_bundles f W s \<sigma>p rs" "rs \<noteq> []" "length rs < f"
    "store_ok (codecs W) (block_store db)" "base_at W (block_store db) KS KC (p, mp, \<sigma>p)"
    "lineage (codecs W) (block_store db) ((p, mp) # hs')"
  shows "\<exists>B db' s'. bundle_until_ancestor (Suc f) W (fst (last rs)) (Some p) s = Inr B \<and>
    load_into (codecs W) (texts W) B db = (Inr (), db') \<and>
    hydrate_timeslice f W (without_past (slice (fst (last rs)) (Some p))) (block_store db') = (Inr (), s') \<and>
    body_at W s' (body (fst (snd (last rs)))) (final_state rs \<sigma>p)"
proof -
  note env = sphere_ok_env [OF assms(2)]
  have f: "length rs < Suc f" using assms(9) by simp
  obtain B where B: "bundle_until_ancestor (Suc f) W (fst (last rs)) (Some p) s = Inr B" "bundle_ok W B"
      "held_by W B (\<lambda>t. body_sparse W t (body mp) \<sigma>p \<longrightarrow> revisions W t KS KC (p, mp, \<sigma>p) rs)"
    by (rule bundle_until_ok [OF assms(1,2,4,5,6,8) f assms(7)])
  have T: "cid_text_ok (texts W)" using assms(1) by (simp add: bundler_ok_def)
  obtain db' where db': "load_into (codecs W) (texts W) B db = (Inr (), db')" "block_store db \<subseteq>\<^sub>m block_store db'"
      "bundle_blocks (texts W) B \<subseteq>\<^sub>m block_store db'" "store_ok (codecs W) (block_store db')"
    by (rule load_into_ok [OF env T B(2) assms(10)])
  have base: "base_at W (block_store db') KS KC (p, mp, \<sigma>p)" by (rule base_at_mono [OF assms(11) db'(2)])
  then have "body_sparse W (block_store db') (body mp) \<sigma>p" using body_at_sparse [OF db'(4)] by (simp add: base_at_def)
  then have rs: "revisions W (block_store db') KS KC (p, mp, \<sigma>p) rs" using B(3) db'(3) by blast
  obtain s' where s': "hydrate_all W (map fst rs) (block_store db') = (Inr (), s')" "base_at W s' KS KC (last_version (p, mp, \<sigma>p) rs)"
    using hydrate_all_ok [OF assms(2,3) db'(4) base rs] by blast
  have "hydrate_timeslice f W (without_past (slice (fst (last rs)) (Some p))) (block_store db') = (Inr (), s')"
    using series_exclude [OF env lineage_mono [OF assms(12) db'(2)] rs assms(8,9)] s'(1) by (simp add: hydrate_timeslice_def)
  moreover have "body_at W s' (body (fst (snd (last rs)))) (final_state rs \<sigma>p)"
    using s'(2) assms(8) by (simp add: base_at_def last_version_def)
  ultimately show ?thesis using B(1) db'(1) by blast
qed

theorem bundle_hydrates_witness:
  "\<exists>g c (m :: memo) e s db B db' s'. bundle_until_ancestor 3 ex_world c (Some g) s = Inr B \<and>
     load_into (codecs ex_world) (texts ex_world) B db = (Inr (), db') \<and>
     hydrate_timeslice 2 ex_world (without_past (slice c (Some g))) (block_store db') = (Inr (), s') \<and>
     body_at ex_world s' (body m) (step_sphere (ex_put ''a'' e) (empty_sphere ex_owner))"
proof -
  obtain e s1 where e: "store_ok ex_env s1" "\<And>t. s1 \<subseteq>\<^sub>m t \<Longrightarrow> fst (bundle_memo_with_cid 2 ex_world t e RBT.empty) = Inr ()"
    by (rule ex_plain_memo) blast
  obtain g mg s2 where s2: "s1 \<subseteq>\<^sub>m s2" "store_ok ex_env s2" "base_at ex_world s2 ex_slugs {} (g, mg, empty_sphere ex_owner)" "parent mg = None"
    by (rule ex_genesis [OF e(1)])
  let ?\<mu> = "ex_put ''a'' e" let ?\<sigma> = "step_sphere ?\<mu> (empty_sphere ex_owner)"
  obtain c' m' s3 where s3: "s2 \<subseteq>\<^sub>m s3" "store_ok ex_env s3" "base_at ex_world s3 ex_slugs {} (c', m', ?\<sigma>)"
    by (rule ex_revise [OF s2(2,3), of "''a''" e]) (simp, blast)
  let ?m = "\<lparr>parent = Some g, headers = [(header_str Author, ex_owner), (header_str ContentType, content_type_str SphereType)], body = body m'\<rparr>"
  obtain c s where s: "ex_memo_at s c ?m" "s3 \<subseteq>\<^sub>m s" "store_ok ex_env s"
    by (rule save_value_ok [OF _ s3(2) memo_serde, of ?m]) (use sphere_ok_env [OF ex_sphere_ok] in simp, blast)
  have b: "bundler_ok ex_world s" by (rule ex_bundler_ok [OF s(3)])
  have le: "s1 \<subseteq>\<^sub>m s" "s2 \<subseteq>\<^sub>m s" by (blast intro: map_le_trans s2(1) s3(1) s(2))+
  have sp: "body_sparse ex_world s (body m') ?\<sigma>"
    using body_sparse_mono [OF body_at_sparse s(2)] s3(2,3) by (simp add: base_at_def)
  have h: "get_first_header (header_str Author) ?m = Some ex_owner" "memo_content_type ?m = Some SphereType"
    using ex_header_names by (simp_all add: memo_content_type_def get_first_header_def content_type_from_str_def)
  have r: "revisions ex_world s ex_slugs {} (g, mg, empty_sphere ex_owner) [(c, ?m, ?\<mu>)]"
    using s(1) sp h(1) ex_edit_in [of "''a''" e] ex_edit_authored by auto
  have l: "lineage (codecs ex_world) t ((g, mg) # [])" "base_at ex_world t ex_slugs {} (g, mg, empty_sphere ex_owner)" if "s2 \<subseteq>\<^sub>m t" for t
    using base_at_mono [OF s2(3) that] s2(4) by (simp_all add: base_at_def)
  have g: "body_sparse ex_world s (body mg) (empty_sphere ex_owner)"
    using l(2) [OF le(2)] body_at_sparse [of ex_world s] s(3) by (simp add: base_at_def)
  have sb: "series_bundles 2 ex_world s (empty_sphere ex_owner) [(c, ?m, ?\<mu>)]"
    using h(2) e(2) [OF le(1)]
    by (auto simp: entries_bundle_def step_sphere_def step_version_def ex_put_def mutation_set_def vmap_mutation_new_def
        sphere_mutation_new_def empty_sphere_def changelog_default_def)
  let ?db = "sphere_db_new\<lparr>block_store := s2\<rparr>"
  have db: "store_ok (codecs ex_world) (block_store ?db)" "base_at ex_world (block_store ?db) ex_slugs {} (g, mg, empty_sphere ex_owner)"
      "lineage (codecs ex_world) (block_store ?db) ((g, mg) # [])"
    using l [OF map_le_refl] s2(2) by simp_all
  have "\<exists>B db' s'. bundle_until_ancestor 3 ex_world c (Some g) s = Inr B \<and>
     load_into (codecs ex_world) (texts ex_world) B ?db = (Inr (), db') \<and>
     hydrate_timeslice 2 ex_world (without_past (slice c (Some g))) (block_store db') = (Inr (), s') \<and>
     body_at ex_world s' (body ?m) ?\<sigma>"
    using bundle_hydrates [OF b ex_sphere_ok ex_universe l(1) [OF le(2)] g r sb _ _ db] by (simp del: revisions.simps)
  then show ?thesis by blast
qed

end
