(* ===== verification/Sphere_Context.thy ===== *)
theory Sphere_Context
  imports Sphere_Authority Body_Chunk Block_Stream
begin

text \<open>
  Sphere contexts and cursors (\<^verbatim>\<open>noosphere-core/src/context/context.rs\<close>, \<^verbatim>\<open>context/has.rs\<close>,
  \<^verbatim>\<open>context/internal.rs\<close>, \<^verbatim>\<open>context/cursor.rs\<close>, \<^verbatim>\<open>context/content\<close>, \<^verbatim>\<open>context/petname\<close>,
  \<^verbatim>\<open>context/authority\<close>, \<^verbatim>\<open>context/replication\<close>, \<^verbatim>\<open>authority/author.rs\<close>): an author's session
  with a sphere in a database. Writes gather in a mutation until they are saved. A cursor is a
  context seen at one version or at the latest; the traits for reading and writing are given on
  cursors, and a plain context is a cursor that is not mounted. The lock around a context makes
  every operation a state transformer. A gateway is reached through a client, which is an
  argument of the model: what it answers is not known.
\<close>

section \<open>Sessions\<close>

datatype access = ReadWrite | ReadOnly

record push_body =
  pb_sphere :: did
  pb_local_base :: "cid option"
  pb_local_tip :: cid
  pb_counterpart_tip :: "cid option"
  pb_name_record :: "string option"

datatype push_response = Accepted cid | NoChange

datatype push_error =
  BrokenUpstream | BrokenDownstream | UnexpectedBody | Conflict | MissingHistory | UpToDate | Internal err

text \<open>
  A client's session and the gateway's answers to its requests, before their blocks are stored;
  \<open>cl_stalls\<close> is the number of blocks after which a stream of replicated blocks stalls, if it
  does.
\<close>

record client =
  session_sphere :: did
  cl_replicate :: "cid \<Rightarrow> cid option \<Rightarrow> block_stream result"
  cl_stalls :: "cid \<Rightarrow> cid option \<Rightarrow> nat option"
  cl_fetch :: "cid option \<Rightarrow> (cid \<times> block_stream) option result"
  cl_push :: "push_body \<Rightarrow> push_error + (push_response \<times> block_stream)"

text \<open>
  What every operation may use: the world, the clock, a nonce, the chunker, the client that
  \<open>Client::identify\<close> gives for a sphere, a gateway's URL and an author, and the fuel of walks
  through the store.
\<close>

record session =
  ss_world :: world
  ss_now :: u64
  ss_nonce :: bytes
  ss_chunker :: "bytes \<Rightarrow> (nat \<times> nat) list"
  ss_identify :: "did \<Rightarrow> string \<Rightarrow> author \<Rightarrow> client result"
  ss_fuel :: nat

abbreviation ss_codecs :: "session \<Rightarrow> codec_env" where
  "ss_codecs S \<equiv> codecs (ss_world S)"

text \<open>A \<open>match\<close> that goes on when an error was returned; panics are not caught.\<close>

fun on_error :: "'a result \<Rightarrow> ('a \<Rightarrow> 'b result) \<Rightarrow> 'b result \<Rightarrow> 'b result" where
  "on_error (Inr x) f d = f x"
| "on_error (Inl (Anyhow m)) f d = d"
| "on_error (Inl e) f d = Inl e"

section \<open>Access\<close>

definition access_to :: "session \<Rightarrow> author \<Rightarrow> did \<Rightarrow> sphere_db \<Rightarrow> access result" where
  "access_to S a sphere db =
     rbind (km_did (author_key a)) (\<lambda>author_did.
       if author_did = sphere then Inr ReadWrite
       else (case author_authorization a of
               None \<Rightarrow> Inr ReadOnly
             | Some z \<Rightarrow>
                 rbind (as_ucan (ss_world S) (block_store db) z) (\<lambda>u.
                   if aud (payload u) \<noteq> author_did then Inr ReadOnly
                   else
                     rbind (require_version (ss_codecs S) sphere db) (\<lambda>version.
                       on_error (verify_authorization (ss_fuel S) (ss_fuel S) (ss_world S) (ss_now S) (block_store db) version z)
                         (\<lambda>_. on_error (from_ucan (ss_fuel S) (ss_world S) (ss_now S) None (block_store db) u)
                           (\<lambda>chain.
                             rbind (reduce_capabilities (url_parse (ss_world S)) SPHERE_SEMANTICS chain) (\<lambda>infos.
                               Inr (if has_capability infos sphere (generate_capability sphere Push) then ReadWrite
                                    else ReadOnly)))
                           (Inr ReadOnly))
                         (Inr ReadOnly)))))"

section \<open>Contexts\<close>

record sphere_context =
  cx_identity :: did
  cx_origin :: did
  cx_author :: author
  cx_access :: "access option"
  cx_db :: sphere_db
  cx_mutation :: sphere_mutation

definition context_new :: "did \<Rightarrow> author \<Rightarrow> sphere_db \<Rightarrow> did option \<Rightarrow> sphere_context result" where
  "context_new sphere a db origin =
     rbind (km_did (author_key a)) (\<lambda>author_did.
       Inr \<lparr>cx_identity = sphere, cx_origin = (case origin of Some d \<Rightarrow> d | None \<Rightarrow> sphere), cx_author = a,
            cx_access = None, cx_db = db, cx_mutation = sphere_mutation_new author_did\<rparr>)"

definition to_visitor :: "session \<Rightarrow> did \<Rightarrow> sphere_context \<Rightarrow> sphere_context result" where
  "to_visitor S peer cx =
     rbind (require_version (ss_codecs S) peer (cx_db cx)) (\<lambda>_.
       context_new peer (cx_author cx) (cx_db cx) (Some (cx_origin cx)))"

definition with_author :: "author \<Rightarrow> sphere_context \<Rightarrow> sphere_context result" where
  "with_author a cx = context_new (cx_identity cx) a (cx_db cx) (Some (cx_origin cx))"

definition context_version :: "session \<Rightarrow> sphere_context \<Rightarrow> cid result" where
  "context_version S cx = require_version (ss_codecs S) (cx_identity cx) (cx_db cx)"

definition context_access :: "session \<Rightarrow> sphere_context \<Rightarrow> access result \<times> sphere_context" where
  "context_access S cx =
     (case cx_access cx of
        Some a \<Rightarrow> (Inr a, cx)
      | None \<Rightarrow>
          (case access_to S (cx_author cx) (cx_identity cx) (cx_db cx) of
             Inl e \<Rightarrow> (Inl e, cx)
           | Inr a \<Rightarrow> (Inr a, cx\<lparr>cx_access := Some a\<rparr>)))"

definition reset_access :: "sphere_context \<Rightarrow> sphere_context" where
  "reset_access cx = cx\<lparr>cx_access := None\<rparr>"

definition GATEWAY_URL :: string where
  "GATEWAY_URL = ''gateway_url''"

definition COUNTERPART :: string where
  "COUNTERPART = ''counterpart''"

definition configure_gateway_url :: "session \<Rightarrow> string option \<Rightarrow> sphere_context \<Rightarrow> unit result \<times> sphere_context" where
  "configure_gateway_url S url cx =
     (case url of
        Some u \<Rightarrow>
          (case set_metadata (ss_codecs S) IString (str_bytes GATEWAY_URL) u (cx_db cx) of
             (r, db) \<Rightarrow> (r, cx\<lparr>cx_db := db\<rparr>))
      | None \<Rightarrow>
          (case unset_key memory_remove (str_bytes GATEWAY_URL) (metadata_store (cx_db cx)) of
             (r, m) \<Rightarrow> (r, cx\<lparr>cx_db := (cx_db cx)\<lparr>metadata_store := m\<rparr>\<rparr>)))"

definition context_client :: "session \<Rightarrow> sphere_context \<Rightarrow> client result" where
  "context_client S cx =
     rbind (get_metadata (ss_codecs S) string_from_ipld (str_bytes GATEWAY_URL) (cx_db cx)) (\<lambda>v.
       rbind (of_option (Anyhow ''No value found'') v) (\<lambda>url. ss_identify S (cx_origin cx) url (cx_author cx)))"

text \<open>
  An operation on the blocks of the database. The links that \<open>put\<close> files beside a block are
  not followed here: nothing below reads them, and filing the links of an encoded value does
  not fail.
\<close>

definition on_blocks :: "(blocks \<Rightarrow> 'a result \<times> blocks) \<Rightarrow> sphere_context \<Rightarrow> 'a result \<times> sphere_context" where
  "on_blocks op cx =
     (case op (block_store (cx_db cx)) of (r, s) \<Rightarrow> (r, cx\<lparr>cx_db := (cx_db cx)\<lparr>block_store := s\<rparr>\<rparr>))"

abbreviation cx_blocks :: "sphere_context \<Rightarrow> blocks" where
  "cx_blocks cx \<equiv> block_store (cx_db cx)"

definition set_context_version :: "session \<Rightarrow> did \<Rightarrow> cid \<Rightarrow> sphere_context \<Rightarrow> unit result \<times> sphere_context" where
  "set_context_version S d c cx =
     (case set_version (ss_codecs S) d c (cx_db cx) of (r, db) \<Rightarrow> (r, cx\<lparr>cx_db := db\<rparr>))"

definition has_unsaved_changes :: "sphere_context \<Rightarrow> bool" where
  "has_unsaved_changes cx \<longleftrightarrow> \<not> mutation_is_empty (cx_mutation cx)"

text \<open>\<open>save\<close> of \<open>HasMutableSphereContext\<close>; flushing has no effect on what a database holds.\<close>

definition context_save :: "session \<Rightarrow> (string \<times> string) list option \<Rightarrow> sphere_context \<Rightarrow> cid result \<times> sphere_context" where
  "context_save S additional_headers cx =
     (case context_version S cx of
        Inl e \<Rightarrow> (Inl e, cx)
      | Inr version \<Rightarrow>
          sbind (on_blocks (apply_mutation_with_cid (ss_world S) version (cx_mutation cx)) cx) (\<lambda>revision cx.
            sbind (case additional_headers of
                     Some hs \<Rightarrow>
                       if hs \<noteq> [] then (Inr (revision\<lparr>rev_memo := replace_headers hs (rev_memo revision)\<rparr>), cx)
                       else if mutation_is_empty (cx_mutation cx) then (Inl (Anyhow ''No changes to save''), cx)
                       else (Inr revision, cx)
                   | None \<Rightarrow>
                       if mutation_is_empty (cx_mutation cx) then (Inl (Anyhow ''No changes to save''), cx)
                       else (Inr revision, cx)) (\<lambda>revision cx.
              sbind (on_blocks (revision_sign (ss_world S) (ss_now S) (ss_nonce S) (author_key (cx_author cx))
                                 (author_authorization (cx_author cx)) revision) cx) (\<lambda>new_version cx.
                sbind (set_context_version S (cx_identity cx) new_version cx) (\<lambda>_ cx.
                  (Inr new_version, cx\<lparr>cx_mutation := mutation_reset (cx_mutation cx)\<rparr>))))))"

section \<open>Cursors\<close>

record cursor =
  cur_context :: sphere_context
  cur_version :: "cid option"

definition in_context :: "(sphere_context \<Rightarrow> 'a result \<times> sphere_context) \<Rightarrow> cursor \<Rightarrow> 'a result \<times> cursor" where
  "in_context op h = (case op (cur_context h) of (r, cx) \<Rightarrow> (r, h\<lparr>cur_context := cx\<rparr>))"

definition latest :: "sphere_context \<Rightarrow> cursor" where
  "latest cx = \<lparr>cur_context = cx, cur_version = None\<rparr>"

definition mounted_at :: "sphere_context \<Rightarrow> cid \<Rightarrow> cursor" where
  "mounted_at cx c = \<lparr>cur_context = cx, cur_version = Some c\<rparr>"

definition mount_at :: "cid \<Rightarrow> cursor \<Rightarrow> cursor" where
  "mount_at c h = h\<lparr>cur_version := Some c\<rparr>"

definition mount :: "session \<Rightarrow> cursor \<Rightarrow> cursor result" where
  "mount S h = rbind (context_version S (cur_context h)) (\<lambda>c. Inr (mount_at c h))"

definition mounted :: "session \<Rightarrow> sphere_context \<Rightarrow> cursor result" where
  "mounted S cx = mount S (latest cx)"

definition unmount :: "cursor \<Rightarrow> cursor" where
  "unmount h = h\<lparr>cur_version := None\<rparr>"

definition cursor_version :: "session \<Rightarrow> cursor \<Rightarrow> cid result" where
  "cursor_version S h =
     (case cur_version h of Some c \<Rightarrow> Inr c | None \<Rightarrow> context_version S (cur_context h))"

abbreviation cur_blocks :: "cursor \<Rightarrow> blocks" where
  "cur_blocks h \<equiv> cx_blocks (cur_context h)"

definition rewind :: "session \<Rightarrow> cursor \<Rightarrow> cid option result \<times> cursor" where
  "rewind S h =
     (case rbind (cursor_version S h) (\<lambda>c. get_parent (ss_world S) c (cur_blocks h)) of
        Inl e \<Rightarrow> (Inl e, h)
      | Inr None \<Rightarrow> (Inr None, h)
      | Inr (Some p) \<Rightarrow> (Inr (Some p), h\<lparr>cur_version := Some p\<rparr>))"

definition cursor_save :: "session \<Rightarrow> (string \<times> string) list option \<Rightarrow> cursor \<Rightarrow> cid result \<times> cursor" where
  "cursor_save S additional_headers h =
     sbind (in_context (context_save S additional_headers) h) (\<lambda>c h.
       (Inr c, if cur_version h \<noteq> None then h\<lparr>cur_version := Some c\<rparr> else h))"

definition assert_write_access :: "session \<Rightarrow> cursor \<Rightarrow> unit result \<times> cursor" where
  "assert_write_access S h =
     sbind (in_context (context_access S) h) (\<lambda>a h.
       (if a = ReadOnly then Inl (Anyhow ''Cannot mutate sphere; author only has read access to its contents'')
        else Inr (), h))"

text \<open>The mutation of the context behind the cursor is changed in place.\<close>

definition mutate :: "(sphere_mutation \<Rightarrow> sphere_mutation) \<Rightarrow> cursor \<Rightarrow> cursor" where
  "mutate f h = h\<lparr>cur_context := (cur_context h)\<lparr>cx_mutation := f (cx_mutation (cur_context h))\<rparr>\<rparr>"

end
