(* ===== verification/Context_Content.thy ===== *)
theory Context_Content
  imports Sphere_Context
begin

text \<open>
  Reading and writing the content of a sphere through a cursor
  (\<^verbatim>\<open>noosphere-core/src/context/internal.rs\<close>, \<^verbatim>\<open>context/content/read.rs\<close>,
  \<^verbatim>\<open>context/content/write.rs\<close>, \<^verbatim>\<open>context/content/file.rs\<close>).
\<close>

section \<open>Reading\<close>

text \<open>The contents of a file are the chunks its reader yields, and how it ends.\<close>

record sphere_file =
  sf_identity :: did
  sf_version :: cid
  sf_memo_version :: cid
  sf_memo :: memo
  sf_contents :: "bytes list \<times> unit result"

text \<open>A memo whose body is missing is replicated from the gateway first.\<close>

definition replicate_missing :: "session \<Rightarrow> cid \<Rightarrow> memo \<Rightarrow> sphere_context \<Rightarrow> unit result \<times> sphere_context" where
  "replicate_missing S memo_link m cx =
     (case get_block (body m) (cx_blocks cx) of
        Some _ \<Rightarrow> (Inr (), cx)
      | None \<Rightarrow>
          (case rbind (context_client S cx) (\<lambda>client. cl_replicate client memo_link None) of
             Inl e \<Rightarrow> (Inl e, cx)
           | Inr answer \<Rightarrow>
               (case put_block_stream (ss_codecs S) (texts (ss_world S)) answer (cx_db cx) of
                  (r, db) \<Rightarrow> (r, cx\<lparr>cx_db := db\<rparr>))))"

definition get_file :: "session \<Rightarrow> cid \<Rightarrow> cid \<Rightarrow> cursor \<Rightarrow> sphere_file result \<times> cursor" where
  "get_file S sphere_revision memo_link h =
     (case load_from (ss_codecs S) memo_from_ipld memo_link (cur_blocks h) of
        Inl e \<Rightarrow> (Inl e, h)
      | Inr m \<Rightarrow>
          sbind (in_context (replicate_missing S memo_link m) h) (\<lambda>_ h.
            (case map_option content_type_from_str (get_first_header (header_str ContentType) m) of
               None \<Rightarrow> Inl (Anyhow ''No content type specified'')
             | Some _ \<Rightarrow>
                 Inr \<lparr>sf_identity = cx_identity (cur_context h), sf_version = sphere_revision,
                      sf_memo_version = memo_link, sf_memo = m,
                      sf_contents = chunk_stream (ss_fuel S) (ss_codecs S) (cur_blocks h) (Some (body m))\<rparr>, h)))"

definition read_slug :: "session \<Rightarrow> string \<Rightarrow> cursor \<Rightarrow> sphere_file option result \<times> cursor" where
  "read_slug S slug h =
     (case rbind (cursor_version S h) (\<lambda>revision.
             rbind (get_content (ss_world S) revision (cur_blocks h)) (\<lambda>links.
               rbind (vm_get (content_ctx (ss_world S)) links slug (cur_blocks h)) (\<lambda>m. Inr (revision, m)))) of
        Inl e \<Rightarrow> (Inl e, h)
      | Inr (revision, None) \<Rightarrow> (Inr None, h)
      | Inr (revision, Some memo) \<Rightarrow> sbind (get_file S revision memo h) (\<lambda>file h. (Inr (Some file), h)))"

definition slug_exists :: "session \<Rightarrow> string \<Rightarrow> cursor \<Rightarrow> bool result \<times> cursor" where
  "slug_exists S slug h = sbind (read_slug S slug h) (\<lambda>file h. (Inr (file \<noteq> None), h))"

section \<open>Writing\<close>

definition validate_slug :: "string \<Rightarrow> unit result" where
  "validate_slug slug = (if slug = [] then Inl (Anyhow ''Slug must not be empty.'') else Inr ())"

definition link_raw :: "session \<Rightarrow> string \<Rightarrow> cid \<Rightarrow> cursor \<Rightarrow> unit result \<times> cursor" where
  "link_raw S slug c h =
     sbind (assert_write_access S h) (\<lambda>_ h.
       sbind (validate_slug slug, h) (\<lambda>_ h.
         (Inr (), mutate (\<lambda>\<mu>. \<mu>\<lparr>sm_content := mutation_set slug c (sm_content \<mu>)\<rparr>) h)))"

definition link_slug ::
    "session \<Rightarrow> string \<Rightarrow> string \<Rightarrow> cid \<Rightarrow> (string \<times> string) list option \<Rightarrow> cursor \<Rightarrow> cid result \<times> cursor" where
  "link_slug S slug content_type body_cid additional_headers h =
     sbind (assert_write_access S h) (\<lambda>_ h.
       sbind (validate_slug slug, h) (\<lambda>_ h.
         sbind (read_slug S slug h) (\<lambda>current_file h.
           sbind (case current_file of
                    Some file \<Rightarrow>
                      (rbind (branch_from (ss_codecs S) (sf_memo_version file) (cur_blocks h)) (\<lambda>m.
                         Inr (m\<lparr>body := body_cid\<rparr>)), h)
                  | None \<Rightarrow> (Inr \<lparr>parent = None, headers = [], body = body_cid\<rparr>, h)) (\<lambda>new_memo h.
             let new_memo = (case additional_headers of Some hs \<Rightarrow> replace_headers hs new_memo | None \<Rightarrow> new_memo);
                 new_memo = replace_first_header (header_str ContentType) content_type new_memo in
             sbind (in_context (on_blocks (save_value (ss_codecs S) memo_to_ipld new_memo)) h) (\<lambda>memo_cid h.
               sbind (link_raw S slug memo_cid h) (\<lambda>_ h. (Inr memo_cid, h)))))))"

definition write_slug ::
    "session \<Rightarrow> string \<Rightarrow> string \<Rightarrow> bytes \<Rightarrow> (string \<times> string) list option \<Rightarrow> cursor \<Rightarrow> cid result \<times> cursor" where
  "write_slug S slug content_type bs additional_headers h =
     sbind (assert_write_access S h) (\<lambda>_ h.
       sbind (validate_slug slug, h) (\<lambda>_ h.
         sbind (in_context (on_blocks (store_bytes (ss_codecs S) (ss_chunker S) bs)) h) (\<lambda>body_cid h.
           let header = (header_str ContentLength, nat_to_string (length bs));
               headers = (case additional_headers of Some hs \<Rightarrow> hs @ [header] | None \<Rightarrow> [header]) in
           link_slug S slug content_type body_cid (Some headers) h)))"

definition remove_slug :: "session \<Rightarrow> string \<Rightarrow> cursor \<Rightarrow> cid option result \<times> cursor" where
  "remove_slug S slug h =
     sbind (assert_write_access S h) (\<lambda>_ h.
       sbind (read_slug S slug h) (\<lambda>current_file h.
         case current_file of
           Some file \<Rightarrow>
             (Inr (Some (sf_memo_version file)),
              mutate (\<lambda>\<mu>. \<mu>\<lparr>sm_content := mutation_remove slug (sm_content \<mu>)\<rparr>) h)
         | None \<Rightarrow> (Inr None, h)))"

end
