(* ===== verification/Context_Petname.thy ===== *)
theory Context_Petname
  imports Sphere_Context
begin

text \<open>
  Petnames through a cursor (\<^verbatim>\<open>noosphere-core/src/context/petname/read.rs\<close>,
  \<^verbatim>\<open>context/petname/write.rs\<close>, \<^verbatim>\<open>context/replication/write.rs\<close>): looking up the sphere and the
  link record that a name stands for, the cache of the names of a sphere, assigning names,
  adopting link records, and making a link record.
\<close>

section \<open>Reading\<close>

text \<open>The identities of the version a cursor points to.\<close>

definition cursor_identities :: "session \<Rightarrow> cursor \<Rightarrow> cid result" where
  "cursor_identities S h =
     rbind (cursor_version S h) (\<lambda>c.
       rbind (get_address_book (ss_world S) c (cur_blocks h)) (\<lambda>book. get_identities (ss_world S) book (cur_blocks h)))"

definition lookup_petname :: "session \<Rightarrow> string \<Rightarrow> cursor \<Rightarrow> identity_ipld option result" where
  "lookup_petname S name h =
     rbind (cursor_identities S h) (\<lambda>ids. vm_get (identities_ctx (ss_world S)) ids name (cur_blocks h))"

definition get_petname :: "session \<Rightarrow> string \<Rightarrow> cursor \<Rightarrow> did option result" where
  "get_petname S name h = rbind (lookup_petname S name h) (\<lambda>address. Inr (map_option id_did address))"

definition get_petname_record :: "session \<Rightarrow> string \<Rightarrow> cursor \<Rightarrow> link_record option result" where
  "get_petname_record S name h =
     rbind (lookup_petname S name h) (\<lambda>address.
       Inr (case address of Some i \<Rightarrow> identity_link_record (ss_world S) (cur_blocks h) i | None \<Rightarrow> None))"

definition resolve_petname :: "session \<Rightarrow> string \<Rightarrow> cursor \<Rightarrow> cid option result" where
  "resolve_petname S name h =
     rbind (get_petname_record S name h) (\<lambda>r.
       Inr (case r of Some record \<Rightarrow> get_link (ss_world S) record | None \<Rightarrow> None))"

section \<open>The names of a sphere\<close>

definition vm_into_stream ::
    "nat \<Rightarrow> ('k, 'v) hamt_ctx \<Rightarrow> cid \<Rightarrow> blocks \<Rightarrow> (('k \<times> 'v) list \<times> unit result) result" where
  "vm_into_stream f X c s = rbind (load_hamt X c s) (\<lambda>hamt. Inr (hamt_into_stream f X hamt))"

text \<open>\<open>petname_stream\<close> of the walker.\<close>

definition petname_stream :: "session \<Rightarrow> cursor \<Rightarrow> (string \<times> identity_ipld) list \<times> unit result" where
  "petname_stream S h =
     (case rbind (cursor_identities S h) (\<lambda>ids. vm_into_stream (ss_fuel S) (identities_ctx (ss_world S)) ids (cur_blocks h)) of
        Inl e \<Rightarrow> ([], Inl e)
      | Inr items \<Rightarrow> items)"

definition assigned_petnames_cache_key :: "world \<Rightarrow> did \<Rightarrow> did \<Rightarrow> cid \<Rightarrow> string" where
  "assigned_petnames_cache_key W origin peer version =
     ''noosphere:cache:petname:assigned:'' @ origin @ '':'' @ peer @ '':'' @ cid_to_string (texts W) version"

definition sphere_checkpoint_cache_key :: "world \<Rightarrow> did \<Rightarrow> cid \<Rightarrow> string" where
  "sphere_checkpoint_cache_key W origin version =
     ''noosphere:cache:petname:checkpoint:'' @ origin @ '':'' @ cid_to_string (texts W) version"

text \<open>The map from a sphere to its names, in the order of the stream.\<close>

fun collect_petnames :: "(string \<times> identity_ipld) list \<Rightarrow> (did \<times> string list) list \<Rightarrow> (did \<times> string list) list" where
  "collect_petnames [] names = names"
| "collect_petnames ((petname, i) # rest) names =
     collect_petnames rest
       (btree_put (id_did i)
         (case map_of names (id_did i) of Some ps \<Rightarrow> ps @ [petname] | None \<Rightarrow> [petname]) names)"

fun cache_petnames :: "session \<Rightarrow> did \<Rightarrow> cid \<Rightarrow> (did \<times> string list) list \<Rightarrow> sphere_db \<Rightarrow> unit result \<times> sphere_db" where
  "cache_petnames S origin version [] db = (Inr (), db)"
| "cache_petnames S origin version ((d, petnames) # rest) db =
     sbind (set_metadata (ss_codecs S) (\<lambda>ps. IList (map IString ps))
              (str_bytes (assigned_petnames_cache_key (ss_world S) origin d version)) petnames db) (\<lambda>_ db.
       cache_petnames S origin version rest db)"

definition get_assigned_petnames :: "session \<Rightarrow> did \<Rightarrow> cursor \<Rightarrow> string list result \<times> cursor" where
  "get_assigned_petnames S peer h =
     (case cursor_version S h of
        Inl e \<Rightarrow> (Inl e, h)
      | Inr version \<Rightarrow>
          let W = ss_world S; E = ss_codecs S; origin = cx_identity (cur_context h); db = cx_db (cur_context h);
              checkpoint = str_bytes (sphere_checkpoint_cache_key W origin version) in
          case get_metadata E (list_from_ipld string_from_ipld)
                 (str_bytes (assigned_petnames_cache_key W origin peer version)) db of
            Inl e \<Rightarrow> (Inl e, h)
          | Inr (Some names) \<Rightarrow> (Inr names, h)
          | Inr None \<Rightarrow>
              (case get_metadata E byte_from_ipld checkpoint db of
                 Inl e \<Rightarrow> (Inl e, h)
               | Inr (Some _) \<Rightarrow> (Inr [], h)
               | Inr None \<Rightarrow>
                   (case petname_stream S h of
                      (items, Inl e) \<Rightarrow> (Inl e, h)
                    | (items, Inr _) \<Rightarrow>
                        let did_petnames = collect_petnames items [] in
                        in_context (\<lambda>cx.
                          case sbind (cache_petnames S origin version did_petnames (cx_db cx)) (\<lambda>_ db.
                                 set_metadata E byte_to_ipld checkpoint 1 db) of
                            (Inl e, db) \<Rightarrow> (Inl e, cx\<lparr>cx_db := db\<rparr>)
                          | (Inr _, db) \<Rightarrow>
                              (Inr (case map_of did_petnames peer of Some ps \<Rightarrow> ps | None \<Rightarrow> []), cx\<lparr>cx_db := db\<rparr>)) h)))"

section \<open>Writing\<close>

definition validate_petname :: "string \<Rightarrow> unit result" where
  "validate_petname petname =
     (if petname = [] then Inl (Anyhow ''Petname must not be empty.'')
      else if length petname \<ge> 4 \<and> take 4 petname = ''did:'' then Inl (Anyhow ''Petname must not be a DID.'')
      else Inr ())"

definition set_petname :: "session \<Rightarrow> string \<Rightarrow> did option \<Rightarrow> cursor \<Rightarrow> unit result \<times> cursor" where
  "set_petname S name identity' h =
     sbind (assert_write_access S h) (\<lambda>_ h.
       sbind (validate_petname name, h) (\<lambda>_ h.
         if identity' = Some (cx_identity (cur_context h))
         then (Inl (Anyhow ''Sphere cannot assign itself to a petname.''), h)
         else
           sbind (get_petname S name h, h) (\<lambda>current_address h.
             (Inr (),
              if identity' \<noteq> current_address then
                (case identity' of
                   Some d \<Rightarrow>
                     mutate (\<lambda>\<mu>. \<mu>\<lparr>sm_identities :=
                       mutation_set name \<lparr>id_did = d, link_record = None\<rparr> (sm_identities \<mu>)\<rparr>) h
                 | None \<Rightarrow> mutate (\<lambda>\<mu>. \<mu>\<lparr>sm_identities := mutation_remove name (sm_identities \<mu>)\<rparr>) h)
              else h))))"

definition set_petname_record :: "session \<Rightarrow> string \<Rightarrow> link_record \<Rightarrow> cursor \<Rightarrow> did option result \<times> cursor" where
  "set_petname_record S name record h =
     sbind (assert_write_access S h) (\<lambda>_ h.
       sbind (validate_petname name, h) (\<lambda>_ h.
         let d = to_sphere_identity record in
         sbind (get_petname S name h, h) (\<lambda>expected h.
           sbind (case expected of
                    Some expected_identity \<Rightarrow>
                      (if expected_identity \<noteq> d then Inl (Anyhow ''Cannot adopt petname record; expected another record'')
                       else Inr (), h)
                  | None \<Rightarrow> (Inl (Anyhow ''Cannot adopt petname record (not assigned to a sphere identity)''), h)) (\<lambda>_ h.
             if cx_identity (cur_context h) = d
             then (Inl (Anyhow ''Sphere cannot assign itself to a petname.''), h)
             else
               sbind (get_petname_record S name h, h) (\<lambda>existing h.
                 if (case existing of Some r \<Rightarrow> \<not> superceded_by r record | None \<Rightarrow> False)
                 then (Inl (Anyhow ''Previously stored record supercedes provided record.''), h)
                 else
                   sbind (ucan_encode (ss_world S) record, h) (\<lambda>jwt h.
                     sbind (in_context (on_blocks (write_token (ss_world S) jwt)) h) (\<lambda>c h.
                       sbind (lookup_petname S name (unmount h), h) (\<lambda>previous_identity h.
                         (Inr (case previous_identity of
                                 Some i \<Rightarrow> if d \<noteq> id_did i then Some (id_did i) else None
                               | None \<Rightarrow> None),
                          mutate (\<lambda>\<mu>. \<mu>\<lparr>sm_identities :=
                            mutation_set name \<lparr>id_did = d, link_record = Some c\<rparr> (sm_identities \<mu>)\<rparr>) h)))))))))"

section \<open>Link records\<close>

text \<open>\<open>create_link_record\<close> with a lifetime in seconds.\<close>

definition create_link_record :: "session \<Rightarrow> u64 option \<Rightarrow> cursor \<Rightarrow> link_record result \<times> cursor" where
  "create_link_record S lifetime h =
     sbind (assert_write_access S h) (\<lambda>_ h.
       let W = ss_world S; cx = cur_context h; a = cx_author cx; d = cx_identity cx in
       case rbind (context_version S cx) (\<lambda>version.
              let builder =
                    with_nonce (with_fact LINK_RECORD_FACT_NAME (Some (JString (cid_to_string (texts W) version)))
                      (claiming_capability (capability_of SPHERE_SEMANTICS (generate_capability d Publish))
                        (for_audience d (issued_by (author_key a) builder_default))));
                  builder = (case lifetime of Some l \<Rightarrow> with_lifetime l builder | None \<Rightarrow> builder) in
              rbind (case author_authorization a of
                       Some z \<Rightarrow> rbind (as_ucan W (cx_blocks cx) z) (\<lambda>u. Inr (witnessed_by W u builder))
                     | None \<Rightarrow> Inr builder) (\<lambda>builder.
                rbind (build_and_sign W (ss_now S) (ss_nonce S) builder) (\<lambda>record.
                  rbind (ucan_encode W record) (\<lambda>jwt. Inr (record, jwt))))) of
         Inl e \<Rightarrow> (Inl e, h)
       | Inr (record, jwt) \<Rightarrow>
           sbind (in_context (on_blocks (write_token W jwt)) h) (\<lambda>_ h. (Inr record, h)))"

end
