(* ===== verification/Context_Authority.thy ===== *)
theory Context_Authority
  imports Context_Petname
begin

text \<open>
  The authority of a sphere through a cursor (\<^verbatim>\<open>noosphere-core/src/context/authority/read.rs\<close>,
  \<^verbatim>\<open>context/authority/write.rs\<close>): finding authorizations, authorizing another key, revoking,
  and recovering with the root credential. Mnemonics are third-party code: their conversion to a
  key is an argument.
\<close>

section \<open>Reading\<close>

definition cursor_delegations :: "session \<Rightarrow> cursor \<Rightarrow> cid result" where
  "cursor_delegations S h =
     rbind (cursor_version S h) (\<lambda>c.
       rbind (get_authority (ss_world S) c (cur_blocks h)) (\<lambda>auth. get_delegations (ss_world S) auth (cur_blocks h)))"

definition delegation_stream :: "session \<Rightarrow> cursor \<Rightarrow> ((cid \<times> delegation_ipld) list \<times> unit result) result" where
  "delegation_stream S h =
     rbind (cursor_delegations S h) (\<lambda>dl.
       vm_into_stream (ss_fuel S) (delegations_ctx (ss_world S)) dl (cur_blocks h))"

definition cursor_verify_authorization :: "session \<Rightarrow> authorization \<Rightarrow> cursor \<Rightarrow> unit result" where
  "cursor_verify_authorization S z h =
     rbind (cursor_version S h) (\<lambda>c.
       verify_authorization (ss_fuel S) (ss_fuel S) (ss_world S) (ss_now S) (cur_blocks h) c z)"

text \<open>The loop over the stream: its items, then how it ends.\<close>

fun find_audience ::
    "world \<Rightarrow> blocks \<Rightarrow> did \<Rightarrow> (cid \<times> delegation_ipld) list \<Rightarrow> unit result \<Rightarrow> authorization option result" where
  "find_audience W s d [] r = rbind r (\<lambda>_. Inr None)"
| "find_audience W s d ((c, delegation) # rest) r =
     rbind (delegation_resolve W delegation s) (\<lambda>u.
       if aud (payload u) = d then Inr (Some (AuthCid c)) else find_audience W s d rest r)"

definition get_authorization :: "session \<Rightarrow> did \<Rightarrow> cursor \<Rightarrow> authorization option result" where
  "get_authorization S d h =
     rbind (delegation_stream S h) (\<lambda>(items, r). find_audience (ss_world S) (cur_blocks h) d items r)"

definition get_authorizations_by_name :: "session \<Rightarrow> string \<Rightarrow> cursor \<Rightarrow> authorization list result" where
  "get_authorizations_by_name S name h =
     rbind (delegation_stream S h) (\<lambda>(items, r).
       rbind r (\<lambda>_. Inr (map (\<lambda>i. AuthCid (fst i)) (filter (\<lambda>i. dg_name (snd i) = name) items))))"

definition escalate_authority :: "(string \<Rightarrow> key_material result) \<Rightarrow> string \<Rightarrow> cursor \<Rightarrow> cursor result" where
  "escalate_authority to_credential mnemonic h =
     rbind (to_credential mnemonic) (\<lambda>key.
       rbind (km_did key) (\<lambda>root_identity.
         if cx_identity (cur_context h) \<noteq> root_identity
         then Inl (Anyhow ''Provided mnemonic did not produce the expected credential'')
         else
           rbind (Sphere_Context.with_author \<lparr>author_key = key, author_authorization = None\<rparr> (cur_context h)) (\<lambda>cx.
             Inr (latest cx))))"

section \<open>Writing\<close>

abbreviation delegate :: "cid \<Rightarrow> delegation_ipld \<Rightarrow> sphere_mutation \<Rightarrow> sphere_mutation" where
  "delegate c d \<mu> \<equiv> \<mu>\<lparr>sm_delegations := mutation_set c d (sm_delegations \<mu>)\<rparr>"

abbreviation undelegate :: "cid \<Rightarrow> sphere_mutation \<Rightarrow> sphere_mutation" where
  "undelegate c \<mu> \<equiv> \<mu>\<lparr>sm_delegations := mutation_remove c (sm_delegations \<mu>)\<rparr>"

abbreviation file_revocation :: "cid \<Rightarrow> revocation_ipld \<Rightarrow> sphere_mutation \<Rightarrow> sphere_mutation" where
  "file_revocation c r \<mu> \<equiv> \<mu>\<lparr>sm_revocations := mutation_set c r (sm_revocations \<mu>)\<rparr>"

text \<open>The token that \<open>authorize\<close> issues: its expiry is that of the author's own authorization,
  which is its only proof.\<close>

definition authorization_token ::
    "session \<Rightarrow> key_material \<Rightarrow> authorization \<Rightarrow> did \<Rightarrow> did \<Rightarrow> blocks \<Rightarrow> ucan result" where
  "authorization_token S key z sphere identity' s =
     (let W = ss_world S in
      rbind (as_ucan W s z) (\<lambda>own.
        let builder =
              with_nonce (claiming_capability (capability_of SPHERE_SEMANTICS (generate_capability sphere Authorize))
                (for_audience identity' (issued_by key builder_default)));
            builder = (case exp (payload own) of Some e \<Rightarrow> with_expiration e builder | None \<Rightarrow> builder) in
        rbind (build (ss_now S) builder) (\<lambda>signable.
          rbind (authorization_cid W z) (\<lambda>c.
            signable_sign W (ss_nonce S)
              (signable\<lparr>sg_proofs := sg_proofs signable @ [cid_to_string (texts W) c]\<rparr>)))))"

definition authorize :: "session \<Rightarrow> string \<Rightarrow> did \<Rightarrow> cursor \<Rightarrow> authorization result \<times> cursor" where
  "authorize S name identity' h =
     sbind (assert_write_access S h) (\<lambda>_ h.
       case rbind (cursor_version S h) (\<lambda>c.
              rbind (require_authorization (cx_author (cur_context h))) (\<lambda>z.
                rbind (cursor_verify_authorization S z h) (\<lambda>_.
                  rbind (get_identity (ss_world S) c (cur_blocks h)) (\<lambda>sphere.
                    rbind (authorization_token S (author_key (cx_author (cur_context h))) z sphere identity' (cur_blocks h))
                      (ucan_encode (ss_world S)))))) of
         Inl e \<Rightarrow> (Inl e, h)
       | Inr jwt \<Rightarrow>
           sbind (in_context (on_blocks (delegation_register (ss_world S) name jwt)) h) (\<lambda>delegation h.
             (Inr (AuthCid (dg_jwt delegation)), mutate (delegate (dg_jwt delegation) delegation) h)))"

definition revoke_authorization :: "session \<Rightarrow> authorization \<Rightarrow> cursor \<Rightarrow> unit result \<times> cursor" where
  "revoke_authorization S z h =
     sbind (assert_write_access S h) (\<lambda>_ h.
       let W = ss_world S; a = cx_author (cur_context h) in
       case rbind (is_authorizer_of (ss_fuel S) (ss_fuel S) W (ss_now S) (cur_blocks h) a z) (\<lambda>authorizer.
              if \<not> authorizer then
                rbind (km_did (author_key a)) (\<lambda>_. Inl (Anyhow ''cannot revoke authorization (not a delegating authority)''))
              else
                rbind (authorization_cid W z) (\<lambda>c.
                  rbind (cursor_delegations S (unmount h)) (\<lambda>dl.
                    rbind (vm_get (delegations_ctx W) dl c (cur_blocks h)) (\<lambda>delegation.
                      if delegation = None
                      then Inl (Anyhow ''No authority has been delegated to the authorization being revoked'')
                      else rbind (revocation_revoke W c (author_key a)) (\<lambda>revocation. Inr (c, revocation)))))) of
         Inl e \<Rightarrow> (Inl e, h)
       | Inr (c, revocation) \<Rightarrow> (Inr (), mutate (\<lambda>\<mu>. file_revocation c revocation (undelegate c \<mu>)) h))"

fun revoke_all ::
    "world \<Rightarrow> key_material \<Rightarrow> (cid \<times> delegation_ipld) list \<Rightarrow> unit result \<Rightarrow> cursor \<Rightarrow> unit result \<times> cursor" where
  "revoke_all W key [] r h = (r, h)"
| "revoke_all W key ((c, _) # rest) r h =
     sbind (revocation_revoke W c key, h) (\<lambda>revocation h.
       revoke_all W key rest r (mutate (\<lambda>\<mu>. file_revocation c revocation (undelegate c \<mu>)) h))"

definition recover_authority :: "session \<Rightarrow> did \<Rightarrow> cursor \<Rightarrow> authorization result \<times> cursor" where
  "recover_authority S new_owner h =
     sbind (assert_write_access S h) (\<lambda>_ h.
       let W = ss_world S; cx = cur_context h; key = author_key (cx_author cx); sphere = cx_identity cx in
       sbind (km_did key, h) (\<lambda>author_did h.
         if author_did \<noteq> sphere
         then (Inl (Anyhow ''Only the root sphere credential can be used to recover authority''), h)
         else
           sbind (delegation_stream S (unmount h), h) (\<lambda>(items, r) h.
             sbind (revoke_all W key items r h) (\<lambda>_ h.
               sbind (rbind (build_and_sign W (ss_now S) (ss_nonce S)
                        (claiming_capability (capability_of SPHERE_SEMANTICS (generate_capability sphere Authorize))
                          (with_nonce (with_lifetime SPHERE_LIFETIME (for_audience new_owner (issued_by key builder_default))))))
                      (ucan_encode W), h) (\<lambda>jwt h.
                 sbind (in_context (on_blocks (delegation_register W ''(OWNER)'' jwt)) h) (\<lambda>delegation h.
                   (Inr (AuthCid (dg_jwt delegation)), mutate (delegate (dg_jwt delegation) delegation) h)))))))"

end
