(* ===== verification/Context_Rep.thy ===== *)
theory Context_Rep
  imports Context_Content Context_Authority
begin

text \<open>
  What contexts and cursors stand for: the latest version of the sphere as an abstract sphere,
  together with the mutation that is not yet saved. Saving applies the mutation; reading a slug
  finds the file that the content of the version maps it to; writing keeps the new memo for the
  next version; and only an author with authority over the sphere can write.
\<close>

section \<open>Contexts as abstract spheres\<close>

definition session_ok :: "session \<Rightarrow> string set \<Rightarrow> cid set \<Rightarrow> bool" where
  "session_ok S KS KC \<longleftrightarrow> sphere_ok (ss_world S) \<and> jwt_ok (ss_world S) \<and> universe_ok (ss_world S) KS KC"

definition context_at :: "session \<Rightarrow> string set \<Rightarrow> cid set \<Rightarrow> base \<Rightarrow> sphere_context \<Rightarrow> bool" where
  "context_at S KS KC b cx \<longleftrightarrow>
     store_ok (ss_codecs S) (cx_blocks cx) \<and>
     get_version (ss_codecs S) (cx_identity cx) (cx_db cx) = Inr (Some (fst b)) \<and>
     base_at (ss_world S) (cx_blocks cx) KS KC b \<and> mutation_in KS KC (cx_mutation cx) \<and>
     (\<exists>d. key_total (author_key (cx_author cx)) d \<and> authored d (cx_mutation cx)) \<and>
     auth_ok (ss_world S) (cx_blocks cx) (author_authorization (cx_author cx))"

lemma session_okD:
  assumes "session_ok S KS KC"
  shows "sphere_ok (ss_world S)" "jwt_ok (ss_world S)" "universe_ok (ss_world S) KS KC" "env_ok (ss_codecs S)"
  using assms sphere_ok_env by (auto simp: session_ok_def)

lemma context_at_version:
  "context_at S KS KC b cx \<Longrightarrow> context_version S cx = Inr (fst b)"
  by (simp add: context_at_def context_version_def require_version_def)

text \<open>More blocks, another mutation of the author, and a cached access keep what a context stands for.\<close>

lemma context_at_grow:
  assumes "context_at S KS KC b cx" "cx_blocks cx \<subseteq>\<^sub>m s" "store_ok (ss_codecs S) s"
  shows "context_at S KS KC b (cx\<lparr>cx_db := (cx_db cx)\<lparr>block_store := s\<rparr>\<rparr>)"
  using assms base_at_mono [OF _ assms(2)] auth_ok_mono [OF _ assms(2)]
  by (auto simp: context_at_def get_version_def)

lemma context_at_mutate:
  assumes "context_at S KS KC b cx" "mutation_in KS KC \<mu>" "\<And>d. authored d (cx_mutation cx) \<Longrightarrow> authored d \<mu>"
  shows "context_at S KS KC b (cx\<lparr>cx_mutation := \<mu>\<rparr>)"
  using assms by (auto simp: context_at_def)

lemma context_at_access [simp]: "context_at S KS KC b (cx\<lparr>cx_access := a\<rparr>) \<longleftrightarrow> context_at S KS KC b cx"
  by (simp add: context_at_def)

lemma set_context_version_ok:
  assumes "env_ok (ss_codecs S)"
  obtains db where "set_context_version S d c cx = (Inr (), cx\<lparr>cx_db := db\<rparr>)" "block_store db = cx_blocks cx"
    "metadata_store db = metadata_store (cx_db cx)" "link_store db = link_store (cx_db cx)"
    "\<And>d'. get_version (ss_codecs S) d' db = (if d' = d then Inr (Some c) else get_version (ss_codecs S) d' (cx_db cx))"
proof -
  have E: "codec_ok (ss_codecs S)" using assms by (simp add: env_ok_def)
  show thesis
    by (rule that [of "snd (set_version (ss_codecs S) d c (cx_db cx))"])
      (use version_set_get [OF E] in
        \<open>auto simp: set_context_version_def version_set_only case_prod_beta\<close>)
qed

section \<open>Saving\<close>

lemma mutation_reset_new: "mutation_in KS KC (mutation_reset \<mu>)" "mutation_is_empty (mutation_reset \<mu>)"
  by (simp_all add: mutation_reset_def mutation_in_def mutation_is_empty_def vmap_mutation_new_def)

lemma mutation_reset_authored: "authored d \<mu> \<Longrightarrow> authored d (mutation_reset \<mu>)"
  by (simp add: authored_def mutation_reset_def vmap_mutation_new_def)

text \<open>\<open>extends\<close>: the same session later, with more blocks and the versions of other spheres untouched.\<close>

definition extends :: "session \<Rightarrow> sphere_context \<Rightarrow> sphere_context \<Rightarrow> bool" where
  "extends S cx cx' \<longleftrightarrow>
     cx_blocks cx \<subseteq>\<^sub>m cx_blocks cx' \<and> cx_identity cx' = cx_identity cx \<and> cx_origin cx' = cx_origin cx \<and>
     cx_author cx' = cx_author cx \<and> metadata_store (cx_db cx') = metadata_store (cx_db cx) \<and>
     (\<forall>d. d \<noteq> cx_identity cx \<longrightarrow> get_version (ss_codecs S) d (cx_db cx') = get_version (ss_codecs S) d (cx_db cx))"

lemma extends_refl [simp]: "extends S cx cx"
  by (simp add: extends_def)

lemma extends_trans [trans]: "extends S cx cx' \<Longrightarrow> extends S cx' cx'' \<Longrightarrow> extends S cx cx''"
  by (auto simp: extends_def intro: map_le_trans)

lemma extends_blocks: "cx_blocks cx \<subseteq>\<^sub>m s \<Longrightarrow> extends S cx (cx\<lparr>cx_db := (cx_db cx)\<lparr>block_store := s\<rparr>\<rparr>)"
  by (simp add: extends_def get_version_def)

text \<open>Saving makes the next version: a child of the latest, with the unsaved changes applied.\<close>

lemma context_save_ok:
  assumes "session_ok S KS KC" "context_at S KS KC (c, m, \<sigma>) cx" "\<not> mutation_is_empty (cx_mutation cx)"
  obtains c' m' cx' where "context_save S None cx = (Inr c', cx')"
    "context_at S KS KC (c', m', step_sphere (cx_mutation cx) \<sigma>) cx'" "extends S cx cx'"
    "cx_mutation cx' = mutation_reset (cx_mutation cx)" "cx_access cx' = cx_access cx"
    "revisions (ss_world S) (cx_blocks cx') KS KC (c, m, \<sigma>) [(c', m', cx_mutation cx)]"
proof -
  let ?W = "ss_world S" and ?a = "cx_author cx" and ?\<mu> = "cx_mutation cx"
  note ok = session_okD [OF assms(1)]
  obtain d where d: "key_total (author_key ?a) d" "authored d ?\<mu>" using assms(2) by (auto simp: context_at_def)
  have C: "auth_ok ?W (cx_blocks cx) (author_authorization ?a)" "store_ok (ss_codecs S) (cx_blocks cx)"
      "value_at (codecs ?W) memo_to_ipld (cx_blocks cx) c m" "body_at ?W (cx_blocks cx) (body m) \<sigma>" "state_in KS KC \<sigma>"
      "mutation_in KS KC ?\<mu>"
    using assms(2) by (auto simp: context_at_def base_at_def)
  obtain c' m' s' where s': "sbind (apply_mutation_with_cid ?W c ?\<mu> (cx_blocks cx)) (\<lambda>r s.
        revision_sign ?W (ss_now S) (ss_nonce S) (author_key ?a) (author_authorization ?a) r s) = (Inr c', s')"
      "cx_blocks cx \<subseteq>\<^sub>m s'" "store_ok (codecs ?W) s'" "value_at (codecs ?W) memo_to_ipld s' c' m'" "parent m' = Some c"
      "get_first_header (header_str Author) m' = Some d" "base_at ?W s' KS KC (c', m', step_sphere ?\<mu> \<sigma>)"
    by (rule authored_header [OF ok(1,2) d(1) C(1,2,3,4,5) ok(3) C(6)])
  then obtain r s1 where r: "apply_mutation_with_cid ?W c ?\<mu> (cx_blocks cx) = (Inr r, s1)"
      "revision_sign ?W (ss_now S) (ss_nonce S) (author_key ?a) (author_authorization ?a) r s1 = (Inr c', s')"
    by (auto simp: sbind_eq_Inr)
  let ?cx1 = "cx\<lparr>cx_db := (cx_db cx)\<lparr>block_store := s'\<rparr>\<rparr>"
  obtain db where db: "set_context_version S (cx_identity cx) c' ?cx1 = (Inr (), ?cx1\<lparr>cx_db := db\<rparr>)" "block_store db = s'"
      "metadata_store db = metadata_store (cx_db cx)"
      "\<And>d'. get_version (ss_codecs S) d' db = (if d' = cx_identity cx then Inr (Some c') else get_version (ss_codecs S) d' (cx_db ?cx1))"
    by (rule set_context_version_ok [OF ok(4), of "cx_identity cx" c' ?cx1]) simp
  let ?cx' = "cx\<lparr>cx_db := db, cx_mutation := mutation_reset ?\<mu>\<rparr>"
  have sv: "context_save S None cx = (Inr c', ?cx')"
    using context_at_version [OF assms(2)] r db(1) assms(3) by (simp add: context_save_def on_blocks_def)
  have "body_sparse ?W s' (body m') (step_sphere ?\<mu> \<sigma>)"
    using s'(7) body_at_sparse [OF s'(3)] by (simp add: base_at_def)
  then have rv: "revisions ?W s' KS KC (c, m, \<sigma>) [(c', m', ?\<mu>)]" using s' C(6) d by auto
  have at: "context_at S KS KC (c', m', step_sphere ?\<mu> \<sigma>) ?cx'"
    unfolding context_at_def
    using s'(3,7) db d mutation_reset_new mutation_reset_authored auth_ok_mono [OF C(1) s'(2)] by auto
  show thesis
    by (rule that [OF sv at]) (use s'(2) db rv in \<open>auto simp: extends_def get_version_def\<close>)
qed

text \<open>Without changes there is nothing to save, unless headers are given: then the next version is the same sphere again.\<close>

lemma step_sphere_empty: "mutation_is_empty \<mu> \<Longrightarrow> step_sphere \<mu> \<sigma> = \<sigma>"
  by (simp add: mutation_is_empty_def step_sphere_def step_version_def)

lemma context_save_empty:
  assumes "session_ok S KS KC" "context_at S KS KC (c, m, \<sigma>) cx" "mutation_is_empty (cx_mutation cx)"
  shows "fst (context_save S None cx) = Inl (Anyhow ''No changes to save'')"
    and "hs \<noteq> [] \<Longrightarrow> \<exists>c' m' cx'. context_save S (Some hs) cx = (Inr c', cx') \<and>
      context_at S KS KC (c', m', \<sigma>) cx' \<and> parent m' = Some c"
proof -
  let ?W = "ss_world S" and ?a = "cx_author cx" and ?\<mu> = "cx_mutation cx"
  note ok = session_okD [OF assms(1)]
  obtain d where d: "key_total (author_key ?a) d" "authored d ?\<mu>" using assms(2) by (auto simp: context_at_def)
  have C: "auth_ok ?W (cx_blocks cx) (author_authorization ?a)" "store_ok (ss_codecs S) (cx_blocks cx)"
      "value_at (codecs ?W) memo_to_ipld (cx_blocks cx) c m" "body_at ?W (cx_blocks cx) (body m) \<sigma>" "state_in KS KC \<sigma>"
      "mutation_in KS KC ?\<mu>"
    using assms(2) by (auto simp: context_at_def base_at_def)
  obtain b s1 where s1: "apply_mutation_with_cid ?W c ?\<mu> (cx_blocks cx) =
      (Inr \<lparr>rev_identity = st_identity \<sigma>, rev_memo = (branch_memo c m)\<lparr>body := b\<rparr>\<rparr>, s1)"
      "cx_blocks cx \<subseteq>\<^sub>m s1" "store_ok (codecs ?W) s1" "body_at ?W s1 b \<sigma>"
    by (rule apply_mutation_ok [OF ok(1) C(2,3,4) keys_ok_in [OF ok(3) C(5,6)]]) (simp add: step_sphere_empty [OF assms(3)])
  show "fst (context_save S None cx) = Inl (Anyhow ''No changes to save'')"
    using context_at_version [OF assms(2)] s1(1) assms(3) by (simp add: context_save_def on_blocks_def)
  assume hs: "hs \<noteq> []"
  let ?r = "\<lparr>rev_identity = st_identity \<sigma>, rev_memo = replace_headers hs ((branch_memo c m)\<lparr>body := b\<rparr>)\<rparr>"
  obtain c' m' s' where s': "revision_sign ?W (ss_now S) (ss_nonce S) (author_key ?a) (author_authorization ?a) ?r s1 = (Inr c', s')"
      "s1 \<subseteq>\<^sub>m s'" "store_ok (codecs ?W) s'" "value_at (codecs ?W) memo_to_ipld s' c' m'"
      "parent m' = parent (rev_memo ?r)" "body m' = body (rev_memo ?r)"
    by (rule revision_sign_ok [OF ok(4) ok(2) d(1) auth_ok_mono [OF C(1) s1(2)] s1(3), where r = ?r]) blast
  have m': "parent m' = Some c" "body m' = b" using s'(5,6) by (simp_all add: replace_headers_def Let_def branch_memo_fields)
  let ?cx1 = "cx\<lparr>cx_db := (cx_db cx)\<lparr>block_store := s'\<rparr>\<rparr>"
  obtain db where db: "set_context_version S (cx_identity cx) c' ?cx1 = (Inr (), ?cx1\<lparr>cx_db := db\<rparr>)" "block_store db = s'"
      "get_version (ss_codecs S) (cx_identity cx) db = Inr (Some c')"
    by (rule set_context_version_ok [OF ok(4), of "cx_identity cx" c' ?cx1]) simp
  let ?cx' = "cx\<lparr>cx_db := db, cx_mutation := mutation_reset ?\<mu>\<rparr>"
  have sv: "context_save S (Some hs) cx = (Inr c', ?cx')"
    using context_at_version [OF assms(2)] s1(1) s'(1) db(1) hs by (simp add: context_save_def on_blocks_def)
  have "base_at ?W s' KS KC (c', m', \<sigma>)"
    using s'(4) m'(2) body_at_mono [OF s1(4) s'(2)] C(5) by (simp add: base_at_def)
  then have "context_at S KS KC (c', m', \<sigma>) ?cx'"
    unfolding context_at_def
    using s'(3) db d mutation_reset_new mutation_reset_authored auth_ok_mono [OF C(1) map_le_trans [OF s1(2) s'(2)]] by auto
  with sv m'(1) show "\<exists>c' m' cx'. context_save S (Some hs) cx = (Inr c', cx') \<and>
      context_at S KS KC (c', m', \<sigma>) cx' \<and> parent m' = Some c" by blast
qed

section \<open>Reading\<close>

text \<open>A cursor that points to version \<open>c\<close>, mounted there or at the latest.\<close>

definition points_to :: "session \<Rightarrow> cid \<Rightarrow> cursor \<Rightarrow> bool" where
  "points_to S c h \<longleftrightarrow> cursor_version S h = Inr c"

lemma base_body:
  assumes "sphere_ok W" "base_at W s KS KC (c, m, \<sigma>)"
  obtains sp book auth where "to_body W c s = Inr sp"
    "body_is W s (version_at (content_ctx W) s) (version_at (identities_ctx W) s)
      (version_at (delegations_ctx W) s) (version_at (revocations_ctx W) s) (body m) \<sigma> sp book auth"
proof -
  note env = sphere_ok_env [OF assms(1)]
  obtain sp book auth where B: "body_is W s (version_at (content_ctx W) s) (version_at (identities_ctx W) s)
      (version_at (delegations_ctx W) s) (version_at (revocations_ctx W) s) (body m) \<sigma> sp book auth"
    using assms(2) unfolding base_at_def body_at_def by auto
  have "to_memo W c s = Inr m" using load_value_ok [OF env memo_serde, of s c m] assms(2) by (simp add: to_memo_def base_at_def)
  then have "to_body W c s = Inr sp"
    using load_value_ok [OF env sphere_serde, of s "body m" sp] B by (simp add: to_body_def body_is_def)
  then show thesis using B by (rule that)
qed

lemma content_reads:
  assumes "sphere_ok W" "store_ok (codecs W) s" "base_at W s KS KC (c, m, \<sigma>)"
  obtains links where "get_content W c s = Inr links"
    "\<And>k. vm_get (content_ctx W) links k s = Inr (fst (st_content \<sigma>) k)"
proof (rule base_body [OF assms(1,3)])
  fix sp book auth
  assume "to_body W c s = Inr sp" "body_is W s (version_at (content_ctx W) s) (version_at (identities_ctx W) s)
      (version_at (delegations_ctx W) s) (version_at (revocations_ctx W) s) (body m) \<sigma> sp book auth"
  then show thesis
    using vm_get_ok [OF ctx_ok(1) [OF assms(1)], of s "content sp" "fst (st_content \<sigma>)" "snd (st_content \<sigma>)"] assms(2)
    by (intro that [of "content sp"]) (simp_all add: get_content_def body_is_def)
qed

lemma identities_reads:
  assumes "sphere_ok W" "store_ok (codecs W) s" "base_at W s KS KC (c, m, \<sigma>)"
  obtains book ids where "get_address_book W c s = Inr book" "get_identities W book s = Inr ids"
    "\<And>k. vm_get (identities_ctx W) ids k s = Inr (fst (st_identities \<sigma>) k)"
proof (rule base_body [OF assms(1,3)])
  fix sp book auth
  assume "to_body W c s = Inr sp" "body_is W s (version_at (content_ctx W) s) (version_at (identities_ctx W) s)
      (version_at (delegations_ctx W) s) (version_at (revocations_ctx W) s) (body m) \<sigma> sp book auth"
  then show thesis
    using vm_get_ok [OF ctx_ok(2) [OF assms(1)], of s "identities book" "fst (st_identities \<sigma>)" "snd (st_identities \<sigma>)"] assms(2)
      load_value_ok [OF sphere_ok_env [OF assms(1)] address_book_serde, of s "address_book sp" book]
    by (intro that [of "address_book sp" "identities book"])
      (simp_all add: get_address_book_def get_identities_def body_is_def)
qed

text \<open>A memo with a content type whose body is the list of chunks \<open>cs\<close>.\<close>

definition file_at :: "session \<Rightarrow> blocks \<Rightarrow> cid \<Rightarrow> memo \<Rightarrow> bytes list \<Rightarrow> bool" where
  "file_at S s c m cs \<longleftrightarrow>
     value_at (ss_codecs S) memo_to_ipld s c m \<and> get_first_header (header_str ContentType) m \<noteq> None \<and>
     chunks_at (ss_codecs S) s (Some (body m)) cs \<and> length cs < ss_fuel S"

lemma file_at_mono: "file_at S s c m cs \<Longrightarrow> s \<subseteq>\<^sub>m s' \<Longrightarrow> file_at S s' c m cs"
  by (auto simp: file_at_def intro: value_at_mono chunks_at_mono)

lemma get_file_ok:
  assumes "env_ok (ss_codecs S)" "file_at S (cur_blocks h) k mk cs"
  shows "get_file S c k h =
    (Inr \<lparr>sf_identity = cx_identity (cur_context h), sf_version = c, sf_memo_version = k, sf_memo = mk,
          sf_contents = (cs, Inr ())\<rparr>, h)"
proof -
  have F: "value_at (ss_codecs S) memo_to_ipld (cur_blocks h) k mk" "get_first_header (header_str ContentType) mk \<noteq> None"
      "chunks_at (ss_codecs S) (cur_blocks h) (Some (body mk)) cs" "length cs < ss_fuel S"
    using assms(2) by (simp_all add: file_at_def)
  obtain b n cs' where "value_at (ss_codecs S) chunk_to_ipld (cur_blocks h) (body mk) \<lparr>chunk_bytes = b, chunk_next = n\<rparr>"
    using F(3) by (cases cs) auto
  then obtain bs where "get_block (body mk) (cur_blocks h) = Some bs"
    by (auto simp: has_block_def get_block_def)
  then have "in_context (replicate_missing S k mk) h = (Inr (), h)" by (simp add: in_context_def replicate_missing_def)
  moreover have "chunk_stream (ss_fuel S) (ss_codecs S) (cur_blocks h) (Some (body mk)) = (cs, Inr ())"
    by (rule chunk_stream_ok [OF assms(1) F(3,4)])
  ultimately show ?thesis
    using F(2) by (auto simp: get_file_def load_from_ok [OF assms(1) memo_serde F(1)])
qed

lemma read_slug_ok:
  assumes "session_ok S KS KC" "points_to S c h" "store_ok (ss_codecs S) (cur_blocks h)"
    "base_at (ss_world S) (cur_blocks h) KS KC (c, m, \<sigma>)"
  shows "fst (st_content \<sigma>) slug = None \<Longrightarrow> read_slug S slug h = (Inr None, h)"
    and "fst (st_content \<sigma>) slug = Some k \<Longrightarrow> file_at S (cur_blocks h) k mk cs \<Longrightarrow>
      read_slug S slug h =
        (Inr (Some \<lparr>sf_identity = cx_identity (cur_context h), sf_version = c, sf_memo_version = k, sf_memo = mk,
                    sf_contents = (cs, Inr ())\<rparr>), h)"
proof -
  note ok = session_okD [OF assms(1)]
  obtain links where l: "get_content (ss_world S) c (cur_blocks h) = Inr links"
      "\<And>k. vm_get (content_ctx (ss_world S)) links k (cur_blocks h) = Inr (fst (st_content \<sigma>) k)"
    by (rule content_reads [OF ok(1) assms(3,4)]) blast
  note p = assms(2) [unfolded points_to_def]
  show "read_slug S slug h = (Inr None, h)" if "fst (st_content \<sigma>) slug = None"
    using that by (simp add: read_slug_def p l)
  show "read_slug S slug h =
        (Inr (Some \<lparr>sf_identity = cx_identity (cur_context h), sf_version = c, sf_memo_version = k, sf_memo = mk,
                    sf_contents = (cs, Inr ())\<rparr>), h)"
    if "fst (st_content \<sigma>) slug = Some k" "file_at S (cur_blocks h) k mk cs"
    using that(1) get_file_ok [OF ok(4) that(2), of c] by (simp add: read_slug_def p l)
qed

section \<open>Writing\<close>

lemma access_cached:
  "fst (context_access S cx) = Inr a \<Longrightarrow> context_access S cx = (Inr a, cx\<lparr>cx_access := Some a\<rparr>)"
  by (auto simp: context_access_def split: option.splits sum.splits)

lemma assert_write_access_ok:
  "fst (context_access S (cur_context h)) = Inr ReadWrite \<Longrightarrow>
   assert_write_access S h = (Inr (), h\<lparr>cur_context := (cur_context h)\<lparr>cx_access := Some ReadWrite\<rparr>\<rparr>)"
  by (simp add: assert_write_access_def in_context_def access_cached)

lemma assert_write_access_again [simp]:
  "cx_access (cur_context h) = Some ReadWrite \<Longrightarrow> assert_write_access S h = (Inr (), h)"
  by (simp add: assert_write_access_def in_context_def context_access_def)

lemma replace_headers_fields [simp]: "parent (replace_headers hs m) = parent m" "body (replace_headers hs m) = body m"
  by (simp_all add: replace_headers_def)

lemma get_first_replace_headers_last:
  assumes "\<forall>h \<in> set hs. \<not> same_name (fst h) name"
  shows "get_first_header name (replace_headers (hs @ [(name, v)]) m) = Some v"
proof -
  have "find (\<lambda>h. same_name (fst h) name) (filter (\<lambda>h. to_lowercase (fst h) \<notin> set (map (\<lambda>h. to_lowercase (fst h)) (hs @ [(name, v)]))) (headers m)) = None"
    by (rule find_filter_None) auto
  moreover have "find (\<lambda>h. same_name (fst h) name) hs = None" using assms by (auto simp: find_None_iff)
  ultimately show ?thesis by (simp add: get_first_header_def replace_headers_def find_append)
qed

text \<open>The branch of \<open>link_slug\<close> on the file that is already there.\<close>

abbreviation next_memo :: "session \<Rightarrow> cid \<Rightarrow> cursor \<Rightarrow> sphere_file option \<Rightarrow> memo result" where
  "next_memo S b h file \<equiv>
     (case file of
        Some file \<Rightarrow> rbind (branch_from (ss_codecs S) (sf_memo_version file) (cur_blocks h)) (\<lambda>m. Inr (m\<lparr>body := b\<rparr>))
      | None \<Rightarrow> Inr \<lparr>parent = None, headers = [], body = b\<rparr>)"

lemma read_for_link:
  assumes "session_ok S KS KC" "context_at S KS KC (c, m, \<sigma>) cx"
    "\<And>k. fst (st_content \<sigma>) slug = Some k \<Longrightarrow> \<exists>mk cs. file_at S (cx_blocks cx) k mk cs"
  obtains found m0 where "read_slug S slug (latest cx) = (Inr found, latest cx)"
    "next_memo S b (latest cx) found = Inr m0" "body m0 = b" "parent m0 = fst (st_content \<sigma>) slug"
proof -
  have at: "points_to S c (latest cx)" "store_ok (ss_codecs S) (cur_blocks (latest cx))"
      "base_at (ss_world S) (cur_blocks (latest cx)) KS KC (c, m, \<sigma>)"
    using assms(2) context_at_version [OF assms(2)]
    by (simp_all add: points_to_def cursor_version_def latest_def context_at_def)
  note rd = read_slug_ok [OF assms(1) at]
  show thesis
  proof (cases "fst (st_content \<sigma>) slug")
    case None
    with rd(1) show thesis by (intro that [of None "\<lparr>parent = None, headers = [], body = b\<rparr>"]) simp_all
  next
    case (Some k)
    then obtain mk cs where F: "file_at S (cx_blocks cx) k mk cs" using assms(3) by blast
    then have F': "file_at S (cur_blocks (latest cx)) k mk cs" by (simp add: latest_def)
    have "branch_from (ss_codecs S) k (cx_blocks cx) = Inr (branch_memo k mk)"
      using F load_value_ok [OF session_okD(4) [OF assms(1)] memo_serde, of "cx_blocks cx" k mk]
      by (simp add: branch_from_def file_at_def)
    with rd(2) [OF Some F'] Some show thesis
      by (intro that [of "Some \<lparr>sf_identity = cx_identity cx, sf_version = c, sf_memo_version = k, sf_memo = mk,
          sf_contents = (cs, Inr ())\<rparr>" "(branch_memo k mk)\<lparr>body := b\<rparr>"]) (simp_all add: latest_def)
  qed
qed

text \<open>
  Writing stores the bytes and a memo for them, whose parent is the memo that the slug has in the
  latest version, and adds the slug to the unsaved changes.
\<close>

lemma write_slug_ok:
  assumes "session_ok S KS KC" "chunker_ok (ss_chunker S)" "context_at S KS KC (c, m, \<sigma>) cx"
    "fst (context_access S cx) = Inr ReadWrite" "slug \<noteq> []" "slug \<in> KS" "bs \<noteq> []" "length (ss_chunker S bs) < ss_fuel S"
    "\<And>k. fst (st_content \<sigma>) slug = Some k \<Longrightarrow> \<exists>mk cs. file_at S (cx_blocks cx) k mk cs"
    "\<forall>h \<in> set hs. \<not> same_name (fst h) ''Content-Length''"
  obtains k mk cs cx' where "write_slug S slug t bs (Some hs) (latest cx) = (Inr k, latest cx')"
    "context_at S KS KC (c, m, \<sigma>) cx'" "extends S cx cx'" "cx_access cx' = Some ReadWrite"
    "cx_mutation cx' = (cx_mutation cx)\<lparr>sm_content := mutation_set slug k (sm_content (cx_mutation cx))\<rparr>"
    "file_at S (cx_blocks cx') k mk cs" "concat cs = bs" "get_first_header ''Content-Type'' mk = Some t"
    "get_first_header ''Content-Length'' mk = Some (nat_to_string (length bs))" "parent mk = fst (st_content \<sigma>) slug"
proof -
  note ok = session_okD [OF assms(1)]
  let ?E = "ss_codecs S" and ?cl = "(''Content-Length'', nat_to_string (length bs))"
  let ?cx1 = "cx\<lparr>cx_access := Some ReadWrite\<rparr>"
  have st: "store_ok ?E (cx_blocks cx)" using assms(3) by (simp add: context_at_def)
  obtain cs n s1 where s1: "rtraverse (slice_bytes bs) (ss_chunker S bs) = Inr cs" "concat cs = bs"
      "store_bytes ?E (ss_chunker S) bs (cx_blocks cx) = (of_option (Anyhow ''No CID; did you try to store zero bytes?'') n, s1)"
      "cx_blocks cx \<subseteq>\<^sub>m s1" "store_ok ?E s1" "chunks_at ?E s1 n cs" "n = None \<longleftrightarrow> bs = []"
    by (rule store_bytes_ok [OF ok(4) st assms(2)])
  then obtain b where b: "n = Some b" using assms(7) by auto
  have len: "length cs < ss_fuel S" using s1(1) assms(8) by (auto simp: rtraverse_eq_Inr dest: list_all2_lengthD)
  let ?cx2 = "?cx1\<lparr>cx_db := (cx_db cx)\<lparr>block_store := s1\<rparr>\<rparr>"
  have at2: "context_at S KS KC (c, m, \<sigma>) ?cx2" using context_at_grow [of S KS KC _ ?cx1 s1] assms(3) s1(4,5) by simp
  have prev: "\<exists>mk cs. file_at S (cx_blocks ?cx2) k mk cs" if "fst (st_content \<sigma>) slug = Some k" for k
    using assms(9) [OF that] file_at_mono [OF _ s1(4)] by simp blast
  obtain found m0 where m0: "read_slug S slug (latest ?cx2) = (Inr found, latest ?cx2)"
      "next_memo S b (latest ?cx2) found = Inr m0" "body m0 = b" "parent m0 = fst (st_content \<sigma>) slug"
    by (rule read_for_link [OF assms(1) at2 prev])
  let ?mk = "replace_first_header ''Content-Type'' t (replace_headers (hs @ [?cl]) m0)"
  obtain k s2 where s2: "save_value ?E memo_to_ipld ?mk s1 = (Inr k, s2)" "value_at ?E memo_to_ipld s2 k ?mk"
      "s1 \<subseteq>\<^sub>m s2" "store_ok ?E s2"
    by (rule save_value_ok [OF ok(4) s1(5) memo_serde])
  let ?\<mu> = "(cx_mutation cx)\<lparr>sm_content := mutation_set slug k (sm_content (cx_mutation cx))\<rparr>"
  let ?cx' = "cx\<lparr>cx_access := Some ReadWrite, cx_db := (cx_db cx)\<lparr>block_store := s2\<rparr>, cx_mutation := ?\<mu>\<rparr>"
  have memo: "(case found of
        Some file \<Rightarrow> (rbind (branch_from ?E (sf_memo_version file) (cur_blocks (latest ?cx2))) (\<lambda>m. Inr (m\<lparr>body := b\<rparr>)), latest ?cx2)
      | None \<Rightarrow> (Inr \<lparr>parent = None, headers = [], body = b\<rparr>, latest ?cx2)) = (Inr m0, latest ?cx2)"
    using m0(2) by (cases found) simp_all
  let ?cx3 = "?cx1\<lparr>cx_db := (cx_db cx)\<lparr>block_store := s2\<rparr>\<rparr>"
  have v: "validate_slug slug = Inr ()" using assms(5) by (simp add: validate_slug_def)
  have a: "assert_write_access S (latest cx) = (Inr (), latest ?cx1)" "assert_write_access S (latest ?cx2) = (Inr (), latest ?cx2)"
    using assert_write_access_ok [of S "latest cx"] assms(4) by (simp_all add: latest_def)
  have sb: "in_context (on_blocks (store_bytes ?E (ss_chunker S) bs)) (latest ?cx1) = (Inr b, latest ?cx2)"
    using s1(3) b by (simp add: latest_def in_context_def on_blocks_def)
  have sm: "in_context (on_blocks (save_value ?E memo_to_ipld ?mk)) (latest ?cx2) = (Inr k, latest ?cx3)"
    using s2(1) by (simp add: latest_def in_context_def on_blocks_def)
  have "link_raw S slug k (latest ?cx3) = (Inr (), latest ?cx')"
    by (simp add: link_raw_def latest_def v mutate_def)
  then have "link_slug S slug t b (Some (hs @ [?cl])) (latest ?cx2) = (Inr k, latest ?cx')"
    by (simp only: link_slug_def a(2) v m0(1) memo sm header_str.simps option.case Let_def sbind_simps)
  then have wr: "write_slug S slug t bs (Some hs) (latest cx) = (Inr k, latest ?cx')"
    by (simp only: write_slug_def a(1) v sb header_str.simps option.case Let_def sbind_simps)
  show thesis
  proof (rule that [OF wr])
    have "context_at S KS KC (c, m, \<sigma>) (cx\<lparr>cx_db := (cx_db cx)\<lparr>block_store := s2\<rparr>\<rparr>)"
      by (rule context_at_grow [OF assms(3) map_le_trans [OF s1(4) s2(3)] s2(4)])
    moreover have "mutation_in KS KC ?\<mu>" using assms(3,6)
      by (auto simp: context_at_def mutation_in_def mutation_set_def)
    ultimately show "context_at S KS KC (c, m, \<sigma>) ?cx'"
      by (auto simp: context_at_def authored_def mutation_set_def)
    show "extends S cx ?cx'" using map_le_trans [OF s1(4) s2(3)] by (simp add: extends_def get_version_def)
    show "file_at S (cx_blocks ?cx') k ?mk cs"
      using s2(2) chunks_at_mono [OF s1(6) s2(3)] b m0(3) len by (simp add: file_at_def get_first_replace_first)
    show "get_first_header ''Content-Length'' ?mk = Some (nat_to_string (length bs))"
      using get_first_replace_headers_last [OF assms(10), of "nat_to_string (length bs)" m0]
      by (simp add: get_first_replace_first to_lowercase_def lower_char_def)
  qed (use s1(2) m0(4) in \<open>simp_all add: get_first_replace_first\<close>)
qed

section \<open>Who may write\<close>

text \<open>
  \<open>may_write\<close>: the author's key is the sphere's own, or the author holds an authorization made
  out to them, all of whose tokens the sphere accepts, and that lets them push in the name of
  the sphere.
\<close>

definition may_write :: "session \<Rightarrow> blocks \<Rightarrow> sphere_state \<Rightarrow> author \<Rightarrow> bool" where
  "may_write S s \<sigma> a \<longleftrightarrow>
     km_did (author_key a) = Inr (st_identity \<sigma>) \<or>
     (\<exists>d z u chain credential infos.
        km_did (author_key a) = Inr d \<and> author_authorization a = Some z \<and> as_ucan (ss_world S) s z = Inr u \<and>
        aud (payload u) = d \<and> from_ucan (ss_fuel S) (ss_world S) (ss_now S) None s u = Inr chain \<and>
        parse_key (ss_world S) (st_identity \<sigma>) = Inr credential \<and>
        accepted (ss_world S) (fst (st_delegations \<sigma>)) (fst (st_revocations \<sigma>)) (st_identity \<sigma>) credential chain \<and>
        reduce_capabilities (url_parse (ss_world S)) SPHERE_SEMANTICS chain = Inr infos \<and>
        has_capability infos (st_identity \<sigma>) (generate_capability (st_identity \<sigma>) Push))"

lemma on_error_other: "on_error r f (Inr (d :: 'b)) = Inr x \<Longrightarrow> x \<noteq> d \<Longrightarrow> \<exists>y. r = Inr y \<and> f y = Inr x"
  by (cases "(r, f, Inr d :: 'b result)" rule: on_error.cases) auto

lemma verify_links_accepted:
  assumes "\<And>k. vm_get (delegations_ctx W) dl k s = Inr (D k)" "\<And>k. vm_get (revocations_ctx W) rl k s = Inr (R k)"
  shows "verify_links f W dl rl sphere credential s links = Inr () \<Longrightarrow> list_all (accepted W D R sphere credential) links"
proof (induction f arbitrary: links)
  case (Suc f)
  show ?case
  proof (cases links rule: rev_cases)
    case (snoc rest l)
    obtain u ps rd where l: "l = ProofChain u ps rd" by (cases l)
    obtain link where link: "to_cid W u = Inr link" "D link \<noteq> None"
      using Suc.prems by (auto simp: snoc l assms split: if_splits)
    show ?thesis
    proof (cases "R link")
      case None
      with Suc.prems link have "verify_links f W dl rl sphere credential s (rest @ ps) = Inr ()"
        by (simp add: snoc l assms)
      with Suc.IH [of "rest @ ps"] None link show ?thesis by (simp add: snoc l)
    next
      case (Some r)
      with Suc.prems link have "verify_links f W dl rl sphere credential s rest = Inr ()"
          "\<not> (revocation_ipld.iss r = sphere \<and> revocation_ipld.iss r = iss (payload u) \<and> revocation_verify W credential r = Inr ())"
        by (auto simp: snoc l assms split: if_splits sum.splits)
      with Suc.IH [of rest] Some link show ?thesis by (simp add: snoc l)
    qed
  qed simp
qed simp

lemma chain_of_authorization:
  "as_proof_chain f W now s z = Inr chain \<Longrightarrow> as_ucan W s z = Inr u \<Longrightarrow> from_ucan f W now None s u = Inr chain"
  by (cases z) (auto simp: from_cid_def try_from_token_string_def)

lemma access_to_may_write:
  assumes "sphere_ok (ss_world S)" "store_ok (ss_codecs S) (block_store db)"
    "base_at (ss_world S) (block_store db) KS KC (c, m, \<sigma>)" "get_version (ss_codecs S) (st_identity \<sigma>) db = Inr (Some c)"
    "access_to S a (st_identity \<sigma>) db = Inr ReadWrite"
  shows "may_write S (block_store db) \<sigma> a"
proof (cases "km_did (author_key a) = Inr (st_identity \<sigma>)")
  case False
  let ?W = "ss_world S" and ?s = "block_store db"
  obtain d z u where d: "km_did (author_key a) = Inr d" "author_authorization a = Some z" "as_ucan ?W ?s z = Inr u"
      "aud (payload u) = d"
    using assms(5) False by (auto simp: access_to_def split: if_splits option.splits)
  have "require_version (ss_codecs S) (st_identity \<sigma>) db = Inr c" using assms(4) by (simp add: require_version_def)
  with assms(5) False d have "on_error (verify_authorization (ss_fuel S) (ss_fuel S) ?W (ss_now S) ?s c z)
      (\<lambda>_. on_error (from_ucan (ss_fuel S) ?W (ss_now S) None ?s u)
        (\<lambda>chain. rbind (reduce_capabilities (url_parse ?W) SPHERE_SEMANTICS chain) (\<lambda>infos.
           Inr (if has_capability infos (st_identity \<sigma>) (generate_capability (st_identity \<sigma>) Push) then ReadWrite else ReadOnly)))
        (Inr ReadOnly)) (Inr ReadOnly) = Inr ReadWrite"
    by (simp add: access_to_def)
  then obtain chain infos where v: "verify_authorization (ss_fuel S) (ss_fuel S) ?W (ss_now S) ?s c z = Inr ()"
      and ch: "from_ucan (ss_fuel S) ?W (ss_now S) None ?s u = Inr chain"
        "reduce_capabilities (url_parse ?W) SPHERE_SEMANTICS chain = Inr infos"
        "has_capability infos (st_identity \<sigma>) (generate_capability (st_identity \<sigma>) Push)"
    by (auto dest!: on_error_other split: if_splits)
  have B: "value_at (codecs ?W) memo_to_ipld ?s c m" "body_at ?W ?s (body m) \<sigma>" using assms(3) by (simp_all add: base_at_def)
  obtain auth dl rl where r: "get_authority ?W c ?s = Inr auth" "get_delegations ?W auth ?s = Inr dl"
      "get_revocations ?W auth ?s = Inr rl" "get_identity ?W c ?s = Inr (st_identity \<sigma>)"
      "\<And>k. vm_get (delegations_ctx ?W) dl k ?s = Inr (fst (st_delegations \<sigma>) k)"
      "\<And>k. vm_get (revocations_ctx ?W) rl k ?s = Inr (fst (st_revocations \<sigma>) k)"
    by (rule version_reads [OF assms(1,2) B]) blast
  obtain chain' credential where c': "as_proof_chain (ss_fuel S) ?W (ss_now S) ?s z = Inr chain'"
      "parse_key ?W (st_identity \<sigma>) = Inr credential"
      "verify_links (ss_fuel S) ?W dl rl (st_identity \<sigma>) credential ?s [chain'] = Inr ()"
    using v by (auto simp: verify_authorization_def r(1-4))
  have "chain' = chain" using chain_of_authorization [OF c'(1) d(3)] ch(1) by simp
  with verify_links_accepted [OF r(5,6) c'(3)] d ch c'(2) show ?thesis unfolding may_write_def by auto
qed (simp add: may_write_def)

text \<open>
  \<open>holds_authority\<close>: what authority comes from. The author's key is the sphere's own, or the author
  holds a token made out to them that the sphere lists as a delegation, and that rests on valid
  tokens of which the sphere issued one.
\<close>

definition holds_authority :: "session \<Rightarrow> blocks \<Rightarrow> sphere_state \<Rightarrow> author \<Rightarrow> bool" where
  "holds_authority S s \<sigma> a \<longleftrightarrow>
     km_did (author_key a) = Inr (st_identity \<sigma>) \<or>
     (\<exists>z chain link.
        author_authorization a = Some z \<and> as_ucan (ss_world S) s z = Inr (chain_ucan chain) \<and>
        km_did (author_key a) = Inr (aud (payload (chain_ucan chain))) \<and>
        to_cid (ss_world S) (chain_ucan chain) = Inr link \<and> fst (st_delegations \<sigma>) link \<noteq> None \<and>
        chain_ok (ss_world S) (ss_now S) None s chain \<and> st_identity \<sigma> \<in> (\<lambda>t. iss (payload t)) ` chain_tokens chain)"

lemma may_write_holds:
  assumes "may_write S s \<sigma> a"
  shows "holds_authority S s \<sigma> a"
proof (cases "km_did (author_key a) = Inr (st_identity \<sigma>)")
  case False
  then obtain z u chain credential infos where *: "km_did (author_key a) = Inr (aud (payload u))" "author_authorization a = Some z"
      "as_ucan (ss_world S) s z = Inr u" "from_ucan (ss_fuel S) (ss_world S) (ss_now S) None s u = Inr chain"
      "accepted (ss_world S) (fst (st_delegations \<sigma>)) (fst (st_revocations \<sigma>)) (st_identity \<sigma>) credential chain"
      "reduce_capabilities (url_parse (ss_world S)) SPHERE_SEMANTICS chain = Inr infos"
      "has_capability infos (st_identity \<sigma>) (generate_capability (st_identity \<sigma>) Push)"
    using assms unfolding may_write_def by blast
  have ch: "chain_ucan chain = u" "chain_ok (ss_world S) (ss_now S) None s chain" using *(4) by (auto simp: from_ucan_iff)
  obtain link where "to_cid (ss_world S) (chain_ucan chain) = Inr link" "fst (st_delegations \<sigma>) link \<noteq> None"
    using *(5) by (cases chain) auto
  moreover have "st_identity \<sigma> \<in> (\<lambda>t. iss (payload t)) ` chain_tokens chain"
    using *(7) reduce_issuers [OF *(6)] by (auto simp: has_capability_def)
  ultimately show ?thesis unfolding holds_authority_def using *(1-3) ch by blast
qed (simp add: holds_authority_def)

text \<open>Unless the author may write, the guard of the operations that write fails, and at most notes that access is read-only.\<close>

lemma write_denied:
  assumes "session_ok S KS KC" "context_at S KS KC (c, m, \<sigma>) (cur_context h)" "cx_identity (cur_context h) = st_identity \<sigma>"
    "cx_access (cur_context h) \<noteq> Some ReadWrite" "\<not> may_write S (cur_blocks h) \<sigma> (cx_author (cur_context h))"
  obtains e a where "assert_write_access S h = (Inl e, h\<lparr>cur_context := (cur_context h)\<lparr>cx_access := a\<rparr>\<rparr>)" "a \<noteq> Some ReadWrite"
proof (cases "cx_access (cur_context h)")
  case (Some a)
  with assms(4) have "a = ReadOnly" by (cases a) auto
  with Some show thesis
    by (intro that [of _ "Some ReadOnly"]) (simp_all add: assert_write_access_def in_context_def context_access_def)
next
  case None
  let ?r = "access_to S (cx_author (cur_context h)) (st_identity \<sigma>) (cx_db (cur_context h))"
  have "?r \<noteq> Inr ReadWrite"
    using assms(2,3,5) access_to_may_write [OF session_okD(1) [OF assms(1)]] by (auto simp: context_at_def)
  then consider e where "?r = Inl e" | "?r = Inr ReadOnly" by (metis access.exhaust sum.exhaust)
  then show thesis
  proof cases
    case (1 e)
    with None assms(3) show thesis
      by (intro that [of e None]) (simp_all add: assert_write_access_def in_context_def context_access_def)
  next
    case 2
    with None assms(3) show thesis
      by (intro that [of _ "Some ReadOnly"]) (simp_all add: assert_write_access_def in_context_def context_access_def)
  qed
qed

text \<open>One call of an operation that changes the sphere, whatever its arguments and its result.\<close>

inductive edit :: "session \<Rightarrow> cursor \<Rightarrow> cursor \<Rightarrow> bool" for S :: session and h :: cursor where
  "edit S h (snd (link_raw S slug l h))"
| "edit S h (snd (link_slug S slug t l hs h))"
| "edit S h (snd (write_slug S slug t bs hs h))"
| "edit S h (snd (remove_slug S slug h))"
| "edit S h (snd (set_petname S name peer h))"
| "edit S h (snd (set_petname_record S name record h))"
| "edit S h (snd (create_link_record S lifetime h))"
| "edit S h (snd (authorize S name recipient h))"
| "edit S h (snd (revoke_authorization S z h))"
| "edit S h (snd (recover_authority S recipient h))"

lemmas edit_defs = link_raw_def link_slug_def write_slug_def remove_slug_def set_petname_def set_petname_record_def
  create_link_record_def authorize_def revoke_authorization_def recover_authority_def

lemma edit_denied: "edit S h h' \<Longrightarrow> assert_write_access S h = (Inl e, h1) \<Longrightarrow> h' = h1"
  by (cases rule: edit.cases, assumption) (simp_all add: edit_defs)

lemma edits_denied:
  assumes "session_ok S KS KC" "context_at S KS KC (c, m, \<sigma>) (cur_context h)" "cx_identity (cur_context h) = st_identity \<sigma>"
    "cx_access (cur_context h) \<noteq> Some ReadWrite" "\<not> may_write S (cur_blocks h) \<sigma> (cx_author (cur_context h))" "(edit S)\<^sup>*\<^sup>* h h'"
  shows "\<exists>a. h' = h\<lparr>cur_context := (cur_context h)\<lparr>cx_access := a\<rparr>\<rparr> \<and> a \<noteq> Some ReadWrite"
  using assms(6)
proof (induction rule: rtranclp_induct)
  case base
  show ?case using assms(4) by (intro exI [of _ "cx_access (cur_context h)"]) simp
next
  case (step h1 h2)
  then obtain a where a: "h1 = h\<lparr>cur_context := (cur_context h)\<lparr>cx_access := a\<rparr>\<rparr>" "a \<noteq> Some ReadWrite" by blast
  obtain e a' where "assert_write_access S h1 = (Inl e, h1\<lparr>cur_context := (cur_context h1)\<lparr>cx_access := a'\<rparr>\<rparr>)" "a' \<noteq> Some ReadWrite"
    by (rule write_denied [OF assms(1), of c m \<sigma> h1]) (use assms(2,3,5) a in simp_all)
  with edit_denied [OF step(2)] a(1) show ?case by (intro exI [of _ a']) simp
qed

end
