(* ===== verification/Sphere_Walk.thy ===== *)
theory Sphere_Walk
  imports Context_Rep
begin

text \<open>
  Walking through a sphere: the streams over its history and its changelogs
  (\<^verbatim>\<open>noosphere-core/src/view/sphere.rs\<close>), the walker over a version
  (\<^verbatim>\<open>context/walker.rs\<close>), and the traversal from sphere to sphere along petnames
  (\<^verbatim>\<open>view/sphere.rs\<close>, \<^verbatim>\<open>context/cursor.rs\<close>). A stream is what it yields and how it ends.
\<close>

section \<open>History\<close>

text \<open>
  A sphere made from a memo has the CID of the memo's encoding. The code keeps the memo with the
  sphere; here it is read back by that CID, which a deterministic encoding gives back.
\<close>

definition from_memo :: "world \<Rightarrow> memo \<Rightarrow> cid result" where
  "from_memo W m =
     rbind (block_serialize (codecs W) DagCborCodec (\<lambda>m. Some (memo_to_ipld m)) m) (\<lambda>(c, _). Inr c)"

fun history_items :: "world \<Rightarrow> cid option \<Rightarrow> (cid \<times> memo) list \<Rightarrow> unit result \<Rightarrow> (cid \<times> cid) list \<times> unit result" where
  "history_items W since [] r = ([], r)"
| "history_items W since ((c, m) # items) r =
     (if since = Some c then ([], Inr ())
      else (case from_memo W m of
              Inl e \<Rightarrow> ([], Inl e)
            | Inr sphere \<Rightarrow> (case history_items W since items r of (out, r) \<Rightarrow> ((c, sphere) # out, r))))"

text \<open>\<open>into_history_stream\<close>: versions and the spheres at them, newest first.\<close>

definition history_stream :: "nat \<Rightarrow> world \<Rightarrow> blocks \<Rightarrow> cid \<Rightarrow> cid option \<Rightarrow> (cid \<times> cid) list \<times> unit result" where
  "history_stream f W s c since =
     (case slice_stream f (codecs W) s (without_past (slice c since)) of (items, r) \<Rightarrow> history_items W since items r)"

text \<open>
  The loop of the two changelog streams over the history, oldest first; \<open>map_of_version\<close> gives
  the CID of the map in question. A version whose map is that of its parent is skipped, and so
  is an empty changelog.
\<close>

fun changelog_items ::
    "world \<Rightarrow> ('k, 'v) hamt_ctx \<Rightarrow> (cid \<Rightarrow> cid result) \<Rightarrow> blocks \<Rightarrow> (cid \<times> cid) list \<Rightarrow> cid option \<Rightarrow>
     (cid \<times> ('k, 'v) map_operation changelog) list \<times> unit result" where
  "changelog_items W X map_of_version s [] prev = ([], Inr ())"
| "changelog_items W X map_of_version s ((c, sphere) # items) prev =
     (case rbind (case prev of Some _ \<Rightarrow> Inr prev | None \<Rightarrow> get_parent W sphere s) (\<lambda>parent_sphere.
             rbind (map_of_version sphere) (\<lambda>m.
               rbind (case parent_sphere of
                        Some p \<Rightarrow> rbind (map_of_version p) (\<lambda>mp. Inr (m \<noteq> mp))
                      | None \<Rightarrow> Inr True) (\<lambda>may_yield.
                 if may_yield then rbind (get_changelog X m s) (\<lambda>cl. Inr (if changelog_is_empty cl then [] else [(c, cl)]))
                 else Inr []))) of
        Inl e \<Rightarrow> ([], Inl e)
      | Inr out \<Rightarrow>
          (case changelog_items W X map_of_version s items (Some sphere) of (outs, r) \<Rightarrow> (out @ outs, r)))"

definition changelog_stream ::
    "nat \<Rightarrow> world \<Rightarrow> ('k, 'v) hamt_ctx \<Rightarrow> (cid \<Rightarrow> cid result) \<Rightarrow> blocks \<Rightarrow> cid \<Rightarrow> cid option \<Rightarrow>
     (cid \<times> ('k, 'v) map_operation changelog) list \<times> unit result" where
  "changelog_stream f W X map_of_version s c since =
     (case history_stream f W s c since of
        (items, Inl e) \<Rightarrow> ([], Inl e)
      | (items, Inr _) \<Rightarrow> changelog_items W X map_of_version s (rev items) None)"

definition identities_changelog_stream ::
    "nat \<Rightarrow> world \<Rightarrow> blocks \<Rightarrow> cid \<Rightarrow> cid option \<Rightarrow> (cid \<times> (string, identity_ipld) map_operation changelog) list \<times> unit result" where
  "identities_changelog_stream f W s =
     changelog_stream f W (identities_ctx W) (\<lambda>c. rbind (get_address_book W c s) (\<lambda>book. get_identities W book s)) s"

definition content_changelog_stream ::
    "nat \<Rightarrow> world \<Rightarrow> blocks \<Rightarrow> cid \<Rightarrow> cid option \<Rightarrow> (cid \<times> (string, cid) map_operation changelog) list \<times> unit result" where
  "content_changelog_stream f W s = changelog_stream f W (content_ctx W) (\<lambda>c. get_content W c s) s"

section \<open>The walker\<close>

text \<open>\<open>authorization_stream\<close>: the name, the audience and the link of every delegation.\<close>

fun authorization_items ::
    "world \<Rightarrow> blocks \<Rightarrow> (cid \<times> delegation_ipld) list \<Rightarrow> unit result \<Rightarrow> (string \<times> did \<times> cid) list \<times> unit result" where
  "authorization_items W s [] r = ([], r)"
| "authorization_items W s ((link, delegation) # items) r =
     (case delegation_resolve W delegation s of
        Inl e \<Rightarrow> ([], Inl e)
      | Inr u \<Rightarrow>
          (case authorization_items W s items r of (out, r) \<Rightarrow> ((dg_name delegation, aud (payload u), link) # out, r)))"

definition authorization_stream :: "session \<Rightarrow> cursor \<Rightarrow> (string \<times> did \<times> cid) list \<times> unit result" where
  "authorization_stream S h =
     (case delegation_stream S h of
        Inl e \<Rightarrow> ([], Inl e)
      | Inr (items, r) \<Rightarrow> authorization_items (ss_world S) (cur_blocks h) items r)"

text \<open>
  The folds into sets are forgiving: an error that ends the stream is dropped, and what was
  yielded before it is the result.
\<close>

definition forgiving :: "('a list \<Rightarrow> 'b) \<Rightarrow> 'a list \<times> unit result \<Rightarrow> 'b result" where
  "forgiving collect items = on_error (snd items) (\<lambda>_. Inr (collect (fst items))) (Inr (collect (fst items)))"

definition list_authorizations :: "session \<Rightarrow> cursor \<Rightarrow> cid set result" where
  "list_authorizations S h = forgiving (\<lambda>items. (\<lambda>(_, _, link). link) ` set items) (authorization_stream S h)"

definition list_petnames :: "session \<Rightarrow> cursor \<Rightarrow> string set result" where
  "list_petnames S h = forgiving (\<lambda>items. fst ` set items) (petname_stream S h)"

abbreviation changed_keys :: "(cid \<times> ('k, 'v) map_operation changelog) list \<times> unit result \<Rightarrow> (cid \<times> 'k set) list \<times> unit result" where
  "changed_keys items \<equiv> (map (\<lambda>(c, cl). (c, op_key ` set (changes cl))) (fst items), snd items)"

definition petname_change_stream :: "session \<Rightarrow> cid option \<Rightarrow> cursor \<Rightarrow> (cid \<times> string set) list \<times> unit result" where
  "petname_change_stream S since h =
     (case cursor_version S h of
        Inl e \<Rightarrow> ([], Inl e)
      | Inr c \<Rightarrow> changed_keys (identities_changelog_stream (ss_fuel S) (ss_world S) (cur_blocks h) c since))"

definition petname_changes :: "session \<Rightarrow> cid option \<Rightarrow> cursor \<Rightarrow> string set result" where
  "petname_changes S since h = forgiving (\<lambda>items. \<Union> (snd ` set items)) (petname_change_stream S since h)"

fun content_items ::
    "session \<Rightarrow> cid \<Rightarrow> (string \<times> cid) list \<Rightarrow> unit result \<Rightarrow> cursor \<Rightarrow> ((string \<times> sphere_file) list \<times> unit result) \<times> cursor" where
  "content_items S c [] r h = (([], r), h)"
| "content_items S c ((key, memo) # items) r h =
     (case get_file S c memo h of
        (Inl e, h) \<Rightarrow> (([], Inl e), h)
      | (Inr file, h) \<Rightarrow> (case content_items S c items r h of ((out, r), h) \<Rightarrow> (((key, file) # out, r), h)))"

definition content_stream :: "session \<Rightarrow> cursor \<Rightarrow> ((string \<times> sphere_file) list \<times> unit result) \<times> cursor" where
  "content_stream S h =
     (case rbind (cursor_version S h) (\<lambda>c.
             rbind (get_content (ss_world S) c (cur_blocks h)) (\<lambda>links.
               rbind (vm_into_stream (ss_fuel S) (content_ctx (ss_world S)) links (cur_blocks h)) (\<lambda>items. Inr (c, items)))) of
        Inl e \<Rightarrow> (([], Inl e), h)
      | Inr (c, items, r) \<Rightarrow> content_items S c items r h)"

definition list_slugs :: "session \<Rightarrow> cursor \<Rightarrow> string set result \<times> cursor" where
  "list_slugs S h = (case content_stream S h of (items, h) \<Rightarrow> (forgiving (\<lambda>items. fst ` set items) items, h))"

definition content_change_stream :: "session \<Rightarrow> cid option \<Rightarrow> cursor \<Rightarrow> (cid \<times> string set) list \<times> unit result" where
  "content_change_stream S since h =
     (case cursor_version S h of
        Inl e \<Rightarrow> ([], Inl e)
      | Inr c \<Rightarrow> changed_keys (content_changelog_stream (ss_fuel S) (ss_world S) (cur_blocks h) c since))"

definition content_changes :: "session \<Rightarrow> cid option \<Rightarrow> cursor \<Rightarrow> string set result" where
  "content_changes S since h = forgiving (\<lambda>items. \<Union> (snd ` set items)) (content_change_stream S since h)"

section \<open>Traversal\<close>

text \<open>
  The closure of \<open>SphereCursor::traverse_by_petnames\<close> that replicates a version. The result of
  putting the blocks is dropped by the \<open>select!\<close>; only a stalled stream is an error.
\<close>

definition replicate_version :: "session \<Rightarrow> cid \<Rightarrow> cid option \<Rightarrow> sphere_context \<Rightarrow> unit result \<times> sphere_context" where
  "replicate_version S version since cx =
     (let W = ss_world S; E = ss_codecs S in
      case rbind (context_client S cx) (\<lambda>client.
             rbind (cl_replicate client version since) (\<lambda>answer. Inr (answer, cl_stalls client version since))) of
        Inl e \<Rightarrow> (Inl e, cx)
      | Inr (answer, Some n) \<Rightarrow>
          (Inl (Anyhow ''Block timed out''), cx\<lparr>cx_db := snd (put_blocks E (texts W) (take n (fst answer)) (cx_db cx))\<rparr>)
      | Inr (answer, None) \<Rightarrow>
          (let cx = cx\<lparr>cx_db := snd (put_block_stream E (texts W) answer (cx_db cx))\<rparr> in
           case since of
             None \<Rightarrow> (Inr (), cx)
           | Some past_version \<Rightarrow>
               (case rbind (load_from E memo_from_ipld past_version (cx_blocks cx)) (\<lambda>since_memo.
                       rbind (load_from E memo_from_ipld version (cx_blocks cx)) (\<lambda>latest_memo.
                         Inr (lamport_order since_memo < lamport_order latest_memo))) of
                  Inl e \<Rightarrow> (Inl e, cx)
                | Inr True \<Rightarrow>
                    on_blocks (hydrate_timeslice (ss_fuel S) W (without_past (slice version (Some past_version)))) cx
                | Inr False \<Rightarrow> (Inr (), cx))))"

text \<open>Whether a version that is already there can be used: its memo and its body load.\<close>

definition version_usable :: "session \<Rightarrow> cid \<Rightarrow> blocks \<Rightarrow> bool result" where
  "version_usable S c s =
     on_error (to_memo (ss_world S) c s)
       (\<lambda>m. if memo_content_type m \<noteq> Some SphereType
            then Inl (Anyhow ''Resolved content does not refer to a sphere'')
            else on_error (load_value (ss_codecs S) sphere_from_ipld (body m) s) (\<lambda>_. Inr True) (Inr False))
       (Inr False)"

definition traverse_by_petname :: "session \<Rightarrow> cid \<Rightarrow> string \<Rightarrow> sphere_context \<Rightarrow> cid option result \<times> sphere_context" where
  "traverse_by_petname S sphere petname cx =
     (let W = ss_world S; E = ss_codecs S; s = cx_blocks cx in
      case rbind (get_address_book W sphere s) (\<lambda>book.
             rbind (get_identities W book s) (\<lambda>ids. vm_get (identities_ctx W) ids petname s)) of
        Inl e \<Rightarrow> (Inl e, cx)
      | Inr None \<Rightarrow> (Inr None, cx)
      | Inr (Some address) \<Rightarrow>
          (case (case identity_link_record W s address of Some r \<Rightarrow> get_link W r | None \<Rightarrow> None) of
             None \<Rightarrow> (Inl (Anyhow ''No version has been resolved''), cx)
           | Some link_version \<Rightarrow>
               sbind (rbind (get_version E (id_did address) (cx_db cx)) (\<lambda>local_version.
                        if local_version = Some link_version
                        then rbind (version_usable S link_version s) (\<lambda>usable. Inr (local_version, \<not> usable, None))
                        else Inr (local_version, True, local_version)), cx) (\<lambda>(local_version, required, target) cx.
                 if required then
                   (case replicate_version S link_version target cx of
                      (Inr _, cx) \<Rightarrow> (Inr (Some link_version), cx)
                    | (Inl (Anyhow m), cx) \<Rightarrow>
                        (case local_version of
                           Some v \<Rightarrow> (Inr (Some v), cx)
                         | None \<Rightarrow> (Inl (Anyhow m), cx))
                    | (Inl e, cx) \<Rightarrow> (Inl e, cx))
                 else (Inr (Some link_version), cx))))"

text \<open>The names are popped off the end of the path; \<open>names\<close> is the path backwards.\<close>

fun traverse_names :: "session \<Rightarrow> cid \<Rightarrow> string list \<Rightarrow> cid option \<Rightarrow> sphere_context \<Rightarrow> cid option result \<times> sphere_context" where
  "traverse_names S start [] sphere cx = (Inr sphere, cx)"
| "traverse_names S start (petname # names) sphere cx =
     sbind (traverse_by_petname S (case sphere of None \<Rightarrow> start | Some c \<Rightarrow> c) petname cx) (\<lambda>next_sphere cx.
       case next_sphere of
         None \<Rightarrow> (Inr None, cx)
       | Some c \<Rightarrow> traverse_names S start names (Some c) cx)"

text \<open>Whether the version reached is newer than the one on record for its sphere.\<close>

definition should_update :: "session \<Rightarrow> cid \<Rightarrow> did \<Rightarrow> sphere_context \<Rightarrow> bool result" where
  "should_update S c peer cx =
     rbind (get_version (ss_codecs S) peer (cx_db cx)) (\<lambda>local_version.
       case local_version of
         Some since \<Rightarrow>
           rbind (to_memo (ss_world S) since (cx_blocks cx)) (\<lambda>since_memo.
             rbind (to_memo (ss_world S) c (cx_blocks cx)) (\<lambda>latest_memo.
               Inr (lamport_order since_memo < lamport_order latest_memo)))
       | None \<Rightarrow> Inr True)"

definition traverse_by_petnames :: "session \<Rightarrow> string list \<Rightarrow> cursor \<Rightarrow> cursor option result \<times> cursor" where
  "traverse_by_petnames S petname_path h =
     sbind (cursor_version S h, h) (\<lambda>version h.
       sbind (in_context (traverse_names S version (rev petname_path) None) h) (\<lambda>peer_sphere h.
         case peer_sphere of
           None \<Rightarrow> (Inr None, h)
         | Some c \<Rightarrow>
             sbind (get_identity (ss_world S) c (cur_blocks h), h) (\<lambda>peer h.
               sbind (should_update S c peer (cur_context h), h) (\<lambda>newer h.
                 sbind (if newer then in_context (set_context_version S peer c) h else (Inr (), h)) (\<lambda>_ h.
                   sbind (to_visitor S peer (cur_context h), h) (\<lambda>visitor h.
                     (Inr (Some (mounted_at visitor c)), h)))))))"

end
