(* ===== verification/Sphere_Sync.thy ===== *)
theory Sphere_Sync
  imports Sphere_Walk
begin

text \<open>
  Synchronizing a sphere with a gateway (\<^verbatim>\<open>noosphere-core/src/context/sync\<close>): fetch the
  counterpart sphere that the gateway keeps, rebase the local changes on the lineage that it
  records, adopt the link records it brings, and push the result. What the gateway answers is an
  argument of the model. A \<open>?\<close> inside a block that is not a function returns from the function,
  so the roll back after the block of \<open>sync\<close> is not on any path.
\<close>

section \<open>Errors\<close>

datatype sync_error = SyncConflict | SyncOther err

fun sync_error_of_push :: "push_error \<Rightarrow> sync_error" where
  "sync_error_of_push Conflict = SyncConflict"
| "sync_error_of_push (Internal e) = SyncOther e"
| "sync_error_of_push _ = SyncOther (Anyhow ''Push failed'')"

datatype sync_extent = FetchOnly | FetchAndPush

datatype sync_recovery = NoRecovery | Retry u32

type_synonym 'a sync_result = "sync_error + 'a"

text \<open>The \<open>?\<close> operator where the function returns a \<open>SyncError\<close>.\<close>

definition ysbind :: "('a result \<times> 's) \<Rightarrow> ('a \<Rightarrow> 's \<Rightarrow> 'b sync_result \<times> 's) \<Rightarrow> 'b sync_result \<times> 's" where
  "ysbind rs f = (case rs of (Inl e, s) \<Rightarrow> (Inl (SyncOther e), s) | (Inr x, s) \<Rightarrow> f x s)"

definition ybind :: "('a sync_result \<times> 's) \<Rightarrow> ('a \<Rightarrow> 's \<Rightarrow> 'b sync_result \<times> 's) \<Rightarrow> 'b sync_result \<times> 's" where
  "ybind rs f = (case rs of (Inl e, s) \<Rightarrow> (Inl e, s) | (Inr x, s) \<Rightarrow> f x s)"

section \<open>Handshake\<close>

definition handshake :: "session \<Rightarrow> sphere_context \<Rightarrow> (cid option \<times> did \<times> cid option) result \<times> sphere_context" where
  "handshake S cx =
     sbind (context_client S cx, cx) (\<lambda>client cx.
       let counterpart = session_sphere client in
       sbind (case set_metadata (ss_codecs S) IString (str_bytes COUNTERPART) counterpart (cx_db cx) of
                (r, db) \<Rightarrow> (r, cx\<lparr>cx_db := db\<rparr>)) (\<lambda>_ cx.
         (rbind (get_version (ss_codecs S) (cx_identity cx) (cx_db cx)) (\<lambda>local_version.
            rbind (get_version (ss_codecs S) counterpart (cx_db cx)) (\<lambda>counterpart_version.
              Inr (local_version, counterpart, counterpart_version))), cx)))"

section \<open>Fetching\<close>

text \<open>The names a changelog adds, put into a map in the order of its keys.\<close>

fun append_added :: "(string, identity_ipld) map_operation list \<Rightarrow> (string \<times> identity_ipld) list \<Rightarrow> (string \<times> identity_ipld) list" where
  "append_added [] names = names"
| "append_added (Add k i # ops) names = append_added ops (btree_put k i names)"
| "append_added (Remove k # ops) names = append_added ops names"

text \<open>The loop over the history of the counterpart, oldest first.\<close>

fun adopt_history ::
    "world \<Rightarrow> (cid \<times> cid) list \<Rightarrow> (string \<times> identity_ipld) list \<Rightarrow> blocks \<Rightarrow> (string \<times> identity_ipld) list result \<times> blocks" where
  "adopt_history W [] names s = (Inr names, s)"
| "adopt_history W ((c, sphere) # items) names s =
     sbind (hydrate_with_cid W sphere s) (\<lambda>_ s.
       sbind (rbind (get_address_book W sphere s) (\<lambda>book.
                rbind (get_identities W book s) (\<lambda>ids. get_changelog (identities_ctx W) ids s)), s) (\<lambda>cl s.
         adopt_history W items (append_added (changes cl) names) s))"

definition fetch_history ::
    "session \<Rightarrow> cid \<Rightarrow> cid option \<Rightarrow> blocks \<Rightarrow> (string \<times> identity_ipld) list result \<times> blocks" where
  "fetch_history S tip base s =
     (case history_stream (ss_fuel S) (ss_world S) s tip base of
        (items, Inl e) \<Rightarrow> (Inl e, s)
      | (items, Inr _) \<Rightarrow> adopt_history (ss_world S) (rev items) [] s)"

text \<open>The version of the local sphere that a version of the counterpart records.\<close>

definition recorded_version :: "world \<Rightarrow> did \<Rightarrow> cid \<Rightarrow> blocks \<Rightarrow> cid option result" where
  "recorded_version W local_sphere counterpart s =
     rbind (get_content W counterpart s) (\<lambda>content. vm_get (content_ctx W) content local_sphere s)"

text \<open>The new tip of the local sphere, from its tip, the base it had and the base it gets.\<close>

definition reconcile ::
    "session \<Rightarrow> (nat \<Rightarrow> bytes) \<Rightarrow> author \<Rightarrow> cid option \<Rightarrow> cid option \<Rightarrow> cid option \<Rightarrow> blocks \<Rightarrow> cid result \<times> blocks" where
  "reconcile S nonces author local_tip old_base new_base s =
     (case (local_tip, old_base, new_base) of
        (Some tip, Some b, Some b') \<Rightarrow>
          if b \<noteq> b' then rebase (ss_fuel S) (ss_world S) (ss_now S) nonces tip b b' (author_key author)
                           (author_authorization author) s
          else (Inr tip, s)
      | (None, _, Some b') \<Rightarrow>
          sbind (hydrate_timeslice (ss_fuel S) (ss_world S) (without_past (slice b' old_base)) s) (\<lambda>_ s. (Inr b', s))
      | (Some tip, _, _) \<Rightarrow> (Inr tip, s)
      | _ \<Rightarrow> (Inl (Anyhow ''Missing local history for sphere after sync!''), s))"

definition fetch_remote_changes ::
    "session \<Rightarrow> (nat \<Rightarrow> bytes) \<Rightarrow> cid option \<Rightarrow> did \<Rightarrow> cid option \<Rightarrow> sphere_context \<Rightarrow>
     (cid \<times> cid \<times> (string \<times> identity_ipld) list) result \<times> sphere_context" where
  "fetch_remote_changes S nonces local_tip counterpart base cx =
     sbind (context_client S cx, cx) (\<lambda>client cx.
       sbind (cl_fetch client base, cx) (\<lambda>answer cx.
         case answer of
           None \<Rightarrow>
             (rbind (context_version S cx) (\<lambda>tip.
                rbind (of_option (Anyhow ''Counterpart sphere history is missing!'') base) (\<lambda>b. Inr (tip, b, []))), cx)
         | Some (counterpart_tip, block_stream) \<Rightarrow>
             sbind (case put_block_stream (ss_codecs S) (texts (ss_world S)) block_stream (cx_db cx) of
                      (r, db) \<Rightarrow> (r, cx\<lparr>cx_db := db\<rparr>)) (\<lambda>_ cx.
               sbind (on_blocks (fetch_history S counterpart_tip base) cx) (\<lambda>updated_names cx.
                 sbind (case base of
                          Some b \<Rightarrow> recorded_version (ss_world S) (cx_identity cx) b (cx_blocks cx)
                        | None \<Rightarrow> Inr None, cx) (\<lambda>old_base cx.
                   sbind (recorded_version (ss_world S) (cx_identity cx) counterpart_tip (cx_blocks cx), cx) (\<lambda>new_base cx.
                     sbind (on_blocks (reconcile S nonces (cx_author cx) local_tip old_base new_base) cx) (\<lambda>tip cx.
                       sbind (set_context_version S (cx_identity cx) tip cx) (\<lambda>_ cx.
                         sbind (set_context_version S counterpart counterpart_tip cx) (\<lambda>_ cx.
                           (Inr (tip, counterpart_tip, updated_names), cx))))))))))"

section \<open>Adopting names\<close>

text \<open>The loop of \<open>adopt_names\<close>; what goes wrong in setting one record does not stop it.\<close>

fun adopt_each :: "session \<Rightarrow> (string \<times> identity_ipld) list \<Rightarrow> sphere_context \<Rightarrow> unit result \<times> sphere_context" where
  "adopt_each S [] cx = (Inr (), cx)"
| "adopt_each S ((name, address) # names) cx =
     (case identity_link_record (ss_world S) (cx_blocks cx) address of
        None \<Rightarrow> adopt_each S names cx
      | Some record \<Rightarrow>
          (case get_petname S name (latest cx) of
             Inl e \<Rightarrow> (Inl e, cx)
           | Inr None \<Rightarrow> adopt_each S names cx
           | Inr (Some d) \<Rightarrow>
               if d \<noteq> id_did address then adopt_each S names cx
               else
                 (case resolve_petname S name (latest cx) of
                    Inl e \<Rightarrow> (Inl e, cx)
                  | Inr link \<Rightarrow>
                      if link = get_link (ss_world S) record then adopt_each S names cx
                      else
                        (case set_petname_record S name record (latest cx) of
                           (Inl (Anyhow m), h) \<Rightarrow> adopt_each S names (cur_context h)
                         | (Inl e, h) \<Rightarrow> (Inl e, cur_context h)
                         | (Inr _, h) \<Rightarrow> adopt_each S names (cur_context h)))))"

definition adopt_names ::
    "session \<Rightarrow> (string \<times> identity_ipld) list \<Rightarrow> sphere_context \<Rightarrow> cid option result \<times> sphere_context" where
  "adopt_names S updated_names cx =
     (if updated_names = [] then (Inr None, cx)
      else
        sbind (adopt_each S updated_names cx) (\<lambda>_ cx.
          if has_unsaved_changes cx then sbind (context_save S None cx) (\<lambda>c cx. (Inr (Some c), cx))
          else (Inr None, cx)))"

section \<open>Pushing\<close>

text \<open>\<open>push\<close> of the client stores the blocks that come with the answer.\<close>

definition client_push ::
    "session \<Rightarrow> client \<Rightarrow> push_body \<Rightarrow> sphere_context \<Rightarrow> push_response sync_result \<times> sphere_context" where
  "client_push S client request cx =
     (case cl_push client request of
        Inl e \<Rightarrow> (Inl (sync_error_of_push e), cx)
      | Inr (response, block_stream) \<Rightarrow>
          (case put_block_stream (ss_codecs S) (texts (ss_world S)) block_stream (cx_db cx) of
             (Inl (Anyhow m), db) \<Rightarrow> (Inl (sync_error_of_push BrokenDownstream), cx\<lparr>cx_db := db\<rparr>)
           | (Inl e, db) \<Rightarrow> (Inl (SyncOther e), cx\<lparr>cx_db := db\<rparr>)
           | (Inr _, db) \<Rightarrow> (Inr response, cx\<lparr>cx_db := db\<rparr>)))"

definition push_local_changes ::
    "session \<Rightarrow> cid \<Rightarrow> did \<Rightarrow> cid \<Rightarrow> sphere_context \<Rightarrow> unit sync_result \<times> sphere_context" where
  "push_local_changes S local_tip counterpart counterpart_tip cx =
     ysbind (case create_link_record S (Some 120) (latest cx) of (r, h) \<Rightarrow> (r, cur_context h)) (\<lambda>record cx.
       ysbind (ucan_encode (ss_world S) record, cx) (\<lambda>jwt cx.
         ysbind (recorded_version (ss_world S) (cx_identity cx) counterpart_tip (cx_blocks cx), cx) (\<lambda>local_base cx.
           if local_base = Some local_tip then (Inr (), cx)
           else
             ysbind (context_client S cx, cx) (\<lambda>client cx.
               ybind (client_push S client
                        \<lparr>pb_sphere = cx_identity cx, pb_local_base = local_base, pb_local_tip = local_tip,
                         pb_counterpart_tip = Some counterpart_tip, pb_name_record = Some jwt\<rparr> cx) (\<lambda>response cx.
                 case response of
                   NoChange \<Rightarrow> (Inl (SyncOther (Anyhow ''Gateway already up to date!'')), cx)
                 | Accepted new_tip \<Rightarrow>
                     ysbind (on_blocks (hydrate_timeslice (ss_fuel S) (ss_world S)
                               (without_past (slice new_tip (Some counterpart_tip)))) cx) (\<lambda>_ cx.
                       ysbind (set_context_version S counterpart new_tip cx) (\<lambda>_ cx. (Inr (), cx))))))))"

section \<open>Synchronizing\<close>

text \<open>
  One attempt. The first nonce is that of saving adopted names, the second that of the link
  record that is pushed, the others are those of the rebased revisions.
\<close>

definition sync_once ::
    "session \<Rightarrow> (nat \<Rightarrow> bytes) \<Rightarrow> sync_extent \<Rightarrow> sphere_context \<Rightarrow> cid sync_result \<times> sphere_context" where
  "sync_once S nonces extent cx =
     ysbind (handshake S cx) (\<lambda>(local_version, counterpart, counterpart_version) cx.
       ysbind (fetch_remote_changes S (\<lambda>n. nonces (n + 2)) local_version counterpart counterpart_version cx)
         (\<lambda>(local_version, counterpart_version, updated_names) cx.
         ysbind (adopt_names (S\<lparr>ss_nonce := nonces 0\<rparr>) updated_names cx) (\<lambda>adopted cx.
           let local_version = (case adopted of Some version \<Rightarrow> version | None \<Rightarrow> local_version) in
           case extent of
             FetchOnly \<Rightarrow> (Inr local_version, cx)
           | FetchAndPush \<Rightarrow>
               ybind (push_local_changes (S\<lparr>ss_nonce := nonces 1\<rparr>) local_version counterpart counterpart_version cx)
                 (\<lambda>_ cx. (Inr local_version, cx)))))"

text \<open>\<open>attempts\<close> gives what the clock, the gateway and the nonces are at each attempt.\<close>

fun sync_retries ::
    "(nat \<Rightarrow> session \<times> (nat \<Rightarrow> bytes)) \<Rightarrow> sync_extent \<Rightarrow> nat \<Rightarrow> nat \<Rightarrow> sphere_context \<Rightarrow> cid sync_result \<times> sphere_context" where
  "sync_retries attempts extent retries remaining cx =
     (case sync_once (fst (attempts retries)) (snd (attempts retries)) extent cx of
        (Inr version, cx) \<Rightarrow> (Inr version, cx)
      | (Inl SyncConflict, cx) \<Rightarrow>
          (case remaining of
             0 \<Rightarrow> (Inl SyncConflict, cx)
           | Suc remaining \<Rightarrow> sync_retries attempts extent (Suc retries) remaining cx)
      | (Inl (SyncOther e), cx) \<Rightarrow> (Inl (SyncOther e), cx))"

declare sync_retries.simps [simp del]

definition sync_with_options ::
    "(nat \<Rightarrow> session \<times> (nat \<Rightarrow> bytes)) \<Rightarrow> sync_extent \<Rightarrow> sync_recovery \<Rightarrow> sphere_context \<Rightarrow> cid sync_result \<times> sphere_context" where
  "sync_with_options attempts extent recovery cx =
     ybind (case recovery of
              NoRecovery \<Rightarrow> sync_once (fst (attempts 0)) (snd (attempts 0)) extent cx
            | Retry max_retries \<Rightarrow> sync_retries attempts extent 0 (unat max_retries) cx)
       (\<lambda>version cx. (Inr version, reset_access cx))"

definition sync_sphere :: "(nat \<Rightarrow> session \<times> (nat \<Rightarrow> bytes)) \<Rightarrow> sphere_context \<Rightarrow> cid sync_result \<times> sphere_context" where
  "sync_sphere attempts cx = sync_with_options attempts FetchAndPush (Retry 3) cx"

text \<open>\<open>rollback\<close>, which no path of \<open>sync\<close> reaches.\<close>

definition rollback ::
    "session \<Rightarrow> cid option \<Rightarrow> did \<Rightarrow> cid option \<Rightarrow> sphere_context \<Rightarrow> unit result \<times> sphere_context" where
  "rollback S original_version counterpart original_counterpart_version cx =
     sbind (case original_version of
              Some c \<Rightarrow> set_context_version S (cx_identity cx) c cx
            | None \<Rightarrow> (Inr (), cx)) (\<lambda>_ cx.
       case original_counterpart_version of
         Some c \<Rightarrow> set_context_version S counterpart c cx
       | None \<Rightarrow> (Inr (), cx))"

end
