(* ===== verification/Sync_Rep.thy ===== *)
theory Sync_Rep
  imports Sphere_Sync
begin

text \<open>
  What a fetch does to the abstract spheres: the history of the counterpart is hydrated, and the
  local versions are replayed after the ones that the counterpart records.
\<close>

section \<open>History\<close>

lemma from_memo_ok: "value_at (codecs W) memo_to_ipld s c m \<Longrightarrow> from_memo W m = Inr c"
  by (auto simp: from_memo_def block_serialize_def block_encode_def has_block_def)

lemma history_items_ok:
  assumes "\<And>c m. (c, m) \<in> set items \<Longrightarrow> value_at (codecs W) memo_to_ipld s c m" "\<And>c. since = Some c \<Longrightarrow> c \<notin> fst ` set items"
  shows "history_items W since items r = (map (\<lambda>(c, m). (c, c)) items, r)"
  using assms
proof (induction items)
  case (Cons x items)
  obtain c m where x: "x = (c, m)" by (cases x)
  have "history_items W since items r = (map (\<lambda>(c, m). (c, c)) items, r)"
    by (rule Cons.IH) (use Cons.prems in auto)
  moreover have "since \<noteq> Some c" using Cons.prems(2) x by force
  moreover have "from_memo W m = Inr c" using Cons.prems(1) [of c m] x by (intro from_memo_ok) simp
  ultimately show ?case by (simp add: x)
qed simp

lemma lineage_values: "lineage E s hs \<Longrightarrow> (c, m) \<in> set hs \<Longrightarrow> value_at E memo_to_ipld s c m"
  by (induction hs) (auto split: if_splits)

text \<open>The history since a version is the series of versions after it, newest first.\<close>

lemma history_revisions:
  assumes "env_ok (codecs W)" "lineage (codecs W) s ((p, mp) # hs)" "revisions W s KS KC (p, mp, \<sigma>p) rs" "rs \<noteq> []"
    "length rs < f"
  shows "history_stream f W s (fst (last rs)) (Some p) = (rev (map (\<lambda>r. (fst r, fst r)) rs), Inr ())"
proof -
  note L = lineage_revisions [OF assms(2,3)]
  have "timeline_stream f (codecs W) s (Some (fst (hd (rev (versions_of rs))))) (Some (fst (p, mp))) True = (rev (versions_of rs), Inr ())"
    by (rule stream_exclude [OF assms(1) L]) (use assms(4,5) in simp_all)
  then have st: "slice_stream f (codecs W) s (without_past (slice (fst (last rs)) (Some p))) = (rev (versions_of rs), Inr ())"
    using assms(4) by (simp add: slice_stream_def slice_def without_past_def hd_rev last_map case_prod_beta)
  have "history_items W (Some p) (rev (versions_of rs)) (Inr ()) = (map (\<lambda>(c, m). (c, c)) (rev (versions_of rs)), Inr ())"
  proof (rule history_items_ok)
    show "value_at (codecs W) memo_to_ipld s c m" if "(c, m) \<in> set (rev (versions_of rs))" for c m
      by (rule lineage_values [OF L]) (use that in simp)
    show "c \<notin> fst ` set (rev (versions_of rs))" if "Some p = Some c" for c
      using lineage_distinct [OF assms(1) L] that by auto
  qed
  with st show ?thesis by (simp add: history_stream_def rev_map [symmetric] case_prod_beta comp_def)
qed

section \<open>The counterpart\<close>

text \<open>The names that the versions of a series add, as \<open>adopt_history\<close> collects them.\<close>

fun names_added ::
    "sphere_state \<Rightarrow> (cid \<times> memo \<times> sphere_mutation) list \<Rightarrow> (string \<times> identity_ipld) list \<Rightarrow> (string \<times> identity_ipld) list" where
  "names_added \<sigma> [] names = names"
| "names_added \<sigma> ((c, m, \<mu>) # rs) names =
     names_added (step_sphere \<mu> \<sigma>) rs (append_added (changes (snd (st_identities (step_sphere \<mu> \<sigma>)))) names)"

lemma identities_changelog:
  assumes "sphere_ok W" "store_ok (codecs W) s" "base_at W s KS KC (c, m, \<sigma>)"
  shows "rbind (get_address_book W c s) (\<lambda>book. rbind (get_identities W book s) (\<lambda>ids. get_changelog (identities_ctx W) ids s)) =
    Inr (snd (st_identities \<sigma>))"
proof (rule base_body [OF assms(1,3)])
  fix sp book auth
  assume sp: "to_body W c s = Inr sp" "body_is W s (version_at (content_ctx W) s) (version_at (identities_ctx W) s)
      (version_at (delegations_ctx W) s) (version_at (revocations_ctx W) s) (body m) \<sigma> sp book auth"
  then have "get_changelog (identities_ctx W) (identities book) s = Inr (snd (st_identities \<sigma>))"
    using vm_at_sparse [of "identities_ctx W" s] assms(2)
    by (intro vm_sparse_changelog [OF ctx_ok(2) [OF assms(1)]]) (auto simp: body_is_def)
  with sp show ?thesis
    using load_value_ok [OF sphere_ok_env [OF assms(1)] address_book_serde, of s "address_book sp" book]
    by (simp add: get_address_book_def get_identities_def body_is_def)
qed

lemma adopt_history_ok:
  "sphere_ok W \<Longrightarrow> universe_ok W KS KC \<Longrightarrow> store_ok (codecs W) s \<Longrightarrow> base_at W s KS KC (p, mp, \<sigma>p) \<Longrightarrow>
   revisions W s KS KC (p, mp, \<sigma>p) rs \<Longrightarrow>
   \<exists>s'. adopt_history W (map (\<lambda>r. (fst r, fst r)) rs) names s = (Inr (names_added \<sigma>p rs names), s') \<and> s \<subseteq>\<^sub>m s' \<and>
     store_ok (codecs W) s' \<and> base_at W s' KS KC (last_version (p, mp, \<sigma>p) rs)"
proof (induction rs arbitrary: p mp \<sigma>p names s)
  case Nil
  then show ?case by simp
next
  case (Cons r rs)
  obtain c m \<mu> where r: "r = (c, m, \<mu>)" by (cases r)
  have R: "revisions W s KS KC (p, mp, \<sigma>p) [(c, m, \<mu>)]" "revisions W s KS KC (c, m, step_sphere \<mu> \<sigma>p) rs"
    using Cons.prems(5) r by simp_all
  obtain s1 where s1: "hydrate_with_cid W c s = (Inr (), s1)" "s \<subseteq>\<^sub>m s1" "store_ok (codecs W) s1"
      "base_at W s1 KS KC (c, m, step_sphere \<mu> \<sigma>p)"
    using hydrate_all_ok [OF Cons.prems(1-4) R(1)] by (auto simp: sbind_eq_Inr)
  obtain s' where "adopt_history W (map (\<lambda>r. (fst r, fst r)) rs)
        (append_added (changes (snd (st_identities (step_sphere \<mu> \<sigma>p)))) names) s1 =
        (Inr (names_added \<sigma>p (r # rs) names), s')"
      "s1 \<subseteq>\<^sub>m s'" "store_ok (codecs W) s'" "base_at W s' KS KC (last_version (c, m, step_sphere \<mu> \<sigma>p) rs)"
    unfolding r names_added.simps using Cons.IH [OF Cons.prems(1,2) s1(3,4) revisions_mono [OF R(2) s1(2)]] by blast
  moreover note identities_changelog [OF Cons.prems(1) s1(3,4)]
  ultimately show ?case using s1 map_le_trans [OF s1(2)] by (auto simp: r)
qed

lemma recorded_version_ok:
  assumes "sphere_ok W" "store_ok (codecs W) s" "base_at W s KS KC (c, m, \<sigma>)"
  shows "recorded_version W d c s = Inr (fst (st_content \<sigma>) d)"
proof -
  obtain links where "get_content W c s = Inr links" "\<And>k. vm_get (content_ctx W) links k s = Inr (fst (st_content \<sigma>) k)"
    by (rule content_reads [OF assms]) blast
  then show ?thesis by (simp add: recorded_version_def)
qed

section \<open>Fetching\<close>

text \<open>A stream of well-formed blocks, whose links can be read.\<close>

definition delivers :: "session \<Rightarrow> (cid \<times> bytes) list \<Rightarrow> bool" where
  "delivers S bl \<longleftrightarrow>
     store_ok (ss_codecs S) (map_of (rev bl)) \<and>
     (\<forall>(c, b) \<in> set bl. \<forall>C. codec_of c = codec_id C \<longrightarrow> references (ss_codecs S) C b \<noteq> None)"

lemma delivers_put:
  assumes "env_ok (ss_codecs S)" "delivers S bl" "store_ok (ss_codecs S) (block_store db)"
  obtains m where "put_block_stream (ss_codecs S) T (bl, Inr ()) db =
      (Inr (), db\<lparr>block_store := block_store db ++ map_of (rev bl), link_store := m\<rparr>)"
    "block_store db \<subseteq>\<^sub>m block_store db ++ map_of (rev bl)" "store_ok (ss_codecs S) (block_store db ++ map_of (rev bl))"
proof -
  have E: "codec_ok (ss_codecs S)" "hash_ok (ss_codecs S)" using assms(1) by (simp_all add: env_ok_def)
  have "\<exists>m. put_blocks (ss_codecs S) T bl db =
      (Inr (), db\<lparr>block_store := block_store db ++ map_of (rev bl), link_store := m\<rparr>)"
    by (rule put_blocks_ok [OF E(1)]) (use assms(2) in \<open>auto simp: delivers_def\<close>)
  then obtain m where m: "put_blocks (ss_codecs S) T bl db =
      (Inr (), db\<lparr>block_store := block_store db ++ map_of (rev bl), link_store := m\<rparr>)" ..
  then show thesis using union_le [OF E(2) assms(3)] assms(2)
    by (intro that [of m]) (auto simp: put_block_stream_def delivers_def)
qed

text \<open>
  A fetch that brings new versions of the counterpart and, with them, new versions of the local
  sphere: the local versions since the old base are replayed on the new one, and both spheres'
  versions are put on record.
\<close>

lemma fetch_ok:
  fixes S cx bl
  defines "W \<equiv> ss_world S" and "s \<equiv> cx_blocks cx ++ map_of (rev bl)"
  assumes ok: "session_ok S KS KC" "store_ok (ss_codecs S) (cx_blocks cx)" "key_total (author_key (cx_author cx)) d"
    "auth_ok W (cx_blocks cx) (author_authorization (cx_author cx))"
    and client: "context_client S cx = Inr cl" "cl_fetch cl (Some b) = Inr (Some (fst (last bs), (bl, Inr ())))" "delivers S bl"
    and remote: "base_at W s KS KC (b, mb, \<sigma>b)" "lineage (codecs W) s ((b, mb) # ghs)" "revisions W s KS KC (b, mb, \<sigma>b) bs"
      "bs \<noteq> []" "length bs < ss_fuel S"
    and recorded: "fst (st_content \<sigma>b) (cx_identity cx) = Some p"
      "fst (st_content (final_state bs \<sigma>b)) (cx_identity cx) = Some (fst (last ns))"
    and local_history: "base_at W s KS KC (p, mp, \<sigma>p)" "lineage (codecs W) s ((p, mp) # hs)"
      "revisions W s KS KC (p, mp, \<sigma>p) ns" "ns \<noteq> []" "length ns < ss_fuel S"
      "revisions W s KS KC (p, mp, \<sigma>p) rs" "rs \<noteq> []" "length rs < ss_fuel S"
    and other: "counterpart \<noteq> cx_identity cx"
  obtains c m rs' mt db where "fetch_remote_changes S nonces (Some (fst (last rs))) counterpart (Some b) cx =
      (Inr (c, fst (last bs), names_added \<sigma>b bs []), cx\<lparr>cx_db := db\<rparr>)"
    "s \<subseteq>\<^sub>m block_store db" "cx_blocks cx \<subseteq>\<^sub>m block_store db" "store_ok (ss_codecs S) (block_store db)"
    "base_at W (block_store db) KS KC (c, m, replay \<sigma>p rs (final_state ns \<sigma>p))"
    "replayed W (block_store db) d \<sigma>p rs (last_version (p, mp, \<sigma>p) ns) rs'"
    "last_version (last_version (p, mp, \<sigma>p) ns) rs' = (c, m, replay \<sigma>p rs (final_state ns \<sigma>p))"
    "base_at W (block_store db) KS KC (fst (last bs), mt, final_state bs \<sigma>b)" "metadata_store db = metadata_store (cx_db cx)"
    "get_version (ss_codecs S) (cx_identity cx) db = Inr (Some c)"
    "get_version (ss_codecs S) counterpart db = Inr (Some (fst (last bs)))"
proof -
  note W = session_okD [OF ok(1), folded W_def]
  have E: "env_ok (ss_codecs S)" using W(4) by (simp add: W_def)
  obtain lk where put: "put_block_stream (ss_codecs S) (texts W) (bl, Inr ()) (cx_db cx) =
      (Inr (), (cx_db cx)\<lparr>block_store := s, link_store := lk\<rparr>)"
      "cx_blocks cx \<subseteq>\<^sub>m s" "store_ok (codecs W) s"
    using delivers_put [OF E client(3) ok(2), of "texts W"] unfolding s_def W_def by blast
  let ?cx1 = "cx\<lparr>cx_db := (cx_db cx)\<lparr>block_store := s, link_store := lk\<rparr>\<rparr>"
  obtain s1 where s1: "adopt_history W (map (\<lambda>r. (fst r, fst r)) bs) [] s = (Inr (names_added \<sigma>b bs []), s1)" "s \<subseteq>\<^sub>m s1"
      "store_ok (codecs W) s1" "base_at W s1 KS KC (last_version (b, mb, \<sigma>b) bs)"
    using adopt_history_ok [OF W(1,3) put(3) remote(1,3)] by blast
  let ?cx2 = "cx\<lparr>cx_db := (cx_db cx)\<lparr>block_store := s1, link_store := lk\<rparr>\<rparr>"
  have f: "on_blocks (fetch_history S (fst (last bs)) (Some b)) ?cx1 = (Inr (names_added \<sigma>b bs []), ?cx2)"
    using s1(1) history_revisions [OF W(4) remote(2-5)]
    by (simp add: on_blocks_def fetch_history_def W_def rev_map [symmetric])
  have B: "base_at W s1 KS KC (b, mb, \<sigma>b)" by (rule base_at_mono [OF remote(1) s1(2)])
  obtain mt where T: "base_at W s1 KS KC (fst (last bs), mt, final_state bs \<sigma>b)"
    using s1(4) remote(4) by (simp add: last_version_def)
  have r: "recorded_version W (cx_identity cx) b s1 = Inr (Some p)"
      "recorded_version W (cx_identity cx) (fst (last bs)) s1 = Inr (Some (fst (last ns)))"
    using recorded_version_ok [OF W(1) s1(3) B] recorded_version_ok [OF W(1) s1(3) T] recorded by simp_all
  have L: "lineage (codecs W) s1 ((p, mp) # hs)" "revisions W s1 KS KC (p, mp, \<sigma>p) ns" "revisions W s1 KS KC (p, mp, \<sigma>p) rs"
    by (rule lineage_mono [OF local_history(2) s1(2)] revisions_mono [OF local_history(3) s1(2)]
        revisions_mono [OF local_history(6) s1(2)])+
  have ne: "p \<noteq> fst (last ns)"
    using lineage_distinct [OF W(4) lineage_revisions [OF L(1,2)]] local_history(4)
    by (auto simp: rev_map [symmetric] image_image case_prod_beta)
  obtain c m rs' s2 where s2: "rebase (ss_fuel S) W (ss_now S) nonces (fst (last rs)) p (fst (last ns)) (author_key (cx_author cx))
        (author_authorization (cx_author cx)) s1 = (Inr c, s2)" "s1 \<subseteq>\<^sub>m s2" "store_ok (codecs W) s2"
      "base_at W s2 KS KC (c, m, replay \<sigma>p rs (final_state ns \<sigma>p))"
      "replayed W s2 d \<sigma>p rs (last_version (p, mp, \<sigma>p) ns) rs'"
      "last_version (last_version (p, mp, \<sigma>p) ns) rs' = (c, m, replay \<sigma>p rs (final_state ns \<sigma>p))"
    by (rule rebase_ok [OF W(1,2,3) ok(3) auth_ok_mono [OF ok(4) map_le_trans [OF put(2) s1(2)]] s1(3)
          base_at_mono [OF local_history(1) s1(2)] L(1,2) local_history(4,5) L(3) local_history(7,8)])
  let ?cx3 = "cx\<lparr>cx_db := (cx_db cx)\<lparr>block_store := s2, link_store := lk\<rparr>\<rparr>"
  have rc: "on_blocks (reconcile S nonces (cx_author cx) (Some (fst (last rs))) (Some p) (Some (fst (last ns)))) ?cx2 = (Inr c, ?cx3)"
    using s2(1) ne by (simp add: on_blocks_def reconcile_def W_def)
  obtain db where db: "set_context_version S (cx_identity cx) c ?cx3 = (Inr (), ?cx3\<lparr>cx_db := db\<rparr>)" "block_store db = s2"
      "metadata_store db = metadata_store (cx_db cx)" "\<And>d'. get_version (ss_codecs S) d' db = (if d' = cx_identity cx then Inr (Some c) else get_version (ss_codecs S) d' (cx_db ?cx3))"
    by (rule set_context_version_ok [OF E, of "cx_identity cx" c ?cx3]) simp
  let ?cx4 = "?cx3\<lparr>cx_db := db\<rparr>"
  obtain db' where db': "set_context_version S counterpart (fst (last bs)) ?cx4 = (Inr (), ?cx4\<lparr>cx_db := db'\<rparr>)" "block_store db' = s2"
      "metadata_store db' = metadata_store db" "\<And>d'. get_version (ss_codecs S) d' db' = (if d' = counterpart then Inr (Some (fst (last bs))) else get_version (ss_codecs S) d' db)"
    by (rule set_context_version_ok [OF E, of counterpart "fst (last bs)" ?cx4]) (simp add: db(2))
  have "fetch_remote_changes S nonces (Some (fst (last rs))) counterpart (Some b) cx =
      (Inr (c, fst (last bs), names_added \<sigma>b bs []), cx\<lparr>cx_db := db'\<rparr>)"
    using put(1) f r rc db(1) db'(1) by (simp add: fetch_remote_changes_def client W_def)
  moreover have "cx_blocks cx \<subseteq>\<^sub>m block_store db'" "s \<subseteq>\<^sub>m block_store db'"
    using map_le_trans [OF map_le_trans [OF put(2) s1(2)] s2(2)] map_le_trans [OF s1(2) s2(2)] db'(2) by simp_all
  moreover have "store_ok (ss_codecs S) (block_store db')" using s2(3) db'(2) by (simp add: W_def)
  moreover have "get_version (ss_codecs S) (cx_identity cx) db' = Inr (Some c)"
      "get_version (ss_codecs S) counterpart db' = Inr (Some (fst (last bs)))" "metadata_store db' = metadata_store (cx_db cx)"
    using db db' other by simp_all
  ultimately show thesis
    using s2(4-6) base_at_mono [OF T s2(2)] db'(2) by (intro that [of c db' m rs' mt]) simp_all
qed

end
