(* ===== verification/Sync_Push.thy ===== *)
theory Sync_Push
  imports Sync_Rep
begin

text \<open>
  Making a link record and pushing: the record names the version it was made for, and what a
  conflict with the gateway leaves on record. Retrying stops at the first attempt that is not a
  conflict.
\<close>

section \<open>Link records\<close>

text \<open>The builder of a link record for version \<open>c\<close> of sphere \<open>d\<close>.\<close>

abbreviation record_builder :: "world \<Rightarrow> key_material \<Rightarrow> did \<Rightarrow> cid \<Rightarrow> ucan_builder" where
  "record_builder W key d c \<equiv>
     with_nonce (with_fact LINK_RECORD_FACT_NAME (Some (JString (cid_to_string (texts W) c)))
       (claiming_capability (capability_of SPHERE_SEMANTICS (generate_capability d Publish))
         (for_audience d (issued_by key builder_default))))"

lemma record_signed:
  assumes "jwt_ok W" "key_total key k" "b_issuer b = Some key" "b_audience b = Some d"
    "b_capabilities b = [capability_of SPHERE_SEMANTICS (generate_capability d Publish)]"
    "b_facts b = [(LINK_RECORD_FACT_NAME, JString (cid_to_string (texts W) c))]"
  obtains u where "build_and_sign W now nonce b = Inr u" "iss (payload u) = k" "aud (payload u) = d"
    "cid_text_ok (texts W) \<Longrightarrow> get_link W u = Some c"
proof -
  obtain g where g: "build now b = Inr g" "sg_issuer g = key" "sg_audience g = d" "sg_capabilities g = b_capabilities b"
      "sg_facts g = b_facts b"
    using assms(3,4) by (simp add: build_def)
  have "\<exists>u. signable_sign W nonce g = Inr u"
    by (rule sign_one_capability [OF assms(1), of _ k])
      (use assms(2,5) g in \<open>auto simp: capability_of_def generate_capability_def\<close>)
  then obtain u where u: "signable_sign W nonce g = Inr u" ..
  then have "aud (payload u) = d" "iss (payload u) = k" "fct (payload u) = Some (b_facts b)"
    using g assms(2,6) by (auto simp: signable_sign_def signable_payload_def key_total_def Let_def split: sum.splits)
  with u g(1) assms(6) show thesis
    by (intro that [of u]) (simp_all add: build_and_sign_def get_link_def cid_text_ok_def)
qed

lemma create_link_record_ok:
  assumes "session_ok S KS KC" "context_at S KS KC (c, m, \<sigma>) cx" "fst (context_access S cx) = Inr ReadWrite"
  obtains r s' where "create_link_record S lifetime (latest cx) =
      (Inr r, latest (cx\<lparr>cx_access := Some ReadWrite, cx_db := (cx_db cx)\<lparr>block_store := s'\<rparr>\<rparr>))"
    "cx_blocks cx \<subseteq>\<^sub>m s'" "store_ok (ss_codecs S) s'" "to_sphere_identity r = cx_identity cx"
    "cid_text_ok (texts (ss_world S)) \<Longrightarrow> get_link (ss_world S) r = Some c" "\<exists>jwt. ucan_encode (ss_world S) r = Inr jwt"
proof -
  let ?W = "ss_world S" and ?a = "cx_author cx" and ?cx = "cx\<lparr>cx_access := Some ReadWrite\<rparr>"
  note ok = session_okD [OF assms(1)]
  obtain k where k: "key_total (author_key ?a) k" using assms(2) by (auto simp: context_at_def)
  have st: "store_ok (codecs ?W) (cx_blocks cx)" and au: "auth_ok ?W (cx_blocks cx) (author_authorization ?a)"
    using assms(2) by (simp_all add: context_at_def)
  let ?b = "record_builder ?W (author_key ?a) (cx_identity cx) c"
  let ?b' = "case lifetime of Some l \<Rightarrow> with_lifetime l ?b | None \<Rightarrow> ?b"
  obtain b where b: "(case author_authorization ?a of
        Some z \<Rightarrow> rbind (as_ucan ?W (cx_blocks cx) z) (\<lambda>u. Inr (witnessed_by ?W u ?b')) | None \<Rightarrow> Inr ?b') = Inr b"
      "b_issuer b = Some (author_key ?a)" "b_audience b = Some (cx_identity cx)" "b_facts b = b_facts ?b"
      "b_capabilities b = [capability_of SPHERE_SEMANTICS (generate_capability (cx_identity cx) Publish)]"
  proof -
    have f: "b_issuer ?b' = Some (author_key ?a)" "b_audience ?b' = Some (cx_identity cx)" "b_facts ?b' = b_facts ?b"
        "b_capabilities ?b' = [capability_of SPHERE_SEMANTICS (generate_capability (cx_identity cx) Publish)]"
      by (simp_all add: with_lifetime_def with_nonce_def with_fact_def claiming_capability_def for_audience_def
          issued_by_def builder_default_def split: option.split)
    show thesis
    proof (cases "author_authorization ?a")
      case None
      with f show thesis by (intro that [of ?b']) simp_all
    next
      case (Some z)
      then obtain w where "as_ucan ?W (cx_blocks cx) z = Inr w" using au by (auto simp: auth_ok_def)
      with Some f show thesis
        by (intro that [of "witnessed_by ?W w ?b'"]) (simp_all add: witnessed_by_def split: sum.split)
    qed
  qed
  have facts: "b_facts b = [(LINK_RECORD_FACT_NAME, JString (cid_to_string (texts ?W) c))]"
    using b(4) by (simp add: with_nonce_def with_fact_def claiming_capability_def for_audience_def issued_by_def builder_default_def)
  obtain r where r: "build_and_sign ?W (ss_now S) (ss_nonce S) b = Inr r" "aud (payload r) = cx_identity cx"
      "cid_text_ok (texts ?W) \<Longrightarrow> get_link ?W r = Some c"
    by (rule record_signed [OF ok(2) k b(2,3,5) facts]) blast
  obtain jwt where jwt: "ucan_encode ?W r = Inr jwt" using encode_total [OF ok(2)] by blast
  obtain l s' where s': "write_token ?W jwt (cx_blocks cx) = (Inr l, s')" "cx_blocks cx \<subseteq>\<^sub>m s'" "store_ok (codecs ?W) s'"
    by (rule write_require_token [OF ok(2) st jwt])
  have a: "assert_write_access S (latest cx) = (Inr (), latest ?cx)"
    using assert_write_access_ok [of S "latest cx"] assms(3) by (simp add: latest_def)
  have v: "context_version S ?cx = Inr c"
    using context_at_version [OF assms(2)] by (simp add: context_version_def)
  have "create_link_record S lifetime (latest cx) =
      (Inr r, latest (cx\<lparr>cx_access := Some ReadWrite, cx_db := (cx_db cx)\<lparr>block_store := s'\<rparr>\<rparr>))"
    using a v b(1) r(1) jwt s'(1)
    by (simp add: create_link_record_def latest_def in_context_def on_blocks_def Let_def cong: option.case_cong)
  then show thesis
    by (rule that) (use r jwt s' in \<open>simp_all add: to_sphere_identity_def\<close>)
qed

section \<open>Conflicts\<close>

lemma ysbind_simps [simp]: "ysbind (Inl e, s) f = (Inl (SyncOther e), s)" "ysbind (Inr x, s) f = f x s"
  by (simp_all add: ysbind_def)

lemma ybind_simps [simp]: "ybind (Inl e, s) f = (Inl e, s)" "ybind (Inr x, s) f = f x s"
  by (simp_all add: ybind_def)

lemma ysbind_conflict:
  "ysbind rs f = (Inl SyncConflict, t) \<longleftrightarrow> (\<exists>x s. rs = (Inr x, s) \<and> f x s = (Inl SyncConflict, t))"
  by (cases rs; cases "fst rs") auto

lemma create_link_record_versions:
  "create_link_record S lifetime h = (r, h') \<Longrightarrow> version_store (cx_db (cur_context h')) = version_store (cx_db (cur_context h))"
proof (cases "assert_write_access S h")
  case (Pair a h1)
  have h1: "cx_db (cur_context h1) = cx_db (cur_context h)"
    using Pair by (auto simp: assert_write_access_def in_context_def context_access_def sbind_def
        split: option.splits sum.splits if_splits)
  assume "create_link_record S lifetime h = (r, h')"
  then show ?thesis
    using h1 unfolding create_link_record_def Pair
    by (cases a) (auto simp: Let_def sbind_def in_context_def on_blocks_def split: sum.splits prod.splits)
qed

text \<open>A push that ends in a conflict has stored nothing but a link record.\<close>

lemma push_conflict:
  assumes "push_local_changes S t counterpart ct cx = (Inl SyncConflict, cx')"
  shows "version_store (cx_db cx') = version_store (cx_db cx)"
proof -
  obtain r h jwt base cl where r: "create_link_record S (Some 120) (latest cx) = (Inr r, h)"
      "ysbind (context_client S (cur_context h), cur_context h) (\<lambda>client cx.
         ybind (client_push S client \<lparr>pb_sphere = cx_identity cx, pb_local_base = base, pb_local_tip = t,
                  pb_counterpart_tip = Some ct, pb_name_record = Some jwt\<rparr> cx) (\<lambda>response cx.
           case response of
             NoChange \<Rightarrow> (Inl (SyncOther (Anyhow ''Gateway already up to date!'')), cx)
           | Accepted new_tip \<Rightarrow>
               ysbind (on_blocks (hydrate_timeslice (ss_fuel S) (ss_world S) (without_past (slice new_tip (Some ct)))) cx) (\<lambda>_ cx.
                 ysbind (set_context_version S counterpart new_tip cx) (\<lambda>_ cx. (Inr (), cx))))) = (Inl SyncConflict, cx')"
    using assms by (auto simp: push_local_changes_def ysbind_conflict split: prod.splits if_splits)
  then obtain client where "ybind (client_push S client \<lparr>pb_sphere = cx_identity (cur_context h), pb_local_base = base,
         pb_local_tip = t, pb_counterpart_tip = Some ct, pb_name_record = Some jwt\<rparr> (cur_context h)) (\<lambda>response cx.
           case response of
             NoChange \<Rightarrow> (Inl (SyncOther (Anyhow ''Gateway already up to date!'')), cx)
           | Accepted new_tip \<Rightarrow>
               ysbind (on_blocks (hydrate_timeslice (ss_fuel S) (ss_world S) (without_past (slice new_tip (Some ct)))) cx) (\<lambda>_ cx.
                 ysbind (set_context_version S counterpart new_tip cx) (\<lambda>_ cx. (Inr (), cx)))) = (Inl SyncConflict, cx')"
    by (auto simp: ysbind_conflict)
  then have "cx' = cur_context h"
    by (auto simp: ybind_def client_push_def ysbind_conflict split: sum.splits prod.splits err.splits push_response.splits)
  with create_link_record_versions [OF r(1)] show ?thesis by (simp add: latest_def)
qed

section \<open>Retrying\<close>

text \<open>The state before attempt \<open>n\<close>.\<close>

fun before_attempt ::
    "(nat \<Rightarrow> session \<times> (nat \<Rightarrow> bytes)) \<Rightarrow> sync_extent \<Rightarrow> sphere_context \<Rightarrow> nat \<Rightarrow> sphere_context" where
  "before_attempt attempts extent cx 0 = cx"
| "before_attempt attempts extent cx (Suc n) =
     snd (sync_once (fst (attempts n)) (snd (attempts n)) extent (before_attempt attempts extent cx n))"

abbreviation attempt ::
    "(nat \<Rightarrow> session \<times> (nat \<Rightarrow> bytes)) \<Rightarrow> sync_extent \<Rightarrow> sphere_context \<Rightarrow> nat \<Rightarrow> cid sync_result \<times> sphere_context" where
  "attempt attempts extent cx n \<equiv>
     sync_once (fst (attempts n)) (snd (attempts n)) extent (before_attempt attempts extent cx n)"

lemma sync_retries_first:
  "\<exists>i \<le> n. (\<forall>j < i. fst (attempt attempts extent cx (k + j)) = Inl SyncConflict) \<and>
     (i < n \<longrightarrow> fst (attempt attempts extent cx (k + i)) \<noteq> Inl SyncConflict) \<and>
     sync_retries attempts extent k n (before_attempt attempts extent cx k) = attempt attempts extent cx (k + i)"
proof (induction n arbitrary: k)
  case 0
  show ?case by (rule exI [of _ 0]) (simp add: sync_retries.simps split: prod.splits sum.splits sync_error.splits)
next
  case (Suc n)
  show ?case
  proof (cases "fst (attempt attempts extent cx k) = Inl SyncConflict")
    case True
    obtain i where i: "i \<le> n" "\<forall>j < i. fst (attempt attempts extent cx (Suc k + j)) = Inl SyncConflict"
        "i < n \<longrightarrow> fst (attempt attempts extent cx (Suc k + i)) \<noteq> Inl SyncConflict"
        "sync_retries attempts extent (Suc k) n (before_attempt attempts extent cx (Suc k)) = attempt attempts extent cx (Suc k + i)"
      using Suc.IH [of "Suc k"] by blast
    have "sync_retries attempts extent k (Suc n) (before_attempt attempts extent cx k) =
        sync_retries attempts extent (Suc k) n (before_attempt attempts extent cx (Suc k))"
      using True by (subst sync_retries.simps) (cases "attempt attempts extent cx k", simp)
    moreover have "fst (attempt attempts extent cx (k + j)) = Inl SyncConflict" if "j < Suc i" for j
      using that True i(2) by (cases j) auto
    ultimately show ?thesis using i by (intro exI [of _ "Suc i"]) auto
  next
    case False
    then have "sync_retries attempts extent k (Suc n) (before_attempt attempts extent cx k) = attempt attempts extent cx k"
      by (subst sync_retries.simps) (auto split: prod.splits sum.splits sync_error.splits)
    with False show ?thesis by (intro exI [of _ 0]) simp
  qed
qed

end
