(* ===== verification/Walk_Rep.thy ===== *)
theory Walk_Rep
  imports Sync_Rep
begin

text \<open>
  Traversing to a sphere along a petname, where the version that the link record names has to be
  replicated first.
\<close>

lemma replicate_ok:
  assumes "env_ok (ss_codecs S)" "store_ok (ss_codecs S) (cx_blocks cx)" "context_client S cx = Inr cl"
    "cl_replicate cl v None = Inr (bl, Inr ())" "cl_stalls cl v None = None" "delivers S bl"
  obtains db where "replicate_version S v None cx = (Inr (), cx\<lparr>cx_db := db\<rparr>)" "block_store db = cx_blocks cx ++ map_of (rev bl)"
    "cx_blocks cx \<subseteq>\<^sub>m block_store db" "store_ok (ss_codecs S) (block_store db)"
    "\<And>d. get_version (ss_codecs S) d db = get_version (ss_codecs S) d (cx_db cx)"
proof -
  obtain m where m: "put_block_stream (ss_codecs S) (texts (ss_world S)) (bl, Inr ()) (cx_db cx) =
      (Inr (), (cx_db cx)\<lparr>block_store := cx_blocks cx ++ map_of (rev bl), link_store := m\<rparr>)"
    "cx_blocks cx \<subseteq>\<^sub>m cx_blocks cx ++ map_of (rev bl)" "store_ok (ss_codecs S) (cx_blocks cx ++ map_of (rev bl))"
    by (rule delivers_put [OF assms(1,6,2)])
  show thesis
    by (rule that [of "(cx_db cx)\<lparr>block_store := cx_blocks cx ++ map_of (rev bl), link_store := m\<rparr>"])
      (use assms(3-5) m in \<open>simp_all add: replicate_version_def get_version_def\<close>)
qed

text \<open>A sphere that is not known yet is reached at the version its link record names.\<close>

lemma traverse_new:
  assumes "session_ok S KS KC" "store_ok (ss_codecs S) (cx_blocks cx)"
    "base_at (ss_world S) (cx_blocks cx) KS KC (c, m, \<sigma>)" "fst (st_identities \<sigma>) name = Some i"
    "identity_link_record (ss_world S) (cx_blocks cx) i = Some record" "get_link (ss_world S) record = Some v"
    "get_version (ss_codecs S) (id_did i) (cx_db cx) = Inr None" "context_client S cx = Inr cl"
    "cl_replicate cl v None = Inr (bl, Inr ())" "cl_stalls cl v None = None" "delivers S bl"
  obtains db where "traverse_names S c [name] None cx = (Inr (Some v), cx\<lparr>cx_db := db\<rparr>)"
    "block_store db = cx_blocks cx ++ map_of (rev bl)" "cx_blocks cx \<subseteq>\<^sub>m block_store db" "store_ok (ss_codecs S) (block_store db)"
    "\<And>d. get_version (ss_codecs S) d db = get_version (ss_codecs S) d (cx_db cx)"
proof -
  note ok = session_okD [OF assms(1)]
  obtain book ids where ids: "get_address_book (ss_world S) c (cx_blocks cx) = Inr book"
      "get_identities (ss_world S) book (cx_blocks cx) = Inr ids"
      "\<And>k. vm_get (identities_ctx (ss_world S)) ids k (cx_blocks cx) = Inr (fst (st_identities \<sigma>) k)"
    by (rule identities_reads [OF ok(1) assms(2,3)]) blast
  obtain db where db: "replicate_version S v None cx = (Inr (), cx\<lparr>cx_db := db\<rparr>)" "block_store db = cx_blocks cx ++ map_of (rev bl)"
      "cx_blocks cx \<subseteq>\<^sub>m block_store db" "store_ok (ss_codecs S) (block_store db)"
      "\<And>d. get_version (ss_codecs S) d db = get_version (ss_codecs S) d (cx_db cx)"
    by (rule replicate_ok [OF ok(4) assms(2,8-)]) blast
  have "traverse_names S c [name] None cx = (Inr (Some v), cx\<lparr>cx_db := db\<rparr>)"
    using ids assms(4-7) db(1) by (simp add: traverse_by_petname_def Let_def)
  then show thesis using db by (intro that)
qed

lemma get_identity_ok:
  assumes "sphere_ok W" "base_at W s KS KC (c, m, \<sigma>)"
  shows "get_identity W c s = Inr (st_identity \<sigma>)"
  by (rule base_body [OF assms]) (simp add: get_identity_def body_is_def)

lemma should_update_ok:
  assumes "env_ok (ss_codecs S)" "value_at (ss_codecs S) memo_to_ipld (cx_blocks cx) c m"
    "get_version (ss_codecs S) d (cx_db cx) = Inr known"
    "\<And>c0. known = Some c0 \<Longrightarrow> \<exists>m0. value_at (ss_codecs S) memo_to_ipld (cx_blocks cx) c0 m0 \<and> lamport_order m0 < lamport_order m"
  shows "should_update S c d cx = Inr True"
proof (cases known)
  case None
  with assms(3) show ?thesis by (simp add: should_update_def)
next
  case (Some c0)
  then obtain m0 where m0: "value_at (ss_codecs S) memo_to_ipld (cx_blocks cx) c0 m0" "lamport_order m0 < lamport_order m"
    using assms(4) by blast
  have "to_memo (ss_world S) c0 (cx_blocks cx) = Inr m0" "to_memo (ss_world S) c (cx_blocks cx) = Inr m"
    unfolding to_memo_def by (rule load_value_ok [OF assms(1) memo_serde]; fact)+
  with Some assms(3) m0(2) show ?thesis by (simp add: should_update_def)
qed

lemma traverse_visits:
  assumes "session_ok S KS KC" "store_ok (ss_codecs S) (cur_blocks h)" "points_to S c h"
    "base_at (ss_world S) (cur_blocks h) KS KC (c, m, \<sigma>)" "fst (st_identities \<sigma>) name = Some i"
    "identity_link_record (ss_world S) (cur_blocks h) i = Some record" "get_link (ss_world S) record = Some v"
    "get_version (ss_codecs S) (id_did i) (cx_db (cur_context h)) = Inr None" "context_client S (cur_context h) = Inr cl"
    "cl_replicate cl v None = Inr (bl, Inr ())" "cl_stalls cl v None = None" "delivers S bl"
    "base_at (ss_world S) (cur_blocks h ++ map_of (rev bl)) KS KC (v, mv, \<sigma>v)"
    "get_version (ss_codecs S) (st_identity \<sigma>v) (cx_db (cur_context h)) = Inr known"
    "\<And>c0. known = Some c0 \<Longrightarrow> \<exists>m0. value_at (ss_codecs S) memo_to_ipld (cur_blocks h) c0 m0 \<and> lamport_order m0 < lamport_order mv"
    "km_did (author_key (cx_author (cur_context h))) = Inr d"
  obtains h' h2 where "traverse_by_petnames S [name] h = (Inr (Some h2), h')" "cur_version h2 = Some v"
    "cx_identity (cur_context h2) = st_identity \<sigma>v" "cx_origin (cur_context h2) = cx_origin (cur_context h)"
    "get_version (ss_codecs S) (st_identity \<sigma>v) (cx_db (cur_context h')) = Inr (Some v)"
    "get_version (ss_codecs S) (st_identity \<sigma>v) (cx_db (cur_context h2)) = Inr (Some v)"
proof -
  let ?cx = "cur_context h" and ?peer = "st_identity \<sigma>v"
  note ok = session_okD [OF assms(1)]
  obtain db where db: "traverse_names S c [name] None ?cx = (Inr (Some v), ?cx\<lparr>cx_db := db\<rparr>)"
      "block_store db = cur_blocks h ++ map_of (rev bl)" "cur_blocks h \<subseteq>\<^sub>m block_store db" "store_ok (ss_codecs S) (block_store db)"
      "\<And>d. get_version (ss_codecs S) d db = get_version (ss_codecs S) d (cx_db ?cx)"
    by (rule traverse_new [OF assms(1,2,4-12)]) blast
  let ?cx1 = "?cx\<lparr>cx_db := db\<rparr>"
  have B: "base_at (ss_world S) (block_store db) KS KC (v, mv, \<sigma>v)" using assms(13) db(2) by simp
  have id: "get_identity (ss_world S) v (block_store db) = Inr ?peer" by (rule get_identity_ok [OF ok(1) B])
  have up: "should_update S v ?peer ?cx1 = Inr True"
  proof (rule should_update_ok [OF ok(4)])
    show "value_at (ss_codecs S) memo_to_ipld (cx_blocks ?cx1) v mv" using B by (simp add: base_at_def)
    show "get_version (ss_codecs S) ?peer (cx_db ?cx1) = Inr known" using db(5) assms(14) by simp
    show "\<exists>m0. value_at (ss_codecs S) memo_to_ipld (cx_blocks ?cx1) c0 m0 \<and> lamport_order m0 < lamport_order mv"
      if "known = Some c0" for c0
      using assms(15) [OF that] value_at_mono [OF _ db(3)] by auto
  qed
  obtain db' where db': "set_context_version S ?peer v ?cx1 = (Inr (), ?cx1\<lparr>cx_db := db'\<rparr>)"
      "get_version (ss_codecs S) ?peer db' = Inr (Some v)"
    by (rule set_context_version_ok [OF ok(4), of ?peer v ?cx1]) simp
  let ?cx2 = "?cx\<lparr>cx_db := db'\<rparr>"
  obtain cx3 where cx3: "to_visitor S ?peer ?cx2 = Inr cx3" "cx_identity cx3 = ?peer" "cx_origin cx3 = cx_origin ?cx" "cx_db cx3 = db'"
    using db'(2) assms(16) by (simp add: to_visitor_def context_new_def require_version_def)
  have "traverse_by_petnames S [name] h = (Inr (Some (mounted_at cx3 v)), h\<lparr>cur_context := ?cx2\<rparr>)"
    using assms(3) db(1) id up db'(1) cx3(1)
    by (simp add: traverse_by_petnames_def points_to_def in_context_def del: traverse_names.simps)
  then show thesis
    by (rule that) (use cx3 db'(2) in \<open>simp_all add: mounted_at_def\<close>)
qed

end
