(* ===== verification/Example_Context.thy ===== *)
theory Example_Context
  imports Sync_Push Walk_Rep Example_Sphere Storage_Spec
begin

text \<open>
  A session in the world of \<open>Example_World\<close>, and contexts of the sphere of \<open>Example_Sphere\<close> in
  a database that holds a given store. The witnesses of the properties of contexts use them.
\<close>

definition ex_session :: "client \<Rightarrow> session" where
  "ex_session client =
     \<lparr>ss_world = ex_world, ss_now = 1000, ss_nonce = [], ss_chunker = ex_chunker, ss_identify = (\<lambda>_ _ _. Inr client),
      ss_fuel = 5\<rparr>"

lemma ex_session_simps [simp]:
  "ss_world (ex_session cl) = ex_world" "ss_fuel (ex_session cl) = 5" "ss_chunker (ex_session cl) = ex_chunker"
  "ss_now (ex_session cl) = 1000" "ss_nonce (ex_session cl) = []" "ss_identify (ex_session cl) a b z = Inr cl"
  by (simp_all add: ex_session_def)

lemma ex_session_ok: "session_ok (ex_session cl) ex_slugs {}"
  using ex_sphere_ok ex_jwt_ok ex_universe by (simp add: session_ok_def)

abbreviation ex_author :: "string \<Rightarrow> author" where
  "ex_author name \<equiv> \<lparr>author_key = ex_key name, author_authorization = None\<rparr>"

text \<open>A gateway that is not there.\<close>

definition ex_no_gateway :: client where
  "ex_no_gateway =
     \<lparr>session_sphere = ex_did ''g'', cl_replicate = (\<lambda>_ _. Inl (Anyhow ''No route to host'')), cl_stalls = (\<lambda>_ _. None),
      cl_fetch = (\<lambda>_. Inl (Anyhow ''No route to host'')), cl_push = (\<lambda>_. Inl BrokenUpstream)\<rparr>"

text \<open>A context of sphere \<open>d\<close> on a database with the blocks of \<open>s\<close>, for the key called \<open>name\<close>.\<close>

definition ex_bare :: "did \<Rightarrow> string \<Rightarrow> blocks \<Rightarrow> sphere_context" where
  "ex_bare d name s =
     \<lparr>cx_identity = d, cx_origin = d, cx_author = ex_author name, cx_access = None,
      cx_db = sphere_db_new\<lparr>block_store := s\<rparr>, cx_mutation = sphere_mutation_new (ex_did name)\<rparr>"

lemma ex_context:
  assumes "store_ok ex_env s" "base_at ex_world s ex_slugs {} (c, m, \<sigma>)"
  obtains db where "set_context_version (ex_session cl) d c (ex_bare d name s) = (Inr (), (ex_bare d name s)\<lparr>cx_db := db\<rparr>)"
    "block_store db = s" "context_at (ex_session cl) ex_slugs {} (c, m, \<sigma>) ((ex_bare d name s)\<lparr>cx_db := db\<rparr>)"
proof -
  have ok: "env_ok (ss_codecs (ex_session cl))" using ex_env_ok by simp
  obtain db where db: "set_context_version (ex_session cl) d c (ex_bare d name s) = (Inr (), (ex_bare d name s)\<lparr>cx_db := db\<rparr>)"
      "block_store db = cx_blocks (ex_bare d name s)" "get_version (ss_codecs (ex_session cl)) d db = Inr (Some c)"
    by (rule set_context_version_ok [OF ok, of d c "ex_bare d name s"]) simp
  moreover have "mutation_in ex_slugs {} (sphere_mutation_new (ex_did name))" "authored (ex_did name) (sphere_mutation_new (ex_did name))"
    by (rule mutation_in_new, rule authored_new)
  ultimately show thesis
    using assms ex_key_total [of name] auth_ok_None
    by (intro that [OF db(1)]) (auto simp: context_at_def ex_bare_def)
qed

lemma ex_owner_access:
  "fst (context_access S ((ex_bare (ex_did name) name s)\<lparr>cx_db := db\<rparr>)) = Inr ReadWrite"
  by (simp add: context_access_def ex_bare_def access_to_def ex_key_def)

section \<open>A gateway\<close>

text \<open>
  The gateway's sphere \<open>ex_did ''g''\<close> records version \<open>p\<close> of the owner's sphere and later its
  version \<open>n\<close>, while the owner has gone from \<open>p\<close> to \<open>r\<close>.
\<close>

abbreviation ex_counter :: "cid \<Rightarrow> sphere_state" where
  "ex_counter p \<equiv> step_sphere (ex_put ex_owner p) (empty_sphere (ex_did ''g''))"

lemma ex_counterpart:
  obtains g mg p mp n mn r mr gg mgg b mb t mt s where "store_ok ex_env s" "lineage ex_env s [(p, mp), (g, mg)]"
    "base_at ex_world s ex_slugs {} (p, mp, ex_first)"
    "revisions ex_world s ex_slugs {} (p, mp, ex_first) [(n, mn, ex_edit ''b'')]"
    "revisions ex_world s ex_slugs {} (p, mp, ex_first) [(r, mr, ex_edit ''c'')]"
    "lineage ex_env s [(b, mb), (gg, mgg)]" "base_at ex_world s ex_slugs {} (b, mb, ex_counter p)"
    "revisions ex_world s ex_slugs {} (b, mb, ex_counter p) [(t, mt, ex_put ex_owner n)]"
proof -
  obtain g mg p mp n mn r mr s where s: "store_ok ex_env s" "lineage ex_env s [(p, mp), (g, mg)]"
      "base_at ex_world s ex_slugs {} (p, mp, ex_first)"
      "revisions ex_world s ex_slugs {} (p, mp, ex_first) [(n, mn, ex_edit ''b'')]"
      "revisions ex_world s ex_slugs {} (p, mp, ex_first) [(r, mr, ex_edit ''c'')]"
    by (rule ex_scenario)
  obtain gg mgg s1 where s1: "s \<subseteq>\<^sub>m s1" "store_ok ex_env s1"
      "base_at ex_world s1 ex_slugs {} (gg, mgg, empty_sphere (ex_did ''g''))" "parent mgg = None"
    by (rule ex_genesis [OF s(1)])
  obtain b mb s2 where s2: "s1 \<subseteq>\<^sub>m s2" "store_ok ex_env s2" "base_at ex_world s2 ex_slugs {} (b, mb, ex_counter p)" "parent mb = Some gg"
    by (rule ex_revise [OF s1(2,3), of ex_owner]) (simp, blast)
  obtain t mt s3 where s3: "s2 \<subseteq>\<^sub>m s3" "store_ok ex_env s3"
      "revisions ex_world s3 ex_slugs {} (b, mb, ex_counter p) [(t, mt, ex_put ex_owner n)]"
    by (rule ex_revise [OF s2(2,3), of ex_owner]) (simp, blast)
  have le: "s1 \<subseteq>\<^sub>m s3" "s \<subseteq>\<^sub>m s3" by (rule map_le_trans [OF s2(1) s3(1)])
      (rule map_le_trans [OF s1(1) map_le_trans [OF s2(1) s3(1)]])
  have lin: "lineage ex_env s3 [(b, mb), (gg, mgg)]"
    using s1(3,4) s2(3,4) value_at_mono [OF _ le(1)] value_at_mono [OF _ s3(1)] by (simp add: base_at_def)
  show thesis
    by (rule that [OF s3(2) lineage_mono [OF s(2) le(2)] base_at_mono [OF s(3) le(2)] revisions_mono [OF s(4) le(2)]
          revisions_mono [OF s(5) le(2)] lin base_at_mono [OF s2(3) s3(1)] s3(3)])
qed

lemma ex_versions_differ:
  assumes "store_ok ex_env s" "base_at ex_world s ex_slugs {} (p, mp, ex_first)"
    "revisions ex_world s ex_slugs {} (p, mp, ex_first) [(n, mn, ex_edit ''b'')]"
    "revisions ex_world s ex_slugs {} (p, mp, ex_first) [(r, mr, ex_edit ''c'')]"
  shows "n \<noteq> r"
proof
  assume "n = r"
  have W: "sphere_ok ex_world" using session_okD(1) [OF ex_session_ok] by simp
  have p: "value_at (codecs ex_world) memo_to_ipld s p mp" "body_sparse ex_world s (body mp) ex_first"
    using assms(1,2) body_at_sparse [of ex_world s] by (simp_all add: base_at_def)
  have "derive_mutation ex_world n s = Inr (effective ex_first (ex_edit ''b''))"
    using assms(3) derive_mutation_ok [OF W _ _ p] by auto
  moreover have "derive_mutation ex_world r s = Inr (effective ex_first (ex_edit ''c''))"
    using assms(4) derive_mutation_ok [OF W _ _ p] by auto
  ultimately have "effective ex_first (ex_edit ''b'') = effective ex_first (ex_edit ''c'')" using \<open>n = r\<close> by simp
  then have "step_sphere (ex_edit ''b'') ex_first = step_sphere (ex_edit ''c'') ex_first"
    using step_effective [of ex_first "ex_edit ''b''"] step_effective [of ex_first "ex_edit ''c''"] by simp
  then have "fst (st_content (step_sphere (ex_edit ''b'') ex_first)) ''b'' = fst (st_content (step_sphere (ex_edit ''c'') ex_first)) ''b''"
    by simp
  then show False unfolding ex_edit_content by (simp add: empty_sphere_def)
qed

text \<open>A gateway that has version \<open>t\<close> of its sphere to fetch and takes no push.\<close>

definition ex_gateway :: "cid \<Rightarrow> client" where
  "ex_gateway t = ex_no_gateway\<lparr>cl_fetch := (\<lambda>_. Inr (Some (t, ([], Inr ())))), cl_push := (\<lambda>_. Inl Conflict)\<rparr>"

lemma metadata_ok:
  assumes "codec_ok E" "serde f g"
  obtains m where "set_metadata E f k v db = (Inr (), db\<lparr>metadata_store := m\<rparr>)"
    "\<And>k' db'. metadata_store db' = m \<Longrightarrow> get_metadata E g k' db' = (if k' = k then Inr (Some v) else get_metadata E g k' db)"
proof -
  show thesis
    by (rule that [of "snd (set_key E memory_write f k v (metadata_store db))"])
      (use memory.get_after_set [OF assms, where k = k and v = v and s = "metadata_store db"] in
        \<open>auto simp: set_metadata_def get_metadata_def case_prod_beta\<close>)
qed

text \<open>A context that knows where the gateway is and which versions of the two spheres it has.\<close>

lemma ex_online:
  assumes "store_ok ex_env s"
  obtains cx where "cx_identity cx = ex_owner" "cx_author cx = ex_author ''s''" "cx_access cx = None" "cx_blocks cx = s"
    "cx_mutation cx = sphere_mutation_new ex_owner" "get_metadata ex_env string_from_ipld (str_bytes GATEWAY_URL) (cx_db cx) = Inr (Some ''g'')"
    "get_version ex_env ex_owner (cx_db cx) = Inr (Some r)" "get_version ex_env (ex_did ''g'') (cx_db cx) = Inr (Some b)"
proof -
  have E: "codec_ok ex_env" using ex_env_ok by (simp add: env_ok_def)
  let ?S = "ex_session ex_no_gateway"
  have ok: "env_ok (ss_codecs ?S)" using ex_env_ok by simp
  obtain m where m: "\<And>k' db'. metadata_store db' = m \<Longrightarrow> get_metadata ex_env string_from_ipld k' db' =
      (if k' = str_bytes GATEWAY_URL then Inr (Some ''g'') else get_metadata ex_env string_from_ipld k' sphere_db_new)"
    by (rule metadata_ok [OF E string_serde, of "str_bytes GATEWAY_URL" "''g''" sphere_db_new]) blast
  let ?cx = "(ex_bare ex_owner ''s'' s)\<lparr>cx_db := sphere_db_new\<lparr>block_store := s, metadata_store := m\<rparr>\<rparr>"
  obtain db where db: "block_store db = cx_blocks ?cx" "metadata_store db = metadata_store (cx_db ?cx)"
      "get_version ex_env ex_owner db = Inr (Some r)"
    by (rule set_context_version_ok [OF ok, of ex_owner r ?cx]) simp
  let ?cx1 = "?cx\<lparr>cx_db := db\<rparr>"
  obtain db' where db': "block_store db' = cx_blocks ?cx1" "metadata_store db' = metadata_store (cx_db ?cx1)"
      "get_version ex_env (ex_did ''g'') db' = Inr (Some b)" "get_version ex_env ex_owner db' = get_version ex_env ex_owner db"
    by (rule set_context_version_ok [OF ok, of "ex_did ''g''" b ?cx1]) (simp add: ex_did_def)
  show thesis
    by (rule that [of "?cx\<lparr>cx_db := db'\<rparr>"]) (use db db' m [of db'] in \<open>simp_all add: ex_bare_def\<close>)
qed

lemma ex_client:
  "get_metadata ex_env string_from_ipld (str_bytes GATEWAY_URL) (cx_db cx) = Inr (Some u) \<Longrightarrow>
   context_client (ex_session cl) cx = Inr cl"
  by (simp add: context_client_def)

text \<open>A synchronization that rebases the owner's changes and then runs into a conflict.\<close>

lemma ex_conflict:
  obtains S cx cx' r where "sync_once S (\<lambda>_. []) FetchAndPush cx = (Inl SyncConflict, cx')"
    "get_version ex_env ex_owner (cx_db cx) = Inr (Some r)" "get_version ex_env ex_owner (cx_db cx') \<noteq> Inr (Some r)"
proof -
  obtain g mg p mp n mn r mr gg mgg b mb t mt s where s: "store_ok ex_env s" "lineage ex_env s [(p, mp), (g, mg)]"
      "base_at ex_world s ex_slugs {} (p, mp, ex_first)"
      "revisions ex_world s ex_slugs {} (p, mp, ex_first) [(n, mn, ex_edit ''b'')]"
      "revisions ex_world s ex_slugs {} (p, mp, ex_first) [(r, mr, ex_edit ''c'')]"
      "lineage ex_env s [(b, mb), (gg, mgg)]" "base_at ex_world s ex_slugs {} (b, mb, ex_counter p)"
      "revisions ex_world s ex_slugs {} (b, mb, ex_counter p) [(t, mt, ex_put ex_owner n)]"
    by (rule ex_counterpart)
  let ?S = "ex_session (ex_gateway t)" and ?bs = "[(t, mt, ex_put ex_owner n)]" and ?ns = "[(n, mn, ex_edit ''b'')]"
    and ?rs = "[(r, mr, ex_edit ''c'')]"
  obtain cx where cx: "cx_identity cx = ex_owner" "cx_author cx = ex_author ''s''" "cx_access cx = None" "cx_blocks cx = s"
      "cx_mutation cx = sphere_mutation_new ex_owner" "get_metadata ex_env string_from_ipld (str_bytes GATEWAY_URL) (cx_db cx) = Inr (Some ''g'')"
      "get_version ex_env ex_owner (cx_db cx) = Inr (Some r)" "get_version ex_env (ex_did ''g'') (cx_db cx) = Inr (Some b)"
    by (rule ex_online [OF s(1)])
  have E: "codec_ok ex_env" using ex_env_ok by (simp add: env_ok_def)
  obtain md where md: "set_metadata ex_env IString (str_bytes COUNTERPART) (ex_did ''g'') (cx_db cx) = (Inr (), (cx_db cx)\<lparr>metadata_store := md\<rparr>)"
      "\<And>k db. metadata_store db = md \<Longrightarrow> get_metadata ex_env string_from_ipld k db =
        (if k = str_bytes COUNTERPART then Inr (Some (ex_did ''g'')) else get_metadata ex_env string_from_ipld k (cx_db cx))"
    by (rule metadata_ok [OF E string_serde]) blast
  have ne: "str_bytes GATEWAY_URL \<noteq> str_bytes COUNTERPART"
    using str_bytes_inj [of GATEWAY_URL COUNTERPART] by (auto simp: GATEWAY_URL_def COUNTERPART_def)
  have client: "context_client ?S cx' = Inr (ex_gateway t)" if "metadata_store (cx_db cx') = md" for cx'
    using md(2) [OF that, of "str_bytes GATEWAY_URL"] ne cx(6) by (intro ex_client) simp
  let ?cx1 = "cx\<lparr>cx_db := (cx_db cx)\<lparr>metadata_store := md\<rparr>\<rparr>"
  have hs: "handshake ?S cx = (Inr (Some r, ex_did ''g'', Some b), ?cx1)"
    using md(1) cx(1,7,8) ex_client [OF cx(6)]
    by (simp add: handshake_def ex_gateway_def ex_no_gateway_def get_version_def)
  have names: "names_added (ex_counter p) ?bs [] = []"
    by (simp add: step_sphere_def step_version_def ex_put_def sphere_mutation_new_def vmap_mutation_new_def empty_sphere_def changelog_default_def)
  have rec: "fst (st_content (ex_counter p)) ex_owner = Some p" "fst (st_content (final_state ?bs (ex_counter p))) ex_owner = Some n"
    by (simp_all add: ex_edit_content)
  have k: "key_total (author_key (cx_author ?cx1)) ex_owner" using cx(2) ex_owner_key by simp
  let ?s = "cx_blocks ?cx1 ++ map_of (rev [])"
  have F: "store_ok (ss_codecs ?S) (cx_blocks ?cx1)" "auth_ok (ss_world ?S) (cx_blocks ?cx1) (author_authorization (cx_author ?cx1))"
      "cl_fetch (ex_gateway t) (Some b) = Inr (Some (fst (last ?bs), ([], Inr ())))" "delivers ?S []"
    using s(1) cx(2,4) auth_ok_None by (simp_all add: ex_gateway_def delivers_def)
  have G: "base_at (ss_world ?S) ?s ex_slugs {} (b, mb, ex_counter p)" "lineage (codecs (ss_world ?S)) ?s ((b, mb) # [(gg, mgg)])"
      "revisions (ss_world ?S) ?s ex_slugs {} (b, mb, ex_counter p) ?bs" "?bs \<noteq> []" "length ?bs < ss_fuel ?S"
      "fst (st_content (ex_counter p)) (cx_identity ?cx1) = Some p"
      "fst (st_content (final_state ?bs (ex_counter p))) (cx_identity ?cx1) = Some (fst (last ?ns))"
      "base_at (ss_world ?S) ?s ex_slugs {} (p, mp, ex_first)" "lineage (codecs (ss_world ?S)) ?s ((p, mp) # [(g, mg)])"
      "revisions (ss_world ?S) ?s ex_slugs {} (p, mp, ex_first) ?ns" "?ns \<noteq> []" "length ?ns < ss_fuel ?S"
      "revisions (ss_world ?S) ?s ex_slugs {} (p, mp, ex_first) ?rs" "?rs \<noteq> []" "length ?rs < ss_fuel ?S"
      "ex_did ''g'' \<noteq> cx_identity ?cx1"
    using s cx(1,4) rec by (simp_all) (simp add: ex_did_def)
  obtain c m rs' mt' db where f: "fetch_remote_changes ?S (\<lambda>_. []) (Some (fst (last ?rs))) (ex_did ''g'') (Some b) ?cx1 =
        (Inr (c, fst (last ?bs), names_added (ex_counter p) ?bs []), ?cx1\<lparr>cx_db := db\<rparr>)"
      "cx_blocks ?cx1 ++ map_of (rev []) \<subseteq>\<^sub>m block_store db" "store_ok (ss_codecs ?S) (block_store db)"
      "base_at (ss_world ?S) (block_store db) ex_slugs {} (c, m, replay ex_first ?rs (final_state ?ns ex_first))"
      "replayed (ss_world ?S) (block_store db) ex_owner ex_first ?rs (last_version (p, mp, ex_first) ?ns) rs'"
      "last_version (last_version (p, mp, ex_first) ?ns) rs' = (c, m, replay ex_first ?rs (final_state ?ns ex_first))"
      "base_at (ss_world ?S) (block_store db) ex_slugs {} (fst (last ?bs), mt', final_state ?bs (ex_counter p))"
      "metadata_store db = metadata_store (cx_db ?cx1)" "get_version (ss_codecs ?S) (cx_identity ?cx1) db = Inr (Some c)"
    by (rule fetch_ok [OF ex_session_ok F(1) k F(2) client [of ?cx1, simplified] F(3,4) G])
  let ?cx2 = "?cx1\<lparr>cx_db := db\<rparr>" and ?\<sigma> = "replay ex_first ?rs (final_state ?ns ex_first)"
  have le: "s \<subseteq>\<^sub>m block_store db" using f(2) cx(4) by simp
  have P: "parent m = Some n" "ex_memo_at (block_store db) c m" using f(4,5,6) by (auto simp: base_at_def)
  have L: "lineage ex_env (block_store db) [(c, m), (n, mn), (p, mp), (g, mg)]"
    using P s(4) lineage_mono [OF s(2) le] value_at_mono [OF _ le] by simp
  then have d: "c \<noteq> n" "n \<noteq> p" using lineage_distinct [OF ex_env_ok L] by auto
  have "c \<noteq> r"
  proof
    assume "c = r"
    then have "m = mr" using value_at_fun [OF ex_env_ok memo_serde P(2)] s(5) value_at_mono [OF _ le] by simp
    with P(1) s(5) d(2) show False by simp
  qed
  have at: "context_at ?S ex_slugs {} (c, m, ?\<sigma>) ?cx2"
    unfolding context_at_def
    using f(3,4,9) cx(2,5) ex_key_total [of "''s''"] auth_ok_None mutation_in_new [of ex_slugs "{}" ex_owner] authored_new [of ex_owner] by auto
  have acc: "fst (context_access ?S ?cx2) = Inr ReadWrite"
    using cx(1,2,3) by (simp add: context_access_def access_to_def) (simp add: ex_key_def)
  obtain rec_token s' where r: "create_link_record ?S (Some 120) (latest ?cx2) =
        (Inr rec_token, latest (?cx2\<lparr>cx_access := Some ReadWrite, cx_db := (cx_db ?cx2)\<lparr>block_store := s'\<rparr>\<rparr>))"
      "cx_blocks ?cx2 \<subseteq>\<^sub>m s'" "store_ok (ss_codecs ?S) s'" "\<exists>jwt. ucan_encode (ss_world ?S) rec_token = Inr jwt"
    by (rule create_link_record_ok [OF ex_session_ok at acc])
  then obtain jwt where jwt: "ucan_encode ex_world rec_token = Inr jwt" by auto
  let ?cx3 = "?cx2\<lparr>cx_access := Some ReadWrite, cx_db := db\<lparr>block_store := s'\<rparr>\<rparr>"
  have rv: "recorded_version ex_world ex_owner t s' = Inr (Some n)"
  proof -
    have "base_at ex_world s' ex_slugs {} (t, mt', final_state ?bs (ex_counter p))" "store_ok (codecs ex_world) s'"
      using base_at_mono [OF f(7), of s'] r(2,3) by simp_all
    from recorded_version_ok [OF ex_sphere_ok this(2,1)] rec(2) show ?thesis by simp
  qed
  have "context_client ?S ?cx3 = Inr (ex_gateway t)" using f(8) by (intro client) simp
  then have pu: "push_local_changes ?S c (ex_did ''g'') t ?cx2 = (Inl SyncConflict, ?cx3)"
    using r(1) jwt rv d(1) cx(1)
    by (simp add: push_local_changes_def client_push_def latest_def) (simp add: ex_gateway_def)
  have S: "?S\<lparr>ss_nonce := []\<rparr> = ?S" by (simp add: ex_session_def)
  have "sync_once ?S (\<lambda>_. []) FetchAndPush cx = (Inl SyncConflict, ?cx3)"
    using f(1) [unfolded names] pu by (simp add: sync_once_def hs adopt_names_def S)
  moreover have "get_version ex_env ex_owner (cx_db ?cx3) \<noteq> Inr (Some r)"
    using f(9) cx(1) \<open>c \<noteq> r\<close> by (simp add: get_version_def)
  ultimately show thesis using cx(7) by (intro that)
qed

section \<open>A link record for another sphere\<close>

text \<open>
  The sphere \<open>ex_did ''z''\<close> gives the name \<open>''b''\<close> to \<open>ex_did ''x''\<close>, whose link record names a version
  of the owner's sphere.
\<close>

lemma ex_named:
  obtains s p mp q mq \<sigma> i u where "store_ok ex_env s" "base_at ex_world s ex_slugs {} (p, mp, ex_first)"
    "base_at ex_world s ex_slugs {} (q, mq, \<sigma>)" "fst (st_identities \<sigma>) ''b'' = Some i" "id_did i = ex_did ''x''"
    "identity_link_record ex_world s i = Some u" "get_link ex_world u = Some p"
proof -
  obtain p mp s where s: "store_ok ex_env s" "base_at ex_world s ex_slugs {} (p, mp, ex_first)" by (rule ex_scenario)
  let ?b = "record_builder ex_world (ex_key ''x'') (ex_did ''x'') p"
  have b: "b_issuer ?b = Some (ex_key ''x'')" "b_audience ?b = Some (ex_did ''x'')"
      "b_capabilities ?b = [capability_of SPHERE_SEMANTICS (generate_capability (ex_did ''x'') Publish)]"
      "b_facts ?b = [(LINK_RECORD_FACT_NAME, JString (cid_to_string (texts ex_world) p))]"
    by (simp_all add: with_nonce_def with_fact_def claiming_capability_def for_audience_def issued_by_def builder_default_def)
  obtain u where u: "build_and_sign ex_world 1000 [] ?b = Inr u" "cid_text_ok (texts ex_world) \<Longrightarrow> get_link ex_world u = Some p"
    by (rule record_signed [OF ex_jwt_ok ex_key_total b]) blast
  have self: "self_described ex_world u" using u(1) sign_self_described by (auto simp: build_and_sign_def)
  obtain t where t: "ucan_encode ex_world u = Inr t" using encode_total [OF ex_jwt_ok] by blast
  have st: "store_ok (codecs ex_world) s" using s(1) by simp
  obtain c s1 where s1: "s \<subseteq>\<^sub>m s1" "store_ok (codecs ex_world) s1" "codec_of c = codec_id RawCodec" "s1 c = Some (str_bytes t)"
    by (rule write_require_token [OF ex_jwt_ok st t])
  have st1: "store_ok ex_env s1" using s1(2) by simp
  obtain z mz s2 where s2: "s1 \<subseteq>\<^sub>m s2" "store_ok ex_env s2" "base_at ex_world s2 ex_slugs {} (z, mz, empty_sphere (ex_did ''z''))"
    by (rule ex_genesis [OF st1])
  let ?i = "\<lparr>id_did = ex_did ''x'', link_record = Some c\<rparr>"
  let ?\<mu> = "(sphere_mutation_new ex_owner)\<lparr>sm_identities := mutation_set ''b'' ?i (vmap_mutation_new ex_owner)\<rparr>"
  have m: "mutation_in ex_slugs {} ?\<mu>"
    by (simp add: mutation_in_def sphere_mutation_new_def vmap_mutation_new_def mutation_set_def)
  have B: "store_ok (codecs ex_world) s2" "value_at (codecs ex_world) memo_to_ipld s2 z mz"
      "body_at ex_world s2 (body mz) (empty_sphere (ex_did ''z''))" "state_in ex_slugs {} (empty_sphere (ex_did ''z''))"
    using s2(2,3) by (simp_all add: base_at_def)
  obtain q mq s3 where s3: "s2 \<subseteq>\<^sub>m s3" "store_ok (codecs ex_world) s3"
      "base_at ex_world s3 ex_slugs {} (q, mq, step_sphere ?\<mu> (empty_sphere (ex_did ''z'')))"
    by (rule authored_header [OF ex_sphere_ok ex_jwt_ok ex_key_total auth_ok_None B ex_universe m]) blast
  have le: "s1 \<subseteq>\<^sub>m s3" "s \<subseteq>\<^sub>m s3" by (rule map_le_trans [OF s2(1) s3(1)])
      (rule map_le_trans [OF s1(1) map_le_trans [OF s2(1) s3(1)]])
  have "s3 c = Some (str_bytes t)" using s1(4) le(1) by (auto dest: map_leD)
  then have "require_token ex_world c s3 = Inr t"
    by (intro require_token_at [OF ex_jwt_ok]) (use s1(3) utf8_ok_ascii [OF encode_ascii [OF ex_jwt_ok t]] in auto)
  then have "identity_link_record ex_world s3 ?i = Some u"
    using from_str_encode [OF ex_jwt_ok self t]
    by (auto simp: identity_link_record_def require_token_def of_option_eq_Inr split: option.splits)
  moreover have "fst (st_identities (step_sphere ?\<mu> (empty_sphere (ex_did ''z'')))) ''b'' = Some ?i"
    by (simp add: step_sphere_def step_version_def mutation_set_def)
  moreover have "get_link ex_world u = Some p" using u(2) ex_cid_text_ok by simp
  moreover have "store_ok ex_env s3" using s3(2) by simp
  ultimately show thesis using s3(3) base_at_mono [OF s(2) le(2)] by (intro that [of s3 p mp q mq _ ?i u]) simp_all
qed

end
