(* ===== verification/Context_Spec.thy ===== *)
theory Context_Spec
  imports Example_Context
begin

text \<open>
  The properties of sphere contexts: what is written and saved is read back, only an author with
  authority over the sphere can write to it, and what synchronizing with a gateway and
  traversing to other spheres do to the versions on record.
\<close>

section \<open>Content\<close>

text \<open>C6: bytes that are written to a slug and saved are read back from it, in the new version
  of the sphere, with the content type and the length they were written with, and the memo of
  the file follows the one that the slug had before.\<close>

theorem write_save_read:
  assumes "session_ok S KS KC" "chunker_ok (ss_chunker S)" "context_at S KS KC (c, m, \<sigma>) cx"
    "fst (context_access S cx) = Inr ReadWrite" "slug \<noteq> []" "slug \<in> KS" "bs \<noteq> []" "length (ss_chunker S bs) < ss_fuel S"
    "\<And>k. fst (st_content \<sigma>) slug = Some k \<Longrightarrow> \<exists>mk cs. file_at S (cx_blocks cx) k mk cs"
    "\<forall>h \<in> set hs. \<not> same_name (fst h) ''Content-Length''"
  shows "\<exists>k h c' h' cs mk. write_slug S slug t bs (Some hs) (latest cx) = (Inr k, h) \<and>
    cursor_save S None h = (Inr c', h') \<and> cursor_version S h' = Inr c' \<and>
    read_slug S slug h' =
      (Inr (Some \<lparr>sf_identity = cx_identity cx, sf_version = c', sf_memo_version = k, sf_memo = mk, sf_contents = (cs, Inr ())\<rparr>), h') \<and>
    concat cs = bs \<and> get_first_header ''Content-Type'' mk = Some t \<and>
    get_first_header ''Content-Length'' mk = Some (nat_to_string (length bs)) \<and> parent mk = fst (st_content \<sigma>) slug"
proof -
  obtain k mk cs cx1 where w: "write_slug S slug t bs (Some hs) (latest cx) = (Inr k, latest cx1)"
      "context_at S KS KC (c, m, \<sigma>) cx1" "extends S cx cx1"
      "cx_mutation cx1 = (cx_mutation cx)\<lparr>sm_content := mutation_set slug k (sm_content (cx_mutation cx))\<rparr>"
      "file_at S (cx_blocks cx1) k mk cs" "concat cs = bs" "get_first_header ''Content-Type'' mk = Some t"
      "get_first_header ''Content-Length'' mk = Some (nat_to_string (length bs))" "parent mk = fst (st_content \<sigma>) slug"
    by (rule write_slug_ok [OF assms]) blast+
  have "\<not> mutation_is_empty (cx_mutation cx1)" by (simp add: w(4) mutation_is_empty_def mutation_set_def)
  then obtain c' m' cx2 where v: "context_save S None cx1 = (Inr c', cx2)"
      "context_at S KS KC (c', m', step_sphere (cx_mutation cx1) \<sigma>) cx2" "extends S cx1 cx2"
    by (rule context_save_ok [OF assms(1) w(2)])
  have h: "cursor_save S None (latest cx1) = (Inr c', latest cx2)"
    using v(1) by (simp add: cursor_save_def in_context_def latest_def)
  have pt: "points_to S c' (latest cx2)"
    using context_at_version [OF v(2)] by (simp add: points_to_def cursor_version_def latest_def)
  have at: "store_ok (ss_codecs S) (cur_blocks (latest cx2))"
      "base_at (ss_world S) (cur_blocks (latest cx2)) KS KC (c', m', step_sphere (cx_mutation cx1) \<sigma>)"
    using v(2) by (simp_all add: context_at_def latest_def)
  have "fst (st_content (step_sphere (cx_mutation cx1) \<sigma>)) slug = Some k"
    by (simp add: w(4) step_sphere_def step_version_def mutation_set_def)
  moreover have "file_at S (cur_blocks (latest cx2)) k mk cs"
    using file_at_mono [OF w(5)] v(3) by (simp add: extends_def latest_def)
  moreover have "cx_identity cx2 = cx_identity cx" using w(3) v(3) by (simp add: extends_def)
  ultimately have "read_slug S slug (latest cx2) =
      (Inr (Some \<lparr>sf_identity = cx_identity cx, sf_version = c', sf_memo_version = k, sf_memo = mk, sf_contents = (cs, Inr ())\<rparr>), latest cx2)"
    using read_slug_ok(2) [OF assms(1) pt at] by (simp add: latest_def)
  with w(1,6-) h pt show ?thesis unfolding points_to_def by blast
qed

theorem write_save_read_witness:
  "\<exists>S cx k h c' h' file. write_slug S ''b'' ''text/subtext'' [1, 2, 3] (Some []) (latest cx) = (Inr k, h) \<and>
     cursor_save S None h = (Inr c', h') \<and> read_slug S ''b'' h' = (Inr (Some file), h') \<and>
     concat (fst (sf_contents file)) = [1, 2, 3] \<and> sf_version file = c'"
proof -
  obtain p mp s where s: "store_ok ex_env s" "base_at ex_world s ex_slugs {} (p, mp, ex_first)"
    by (rule ex_scenario)
  let ?S = "ex_session ex_no_gateway"
  obtain db where cx: "context_at ?S ex_slugs {} (p, mp, ex_first) ((ex_bare ex_owner ''s'' s)\<lparr>cx_db := db\<rparr>)"
    by (rule ex_context [OF s])
  have ck: "chunker_ok (ss_chunker ?S)" using ex_chunker_ok by simp
  have free: "fst (st_content ex_first) ''b'' = None" by (simp add: ex_edit_content) (simp add: empty_sphere_def)
  show ?thesis
    using write_save_read [OF ex_session_ok ck cx ex_owner_access, of "''b''" "[1, 2, 3]" "[]" "''text/subtext''"] free
    by (force simp: ex_chunker_def)
qed

section \<open>Authority\<close>

text \<open>C7: only an author with authority over a sphere changes what it maps. Take a context without unsaved
  changes that has not yet been found to have write access. Either its author may write: they hold
  the sphere's own key, or a token that the sphere delegates and that rests on one issued by the
  sphere. Or, after any sequence of calls of the operations that change a sphere, every such call
  fails, nothing but the remembered access has changed, and there is nothing to save. Saving itself
  is not guarded: with headers of their choice, such an author does put a next version on record,
  although of the same sphere.\<close>

theorem write_needs_authority:
  assumes "session_ok S KS KC" "context_at S KS KC (c, m, \<sigma>) (cur_context h)" "cx_identity (cur_context h) = st_identity \<sigma>"
    "cx_access (cur_context h) \<noteq> Some ReadWrite" "mutation_is_empty (cx_mutation (cur_context h))" "(edit S)\<^sup>*\<^sup>* h h'"
  shows "may_write S (cur_blocks h) \<sigma> (cx_author (cur_context h)) \<and> holds_authority S (cur_blocks h) \<sigma> (cx_author (cur_context h)) \<or>
    (isl (fst (link_raw S slug l h')) \<and> isl (fst (link_slug S slug t l hs h')) \<and> isl (fst (write_slug S slug t bs hs h')) \<and>
     isl (fst (remove_slug S slug h')) \<and> isl (fst (set_petname S name peer h')) \<and> isl (fst (set_petname_record S name record h')) \<and>
     isl (fst (create_link_record S lifetime h')) \<and> isl (fst (authorize S name recipient h')) \<and>
     isl (fst (revoke_authorization S z h')) \<and> isl (fst (recover_authority S recipient h'))) \<and>
    cur_context h' = (cur_context h)\<lparr>cx_access := cx_access (cur_context h')\<rparr> \<and>
    fst (cursor_save S None h') = Inl (Anyhow ''No changes to save'') \<and>
    (\<exists>c' m' h''. cursor_save S (Some (fh # rh)) h' = (Inr c', h'') \<and>
       context_at S KS KC (c', m', \<sigma>) (cur_context h'') \<and> parent m' = Some c)"
proof (cases "may_write S (cur_blocks h) \<sigma> (cx_author (cur_context h))")
  case True
  with may_write_holds [OF True] show ?thesis by blast
next
  case False
  obtain a where a: "h' = h\<lparr>cur_context := (cur_context h)\<lparr>cx_access := a\<rparr>\<rparr>" "a \<noteq> Some ReadWrite"
    using edits_denied [OF assms(1-4) False assms(6)] by blast
  have at: "context_at S KS KC (c, m, \<sigma>) (cur_context h')" "mutation_is_empty (cx_mutation (cur_context h'))"
    using assms(2,5) a(1) by simp_all
  obtain e h1 where "assert_write_access S h' = (Inl e, h1)"
    by (rule write_denied [OF assms(1) at(1)]) (use assms(3) a False in simp_all)
  then have ops: "isl (fst (link_raw S slug l h'))" "isl (fst (link_slug S slug t l hs h'))" "isl (fst (write_slug S slug t bs hs h'))"
     "isl (fst (remove_slug S slug h'))" "isl (fst (set_petname S name peer h'))" "isl (fst (set_petname_record S name record h'))"
     "isl (fst (create_link_record S lifetime h'))" "isl (fst (authorize S name recipient h'))"
     "isl (fst (revoke_authorization S z h'))" "isl (fst (recover_authority S recipient h'))"
    by (simp_all add: edit_defs)
  have none: "fst (cursor_save S None h') = Inl (Anyhow ''No changes to save'')"
    using context_save_empty(1) [OF assms(1) at]
    by (cases "context_save S None (cur_context h')") (simp add: cursor_save_def in_context_def)
  obtain c' m' cx' where "context_save S (Some (fh # rh)) (cur_context h') = (Inr c', cx')"
      "context_at S KS KC (c', m', \<sigma>) cx'" "parent m' = Some c"
    using context_save_empty(2) [OF assms(1) at, of "fh # rh"] by blast
  then have "\<exists>c' m' h''. cursor_save S (Some (fh # rh)) h' = (Inr c', h'') \<and>
      context_at S KS KC (c', m', \<sigma>) (cur_context h'') \<and> parent m' = Some c"
    by (cases "cur_version h'") (simp_all add: cursor_save_def in_context_def, blast+)
  with ops none a(1) show ?thesis by simp
qed

theorem write_needs_authority_witness:
  "\<exists>S h h' \<sigma> c m'. st_identity \<sigma> = ex_owner \<and> h' = snd (link_raw S ''b'' ex_entry h) \<and>
     isl (fst (remove_slug S ''a'' h')) \<and> cx_mutation (cur_context h') = cx_mutation (cur_context h) \<and>
     (\<exists>h''. cursor_save S (Some [(''Title'', ''x'')]) h' = (Inr c, h'') \<and> context_at S ex_slugs {} (c, m', \<sigma>) (cur_context h''))"
proof -
  obtain p mp s where s: "store_ok ex_env s" "base_at ex_world s ex_slugs {} (p, mp, ex_first)"
    by (rule ex_scenario)
  let ?S = "ex_session ex_no_gateway"
  obtain db where cx: "context_at ?S ex_slugs {} (p, mp, ex_first) ((ex_bare ex_owner ''x'' s)\<lparr>cx_db := db\<rparr>)"
    by (rule ex_context [OF s])
  let ?h = "latest ((ex_bare ex_owner ''x'' s)\<lparr>cx_db := db\<rparr>)"
  let ?h' = "snd (link_raw ?S ''b'' ex_entry ?h)"
  have at: "context_at ?S ex_slugs {} (p, mp, ex_first) (cur_context ?h)" using cx by (simp add: latest_def)
  have id: "st_identity ex_first = ex_owner" by (simp add: step_sphere_def empty_sphere_def)
  have h: "cx_identity (cur_context ?h) = st_identity ex_first" "cx_access (cur_context ?h) \<noteq> Some ReadWrite"
      "mutation_is_empty (cx_mutation (cur_context ?h))"
    unfolding id by (simp_all add: latest_def ex_bare_def mutation_is_empty_def sphere_mutation_new_def vmap_mutation_new_def)
  have no: "\<not> may_write ?S (cur_blocks ?h) ex_first (cx_author (cur_context ?h))"
    unfolding may_write_def id by (simp add: latest_def ex_bare_def ex_key_def ex_did_def)
  have st: "(edit ?S)\<^sup>*\<^sup>* ?h ?h'" by (intro r_into_rtranclp edit.intros)
  have "\<not> (may_write ?S (cur_blocks ?h) ex_first (cx_author (cur_context ?h)) \<and>
      holds_authority ?S (cur_blocks ?h) ex_first (cx_author (cur_context ?h)))" using no by simp
  note w = write_needs_authority [OF ex_session_ok at h st, unfolded disj_imp, THEN mp, OF this]
  have "cx_mutation (cur_context ?h') = cx_mutation (cur_context ?h)"
    by (rule arg_cong [where f = cx_mutation, THEN trans, OF w [THEN conjunct2, THEN conjunct1]]) simp
  moreover have "isl (fst (remove_slug ?S ''a'' ?h'))"
    by (rule w [THEN conjunct1, THEN conjunct2, THEN conjunct2, THEN conjunct2, THEN conjunct1])
  moreover have "\<exists>c' m' h''. cursor_save ?S (Some [(''Title'', ''x'')]) ?h' = (Inr c', h'') \<and>
      context_at ?S ex_slugs {} (c', m', ex_first) (cur_context h'') \<and> parent m' = Some p"
    by (rule w [THEN conjunct2, THEN conjunct2, THEN conjunct2])
  ultimately show ?thesis using id by blast
qed

section \<open>Synchronization\<close>

text \<open>C5: when the gateway's sphere has moved on from the version last fetched, and records new
  versions of the local sphere, a fetch replays the local changes on the newest of them: the
  local sphere is put on record at a version that holds the received changes followed by the
  local ones, and the gateway's sphere at the version that was fetched.\<close>

theorem fetch_rebases_local:
  assumes "session_ok S KS KC" "store_ok (ss_codecs S) (cx_blocks cx)" "key_total (author_key (cx_author cx)) d"
    "auth_ok (ss_world S) (cx_blocks cx) (author_authorization (cx_author cx))"
    "context_client S cx = Inr cl" "cl_fetch cl (Some b) = Inr (Some (fst (last bs), (bl, Inr ())))" "delivers S bl"
    "s = cx_blocks cx ++ map_of (rev bl)"
    "base_at (ss_world S) s KS KC (b, mb, \<sigma>b)" "lineage (ss_codecs S) s ((b, mb) # ghs)"
    "revisions (ss_world S) s KS KC (b, mb, \<sigma>b) bs" "bs \<noteq> []" "length bs < ss_fuel S"
    "fst (st_content \<sigma>b) (cx_identity cx) = Some p" "fst (st_content (final_state bs \<sigma>b)) (cx_identity cx) = Some (fst (last ns))"
    "base_at (ss_world S) s KS KC (p, mp, \<sigma>p)" "lineage (ss_codecs S) s ((p, mp) # hs)"
    "revisions (ss_world S) s KS KC (p, mp, \<sigma>p) ns" "ns \<noteq> []" "length ns < ss_fuel S"
    "revisions (ss_world S) s KS KC (p, mp, \<sigma>p) rs" "rs \<noteq> []" "length rs < ss_fuel S" "counterpart \<noteq> cx_identity cx"
  shows "\<exists>c m db. fetch_remote_changes S nonces (Some (fst (last rs))) counterpart (Some b) cx =
      (Inr (c, fst (last bs), names_added \<sigma>b bs []), cx\<lparr>cx_db := db\<rparr>) \<and>
    get_version (ss_codecs S) (cx_identity cx) db = Inr (Some c) \<and> get_version (ss_codecs S) counterpart db = Inr (Some (fst (last bs))) \<and>
    value_at (ss_codecs S) memo_to_ipld (block_store db) c m \<and>
    body_at (ss_world S) (block_store db) (body m) (replay \<sigma>p rs (final_state ns \<sigma>p))"
proof -
  obtain c m db where "fetch_remote_changes S nonces (Some (fst (last rs))) counterpart (Some b) cx =
      (Inr (c, fst (last bs), names_added \<sigma>b bs []), cx\<lparr>cx_db := db\<rparr>)"
    "get_version (ss_codecs S) (cx_identity cx) db = Inr (Some c)" "get_version (ss_codecs S) counterpart db = Inr (Some (fst (last bs)))"
    "base_at (ss_world S) (block_store db) KS KC (c, m, replay \<sigma>p rs (final_state ns \<sigma>p))"
    by (rule fetch_ok [OF assms(1-7) assms(9-) [unfolded assms(8)]])
  then show ?thesis by (auto simp: base_at_def)
qed

theorem fetch_rebases_local_witness:
  "\<exists>S cx r b c t m \<sigma> db. fetch_remote_changes S (\<lambda>_. []) (Some r) (ex_did ''g'') (Some b) cx = (Inr (c, t, []), cx\<lparr>cx_db := db\<rparr>) \<and>
     get_version ex_env ex_owner (cx_db cx) = Inr (Some r) \<and> get_version ex_env ex_owner db = Inr (Some c) \<and>
     ex_memo_at (block_store db) c m \<and> body_at ex_world (block_store db) (body m) \<sigma> \<and>
     fst (st_content \<sigma>) = [''a'' \<mapsto> ex_entry, ''b'' \<mapsto> ex_entry, ''c'' \<mapsto> ex_entry]"
proof -
  obtain g mg p mp n mn r mr gg mgg b mb t mt s where s: "store_ok ex_env s" "lineage ex_env s [(p, mp), (g, mg)]"
      "base_at ex_world s ex_slugs {} (p, mp, ex_first)"
      "revisions ex_world s ex_slugs {} (p, mp, ex_first) [(n, mn, ex_edit ''b'')]"
      "revisions ex_world s ex_slugs {} (p, mp, ex_first) [(r, mr, ex_edit ''c'')]"
      "lineage ex_env s [(b, mb), (gg, mgg)]" "base_at ex_world s ex_slugs {} (b, mb, ex_counter p)"
      "revisions ex_world s ex_slugs {} (b, mb, ex_counter p) [(t, mt, ex_put ex_owner n)]"
    by (rule ex_counterpart)
  obtain cx where cx: "cx_identity cx = ex_owner" "cx_author cx = ex_author ''s''" "cx_blocks cx = s"
      "get_metadata ex_env string_from_ipld (str_bytes GATEWAY_URL) (cx_db cx) = Inr (Some ''g'')"
      "get_version ex_env ex_owner (cx_db cx) = Inr (Some r)"
    by (rule ex_online [OF s(1)])
  let ?S = "ex_session (ex_gateway t)" and ?\<sigma> = "replay ex_first [(r, mr, ex_edit ''c'')] (final_state [(n, mn, ex_edit ''b'')] ex_first)"
  have names: "names_added (ex_counter p) [(t, mt, ex_put ex_owner n)] [] = []"
    by (simp add: step_sphere_def step_version_def ex_put_def sphere_mutation_new_def vmap_mutation_new_def empty_sphere_def changelog_default_def)
  have rec: "fst (st_content (ex_counter p)) ex_owner = Some p"
      "fst (st_content (final_state [(t, mt, ex_put ex_owner n)] (ex_counter p))) ex_owner = Some n"
    by (simp_all add: ex_edit_content)
  have del: "delivers ?S []" by (simp add: delivers_def)
  have cl: "cl_fetch (ex_gateway t) (Some b) = Inr (Some (fst (last [(t, mt, ex_put ex_owner n)]), ([], Inr ())))"
    by (simp add: ex_gateway_def)
  obtain c m db where c: "fetch_remote_changes ?S (\<lambda>_. []) (Some r) (ex_did ''g'') (Some b) cx = (Inr (c, t, []), cx\<lparr>cx_db := db\<rparr>)"
      "get_version ex_env ex_owner db = Inr (Some c)" "ex_memo_at (block_store db) c m" "body_at ex_world (block_store db) (body m) ?\<sigma>"
    using fetch_rebases_local [OF ex_session_ok _ _ _ ex_client [OF cx(4)] cl del refl, of "ex_did ''s''" mb "ex_counter p" "[(gg, mgg)]"
        p "[(n, mn, ex_edit ''b'')]" mp ex_first "[(g, mg)]" "[(r, mr, ex_edit ''c'')]" "ex_did ''g''" "\<lambda>_. []"]
      s cx names rec ex_key_total [of "''s''"] auth_ok_None by (auto simp: ex_did_def)
  have "effective ex_first (ex_edit ''c'') = ex_edit ''c''"
    by (rule ex_edit_effective)
      (simp add: step_sphere_def step_version_def ex_put_def mutation_set_def vmap_mutation_new_def)
  then have "fst (st_content ?\<sigma>) = [''a'' \<mapsto> ex_entry, ''b'' \<mapsto> ex_entry, ''c'' \<mapsto> ex_entry]"
    by (simp add: ex_edit_content) (simp add: empty_sphere_def)
  with c cx(5) show ?thesis by blast
qed

text \<open>C36: nothing is rolled back when the gateway reports a conflict. The handshake, the fetch and
  the adoption of names had succeeded by then, and all the versions they put on record stay
  there.\<close>

theorem sync_conflict_keeps_fetched:
  assumes "sync_once S nonces extent cx = (Inl SyncConflict, cx')"
  shows "\<exists>local_version counterpart base cx1 tip counterpart_tip names cx2 adopted cx3.
    handshake S cx = (Inr (local_version, counterpart, base), cx1) \<and>
    fetch_remote_changes S (\<lambda>n. nonces (n + 2)) local_version counterpart base cx1 = (Inr (tip, counterpart_tip, names), cx2) \<and>
    adopt_names (S\<lparr>ss_nonce := nonces 0\<rparr>) names cx2 = (Inr adopted, cx3) \<and>
    version_store (cx_db cx') = version_store (cx_db cx3)"
proof -
  obtain x cx1 y cx2 adopted cx3 where x: "handshake S cx = (Inr x, cx1)"
      "fetch_remote_changes S (\<lambda>n. nonces (n + 2)) (fst x) (fst (snd x)) (snd (snd x)) cx1 = (Inr y, cx2)"
      "adopt_names (S\<lparr>ss_nonce := nonces 0\<rparr>) (snd (snd y)) cx2 = (Inr adopted, cx3)"
      "(case extent of
          FetchOnly \<Rightarrow> (Inr (case adopted of Some version \<Rightarrow> version | None \<Rightarrow> fst y), cx3)
        | FetchAndPush \<Rightarrow>
            ybind (push_local_changes (S\<lparr>ss_nonce := nonces 1\<rparr>) (case adopted of Some version \<Rightarrow> version | None \<Rightarrow> fst y)
                     (fst (snd x)) (fst (snd y)) cx3)
              (\<lambda>_ cx. (Inr (case adopted of Some version \<Rightarrow> version | None \<Rightarrow> fst y), cx))) = (Inl SyncConflict, cx')"
    using assms unfolding sync_once_def ysbind_conflict case_prod_beta Let_def by blast
  then have "push_local_changes (S\<lparr>ss_nonce := nonces 1\<rparr>) (case adopted of Some version \<Rightarrow> version | None \<Rightarrow> fst y)
      (fst (snd x)) (fst (snd y)) cx3 = (Inl SyncConflict, cx')"
    by (auto simp: ybind_def split: sync_extent.splits prod.splits sum.splits)
  then have "version_store (cx_db cx') = version_store (cx_db cx3)" by (rule push_conflict)
  with x show ?thesis by (metis prod.collapse)
qed

theorem sync_conflict_keeps_fetched_witness:
  "\<exists>S cx cx' r names cx2 adopted cx3. sync_once S (\<lambda>_. []) FetchAndPush cx = (Inl SyncConflict, cx') \<and>
     adopt_names (S\<lparr>ss_nonce := []\<rparr>) names cx2 = (Inr adopted, cx3) \<and>
     get_version ex_env ex_owner (cx_db cx) = Inr (Some r) \<and> get_version ex_env ex_owner (cx_db cx') \<noteq> Inr (Some r) \<and>
     version_store (cx_db cx') = version_store (cx_db cx3)"
proof -
  obtain S cx cx' r where c: "sync_once S (\<lambda>_. []) FetchAndPush cx = (Inl SyncConflict, cx')"
      "get_version ex_env ex_owner (cx_db cx) = Inr (Some r)" "get_version ex_env ex_owner (cx_db cx') \<noteq> Inr (Some r)"
    by (rule ex_conflict)
  then show ?thesis using sync_conflict_keeps_fetched [OF c(1)] by blast
qed

section \<open>Traversal\<close>

text \<open>C37: traversing to a peer that is not known yet replicates the version that the link record of
  the petname names, visits it there, and puts it on record for the sphere that the body of
  that version names. Nothing ties that sphere to the one that the petname stands for: a peer's
  link record can move the version on record of any sphere, if the version it names is newer.\<close>

theorem traverse_trusts_body:
  assumes "session_ok S KS KC" "store_ok (ss_codecs S) (cur_blocks h)" "points_to S c h"
    "base_at (ss_world S) (cur_blocks h) KS KC (c, m, \<sigma>)" "fst (st_identities \<sigma>) name = Some i"
    "identity_link_record (ss_world S) (cur_blocks h) i = Some record" "get_link (ss_world S) record = Some v"
    "get_version (ss_codecs S) (id_did i) (cx_db (cur_context h)) = Inr None" "context_client S (cur_context h) = Inr cl"
    "cl_replicate cl v None = Inr (bl, Inr ())" "cl_stalls cl v None = None" "delivers S bl"
    "base_at (ss_world S) (cur_blocks h ++ map_of (rev bl)) KS KC (v, mv, \<sigma>v)"
    "get_version (ss_codecs S) (st_identity \<sigma>v) (cx_db (cur_context h)) = Inr known"
    "\<And>c0. known = Some c0 \<Longrightarrow> \<exists>m0. value_at (ss_codecs S) memo_to_ipld (cur_blocks h) c0 m0 \<and> lamport_order m0 < lamport_order mv"
    "km_did (author_key (cx_author (cur_context h))) = Inr d"
  shows "\<exists>h2 h'. traverse_by_petnames S [name] h = (Inr (Some h2), h') \<and> cur_version h2 = Some v \<and>
    cx_identity (cur_context h2) = st_identity \<sigma>v \<and> cx_origin (cur_context h2) = cx_origin (cur_context h) \<and>
    get_version (ss_codecs S) (st_identity \<sigma>v) (cx_db (cur_context h')) = Inr (Some v)"
proof -
  obtain h2 h' where "traverse_by_petnames S [name] h = (Inr (Some h2), h')" "cur_version h2 = Some v"
    "cx_identity (cur_context h2) = st_identity \<sigma>v" "cx_origin (cur_context h2) = cx_origin (cur_context h)"
    "get_version (ss_codecs S) (st_identity \<sigma>v) (cx_db (cur_context h')) = Inr (Some v)"
    by (rule traverse_visits [OF assms]) blast+
  then show ?thesis by blast
qed

theorem traverse_trusts_body_witness:
  "\<exists>S h h2 h' v. traverse_by_petnames S [''b''] h = (Inr (Some h2), h') \<and> get_petname S ''b'' h = Inr (Some (ex_did ''x'')) \<and>
     cx_identity (cur_context h2) = ex_owner \<and> get_version ex_env ex_owner (cx_db (cur_context h')) = Inr (Some v)"
proof -
  obtain s p mp q mq \<sigma> i u where s: "store_ok ex_env s" "base_at ex_world s ex_slugs {} (p, mp, ex_first)"
      "base_at ex_world s ex_slugs {} (q, mq, \<sigma>)" "fst (st_identities \<sigma>) ''b'' = Some i" "id_did i = ex_did ''x''"
      "identity_link_record ex_world s i = Some u" "get_link ex_world u = Some p"
    by (rule ex_named)
  let ?cl = "ex_no_gateway\<lparr>cl_replicate := (\<lambda>_ _. Inr ([], Inr ()))\<rparr>"
  let ?S = "ex_session ?cl"
  have E: "codec_ok ex_env" using ex_env_ok by (simp add: env_ok_def)
  obtain md where md: "\<And>k' db'. metadata_store db' = md \<Longrightarrow> get_metadata ex_env string_from_ipld k' db' =
      (if k' = str_bytes GATEWAY_URL then Inr (Some ''g'') else get_metadata ex_env string_from_ipld k' sphere_db_new)"
    by (rule metadata_ok [OF E string_serde, of "str_bytes GATEWAY_URL" "''g''" sphere_db_new]) blast
  let ?cx = "(ex_bare (ex_did ''z'') ''s'' s)\<lparr>cx_db := sphere_db_new\<lparr>block_store := s, metadata_store := md\<rparr>\<rparr>"
  let ?h = "mounted_at ?cx q"
  have h: "cur_context ?h = ?cx" "cur_version ?h = Some q" "cur_blocks ?h = s" by (simp_all add: mounted_at_def)
  have none: "get_version ex_env x (cx_db ?cx) = Inr None" for x
    by (simp add: get_version_def sphere_db_new_def get_key_def memory_read_def)
  have pt: "points_to ?S q ?h" by (simp add: points_to_def cursor_version_def h(2))
  have cl: "context_client ?S (cur_context ?h) = Inr ?cl" using md [of "cx_db ?cx"] unfolding h(1) by (intro ex_client) simp
  have st: "store_ok (ss_codecs ?S) (cur_blocks ?h)" "base_at (ss_world ?S) (cur_blocks ?h) ex_slugs {} (q, mq, \<sigma>)"
      "identity_link_record (ss_world ?S) (cur_blocks ?h) i = Some u" "get_link (ss_world ?S) u = Some p"
    using s unfolding h(3) by simp_all
  have v: "get_version (ss_codecs ?S) (id_did i) (cx_db (cur_context ?h)) = Inr None"
      "get_version (ss_codecs ?S) (st_identity ex_first) (cx_db (cur_context ?h)) = Inr None"
    using none [of "id_did i"] none [of "st_identity ex_first"] unfolding h(1) by simp_all
  have c: "cl_replicate ?cl p None = Inr ([], Inr ())" "cl_stalls ?cl p None = None" "delivers ?S []"
    by (simp_all add: ex_no_gateway_def delivers_def)
  have b: "base_at (ss_world ?S) (cur_blocks ?h ++ map_of (rev [])) ex_slugs {} (p, mp, ex_first)" using s(2) unfolding h(3) by simp
  have k: "km_did (author_key (cx_author (cur_context ?h))) = Inr ex_owner" unfolding h(1) by (simp add: ex_bare_def ex_key_def)
  obtain h2 h' where t: "traverse_by_petnames ?S [''b''] ?h = (Inr (Some h2), h')" "cx_identity (cur_context h2) = st_identity ex_first"
      "get_version (ss_codecs ?S) (st_identity ex_first) (cx_db (cur_context h')) = Inr (Some p)"
    using traverse_trusts_body [OF ex_session_ok st(1) pt st(2) s(4) st(3,4) v(1) cl c b v(2) _ k] by auto
  obtain book ids where ids: "get_address_book ex_world q s = Inr book" "get_identities ex_world book s = Inr ids"
      "\<And>k. vm_get (identities_ctx ex_world) ids k s = Inr (fst (st_identities \<sigma>) k)"
    by (rule identities_reads [OF ex_sphere_ok _ s(3)]) (use s(1) in auto)
  have "get_petname ?S ''b'' ?h = Inr (Some (ex_did ''x''))"
    using ids s(4,5) h(3)
    by (simp add: get_petname_def lookup_petname_def cursor_identities_def cursor_version_def h(2))
  moreover have "st_identity ex_first = ex_owner" by (simp add: step_sphere_def empty_sphere_def)
  ultimately show ?thesis using t by (metis ex_session_simps(1) ex_world_env(1))
qed

end
