(* ===== verification/Gateway.thy ===== *)
theory Gateway
  imports Sync_Push
begin

text \<open>
  The gateway (\<^verbatim>\<open>noosphere-gateway/src/extractors/authority.rs\<close>,
  \<^verbatim>\<open>handlers/v0alpha2/push.rs\<close>, \<^verbatim>\<open>handlers/v0alpha1/fetch.rs\<close>): who may make a request, taking
  in the history that a client pushes, and what a fetch sends. The gateway has a sphere of its
  own, whose content maps the client's sphere, the counterpart, to the version it was last
  given. Requests reach the model as the tokens and the blocks that they carry; HTTP, the CAR
  format, the jobs that are queued afterwards and the memo streams that make up the blocks of an
  answer are left out.
\<close>

section \<open>Requests\<close>

record gateway_scope =
  scope_counterpart :: did
  scope_gateway :: did
  scope_gateway_identity :: did

datatype status_code = BAD_REQUEST | UNAUTHORIZED | INTERNAL_SERVER_ERROR

text \<open>
  \<open>try_authorize\<close>, for the chain that the tokens of the request resolve to. A panic of the
  reduction is one of the handler.
\<close>

definition try_authorize ::
    "session \<Rightarrow> gateway_scope \<Rightarrow> sphere_ability \<Rightarrow> proof_chain result \<Rightarrow> (status_code + unit) result" where
  "try_authorize S scope required_ability presented =
     on_error presented
       (\<lambda>chain.
         rbind (reduce_capabilities (url_parse (ss_world S)) SPHERE_SEMANTICS chain) (\<lambda>infos.
           Inr (if has_capability infos (scope_counterpart scope)
                     (generate_capability (scope_counterpart scope) required_ability)
                then Inr () else Inl UNAUTHORIZED)))
       (Inr (Inl BAD_REQUEST))"

section \<open>Push\<close>

definition push_body_to_ipld :: "push_body \<Rightarrow> ipld" where
  "push_body_to_ipld b = IMap
     [(''counterpart_tip'', option_to_ipld ILink (pb_counterpart_tip b)),
      (''local_base'', option_to_ipld ILink (pb_local_base b)),
      (''local_tip'', ILink (pb_local_tip b)),
      (''name_record'', option_to_ipld IString (pb_name_record b)),
      (''sphere'', IString (pb_sphere b))]"

definition push_body_from_ipld :: "ipld \<Rightarrow> push_body option" where
  "push_body_from_ipld i = do {
     c \<leftarrow> option_from_ipld cid_from_ipld (field ''counterpart_tip'' i);
     b \<leftarrow> option_from_ipld cid_from_ipld (field ''local_base'' i);
     t \<leftarrow> field ''local_tip'' i; t' \<leftarrow> cid_from_ipld t;
     n \<leftarrow> option_from_ipld string_from_ipld (field ''name_record'' i);
     s \<leftarrow> field ''sphere'' i; s' \<leftarrow> string_from_ipld s;
     Some \<lparr>pb_sphere = s', pb_local_base = b, pb_local_tip = t', pb_counterpart_tip = c, pb_name_record = n\<rparr> }"

type_synonym 'a push_result = "push_error + 'a"

text \<open>The \<open>?\<close> operator where the function returns a \<open>PushError\<close>.\<close>

definition psbind :: "('a result \<times> 's) \<Rightarrow> ('a \<Rightarrow> 's \<Rightarrow> 'b push_result \<times> 's) \<Rightarrow> 'b push_result \<times> 's" where
  "psbind rs f = (case rs of (Inl e, s) \<Rightarrow> (Inl (Internal e), s) | (Inr x, s) \<Rightarrow> f x s)"

definition pbind :: "('a push_result \<times> 's) \<Rightarrow> ('a \<Rightarrow> 's \<Rightarrow> 'b push_result \<times> 's) \<Rightarrow> 'b push_result \<times> 's" where
  "pbind rs f = (case rs of (Inl e, s) \<Rightarrow> (Inl e, s) | (Inr x, s) \<Rightarrow> f x s)"

text \<open>The first block of the stream is the body of the request; the rest are the pushed blocks.\<close>

definition take_body :: "codec_env \<Rightarrow> block_stream \<Rightarrow> (push_body \<times> block_stream) push_result" where
  "take_body E blocks_in =
     (case fst blocks_in of
        [] \<Rightarrow> (case snd blocks_in of Inl e \<Rightarrow> Inl (Internal e) | Inr _ \<Rightarrow> Inl UnexpectedBody)
      | (_, first_block) # rest \<Rightarrow>
          (case block_deserialize E DagCborCodec (\<lambda>i. of_option (Anyhow ''from_ipld'') (push_body_from_ipld i)) first_block of
             Inl e \<Rightarrow> Inl (Internal e)
           | Inr b \<Rightarrow> Inr (b, (rest, snd blocks_in))))"

definition verify_history :: "session \<Rightarrow> push_body \<Rightarrow> sphere_context \<Rightarrow> unit push_result" where
  "verify_history S b cx =
     (case context_version S cx of
        Inl e \<Rightarrow> Inl (Internal e)
      | Inr gateway_sphere_tip \<Rightarrow>
          if Some gateway_sphere_tip \<noteq> pb_counterpart_tip b then Inl Conflict
          else
            (case get_version (ss_codecs S) (pb_sphere b) (cx_db cx) of
               Inl e \<Rightarrow> Inl (Internal e)
             | Inr local_sphere_base \<Rightarrow>
                 (case (local_sphere_base, pb_local_base b) of
                    (Some mine, theirs) \<Rightarrow>
                      if theirs \<noteq> Some mine then Inl Conflict
                      else if pb_local_tip b = mine then Inl UpToDate
                      else Inr ()
                  | (None, Some _) \<Rightarrow> Inl MissingHistory
                  | (None, None) \<Rightarrow> Inr ())))"

fun hydrate_steps :: "world \<Rightarrow> (cid \<times> cid) list \<Rightarrow> blocks \<Rightarrow> unit result \<times> blocks" where
  "hydrate_steps W [] s = (Inr (), s)"
| "hydrate_steps W ((c, sphere) # steps) s = sbind (hydrate_with_cid W sphere s) (\<lambda>_ s. hydrate_steps W steps s)"

definition hydrate_history :: "session \<Rightarrow> cid \<Rightarrow> cid option \<Rightarrow> blocks \<Rightarrow> unit result \<times> blocks" where
  "hydrate_history S tip base s =
     (case history_stream (ss_fuel S) (ss_world S) s tip base of
        (items, Inl e) \<Rightarrow> (Inl e, s)
      | (items, Inr _) \<Rightarrow> hydrate_steps (ss_world S) (rev items) s)"

definition incorporate_history ::
    "session \<Rightarrow> gateway_scope \<Rightarrow> push_body \<Rightarrow> block_stream \<Rightarrow> sphere_context \<Rightarrow> unit push_result \<times> sphere_context" where
  "incorporate_history S scope b blocks_in cx =
     psbind (case put_block_stream (ss_codecs S) (texts (ss_world S)) blocks_in (cx_db cx) of
               (r, db) \<Rightarrow> (r, cx\<lparr>cx_db := db\<rparr>)) (\<lambda>_ cx.
       psbind (on_blocks (hydrate_history S (pb_local_tip b) (pb_local_base b)) cx) (\<lambda>_ cx.
         psbind (set_context_version S (scope_counterpart scope) (pb_local_tip b) cx) (\<lambda>_ cx.
           psbind (case link_raw S (scope_counterpart scope) (pb_local_tip b) (latest cx) of (r, h) \<Rightarrow> (r, cur_context h)) (\<lambda>_ cx.
             (Inr (), cx)))))"

text \<open>
  One change of a name. The history is walked backwards, and a name that was seen in a later
  version is left alone; the changes of one version are taken in their own order.
\<close>

type_synonym name_state = "string set \<times> string set \<times> (string, identity_ipld) vmap_mutation"

fun synchronize_op ::
    "(string \<Rightarrow> identity_ipld option result) \<Rightarrow> (string, identity_ipld) map_operation \<Rightarrow> name_state \<Rightarrow> unit result \<times> name_state" where
  "synchronize_op my_name (Add k v) (updated, removed, \<mu>) =
     (if k \<in> updated \<or> k \<in> removed then (Inr (), (updated, removed, \<mu>))
      else
        (case my_name k of
           Inl e \<Rightarrow> (Inl e, (updated, removed, \<mu>))
         | Inr my_value \<Rightarrow>
             (Inr (), (insert k updated, removed, if my_value \<noteq> Some v then mutation_set k v \<mu> else \<mu>))))"
| "synchronize_op my_name (Remove k) (updated, removed, \<mu>) =
     (if k \<in> updated then (Inr (), (updated, insert k removed, \<mu>))
      else (Inr (), (insert k updated, insert k removed, mutation_remove k \<mu>)))"

fun synchronize_ops ::
    "(string \<Rightarrow> identity_ipld option result) \<Rightarrow> (string, identity_ipld) map_operation list \<Rightarrow> name_state \<Rightarrow>
     unit result \<times> name_state" where
  "synchronize_ops my_name [] st = (Inr (), st)"
| "synchronize_ops my_name (op # ops) st = sbind (synchronize_op my_name op st) (\<lambda>_. synchronize_ops my_name ops)"

fun synchronize_steps ::
    "world \<Rightarrow> blocks \<Rightarrow> (string \<Rightarrow> identity_ipld option result) \<Rightarrow> (cid \<times> cid) list \<Rightarrow> name_state \<Rightarrow>
     unit result \<times> name_state" where
  "synchronize_steps W s my_name [] st = (Inr (), st)"
| "synchronize_steps W s my_name ((c, sphere) # steps) st =
     sbind (rbind (get_address_book W sphere s) (\<lambda>book.
              rbind (get_identities W book s) (\<lambda>ids. get_changelog (identities_ctx W) ids s)), st) (\<lambda>cl st.
       sbind (synchronize_ops my_name (changes cl) st) (\<lambda>_. synchronize_steps W s my_name steps))"

text \<open>The loop ends at the first error of the stream, which is dropped; a panic is not.\<close>

definition synchronize_names :: "session \<Rightarrow> push_body \<Rightarrow> sphere_context \<Rightarrow> unit push_result \<times> sphere_context" where
  "synchronize_names S b cx =
     (let W = ss_world S; s = cx_blocks cx in
      psbind (cursor_identities S (latest cx), cx) (\<lambda>my_names cx.
        case history_stream (ss_fuel S) W s (pb_local_tip b) (pb_local_base b) of
          (items, r) \<Rightarrow>
            (case synchronize_steps W s (\<lambda>k. vm_get (identities_ctx W) my_names k s) items
                    ({}, {}, sm_identities (cx_mutation cx)) of
               (r', _, _, \<mu>) \<Rightarrow>
                 psbind (rbind r' (\<lambda>_. on_error r (\<lambda>_. Inr ()) (Inr ())),
                         cx\<lparr>cx_mutation := (cx_mutation cx)\<lparr>sm_identities := \<mu>\<rparr>\<rparr>) (\<lambda>_ cx. (Inr (), cx)))))"

definition update_gateway_sphere :: "session \<Rightarrow> sphere_context \<Rightarrow> cid push_result \<times> sphere_context" where
  "update_gateway_sphere S cx =
     psbind (case cursor_save S None (latest cx) of (r, h) \<Rightarrow> (r, cur_context h)) (\<lambda>next_version cx. (Inr next_version, cx))"

text \<open>\<open>invoke\<close>, up to the answer \<open>Accepted\<close> with the new version of the gateway's sphere.\<close>

definition gateway_push ::
    "session \<Rightarrow> gateway_scope \<Rightarrow> block_stream \<Rightarrow> sphere_context \<Rightarrow> push_response push_result \<times> sphere_context" where
  "gateway_push S scope blocks_in cx =
     pbind (take_body (ss_codecs S) blocks_in, cx) (\<lambda>(b, pushed) cx.
       pbind (verify_history S b cx, cx) (\<lambda>_ cx.
         pbind (incorporate_history S scope b pushed cx) (\<lambda>_ cx.
           pbind (synchronize_names S b cx) (\<lambda>_ cx.
             pbind (update_gateway_sphere S cx) (\<lambda>next_version cx. (Inr (Accepted next_version), cx))))))"

section \<open>Fetch\<close>

text \<open>
  What a fetch streams: the roots of the CAR, none of them when there is nothing new, and the
  histories, each from a version back to another.
\<close>

definition generate_fetch ::
    "session \<Rightarrow> gateway_scope \<Rightarrow> cid option \<Rightarrow> sphere_context \<Rightarrow> (cid list \<times> (cid \<times> cid option) list) result" where
  "generate_fetch S scope since cx =
     rbind (context_version S cx) (\<lambda>latest_version.
       if since = Some latest_version then Inr ([], [])
       else
         rbind (recorded_version (ss_world S) (scope_counterpart scope) latest_version (cx_blocks cx)) (\<lambda>counterpart_version.
           case counterpart_version of
             None \<Rightarrow> Inr ([latest_version], [(latest_version, since)])
           | Some v \<Rightarrow>
               rbind (case since of
                        Some c \<Rightarrow> recorded_version (ss_world S) (scope_counterpart scope) c (cx_blocks cx)
                      | None \<Rightarrow> Inr None) (\<lambda>counterpart_since.
                 Inr ([latest_version], [(latest_version, since), (v, counterpart_since)]))))"

end
