(* ===== verification/Gateway_Rep.thy ===== *)
theory Gateway_Rep
  imports Gateway
begin

text \<open>
  What a push does to the abstract spheres: the pushed versions become complete on the gateway,
  and a new version of the gateway's sphere records the last of them.
\<close>

section \<open>The request\<close>

lemma push_body_serde [serde_simps]: "serde push_body_to_ipld push_body_from_ipld"
  by (simp add: serde_def push_body_to_ipld_def push_body_from_ipld_def string_less_simps)

lemma take_body_ok:
  assumes "codec_ok E" "encode E DagCborCodec (push_body_to_ipld b) = Some first_block"
  shows "take_body E ((c, first_block) # bl, r) = Inr (b, (bl, r))"
proof -
  have b: "plain (push_body_to_ipld b)" "push_body_from_ipld (push_body_to_ipld b) = Some b"
    using push_body_serde by (simp_all add: serde_def)
  moreover have "decode E DagCborCodec first_block = Some (push_body_to_ipld b)"
    using assms b(1) unfolding codec_ok_def by (metis option.inject)
  ultimately show ?thesis by (simp add: take_body_def block_deserialize_def block_decode_def)
qed

lemma psbind_simps [simp]: "psbind (Inl e, s) f = (Inl (Internal e), s)" "psbind (Inr x, s) f = f x s"
  by (simp_all add: psbind_def)

lemma pbind_simps [simp]: "pbind (Inl e, s) f = (Inl e, s)" "pbind (Inr x, s) f = f x s"
  by (simp_all add: pbind_def)

section \<open>Names\<close>

lemma synchronize_ops_ok:
  assumes "\<And>k. \<exists>v. my_name k = Inr v"
  shows "op_key ` set ops \<subseteq> K \<Longrightarrow> op_key ` set (mut_changes (snd (snd st))) \<subseteq> K \<Longrightarrow>
    \<exists>st'. synchronize_ops my_name ops st = (Inr (), st') \<and> op_key ` set (mut_changes (snd (snd st'))) \<subseteq> K \<and>
      mut_did (snd (snd st')) = mut_did (snd (snd st))"
proof (induction ops arbitrary: st)
  case (Cons op ops)
  obtain u r \<mu> where st: "st = (u, r, \<mu>)" by (cases st)
  obtain st1 where st1: "synchronize_op my_name op st = (Inr (), st1)" "op_key ` set (mut_changes (snd (snd st1))) \<subseteq> K"
      "mut_did (snd (snd st1)) = mut_did (snd (snd st))"
  proof (cases op)
    case (Add k v)
    obtain w where "my_name k = Inr w" using assms by blast
    with Add Cons.prems st show thesis
      by (intro that [of "snd (synchronize_op my_name op st)"]) (auto simp: mutation_set_def)
  next
    case (Remove k)
    with Cons.prems st show thesis
      by (intro that [of "snd (synchronize_op my_name op st)"]) (auto simp: mutation_remove_def)
  qed
  have "op_key ` set ops \<subseteq> K" using Cons.prems(1) by simp
  from Cons.IH [OF this st1(2)] st1(1,3) show ?case by auto
qed simp

text \<open>Of the changes of a name in one list, the first counts and the others are dropped.\<close>

abbreviation changes_of :: "'k \<Rightarrow> ('k, 'v) vmap_mutation \<Rightarrow> ('k, 'v) map_operation list" where
  "changes_of k \<mu> \<equiv> filter (\<lambda>x. op_key x = k) (mut_changes \<mu>)"

lemma synchronize_op_total:
  assumes "\<And>k. my_name k = Inr (names k)"
  obtains u r \<mu>' where "synchronize_op my_name x (updated, removed, \<mu>) = (Inr (), (u, r, \<mu>'))"
proof -
  have "fst (synchronize_op my_name x (updated, removed, \<mu>)) = Inr ()" by (cases x) (simp_all add: assms)
  then show thesis by (metis that prod.collapse)
qed

lemma synchronize_ops_seen:
  assumes "\<And>k. my_name k = Inr (names k)"
  shows "k \<in> updated \<Longrightarrow> \<exists>u r \<mu>'. synchronize_ops my_name ops (updated, removed, \<mu>) = (Inr (), (u, r, \<mu>')) \<and> changes_of k \<mu>' = changes_of k \<mu>"
proof (induction ops arbitrary: updated removed \<mu>)
  case (Cons x ops)
  obtain u1 r1 \<mu>1 where st: "synchronize_op my_name x (updated, removed, \<mu>) = (Inr (), (u1, r1, \<mu>1))"
    by (rule synchronize_op_total [OF assms])
  then have "k \<in> u1" "changes_of k \<mu>1 = changes_of k \<mu>"
    using Cons.prems assms by (cases x; auto simp: mutation_set_def mutation_remove_def split: if_splits)+
  with Cons.IH [of u1 r1 \<mu>1] st show ?case by auto
qed simp

lemma synchronize_ops_first:
  assumes "\<And>k. my_name k = Inr (names k)"
  shows "k \<notin> updated \<Longrightarrow> k \<notin> removed \<Longrightarrow> find (\<lambda>x. op_key x = k) ops = Some x \<Longrightarrow>
    \<exists>u r \<mu>'. synchronize_ops my_name ops (updated, removed, \<mu>) = (Inr (), (u, r, \<mu>')) \<and>
      changes_of k \<mu>' = changes_of k \<mu> @ (case x of Add _ v \<Rightarrow> if names k = Some v then [] else [x] | Remove _ \<Rightarrow> [x])"
proof (induction ops arbitrary: updated removed \<mu>)
  case (Cons y ops)
  show ?case
  proof (cases "op_key y = k")
    case True
    then have y: "y = x" using Cons.prems(3) by simp
    obtain r1 \<mu>1 where st: "synchronize_op my_name y (updated, removed, \<mu>) = (Inr (), (insert k updated, r1, \<mu>1))"
        "changes_of k \<mu>1 = changes_of k \<mu> @ (case x of Add _ v \<Rightarrow> if names k = Some v then [] else [x] | Remove _ \<Rightarrow> [x])"
      using True y Cons.prems(1,2) assms [of k] by (cases x) (auto simp: mutation_set_def mutation_remove_def)
    with synchronize_ops_seen [where names = names, OF assms, of k "insert k updated" ops r1 \<mu>1] show ?thesis by auto
  next
    case False
    have f: "find (\<lambda>x. op_key x = k) ops = Some x" using Cons.prems(3) False by simp
    obtain u1 r1 \<mu>1 where st: "synchronize_op my_name y (updated, removed, \<mu>) = (Inr (), (u1, r1, \<mu>1))"
      by (rule synchronize_op_total [OF assms])
    then have "k \<notin> u1" "k \<notin> r1" "changes_of k \<mu>1 = changes_of k \<mu>"
      using False Cons.prems(1,2) assms by (cases y; auto simp: mutation_set_def mutation_remove_def split: if_splits)+
    with Cons.IH [of u1 r1 \<mu>1] f st show ?thesis by auto
  qed
qed simp

abbreviation read_names :: "world \<Rightarrow> cid \<Rightarrow> blocks \<Rightarrow> (string, identity_ipld) map_operation changelog result" where
  "read_names W c s \<equiv>
     rbind (get_address_book W c s) (\<lambda>book. rbind (get_identities W book s) (\<lambda>ids. get_changelog (identities_ctx W) ids s))"

lemma synchronize_steps_ok:
  assumes "\<And>k. \<exists>v. my_name k = Inr v"
  shows "(\<And>x. x \<in> set items \<Longrightarrow> \<exists>cl. read_names W (snd x) s = Inr cl \<and> op_key ` set (changes cl) \<subseteq> K) \<Longrightarrow>
    op_key ` set (mut_changes (snd (snd st))) \<subseteq> K \<Longrightarrow>
    \<exists>st'. synchronize_steps W s my_name items st = (Inr (), st') \<and> op_key ` set (mut_changes (snd (snd st'))) \<subseteq> K \<and>
      mut_did (snd (snd st')) = mut_did (snd (snd st))"
proof (induction items arbitrary: st)
  case (Cons x items)
  have "\<exists>cl. read_names W (snd x) s = Inr cl \<and> op_key ` set (changes cl) \<subseteq> K" by (rule Cons.prems(1)) simp
  then obtain cl where cl: "read_names W (snd x) s = Inr cl" "op_key ` set (changes cl) \<subseteq> K" by (elim exE conjE)
  obtain st1 where st1: "synchronize_ops my_name (changes cl) st = (Inr (), st1)"
      "op_key ` set (mut_changes (snd (snd st1))) \<subseteq> K" "mut_did (snd (snd st1)) = mut_did (snd (snd st))"
    using synchronize_ops_ok [where my_name = my_name, OF assms cl(2) Cons.prems(2)] by (elim exE conjE)
  have "\<exists>st'. synchronize_steps W s my_name items st1 = (Inr (), st') \<and> op_key ` set (mut_changes (snd (snd st'))) \<subseteq> K \<and>
      mut_did (snd (snd st')) = mut_did (snd (snd st1))"
    by (rule Cons.IH [OF _ st1(2)]) (rule Cons.prems(1), simp)
  then obtain st' where st': "synchronize_steps W s my_name items st1 = (Inr (), st')" "op_key ` set (mut_changes (snd (snd st'))) \<subseteq> K"
      "mut_did (snd (snd st')) = mut_did (snd (snd st1))"
    by (elim exE conjE)
  obtain c sphere where x: "x = (c, sphere)" by (cases x)
  have "synchronize_steps W s my_name (x # items) st = (Inr (), st')"
    unfolding x synchronize_steps.simps cl(1) [unfolded x snd_conv] sbind_simps st1(1) by (rule st'(1))
  with st' st1(3) show ?case by (intro exI [of _ st']) simp
qed simp

text \<open>The versions of a series can be read for the names they changed.\<close>

lemma names_sparse:
  assumes "sphere_ok W" "value_at (codecs W) memo_to_ipld s c m" "body_sparse W s (body m) \<sigma>"
  shows "read_names W c s = Inr (snd (st_identities \<sigma>))"
proof -
  note env = sphere_ok_env [OF assms(1)]
  obtain sp book auth where B: "value_at (codecs W) sphere_to_ipld s (body m) sp"
      "value_at (codecs W) address_book_to_ipld s (address_book sp) book"
      "vm_sparse (identities_ctx W) s (identities book) (fst (st_identities \<sigma>)) (snd (st_identities \<sigma>))"
    using assms(3) unfolding body_sparse_def body_is_def by blast
  have "to_memo W c s = Inr m" using load_value_ok [OF env memo_serde assms(2)] by (simp add: to_memo_def)
  then show ?thesis
    using load_value_ok [OF env sphere_serde B(1)] load_value_ok [OF env address_book_serde B(2)]
      vm_sparse_changelog [OF ctx_ok(2) [OF assms(1)] B(3)]
    by (simp add: get_address_book_def get_identities_def to_body_def)
qed

lemma series_names:
  assumes "sphere_ok W"
  shows "revisions W s KS KC (p, mp, \<sigma>p) rs \<Longrightarrow> op_key ` set (changes (snd (st_identities \<sigma>p))) \<subseteq> KS \<Longrightarrow> r \<in> set rs \<Longrightarrow>
    \<exists>cl. read_names W (fst r) s = Inr cl \<and> op_key ` set (changes cl) \<subseteq> KS"
proof (induction rs arbitrary: p mp \<sigma>p)
  case (Cons q rs)
  obtain c m \<mu> where q: "q = (c, m, \<mu>)" by (cases q)
  have R: "value_at (codecs W) memo_to_ipld s c m" "body_sparse W s (body m) (step_sphere \<mu> \<sigma>p)" "mutation_in KS KC \<mu>"
      "revisions W s KS KC (c, m, step_sphere \<mu> \<sigma>p) rs"
    using Cons.prems(1) q by auto
  have k: "op_key ` set (changes (snd (st_identities (step_sphere \<mu> \<sigma>p)))) \<subseteq> KS"
    using R(3) Cons.prems(2) by (auto simp: step_sphere_def step_version_def mutation_in_def)
  show ?case
  proof (cases "r = q")
    case True
    then have "read_names W (fst r) s = Inr (snd (st_identities (step_sphere \<mu> \<sigma>p)))"
      using names_sparse [OF assms R(1,2)] q by (simp only: fst_conv)
    with k show ?thesis by blast
  next
    case False
    with Cons.prems(3) show ?thesis by (intro Cons.IH [OF R(4) k]) simp
  qed
qed simp

section \<open>Taking in a history\<close>

lemma hydrate_steps_all: "hydrate_steps W (map (\<lambda>r. (fst r, fst r)) rs) = hydrate_all W (map fst rs)"
proof (induction rs)
  case (Cons r rs)
  then show ?case by (intro ext) simp
qed auto

lemma gateway_push_ok:
  fixes S cx bl
  defines "W \<equiv> ss_world S" and "s \<equiv> cx_blocks cx ++ map_of (rev bl)" and "E \<equiv> ss_codecs S"
  assumes ok: "session_ok S KS KC" "context_at S KS KC (g, mg, \<sigma>g) cx" "cx_access cx = Some ReadWrite" "delivers S bl"
    and request: "encode E DagCborCodec (push_body_to_ipld b) = Some first_block"
      "pb_counterpart_tip b = Some g" "pb_local_base b = Some p" "pb_local_tip b = fst (last rs)"
      "get_version E (pb_sphere b) (cx_db cx) = Inr (Some p)"
    and pushed: "base_at W s KS KC (p, mp, \<sigma>p)" "lineage (codecs W) s ((p, mp) # hs)" "revisions W s KS KC (p, mp, \<sigma>p) rs"
      "rs \<noteq> []" "length rs < ss_fuel S" "op_key ` set (changes (snd (st_identities \<sigma>p))) \<subseteq> KS"
    and scope: "scope_counterpart scope \<noteq> []" "scope_counterpart scope \<in> KS" "scope_counterpart scope \<noteq> cx_identity cx"
  obtains c m \<sigma> cx' where "gateway_push S scope ((c0, first_block) # bl, Inr ()) cx = (Inr (Accepted c), cx')"
    "context_at S KS KC (c, m, \<sigma>) cx'" "parent m = Some g" "fst (st_content \<sigma>) (scope_counterpart scope) = Some (fst (last rs))"
    "get_version E (scope_counterpart scope) (cx_db cx') = Inr (Some (fst (last rs)))"
    "base_at W (cx_blocks cx') KS KC (last_version (p, mp, \<sigma>p) rs)" "s \<subseteq>\<^sub>m cx_blocks cx'"
proof -
  note W = session_okD [OF ok(1), folded W_def]
  have env: "env_ok (ss_codecs S)" using W(4) by (simp add: W_def)
  let ?tip = "fst (last rs)" and ?cp = "scope_counterpart scope" and ?W = "ss_world S"
  have st: "store_ok (ss_codecs S) (cx_blocks cx)" using ok(2) by (simp add: context_at_def)
  have tb: "take_body (ss_codecs S) ((c0, first_block) # bl, Inr ()) = Inr (b, (bl, Inr ()))"
    using env request(1) by (intro take_body_ok) (simp_all add: env_ok_def E_def)
  have ne: "p \<noteq> ?tip"
    using lineage_distinct [OF W(4) lineage_revisions [OF pushed(2,3)]] pushed(4)
    by (auto simp: rev_map [symmetric] image_image case_prod_beta)
  have vh: "verify_history S b cx = Inr ()"
    using context_at_version [OF ok(2)] request(2-5) ne by (simp add: verify_history_def E_def)
  obtain lk where put: "put_block_stream (ss_codecs S) (texts ?W) (bl, Inr ()) (cx_db cx) =
      (Inr (), (cx_db cx)\<lparr>block_store := s, link_store := lk\<rparr>)" "cx_blocks cx \<subseteq>\<^sub>m s" "store_ok (codecs W) s"
    using delivers_put [OF env ok(4) st, of "texts ?W"] unfolding s_def W_def by blast
  let ?cx1 = "cx\<lparr>cx_db := (cx_db cx)\<lparr>block_store := s, link_store := lk\<rparr>\<rparr>"
  obtain s1 where s1: "hydrate_all W (map fst rs) s = (Inr (), s1)" "s \<subseteq>\<^sub>m s1" "store_ok (codecs W) s1"
      "base_at W s1 KS KC (last_version (p, mp, \<sigma>p) rs)"
    using hydrate_all_ok [OF W(1,3) put(3) pushed(1,3)] by blast
  let ?cx2 = "cx\<lparr>cx_db := (cx_db cx)\<lparr>block_store := s1, link_store := lk\<rparr>\<rparr>"
  have hy: "on_blocks (hydrate_history S ?tip (Some p)) ?cx1 = (Inr (), ?cx2)"
    using s1(1) history_revisions [OF W(4) pushed(2-5)]
    by (simp add: on_blocks_def hydrate_history_def W_def rev_map [symmetric] hydrate_steps_all)
  obtain db where db: "set_context_version S ?cp ?tip ?cx2 = (Inr (), ?cx2\<lparr>cx_db := db\<rparr>)" "block_store db = s1"
      "\<And>d'. get_version (ss_codecs S) d' db = (if d' = ?cp then Inr (Some ?tip) else get_version (ss_codecs S) d' (cx_db ?cx2))"
    by (rule set_context_version_ok [OF env, of ?cp ?tip ?cx2]) simp
  let ?\<mu>1 = "(cx_mutation cx)\<lparr>sm_content := mutation_set ?cp ?tip (sm_content (cx_mutation cx))\<rparr>"
  let ?cx3 = "cx\<lparr>cx_db := db, cx_mutation := ?\<mu>1\<rparr>"
  have lr: "link_raw S ?cp ?tip (latest (cx\<lparr>cx_db := db\<rparr>)) = (Inr (), latest ?cx3)"
    using ok(3) scope(1) by (simp add: link_raw_def latest_def validate_slug_def mutate_def)
  have inc: "incorporate_history S scope b (bl, Inr ()) cx = (Inr (), ?cx3)"
    using put(1) hy db(1) lr request(3,4) by (simp add: incorporate_history_def latest_def)
  have "context_at S KS KC (g, mg, \<sigma>g) (cx\<lparr>cx_db := db\<rparr>)"
  proof -
    have le: "cx_blocks cx \<subseteq>\<^sub>m s1" by (rule map_le_trans [OF put(2) s1(2)])
    have "get_version (ss_codecs S) (cx_identity cx) db = get_version (ss_codecs S) (cx_identity cx) (cx_db cx)"
      using db(3) scope(3) by (simp add: get_version_def)
    then show ?thesis
      using ok(2) s1(3) db(2) base_at_mono [OF _ le] auth_ok_mono [OF _ le] by (auto simp: context_at_def W_def)
  qed
  then have at3: "context_at S KS KC (g, mg, \<sigma>g) ?cx3"
    using scope(2) by (auto simp: context_at_def mutation_in_def mutation_set_def authored_def)
  note st3 = s1(3)
  have B3: "base_at W s1 KS KC (g, mg, \<sigma>g)" using at3 db(2) by (simp add: context_at_def W_def)
  obtain book ids where ids: "get_address_book W g s1 = Inr book" "get_identities W book s1 = Inr ids"
      "\<And>k. vm_get (identities_ctx W) ids k s1 = Inr (fst (st_identities \<sigma>g) k)"
    by (rule identities_reads [OF W(1) st3 B3]) blast
  have ci: "cursor_identities S (latest ?cx3) = Inr ids"
    using context_at_version [OF at3] ids(1,2) db(2)
    by (simp add: cursor_identities_def cursor_version_def latest_def W_def)
  have rd: "\<exists>cl. read_names W (snd x) s1 = Inr cl \<and> op_key ` set (changes cl) \<subseteq> KS"
    if "x \<in> set (rev (map (\<lambda>r. (fst r, fst r)) rs))" for x
    using that series_names [OF W(1) revisions_mono [OF pushed(3) s1(2)] pushed(6)] by auto
  have my: "\<exists>v. vm_get (identities_ctx W) ids k s1 = Inr v" for k using ids(3) by blast
  have k0: "op_key ` set (mut_changes (sm_identities (cx_mutation cx))) \<subseteq> KS"
    using ok(2) by (simp add: context_at_def mutation_in_def)
  let ?my = "\<lambda>k. vm_get (identities_ctx W) ids k s1" and ?items = "rev (map (\<lambda>r. (fst r, fst r)) rs)"
    and ?st = "({}, {}, sm_identities (cx_mutation cx)) :: name_state"
  have "\<exists>st'. synchronize_steps W s1 ?my ?items ?st = (Inr (), st') \<and> op_key ` set (mut_changes (snd (snd st'))) \<subseteq> KS \<and>
      mut_did (snd (snd st')) = mut_did (snd (snd ?st))"
    by (rule synchronize_steps_ok [OF my rd]) (assumption, simp only: snd_conv k0)
  then obtain st' where st': "synchronize_steps W s1 ?my ?items ?st = (Inr (), st')"
      "op_key ` set (mut_changes (snd (snd st'))) \<subseteq> KS" "mut_did (snd (snd st')) = mut_did (snd (snd ?st))"
    by (elim exE conjE)
  obtain u r \<mu> where st'_eq: "st' = (u, r, \<mu>)" by (cases st')
  note \<mu> = st' [unfolded st'_eq snd_conv]
  let ?\<mu>2 = "?\<mu>1\<lparr>sm_identities := \<mu>\<rparr>"
  let ?cx4 = "?cx3\<lparr>cx_mutation := ?\<mu>2\<rparr>"
  have hs: "history_stream (ss_fuel S) ?W s1 ?tip (Some p) = (rev (map (\<lambda>r. (fst r, fst r)) rs), Inr ())"
    using history_revisions [OF W(4) lineage_mono [OF pushed(2) s1(2)] revisions_mono [OF pushed(3) s1(2)] pushed(4,5)]
    by (simp add: W_def)
  have sn: "synchronize_names S b ?cx3 = (Inr (), ?cx4)"
    using ci hs \<mu>(1) db(2) request(3,4) by (simp add: synchronize_names_def W_def Let_def)
  have at4: "context_at S KS KC (g, mg, \<sigma>g) ?cx4"
    by (rule context_at_mutate [OF at3]) (use at3 \<mu>(2,3) in \<open>auto simp: context_at_def mutation_in_def authored_def\<close>)
  have "\<not> mutation_is_empty (cx_mutation ?cx4)" by (simp add: mutation_is_empty_def mutation_set_def)
  then obtain c m cx' where sv: "context_save S None ?cx4 = (Inr c, cx')"
      "context_at S KS KC (c, m, step_sphere (cx_mutation ?cx4) \<sigma>g) cx'" "extends S ?cx4 cx'"
      "revisions (ss_world S) (cx_blocks cx') KS KC (g, mg, \<sigma>g) [(c, m, cx_mutation ?cx4)]"
    by (rule context_save_ok [OF ok(1) at4])
  have up: "update_gateway_sphere S ?cx4 = (Inr c, cx')"
    using sv(1) by (simp add: update_gateway_sphere_def cursor_save_def in_context_def latest_def)
  have push: "gateway_push S scope ((c0, first_block) # bl, Inr ()) cx = (Inr (Accepted c), cx')"
    by (simp only: gateway_push_def tb pbind_simps prod.case vh inc sn up)
  show thesis
  proof (rule that [OF push sv(2)])
    show "parent m = Some g" using sv(4) by simp
    show "fst (st_content (step_sphere (cx_mutation ?cx4) \<sigma>g)) ?cp = Some ?tip"
      by (simp add: step_sphere_def step_version_def mutation_set_def)
    have le: "s1 \<subseteq>\<^sub>m cx_blocks cx'" using sv(3) db(2) by (simp add: extends_def)
    show "base_at W (cx_blocks cx') KS KC (last_version (p, mp, \<sigma>p) rs)" by (rule base_at_mono [OF s1(4) le])
    show "s \<subseteq>\<^sub>m cx_blocks cx'" by (rule map_le_trans [OF s1(2) le])
    show "get_version E ?cp (cx_db cx') = Inr (Some ?tip)"
      using sv(3) scope(3) db(3) by (simp add: extends_def E_def)
  qed
qed

end
