(* ===== verification/Gateway_Spec.thy ===== *)
theory Gateway_Spec
  imports Gateway_Rep Context_Spec
begin

text \<open>
  The properties of the gateway: a push from a client that is up to date is taken in and
  recorded, a push that names another sphere escapes the check for conflicts and replaces the
  client's version, and of several changes of a name in one version the first is taken over.
\<close>

text \<open>C8: a push that builds on the version the gateway has, from a client that has seen the latest
  version of the gateway's sphere, is accepted. The last of the pushed versions is then
  complete on the gateway and on record for the client's sphere, and a new version of the
  gateway's sphere, which follows the one the client had seen, maps the client's sphere to it.\<close>

theorem gateway_takes_push:
  assumes "session_ok S KS KC" "context_at S KS KC (g, mg, \<sigma>g) cx" "cx_access cx = Some ReadWrite" "delivers S bl"
    "encode (ss_codecs S) DagCborCodec (push_body_to_ipld b) = Some first_block"
    "pb_counterpart_tip b = Some g" "pb_local_base b = Some p" "pb_local_tip b = fst (last rs)"
    "get_version (ss_codecs S) (pb_sphere b) (cx_db cx) = Inr (Some p)" "s = cx_blocks cx ++ map_of (rev bl)"
    "base_at (ss_world S) s KS KC (p, mp, \<sigma>p)" "lineage (ss_codecs S) s ((p, mp) # hs)"
    "revisions (ss_world S) s KS KC (p, mp, \<sigma>p) rs" "rs \<noteq> []" "length rs < ss_fuel S"
    "op_key ` set (changes (snd (st_identities \<sigma>p))) \<subseteq> KS"
    "scope_counterpart scope \<noteq> []" "scope_counterpart scope \<in> KS" "scope_counterpart scope \<noteq> cx_identity cx"
  shows "\<exists>c m \<sigma> cx'. gateway_push S scope ((c0, first_block) # bl, Inr ()) cx = (Inr (Accepted c), cx') \<and>
    context_at S KS KC (c, m, \<sigma>) cx' \<and> parent m = Some g \<and>
    fst (st_content \<sigma>) (scope_counterpart scope) = Some (fst (last rs)) \<and>
    get_version (ss_codecs S) (scope_counterpart scope) (cx_db cx') = Inr (Some (fst (last rs))) \<and>
    base_at (ss_world S) (cx_blocks cx') KS KC (last_version (p, mp, \<sigma>p) rs)"
proof -
  obtain c m \<sigma> cx' where "gateway_push S scope ((c0, first_block) # bl, Inr ()) cx = (Inr (Accepted c), cx')"
    "context_at S KS KC (c, m, \<sigma>) cx'" "parent m = Some g" "fst (st_content \<sigma>) (scope_counterpart scope) = Some (fst (last rs))"
    "get_version (ss_codecs S) (scope_counterpart scope) (cx_db cx') = Inr (Some (fst (last rs)))"
    "base_at (ss_world S) (cx_blocks cx') KS KC (last_version (p, mp, \<sigma>p) rs)"
    by (rule gateway_push_ok [OF assms(1-9) assms(11-) [unfolded assms(10)]])
  then show ?thesis by blast
qed

theorem gateway_takes_push_witness:
  "\<exists>S scope blocks_in cx c cx' n. gateway_push S scope blocks_in cx = (Inr (Accepted c), cx') \<and>
     scope_counterpart scope = ex_owner \<and> get_version ex_env ex_owner (cx_db cx') = Inr (Some n) \<and>
     get_version ex_env ex_owner (cx_db cx) \<noteq> Inr (Some n)"
proof -
  obtain g mg p mp n mn gg mgg b mb s where s: "store_ok ex_env s" "lineage ex_env s [(p, mp), (g, mg)]"
      "base_at ex_world s ex_slugs {} (p, mp, ex_first)"
      "revisions ex_world s ex_slugs {} (p, mp, ex_first) [(n, mn, ex_edit ''b'')]"
      "base_at ex_world s ex_slugs {} (b, mb, ex_counter p)"
    by (rule ex_counterpart)
  let ?S = "ex_session ex_no_gateway" and ?rs = "[(n, mn, ex_edit ''b'')]"
  let ?b = "\<lparr>pb_sphere = ex_owner, pb_local_base = Some p, pb_local_tip = n, pb_counterpart_tip = Some b, pb_name_record = None\<rparr>"
  let ?scope = "\<lparr>scope_counterpart = ex_owner, scope_gateway = ex_did ''g'', scope_gateway_identity = ex_did ''s''\<rparr>"
  obtain db where db: "block_store db = s" "context_at ?S ex_slugs {} (b, mb, ex_counter p) ((ex_bare (ex_did ''g'') ''s'' s)\<lparr>cx_db := db\<rparr>)"
    by (rule ex_context [OF s(1,5)])
  let ?cx0 = "(ex_bare (ex_did ''g'') ''s'' s)\<lparr>cx_db := db, cx_access := Some ReadWrite\<rparr>"
  have ok: "env_ok (ss_codecs ?S)" using ex_env_ok by simp
  have gi: "cx_identity ?cx0 = ex_did ''g''" "ex_owner \<noteq> ex_did ''g''" by (simp_all add: ex_bare_def ex_did_def)
  obtain db' where db': "block_store db' = cx_blocks ?cx0"
      "\<And>d. get_version (ss_codecs ?S) d db' = (if d = ex_owner then Inr (Some p) else get_version (ss_codecs ?S) d (cx_db ?cx0))"
    by (rule set_context_version_ok [OF ok, of ex_owner p ?cx0]) simp
  let ?cx = "?cx0\<lparr>cx_db := db'\<rparr>"
  have at: "context_at ?S ex_slugs {} (b, mb, ex_counter p) ?cx"
    using db db' gi by (auto simp: context_at_def)
  have "codec_ok ex_env" "plain (push_body_to_ipld ?b)" using ex_env_ok push_body_serde by (simp_all add: env_ok_def serde_def)
  then obtain block where block: "encode (ss_codecs ?S) DagCborCodec (push_body_to_ipld ?b) = Some block"
    by (auto simp: codec_ok_def)
  have L: "lineage (ss_codecs ?S) (cx_blocks ?cx ++ map_of (rev [])) ((p, mp) # [(g, mg)])" using s(2) db(1) db'(1) by simp
  have K: "op_key ` set (changes (snd (st_identities ex_first))) \<subseteq> ex_slugs"
    by (simp add: step_sphere_def step_version_def ex_put_def sphere_mutation_new_def vmap_mutation_new_def empty_sphere_def changelog_default_def)
  have "n \<noteq> p"
    using lineage_distinct [OF ex_env_ok, of s "[(n, mn), (p, mp), (g, mg)]"] s(2,4) by auto
  moreover have "\<exists>c m \<sigma> cx'. gateway_push ?S ?scope ((ex_entry, block) # [], Inr ()) ?cx = (Inr (Accepted c), cx') \<and>
      context_at ?S ex_slugs {} (c, m, \<sigma>) cx' \<and> parent m = Some b \<and>
      fst (st_content \<sigma>) (scope_counterpart ?scope) = Some (fst (last ?rs)) \<and>
      get_version (ss_codecs ?S) (scope_counterpart ?scope) (cx_db cx') = Inr (Some (fst (last ?rs))) \<and>
      base_at (ss_world ?S) (cx_blocks cx') ex_slugs {} (last_version (p, mp, ex_first) ?rs)"
    by (rule gateway_takes_push [OF ex_session_ok at _ _ block _ _ _ _ refl _ L _ _ _ K])
      (use s db(1) db' gi in \<open>simp_all add: delivers_def ex_did_def\<close>)
  ultimately show ?thesis using db'(2) [of ex_owner] by fastforce
qed

text \<open>C38: the check for conflicts can be sidestepped. A push whose base is not the version that the
  gateway has for the client's sphere is refused. The same push, with a body that names another
  sphere for which the gateway does have the base, is accepted: the version on record for the
  client's sphere is replaced by one of whose history it is no part.\<close>

theorem push_overwrites_counterpart:
  assumes "session_ok S KS KC" "context_at S KS KC (g, mg, \<sigma>g) cx" "cx_access cx = Some ReadWrite" "delivers S bl"
    "encode (ss_codecs S) DagCborCodec (push_body_to_ipld b) = Some first_block"
    "encode (ss_codecs S) DagCborCodec (push_body_to_ipld (b\<lparr>pb_sphere := scope_counterpart scope\<rparr>)) = Some honest_block"
    "pb_counterpart_tip b = Some g" "pb_local_base b = Some p" "pb_local_tip b = fst (last rs)"
    "get_version (ss_codecs S) (pb_sphere b) (cx_db cx) = Inr (Some p)"
    "get_version (ss_codecs S) (scope_counterpart scope) (cx_db cx) = Inr (Some v)"
    "v \<notin> fst ` set rs" "v \<notin> fst ` set ((p, mp) # hs)" "s = cx_blocks cx ++ map_of (rev bl)"
    "base_at (ss_world S) s KS KC (p, mp, \<sigma>p)" "lineage (ss_codecs S) s ((p, mp) # hs)"
    "revisions (ss_world S) s KS KC (p, mp, \<sigma>p) rs" "rs \<noteq> []" "length rs < ss_fuel S"
    "op_key ` set (changes (snd (st_identities \<sigma>p))) \<subseteq> KS"
    "scope_counterpart scope \<noteq> []" "scope_counterpart scope \<in> KS" "scope_counterpart scope \<noteq> cx_identity cx"
  shows "gateway_push S scope ((c0, honest_block) # bl, Inr ()) cx = (Inl Conflict, cx) \<and>
    (\<exists>c cx'. gateway_push S scope ((c0, first_block) # bl, Inr ()) cx = (Inr (Accepted c), cx') \<and>
      get_version (ss_codecs S) (scope_counterpart scope) (cx_db cx') = Inr (Some (fst (last rs))) \<and>
      (\<exists>vs. lineage (ss_codecs S) (cx_blocks cx') vs \<and> fst (hd vs) = fst (last rs) \<and> v \<notin> fst ` set vs))"
proof
  have env: "env_ok (ss_codecs S)" using session_okD(4) [OF assms(1)] .
  let ?honest = "b\<lparr>pb_sphere := scope_counterpart scope\<rparr>"
  have "take_body (ss_codecs S) ((c0, honest_block) # bl, Inr ()) = Inr (?honest, (bl, Inr ()))"
    using env assms(6) by (intro take_body_ok) (simp_all add: env_ok_def)
  moreover have "verify_history S ?honest cx = Inl Conflict"
    using context_at_version [OF assms(2)] assms(7,8,11,13) by (auto simp: verify_history_def)
  ultimately show "gateway_push S scope ((c0, honest_block) # bl, Inr ()) cx = (Inl Conflict, cx)"
    by (simp add: gateway_push_def)
  obtain c cx' where push: "gateway_push S scope ((c0, first_block) # bl, Inr ()) cx = (Inr (Accepted c), cx')"
      "get_version (ss_codecs S) (scope_counterpart scope) (cx_db cx') = Inr (Some (fst (last rs)))"
      "s \<subseteq>\<^sub>m cx_blocks cx'"
    by (rule gateway_push_ok [OF assms(1-5,7-10) assms(15-) [unfolded assms(14)]]) (simp add: assms(14))
  let ?vs = "rev (versions_of rs) @ (p, mp) # hs"
  have "lineage (codecs (ss_world S)) s ?vs" by (rule lineage_revisions [OF _ assms(17)]) (use assms(16) in simp)
  then have "lineage (ss_codecs S) (cx_blocks cx') ?vs" using lineage_mono [OF _ push(3)] by simp
  moreover have "fst (hd ?vs) = fst (last rs)" using assms(18) by (simp add: hd_append hd_rev last_map case_prod_beta)
  moreover have "v \<notin> fst ` set ?vs" using assms(12,13) by (auto simp: image_iff)
  ultimately show "\<exists>c cx'. gateway_push S scope ((c0, first_block) # bl, Inr ()) cx = (Inr (Accepted c), cx') \<and>
      get_version (ss_codecs S) (scope_counterpart scope) (cx_db cx') = Inr (Some (fst (last rs))) \<and>
      (\<exists>vs. lineage (ss_codecs S) (cx_blocks cx') vs \<and> fst (hd vs) = fst (last rs) \<and> v \<notin> fst ` set vs)"
    using push by blast
qed

theorem push_overwrites_counterpart_witness:
  "\<exists>S scope honest_in misnamed_in cx c cx' n r. scope_counterpart scope = ex_owner \<and> n \<noteq> r \<and>
     get_version ex_env ex_owner (cx_db cx) = Inr (Some r) \<and> gateway_push S scope honest_in cx = (Inl Conflict, cx) \<and>
     gateway_push S scope misnamed_in cx = (Inr (Accepted c), cx') \<and> get_version ex_env ex_owner (cx_db cx') = Inr (Some n)"
proof -
  obtain g mg p mp n mn r mr gg mgg b mb s where s: "store_ok ex_env s" "lineage ex_env s [(p, mp), (g, mg)]"
      "base_at ex_world s ex_slugs {} (p, mp, ex_first)"
      "revisions ex_world s ex_slugs {} (p, mp, ex_first) [(n, mn, ex_edit ''b'')]"
      "revisions ex_world s ex_slugs {} (p, mp, ex_first) [(r, mr, ex_edit ''c'')]"
      "base_at ex_world s ex_slugs {} (b, mb, ex_counter p)"
    by (rule ex_counterpart)
  let ?S = "ex_session ex_no_gateway" and ?rs = "[(n, mn, ex_edit ''b'')]" and ?o = "ex_did ''o''"
  let ?b = "\<lparr>pb_sphere = ?o, pb_local_base = Some p, pb_local_tip = n, pb_counterpart_tip = Some b, pb_name_record = None\<rparr>"
  let ?scope = "\<lparr>scope_counterpart = ex_owner, scope_gateway = ex_did ''g'', scope_gateway_identity = ex_did ''s''\<rparr>"
  obtain db where db: "block_store db = s" "context_at ?S ex_slugs {} (b, mb, ex_counter p) ((ex_bare (ex_did ''g'') ''s'' s)\<lparr>cx_db := db\<rparr>)"
    by (rule ex_context [OF s(1,6)])
  let ?cx0 = "(ex_bare (ex_did ''g'') ''s'' s)\<lparr>cx_db := db, cx_access := Some ReadWrite\<rparr>"
  have ok: "env_ok (ss_codecs ?S)" using ex_env_ok by simp
  have gi: "cx_identity ?cx0 = ex_did ''g''" "ex_owner \<noteq> ex_did ''g''" "?o \<noteq> ex_did ''g''" "?o \<noteq> ex_owner"
    by (simp_all add: ex_bare_def ex_did_def)
  obtain db1 where db1: "block_store db1 = cx_blocks ?cx0"
      "\<And>d. get_version (ss_codecs ?S) d db1 = (if d = ex_owner then Inr (Some r) else get_version (ss_codecs ?S) d (cx_db ?cx0))"
    by (rule set_context_version_ok [OF ok, of ex_owner r ?cx0]) simp
  let ?cx1 = "?cx0\<lparr>cx_db := db1\<rparr>"
  obtain db' where db': "block_store db' = cx_blocks ?cx1"
      "\<And>d. get_version (ss_codecs ?S) d db' = (if d = ?o then Inr (Some p) else get_version (ss_codecs ?S) d (cx_db ?cx1))"
    by (rule set_context_version_ok [OF ok, of ?o p ?cx1]) simp
  let ?cx = "?cx0\<lparr>cx_db := db'\<rparr>"
  have at: "context_at ?S ex_slugs {} (b, mb, ex_counter p) ?cx"
    using db db1 db' gi by (auto simp: context_at_def)
  have enc: "\<exists>block. encode (ss_codecs ?S) DagCborCodec (push_body_to_ipld x) = Some block" for x
    using ex_env_ok push_body_serde by (auto simp: env_ok_def serde_def codec_ok_def)
  obtain block where block: "encode (ss_codecs ?S) DagCborCodec (push_body_to_ipld ?b) = Some block" using enc by blast
  obtain honest where honest: "encode (ss_codecs ?S) DagCborCodec (push_body_to_ipld (?b\<lparr>pb_sphere := scope_counterpart ?scope\<rparr>)) = Some honest"
    using enc by blast
  have L: "lineage (ss_codecs ?S) (cx_blocks ?cx ++ map_of (rev [])) ((p, mp) # [(g, mg)])" using s(2) db(1) db1(1) db'(1) by simp
  have K: "op_key ` set (changes (snd (st_identities ex_first))) \<subseteq> ex_slugs"
    by (simp add: step_sphere_def step_version_def ex_put_def sphere_mutation_new_def vmap_mutation_new_def empty_sphere_def changelog_default_def)
  have nr: "n \<noteq> r" by (rule ex_versions_differ [OF s(1,3,4,5)])
  have rp: "r \<notin> fst ` set ((p, mp) # [(g, mg)])"
    using lineage_distinct [OF ex_env_ok, of s "[(r, mr), (p, mp), (g, mg)]"] s(2,5) by auto
  have V: "get_version (ss_codecs ?S) (scope_counterpart ?scope) (cx_db ?cx) = Inr (Some r)" using db1(2) db'(2) gi by simp
  have "gateway_push ?S ?scope ((ex_entry, honest) # [], Inr ()) ?cx = (Inl Conflict, ?cx) \<and>
      (\<exists>c cx'. gateway_push ?S ?scope ((ex_entry, block) # [], Inr ()) ?cx = (Inr (Accepted c), cx') \<and>
        get_version (ss_codecs ?S) (scope_counterpart ?scope) (cx_db cx') = Inr (Some (fst (last ?rs))) \<and>
        (\<exists>vs. lineage (ss_codecs ?S) (cx_blocks cx') vs \<and> fst (hd vs) = fst (last ?rs) \<and> r \<notin> fst ` set vs))"
    by (rule push_overwrites_counterpart [OF ex_session_ok at _ _ block honest _ _ _ _ V _ rp refl _ L _ _ _ K])
      (use s db(1) db1 db' gi nr in \<open>simp_all add: delivers_def ex_did_def\<close>)
  with V nr show ?thesis by fastforce
qed

text \<open>C39: of the changes of a name in one pushed version, the gateway takes over the first, unless it
  gives the name the value it already has, and drops the later ones, although it is the last of
  them that the pushed sphere ends up with.\<close>

theorem gateway_keeps_first_change:
  assumes "\<And>k. my_name k = Inr (names k)" "k \<notin> updated" "k \<notin> removed" "find (\<lambda>x. op_key x = k) ops = Some x"
  shows "\<exists>u r \<mu>'. synchronize_ops my_name ops (updated, removed, \<mu>) = (Inr (), (u, r, \<mu>')) \<and>
    filter (\<lambda>x. op_key x = k) (mut_changes \<mu>') =
      filter (\<lambda>x. op_key x = k) (mut_changes \<mu>) @ (case x of Add _ v \<Rightarrow> if names k = Some v then [] else [x] | Remove _ \<Rightarrow> [x])"
  using assms(2-4) by (rule synchronize_ops_first [OF assms(1)])

theorem gateway_keeps_first_change_witness:
  "\<exists>u r \<mu> i j. i \<noteq> j \<and>
     synchronize_ops (\<lambda>_. Inr None) [Add ''b'' i, Add ''b'' j] ({}, {}, vmap_mutation_new ex_owner) = (Inr (), (u, r, \<mu>)) \<and>
     filter (\<lambda>x. op_key x = ''b'') (mut_changes \<mu>) = [Add ''b'' i] \<and> run_ops [Add ''b'' i, Add ''b'' j] Map.empty ''b'' = Some j"
proof -
  let ?i = "\<lparr>id_did = ex_did ''x'', link_record = None\<rparr>" and ?j = "\<lparr>id_did = ex_did ''y'', link_record = None\<rparr>"
  have "?i \<noteq> ?j" by (simp add: ex_did_def)
  moreover have "\<exists>u r \<mu>'. synchronize_ops (\<lambda>_. Inr None) [Add ''b'' ?i, Add ''b'' ?j] ({}, {}, vmap_mutation_new ex_owner) = (Inr (), (u, r, \<mu>')) \<and>
      filter (\<lambda>x. op_key x = ''b'') (mut_changes \<mu>') =
        filter (\<lambda>x. op_key x = ''b'') (mut_changes (vmap_mutation_new ex_owner)) @
          (case Add ''b'' ?i of Add _ v \<Rightarrow> if None = Some v then [] else [Add ''b'' ?i] | Remove _ \<Rightarrow> [Add ''b'' ?i])"
    by (rule gateway_keeps_first_change [where names = "\<lambda>_. None"]) simp_all
  ultimately show ?thesis by (simp add: vmap_mutation_new_def) blast
qed

end
