(* ===== verification/Spec2Isabelle.thy ===== *)
theory Spec2Isabelle
  imports Hamt_Spec Sphere_Spec Authority_Spec Storage_Spec Bundle_Spec Context_Spec Gateway_Spec
begin

text \<open>
  Noosphere keeps a user's public notes as a \<^emph>\<open>sphere\<close>: a chain of signed, content-addressed
  versions of four maps (content, petnames, delegations, revocations), stored as blocks named by
  the hash of their bytes and exchanged with a gateway. This library models the Rust workspace
  under \<^verbatim>\<open>src/rust\<close> and proves what its parts promise each other. File names below are
  relative to that directory.

  \<^bold>\<open>The parts of the program and how they interact.\<close>
  A HAMT (\<^verbatim>\<open>noosphere-collections\<close>) keeps a map in blocks of a block store
  (\<^verbatim>\<open>noosphere-storage\<close>). A versioned map is the CID of a HAMT with the CID of the changelog
  since the version before it. A sphere is four of these behind one block, named by a memo that
  is signed by its author and points to its parent (\<^verbatim>\<open>noosphere-core/src/data\<close>,
  \<^verbatim>\<open>view\<close>). Who may sign for a sphere follows from UCAN tokens and the chains of their proofs
  (\<^verbatim>\<open>noosphere-ucan\<close>, \<^verbatim>\<open>noosphere-core/src/authority\<close>). A sphere context
  (\<^verbatim>\<open>noosphere-core/src/context\<close>) is a session of an author with a sphere in a database: it
  gathers a mutation, saves it as the next version, resolves petnames to other spheres, and
  synchronizes with the gateway (\<^verbatim>\<open>noosphere-gateway\<close>), which takes in what is pushed and
  records it in a sphere of its own.

  \<^bold>\<open>Conventions.\<close> A function that returns \<open>anyhow::Result\<close> returns \<open>err + 'a\<close>, where
  \<open>Anyhow\<close> stands for any error value, \<open>Panic\<close> for a Rust panic and \<open>OutOfFuel\<close> for a
  loop that was cut off. Code that changes a store takes and returns the store, on errors too,
  so that what a failed operation leaves behind can be stated. Machine integers are words where
  their width matters. Code that is not in the repository is a parameter: codecs and hashes
  (\<open>codec_env\<close>), key material (\<open>key_material\<close>), text formats (\<open>text_env\<close>), all of them together
  with the clock (\<open>world\<close>, \<open>session\<close>), the chunker, and what a gateway answers (\<open>client\<close>). What
  the code relies on in them are named predicates: \<open>codec_ok\<close>, \<open>hash_ok\<close>, \<open>jwt_ok\<close>,
  \<open>cid_text_ok\<close>, \<open>key_ok\<close>, \<open>did_key_ok\<close>, \<open>url_ok\<close>, \<open>chunker_ok\<close>. \<open>Example_Env\<close>,
  \<open>Example_World\<close>, \<open>Example_Sphere\<close> and \<open>Example_Context\<close> give a concrete world in which all of
  them hold, and every property with a hypothesis is applied there.

  \<^bold>\<open>Which theory models what.\<close>
  \<^item> \<open>Prelude\<close>, \<open>Decimal\<close>: results, sequencing, lists and words; Rust's decimal numbers.
  \<^item> \<open>Bitfield\<close>, \<open>Hash_Bits\<close>: \<^verbatim>\<open>noosphere-collections/src/hamt/bitfield.rs\<close> and
    \<^verbatim>\<open>hash_bits.rs\<close>.
  \<^item> \<open>Block_Store\<close>: IPLD values, CIDs and the block store
    (\<^verbatim>\<open>noosphere-storage/src/block.rs\<close>, \<^verbatim>\<open>encoding.rs\<close>).
  \<^item> \<open>Hamt_Node\<close>, \<open>Hamt\<close>: the nodes, pointers and interface of the HAMT
    (\<^verbatim>\<open>hamt/node.rs\<close>, \<^verbatim>\<open>pointer.rs\<close>, \<^verbatim>\<open>hamt_implementation.rs\<close>). \<open>Hamt_Slots\<close> reads a node as a
    sparse array, \<open>Hamt_Rep\<close> relates it to a map, \<open>Hamt_Update\<close> proves insertion and removal.
    The locale \<open>persistent_map\<close> is the interface that versioned maps rely on.
  \<^item> \<open>Sphere_Data\<close>, \<open>Memo\<close>, \<open>Versioned_Map\<close>, \<open>Timeline\<close>, \<open>Body_Chunk\<close>: the data of a sphere
    (\<^verbatim>\<open>noosphere-core/src/data\<close>, \<^verbatim>\<open>view/versioned_map.rs\<close>, \<^verbatim>\<open>view/timeline.rs\<close>).
  \<^item> \<open>Capability\<close>, \<open>Ucan\<close>, \<open>Proof_Chain\<close>, \<open>Authorization\<close>: tokens and authority
    (\<^verbatim>\<open>noosphere-ucan/src\<close>, \<^verbatim>\<open>noosphere-core/src/authority\<close>). The locale \<open>scope_order\<close> is the
    contract of a semantics of capabilities.
  \<^item> \<open>Sphere\<close>, \<open>Sphere_Authority\<close>: \<^verbatim>\<open>noosphere-core/src/view/sphere.rs\<close>, \<^verbatim>\<open>view/mutation.rs\<close>.
    \<open>Sphere_Rep\<close> relates stored versions to abstract spheres and \<open>Sphere_History\<close> series of
    versions to sequences of them.
  \<^item> \<open>Sphere_Db\<close>, \<open>Block_Stream\<close>: the key-value and database layer of
    \<^verbatim>\<open>noosphere-storage/src\<close>, and streams of blocks (\<^verbatim>\<open>noosphere-core/src/stream\<close>). The locale
    \<open>primitive_store\<close> is the interface of a primitive store.
  \<^item> \<open>Bundle\<close>, \<open>Bundle_Rep\<close>: bundles of versions (\<^verbatim>\<open>noosphere-core/src/data/bundle.rs\<close>). The locale
    \<open>try_bundle\<close> is the contract of the trait \<open>TryBundle\<close>, interpreted for each type of entry.
  \<^item> \<open>Sphere_Context\<close>, \<open>Context_Content\<close>, \<open>Context_Petname\<close>, \<open>Context_Authority\<close>, \<open>Sphere_Walk\<close>,
    \<open>Sphere_Sync\<close>: \<^verbatim>\<open>noosphere-core/src/context\<close>. \<open>Context_Rep\<close>, \<open>Walk_Rep\<close>, \<open>Sync_Rep\<close> and
    \<open>Sync_Push\<close> hold what they do to the abstract spheres.
  \<^item> \<open>Gateway\<close>, \<open>Gateway_Rep\<close>: authorization, push and fetch of \<^verbatim>\<open>noosphere-gateway/src\<close>.

  \<^bold>\<open>What the theorems show.\<close>
  \<^item> \<open>Hamt_Spec\<close>: the operations refine lookup, update and removal of a map, end, keep a canonical
    form, and the root CID depends only on the map.
  \<^item> \<open>Sphere_Spec\<close>: applying a mutation refines a step of the abstract sphere, deriving inverts
    applying, hydration rebuilds a version from its changelogs, compaction and rebase have the
    effect of the operations they replay; the CID of a body identifies the sphere, and a changelog
    of the content by another author is rejected.
  \<^item> \<open>Authority_Spec\<close>: the originators of a capability are issuers of tokens in its chain, and have it if no
    token lists a capability before a weaker one, but not otherwise; every token of a chain is in
    force, an owner is accepted and, after a transfer, the old one is not.
  \<^item> \<open>Storage_Spec\<close>: which operations file the links of the blocks they store and which do not, the
    stream from a root reaches every linked block, bodies survive chunking, retries stop, and
    within a bounded time.
  \<^item> \<open>Bundle_Spec\<close>: versions that are bundled in one store and loaded into another that has the
    version before them can be hydrated there.
  \<^item> \<open>Context_Spec\<close>: what is written and saved is read back, an author without authority cannot change
    what a sphere maps but can save the same sphere again as a new version, a fetch replays local versions after the fetched ones, and what traversal and conflicts leave on record.
  \<^item> \<open>Gateway_Spec\<close>: a push from a client that is up to date is taken in and recorded, and one that
    names another sphere can replace the client's version without a conflict being noticed.

  \<^bold>\<open>Bounds.\<close> A HAMT descent takes as many levels as a 256-bit hash has groups of bits, and the
  operations are shown never to run out of it. Walks along parents take the length of the lineage
  and one more; loops over the blocks below a root take the number of stored blocks and one more;
  proof chains take a fuel above the depth of the chain; a bundle takes one above the number of
  versions, of chunks and of proofs, and the depth of spheres within spheres. In a session the bound is \<open>ss_fuel\<close>.
  The theorems ask for fuel in these terms and conclude that a result is returned.

  \<^bold>\<open>Not modelled.\<close>
  \<^item> Bindings to third-party databases (IndexedDB, RocksDB, Sled), to IPFS nodes over HTTP
    (\<^verbatim>\<open>noosphere-ipfs/src/client\<close>), to the DHT of \<^verbatim>\<open>noosphere-ns\<close>, and the HTTP transport of the
    client and gateway: what the code does there is call code outside the repository.
  \<^item> The foreign function interface, the command line, rendering to files, and tracing: input and
    output, with no state of their own that the parts above rely on.
  \<^item> The CAR encoding of streams is a third-party format, and the memo streams of
    \<^verbatim>\<open>stream/memo.rs\<close> run many tasks at once; the model takes and gives the blocks.
  \<^item> The job queue of the gateway and its older routes.
  \<^item> Inside a context the blocks of a sphere are written without filing their links in the index
    of \<open>Sphere_Db\<close>, where filing is proved for the database by itself.
  \<^item> An operation reads the clock once, a rebase of many versions included, and a context
    identifies the client of its gateway anew at each use instead of keeping it.
  \<^item> Names of headers are compared with ASCII letters lowered, where Rust lowers all of Unicode; CIDs
    are ordered by codec and hash, and the Lamport order of a memo wraps, as in a release build.
  \<^item> The gateway's update of its sphere leaves out the stream of blocks for the answer.
\<close>

end
